(* ===== verification/Prelude.thy ===== *)
theory Prelude
  imports Main "HOL-Library.Word" "HOL-Library.Monad_Syntax"
begin

text \<open>
  The vocabulary shared by every component of the development.

  \<^item> Machine integers.  Unsigned integers are words (\<open>u8\<close>, \<open>u32\<close>, \<open>u64\<close>); \<open>i64\<close> is a type of its own
    over the same 64 bits, ordered by its two's complement value \<open>val\<close>.  Rust's widened \<open>u128\<close> and
    \<open>i128\<close> intermediates are \<open>int\<close>, with the range check written out wherever the code checks it.
  \<^item> Panics.  The workspace compiles with overflow checks in every profile, so a plain \<open>+\<close>, \<open>-\<close> or
    unary minus that overflows, and an index out of range, abort the call.  A function of the code that
    may abort is a function into \<open>option\<close>, and \<open>None\<close> is the abort; \<open>checked_\<close> operations of the code
    return the same option as a value.
  \<^item> Rust's \<open>Result\<close> is the datatype \<open>result\<close>.
  \<^item> Hash and tree maps are the ordered maps of the theory \<open>Ordered_Map\<close>.
\<close>

named_theorems num "values and range conditions of machine integers"
named_theorems opt "case analysis of the panic monad"

section \<open>Results and the panic monad\<close>

datatype ('e, 'a) result = Ok 'a | Err 'e

definition ok_or :: "'e \<Rightarrow> 'a option \<Rightarrow> ('e, 'a) result" where
  "ok_or e x = (case x of Some v \<Rightarrow> Ok v | None \<Rightarrow> Err e)"

definition and_then :: "('e, 'a) result \<Rightarrow> ('a \<Rightarrow> ('e, 'b) result) \<Rightarrow> ('e, 'b) result" where
  "and_then r f = (case r of Ok v \<Rightarrow> f v | Err e \<Rightarrow> Err e)"

definition result_ok :: "('e, 'a) result \<Rightarrow> 'a option" where
  "result_ok r = (case r of Ok v \<Rightarrow> Some v | Err _ \<Rightarrow> None)"

lemma ok_or_simps [simp]:
  "ok_or e (Some v) = Ok v" "ok_or e None = Err e"
  by (simp_all add: ok_or_def)

lemma and_then_simps [simp]:
  "and_then (Ok v) f = f v" "and_then (Err e) f = Err e"
  by (simp_all add: and_then_def)

lemma result_ok_simps [simp]:
  "result_ok (Ok v) = Some v" "result_ok (Err e) = None"
  by (simp_all add: result_ok_def)

lemma ok_or_eq_Ok [opt]: "ok_or e x = Ok v \<longleftrightarrow> x = Some v"
  by (cases x) simp_all

lemma ok_or_eq_Err [opt]: "ok_or e x = Err e' \<longleftrightarrow> x = None \<and> e' = e"
  by (cases x) auto

lemma and_then_eq_Ok [opt]: "and_then r f = Ok v \<longleftrightarrow> (\<exists>u. r = Ok u \<and> f u = Ok v)"
  by (cases r) simp_all

lemma result_ok_eq_Some [opt]: "result_ok r = Some v \<longleftrightarrow> r = Ok v"
  by (cases r) simp_all

declare Option.bind_eq_Some_conv [opt]

text \<open>\<open>assert_opt b\<close> continues when \<open>b\<close> holds: an assertion of the code.\<close>

definition assert_opt :: "bool \<Rightarrow> unit option" where
  "assert_opt b = (if b then Some () else None)"

lemma assert_opt_eq [simp]: "assert_opt b = Some u \<longleftrightarrow> b"
  by (simp add: assert_opt_def)

text \<open>A loop over a list that threads a state and may abort.\<close>

primrec fold_opt :: "('a \<Rightarrow> 's \<Rightarrow> 's option) \<Rightarrow> 'a list \<Rightarrow> 's \<Rightarrow> 's option" where
  "fold_opt f [] s = Some s"
| "fold_opt f (x # xs) s = Option.bind (f x s) (fold_opt f xs)"

lemma fold_opt_append:
  "fold_opt f (xs @ ys) s = Option.bind (fold_opt f xs s) (fold_opt f ys)"
  by (induction xs arbitrary: s) (simp_all split: bind_split)

lemma fold_opt_invariant:
  assumes "fold_opt f xs s = Some t" "I s"
    and "\<And>x u v. x \<in> set xs \<Longrightarrow> I u \<Longrightarrow> f x u = Some v \<Longrightarrow> I v"
  shows "I t"
  using assms
proof (induction xs arbitrary: s)
  case (Cons x xs)
  then obtain u where u: "f x s = Some u" "fold_opt f xs u = Some t"
    by (auto simp: opt)
  with Cons.prems have "I u" by auto
  with Cons.IH [OF u(2)] Cons.prems(3) show ?case by auto
qed simp

primrec map_opt :: "('a \<Rightarrow> 'b option) \<Rightarrow> 'a list \<Rightarrow> 'b list option" where
  "map_opt f [] = Some []"
| "map_opt f (x # xs) = do { y \<leftarrow> f x; ys \<leftarrow> map_opt f xs; Some (y # ys) }"

lemma map_opt_eq_Some: "map_opt f xs = Some ys \<longleftrightarrow> list_all2 (\<lambda>x y. f x = Some y) xs ys"
  by (induction xs arbitrary: ys) (auto simp: opt list_all2_Cons1)

section \<open>Slices and indices\<close>

definition idx :: "'a list \<Rightarrow> nat \<Rightarrow> 'a option" where
  "idx xs i = (if i < length xs then Some (xs ! i) else None)"

definition slice_to :: "'a list \<Rightarrow> nat \<Rightarrow> 'a list option" where
  "slice_to xs n = (if n \<le> length xs then Some (take n xs) else None)"

lemma idx_simps [simp]:
  "idx [] i = None" "idx (x # xs) 0 = Some x" "idx (x # xs) (Suc i) = idx xs i"
  by (simp_all add: idx_def)

lemma idx_eq_Some [opt]: "idx xs i = Some x \<longleftrightarrow> i < length xs \<and> xs ! i = x"
  by (auto simp: idx_def)

lemma slice_to_eq_Some [opt]: "slice_to xs n = Some ys \<longleftrightarrow> n \<le> length xs \<and> ys = take n xs"
  by (auto simp: slice_to_def)

section \<open>Machine integers\<close>

type_synonym u8 = "8 word"
type_synonym u32 = "32 word"
type_synonym u64 = "64 word"
type_synonym i8 = "8 word" \<comment> \<open>read by \<open>sint\<close>\<close>
type_synonym byte = "8 word"

text \<open>\<open>u64::MAX\<close> and \<open>u32::MAX\<close>.\<close>

definition u64_max :: u64 where "u64_max = 18446744073709551615"
definition u32_max :: u32 where "u32_max = 4294967295"

datatype i64 = I64 (bits64: "64 word")

definition val :: "i64 \<Rightarrow> int" where "val x = sint (bits64 x)"

definition of_val :: "int \<Rightarrow> i64" where "of_val n = I64 (word_of_int n)"

definition fits_i64 :: "int \<Rightarrow> bool" where
  "fits_i64 n \<longleftrightarrow> - 9223372036854775808 \<le> n \<and> n \<le> 9223372036854775807"

definition fits_u64 :: "int \<Rightarrow> bool" where
  "fits_u64 n \<longleftrightarrow> 0 \<le> n \<and> n \<le> 18446744073709551615"

definition fits_i128 :: "int \<Rightarrow> bool" where
  "fits_i128 n \<longleftrightarrow> - 170141183460469231731687303715884105728 \<le> n \<and>
     n \<le> 170141183460469231731687303715884105727"

lemma val_of_val [simp]: "fits_i64 n \<Longrightarrow> val (of_val n) = n"
  by (simp add: val_def of_val_def fits_i64_def signed_take_bit_int_eq_self sint_sbintrunc')

lemma of_val_val [simp]: "of_val (val x) = x"
  by (simp add: val_def of_val_def)

lemma fits_val [simp, num]: "fits_i64 (val x)"
  using sint_range_size [of "bits64 x"] by (simp add: val_def fits_i64_def word_size)

lemma val_bounds: "- 9223372036854775808 \<le> val x" "val x \<le> 9223372036854775807"
  using fits_val [of x] by (simp_all add: fits_i64_def)

lemma fits_uint [simp, num]: "fits_u64 (uint (w :: u64))"
  using uint_lt2p [of w] by (simp add: fits_u64_def)

lemma uint_bounds: "0 \<le> uint (w :: u64)" "uint w \<le> 18446744073709551615"
  using fits_uint [of w] by (simp_all add: fits_u64_def)

lemma uint_word_of_int_u64 [simp]: "fits_u64 n \<Longrightarrow> uint (word_of_int n :: u64) = n"
  by (simp add: fits_u64_def uint_word_of_int)

lemma uint_eq_iff_u64: "(a :: u64) = b \<longleftrightarrow> uint a = uint b"
  by (rule word_uint_eq_iff)

lemma val_eq_iff [num]: "a = b \<longleftrightarrow> val a = val b"
  by (metis of_val_val)

instantiation i64 :: linorder
begin

definition less_eq_i64 :: "i64 \<Rightarrow> i64 \<Rightarrow> bool" where "less_eq_i64 a b \<longleftrightarrow> val a \<le> val b"

definition less_i64 :: "i64 \<Rightarrow> i64 \<Rightarrow> bool" where "less_i64 a b \<longleftrightarrow> val a < val b"

instance
  by standard (auto simp: less_eq_i64_def less_i64_def val_eq_iff)

end

instantiation i64 :: zero
begin

definition zero_i64 :: i64 where "zero_i64 = of_val 0"

instance ..

end

lemma val_0 [simp, num]: "val 0 = 0"
  by (simp add: zero_i64_def fits_i64_def)

declare less_eq_i64_def [num] less_i64_def [num]

lemma val_I64 [num]: "val (I64 w) = (if uint w \<le> 9223372036854775807 then uint w else uint w - 18446744073709551616)"
proof -
  have "I64 w = of_val (uint w)" "I64 w = of_val (uint w - 2 ^ 64)"
    by (simp_all add: of_val_def word_of_int_eq_iff)
  moreover have "val (of_val (uint w)) = uint w" if "uint w \<le> 9223372036854775807"
    by (rule val_of_val) (unfold fits_i64_def, use that uint_bounds [of w] in linarith)
  moreover have "val (of_val (uint w - 2 ^ 64)) = uint w - 2 ^ 64" if "\<not> uint w \<le> 9223372036854775807"
  proof (rule val_of_val)
    have "(2 :: int) ^ 64 = 18446744073709551616" by simp
    with that uint_bounds(2) [of w] show "fits_i64 (uint w - 2 ^ 64)"
      unfolding fits_i64_def by linarith
  qed
  ultimately show ?thesis by auto
qed

subsection \<open>Conversions and checked operations\<close>

definition i64_of :: "int \<Rightarrow> i64 option" where
  "i64_of n = (if fits_i64 n then Some (of_val n) else None)"

definition u64_of :: "int \<Rightarrow> u64 option" where
  "u64_of n = (if fits_u64 n then Some (word_of_int n) else None)"

definition i128_of :: "int \<Rightarrow> int option" where
  "i128_of n = (if fits_i128 n then Some n else None)"

text \<open>The \<open>checked_\<close> operations; the plain operators abort exactly where these return \<open>None\<close>.\<close>

definition add_i64 :: "i64 \<Rightarrow> i64 \<Rightarrow> i64 option" where "add_i64 a b = i64_of (val a + val b)"
definition sub_i64 :: "i64 \<Rightarrow> i64 \<Rightarrow> i64 option" where "sub_i64 a b = i64_of (val a - val b)"
definition mul_i64 :: "i64 \<Rightarrow> i64 \<Rightarrow> i64 option" where "mul_i64 a b = i64_of (val a * val b)"
definition neg_i64 :: "i64 \<Rightarrow> i64 option" where "neg_i64 a = i64_of (- val a)"
definition add_u64 :: "u64 \<Rightarrow> u64 \<Rightarrow> u64 option" where "add_u64 a b = u64_of (uint a + uint b)"
definition sub_u64 :: "u64 \<Rightarrow> u64 \<Rightarrow> u64 option" where "sub_u64 a b = u64_of (uint a - uint b)"
definition mul_u64 :: "u64 \<Rightarrow> u64 \<Rightarrow> u64 option" where "mul_u64 a b = u64_of (uint a * uint b)"

text \<open>Rust's integer division truncates towards zero; \<open>i64::MIN / -1\<close> overflows.\<close>

definition tdiv :: "int \<Rightarrow> int \<Rightarrow> int" where
  "tdiv a b = sgn a * sgn b * (\<bar>a\<bar> div \<bar>b\<bar>)"

definition div_i64 :: "i64 \<Rightarrow> i64 \<Rightarrow> i64 option" where
  "div_i64 a b = (if b = 0 then None else i64_of (tdiv (val a) (val b)))"

definition saturating_add_u64 :: "u64 \<Rightarrow> u64 \<Rightarrow> u64" where
  "saturating_add_u64 a b = (case add_u64 a b of Some c \<Rightarrow> c | None \<Rightarrow> u64_max)"

definition saturating_sub_u64 :: "u64 \<Rightarrow> u64 \<Rightarrow> u64" where
  "saturating_sub_u64 a b = (case sub_u64 a b of Some c \<Rightarrow> c | None \<Rightarrow> 0)"

definition saturating_mul_u64 :: "u64 \<Rightarrow> u64 \<Rightarrow> u64" where
  "saturating_mul_u64 a b = (case mul_u64 a b of Some c \<Rightarrow> c | None \<Rightarrow> u64_max)"

definition unsigned_abs :: "i64 \<Rightarrow> u64" where "unsigned_abs a = word_of_int \<bar>val a\<bar>"

text \<open>\<open>u128::div_ceil\<close>.\<close>

definition div_ceil :: "int \<Rightarrow> int \<Rightarrow> int" where
  "div_ceil a b = (if a mod b = 0 then a div b else a div b + 1)"

lemma i64_of_eq_Some [num]: "i64_of n = Some x \<longleftrightarrow> val x = n"
  by (auto simp: i64_of_def val_eq_iff)

lemma i64_of_eq_None [num]: "i64_of n = None \<longleftrightarrow> \<not> fits_i64 n"
  by (simp add: i64_of_def)

lemma u64_of_eq_Some [num]: "u64_of n = Some w \<longleftrightarrow> uint w = n"
  by (auto simp: u64_of_def uint_eq_iff_u64)

lemma u64_of_eq_None [num]: "u64_of n = None \<longleftrightarrow> \<not> fits_u64 n"
  by (simp add: u64_of_def)

lemma i128_of_eq_Some [num]: "i128_of n = Some m \<longleftrightarrow> m = n \<and> fits_i128 n"
  by (auto simp: i128_of_def)

lemmas checked_ops [num] =
  add_i64_def sub_i64_def mul_i64_def neg_i64_def add_u64_def sub_u64_def mul_u64_def

lemma uint_unsigned_abs [simp, num]: "uint (unsigned_abs a) = \<bar>val a\<bar>"
  using val_bounds [of a] by (simp add: unsigned_abs_def fits_u64_def)

lemma uint_saturating_sub [num]: "uint (saturating_sub_u64 a b) = max 0 (uint a - uint b)"
proof (cases "sub_u64 a b")
  case None
  then have "uint a < uint b"
    using uint_bounds [of a] uint_bounds [of b] unfolding sub_u64_def u64_of_eq_None fits_u64_def by linarith
  with None show ?thesis by (simp add: saturating_sub_u64_def)
next
  case (Some c)
  then have "uint c = uint a - uint b" by (simp add: num)
  with Some uint_bounds(1) [of c] show ?thesis unfolding saturating_sub_u64_def by simp
qed

lemma uint_saturating_add [num]: "uint (saturating_add_u64 a b) = min 18446744073709551615 (uint a + uint b)"
proof (cases "add_u64 a b")
  case None
  then have "18446744073709551615 < uint a + uint b"
    using uint_bounds [of a] uint_bounds [of b] unfolding add_u64_def u64_of_eq_None fits_u64_def by linarith
  with None show ?thesis by (simp add: saturating_add_u64_def u64_max_def)
next
  case (Some c)
  then have "uint c = uint a + uint b" by (simp add: num)
  with Some uint_bounds(2) [of c] show ?thesis unfolding saturating_add_u64_def by simp
qed

lemma tdiv_1 [simp]: "tdiv a 1 = a"
  by (simp add: tdiv_def abs_sgn mult.commute [of "sgn a"] sgn_mult_abs)

lemma div_ceil_bounds:
  assumes "0 < b"
  shows "a \<le> b * div_ceil a b" "b * div_ceil a b < a + b"
proof -
  have q: "b * (a div b) = a - a mod b" by (simp add: minus_mod_eq_mult_div)
  have r: "0 \<le> a mod b" "a mod b < b" using assms by simp_all
  have c: "b * div_ceil a b = a - a mod b + (if a mod b = 0 then 0 else b)"
    by (simp only: div_ceil_def q distrib_left mult_1_right split: if_split) simp
  show "a \<le> b * div_ceil a b" unfolding c using r by auto
  show "b * div_ceil a b < a + b" unfolding c using r by auto
qed

lemma div_ceil_least:
  assumes "0 < b" shows "div_ceil a b \<le> k \<longleftrightarrow> a \<le> b * k"
proof
  assume "div_ceil a b \<le> k"
  then have "b * div_ceil a b \<le> b * k" using assms by simp
  with div_ceil_bounds(1) [OF assms, of a] show "a \<le> b * k" by linarith
next
  assume "a \<le> b * k"
  with div_ceil_bounds(2) [OF assms, of a] have "b * div_ceil a b < b * (k + 1)"
    by (simp add: algebra_simps)
  then show "div_ceil a b \<le> k" using assms by (simp add: mult_less_cancel_left)
qed

lemma div_ceil_eq_floor:
  assumes "0 < b" shows "div_ceil a b = (a + (b - 1)) div b"
proof (rule int_div_pos_eq [symmetric])
  show "a + (b - 1) = b * div_ceil a b + (a + (b - 1) - b * div_ceil a b)" by simp
qed (use div_ceil_bounds [OF assms, of a] in linarith)+

lemma div_ceil_nonneg: "0 < b \<Longrightarrow> 0 \<le> a \<Longrightarrow> 0 \<le> div_ceil a b"
  by (simp add: div_ceil_def pos_imp_zdiv_nonneg_iff)

lemma div_ceil_mono: "0 < b \<Longrightarrow> a \<le> a' \<Longrightarrow> div_ceil a b \<le> div_ceil a' b"
  using div_ceil_least [of b a "div_ceil a' b"] div_ceil_bounds(1) [of b a'] by linarith

lemma div_ceil_floor: "0 < b \<Longrightarrow> a div b \<le> div_ceil a b" "div_ceil a b \<le> a div b + 1"
  by (simp_all add: div_ceil_def)

end
