(* ===== verification/Engine_Types.thy ===== *)
theory Engine_Types
  imports Prelude
begin

text \<open>
  \<open>crates/matching-engine/src/types.rs\<close>: the fixed-point units and the only routines that scale a
  price by a quantity.  Money is nanodollars, quantities are thousandths of a share, and
  \<open>price * qty / SHARE_SCALE\<close> is taken with floor for settlement and with ceiling for reservations.
  The lemmas give every routine its exact integer meaning: the checked variants return precisely when
  the mathematical result is representable, and the truncating variants agree with them there.
\<close>

type_synonym Nanos = u64
type_synonym Qty = u64
type_synonym MarketId = u32
type_synonym AccountId = u64

definition NANOS_PER_DOLLAR :: u64 where "NANOS_PER_DOLLAR = 1000000000"
definition SHARE_SCALE :: u64 where "SHARE_SCALE = 1000"
definition MAX_ORDER_QTY :: u64 where "MAX_ORDER_QTY = 1000000 * SHARE_SCALE"

definition market_none :: MarketId where "market_none = u32_max"

datatype Side = Bid | Ask

fun opposite :: "Side \<Rightarrow> Side" where
  "opposite Bid = Ask"
| "opposite Ask = Bid"

datatype OrderDirection = BuyYes | SellYes | BuyNo | SellNo

fun direction_to_byte :: "OrderDirection \<Rightarrow> u8" where
  "direction_to_byte BuyYes = 0"
| "direction_to_byte SellYes = 1"
| "direction_to_byte BuyNo = 2"
| "direction_to_byte SellNo = 3"

definition shares_to_qty :: "u64 \<Rightarrow> Qty" where
  "shares_to_qty shares = saturating_mul_u64 shares SHARE_SCALE"

definition notional_nanos :: "Nanos \<Rightarrow> Qty \<Rightarrow> Nanos" where
  "notional_nanos price qty = word_of_int ((uint price * uint qty) div uint SHARE_SCALE)"

definition checked_notional_nanos :: "Nanos \<Rightarrow> Qty \<Rightarrow> Nanos option" where
  "checked_notional_nanos price qty = do {
     numerator \<leftarrow> i128_of (uint price * uint qty);
     u64_of (tdiv numerator (uint SHARE_SCALE)) }"

definition checked_notional_i64 :: "Nanos \<Rightarrow> Qty \<Rightarrow> i64 option" where
  "checked_notional_i64 price qty = do {
     nanos \<leftarrow> checked_notional_nanos price qty;
     i64_of (uint nanos) }"

definition notional_nanos_ceil :: "Nanos \<Rightarrow> Qty \<Rightarrow> Nanos" where
  "notional_nanos_ceil price qty =
     (let numerator = uint price * uint qty
      in word_of_int (div_ceil numerator (uint SHARE_SCALE)))"

definition checked_notional_nanos_ceil :: "Nanos \<Rightarrow> Qty \<Rightarrow> Nanos option" where
  "checked_notional_nanos_ceil price qty = do {
     numerator \<leftarrow> i128_of (uint price * uint qty);
     bumped \<leftarrow> i128_of (numerator + (uint SHARE_SCALE - 1));
     u64_of (tdiv bumped (uint SHARE_SCALE)) }"

definition checked_notional_ceil_i64 :: "Nanos \<Rightarrow> Qty \<Rightarrow> i64 option" where
  "checked_notional_ceil_i64 price qty = do {
     nanos \<leftarrow> checked_notional_nanos_ceil price qty;
     i64_of (uint nanos) }"

text \<open>\<open>None\<close> is the failed assertion \<open>denom != 0\<close>; the final cast truncates.\<close>

definition ceil_mul_ratio :: "u64 \<Rightarrow> u64 \<Rightarrow> u64 \<Rightarrow> u64 option" where
  "ceil_mul_ratio value numer denom = do {
     assert_opt (denom \<noteq> 0);
     let numerator = uint value * uint numer;
     Some (word_of_int (div_ceil numerator (uint denom))) }"

text \<open>The unchecked signed variants reinterpret the magnitude as \<open>i64\<close> and abort on \<open>-i64::MIN\<close>.\<close>

definition signed_notional_nanos :: "Nanos \<Rightarrow> i64 \<Rightarrow> i64 option" where
  "signed_notional_nanos price qty =
     (let abs = I64 (notional_nanos price (unsigned_abs qty))
      in if qty < 0 then neg_i64 abs else Some abs)"

definition checked_signed_notional_nanos :: "Nanos \<Rightarrow> i64 \<Rightarrow> i64 option" where
  "checked_signed_notional_nanos price qty = do {
     abs \<leftarrow> checked_notional_i64 price (unsigned_abs qty);
     if qty < 0 then neg_i64 abs else Some abs }"

definition signed_price_delta_notional :: "i64 \<Rightarrow> Qty \<Rightarrow> i64 option" where
  "signed_price_delta_notional price_delta qty =
     (let abs = of_val ((uint (unsigned_abs price_delta) * uint qty) div uint SHARE_SCALE)
      in if price_delta < 0 then neg_i64 abs else Some abs)"

definition checked_signed_price_delta_notional :: "i64 \<Rightarrow> Qty \<Rightarrow> i64 option" where
  "checked_signed_price_delta_notional price_delta qty = do {
     abs \<leftarrow> checked_notional_i64 (unsigned_abs price_delta) qty;
     if price_delta < 0 then neg_i64 abs else Some abs }"

section \<open>Exact meaning\<close>

lemma scale_simps [simp]:
  "uint SHARE_SCALE = 1000" "uint NANOS_PER_DOLLAR = 1000000000" "uint MAX_ORDER_QTY = 1000000000"
  by (simp_all add: SHARE_SCALE_def NANOS_PER_DOLLAR_def MAX_ORDER_QTY_def)

lemma notional_product_bounds: "0 \<le> uint (p :: u64) * uint (q :: u64)"
  by simp

lemma tdiv_nonneg: "0 \<le> a \<Longrightarrow> 0 < b \<Longrightarrow> tdiv a b = a div b"
  by (cases "a = 0") (simp_all add: tdiv_def)

lemma div_ceil_1000: "div_ceil n 1000 = (n + 999) div 1000"
  using div_ceil_eq_floor [of 1000 n] by simp

text \<open>The \<open>i128\<close> overflow test loses nothing: a product beyond \<open>i128\<close> has a quotient beyond \<open>u64\<close>.\<close>

lemma checked_notional_nanos_eq:
  "checked_notional_nanos p q = u64_of (uint p * uint q div 1000)"
proof (cases "fits_i128 (uint p * uint q)")
  case True
  then show ?thesis using notional_product_bounds [of p q]
    by (simp add: checked_notional_nanos_def i128_of_def tdiv_nonneg)
next
  case False
  with notional_product_bounds [of p q] have "170141183460469231731687303715884105727 < uint p * uint q"
    unfolding fits_i128_def by linarith
  then have "18446744073709551615 < uint p * uint q div 1000" by linarith
  with False show ?thesis by (simp add: checked_notional_nanos_def i128_of_def u64_of_def fits_u64_def)
qed

lemma checked_notional_nanos_ceil_eq:
  "checked_notional_nanos_ceil p q = u64_of (div_ceil (uint p * uint q) 1000)"
proof -
  let ?n = "uint p * uint q"
  have n: "0 \<le> ?n" by (rule notional_product_bounds)
  show ?thesis
  proof (cases "fits_i128 ?n \<and> fits_i128 (?n + 999)")
    case True
    then show ?thesis using n
      by (simp add: checked_notional_nanos_ceil_def i128_of_def tdiv_nonneg div_ceil_1000)
  next
    case False
    with n have "170141183460469231731687303715884105727 < ?n + 999"
      unfolding fits_i128_def by linarith
    then have "18446744073709551615 < (?n + 999) div 1000" by linarith
    with False n show ?thesis
      by (auto simp: checked_notional_nanos_ceil_def i128_of_def u64_of_def fits_u64_def div_ceil_1000)
  qed
qed

lemma notional_nonneg: "0 \<le> uint (p :: u64) * uint (q :: u64) div 1000"
  using notional_product_bounds [of p q] by linarith

lemma ceil_notional_nonneg: "0 \<le> div_ceil (uint (p :: u64) * uint (q :: u64)) 1000"
  by (rule div_ceil_nonneg) simp_all

lemma checked_notional_i64_eq:
  "checked_notional_i64 p q = i64_of (uint p * uint q div 1000)"
  using notional_nonneg [of p q]
  by (auto simp: checked_notional_i64_def checked_notional_nanos_eq u64_of_def i64_of_def
      fits_u64_def fits_i64_def split: option.splits)

lemma checked_notional_ceil_i64_eq:
  "checked_notional_ceil_i64 p q = i64_of (div_ceil (uint p * uint q) 1000)"
  using ceil_notional_nonneg [of p q]
  by (auto simp: checked_notional_ceil_i64_def checked_notional_nanos_ceil_eq u64_of_def i64_of_def
      fits_u64_def fits_i64_def split: option.splits)

lemma checked_signed_notional_nanos_eq:
  "checked_signed_notional_nanos p q =
     (if \<bar>val q\<bar> * uint p div 1000 \<le> 9223372036854775807
      then Some (of_val (sgn (val q) * (\<bar>val q\<bar> * uint p div 1000))) else None)"
proof -
  have nn: "0 \<le> \<bar>val q\<bar> * uint p div 1000"
    using notional_nonneg [of "unsigned_abs q" p] by simp
  show ?thesis
    using nn
    by (cases "val q" "0 :: int" rule: linorder_cases)
       (auto simp: checked_signed_notional_nanos_def checked_notional_i64_eq i64_of_def neg_i64_def
         less_i64_def fits_i64_def mult.commute [of "uint p"] zero_i64_def [symmetric])
qed

lemma checked_signed_notional_nonneg:
  "0 \<le> val q \<Longrightarrow> checked_signed_notional_nanos p q = i64_of (uint p * val q div 1000)"
  by (auto simp: checked_signed_notional_nanos_def checked_notional_i64_eq less_i64_def)

lemma checked_signed_price_delta_notional_eq:
  "checked_signed_price_delta_notional d q = checked_signed_notional_nanos q d"
  by (simp add: checked_signed_price_delta_notional_def checked_signed_notional_nanos_def
      checked_notional_i64_eq mult.commute)

lemma notional_nanos_checked: "checked_notional_nanos p q = Some n \<Longrightarrow> notional_nanos p q = n"
  by (auto simp: checked_notional_nanos_eq notional_nanos_def u64_of_def split: if_splits)

lemma notional_nanos_ceil_checked:
  "checked_notional_nanos_ceil p q = Some n \<Longrightarrow> notional_nanos_ceil p q = n"
  by (auto simp: checked_notional_nanos_ceil_eq notional_nanos_ceil_def u64_of_def split: if_splits)

lemma notional_bound:
  assumes "p \<le> NANOS_PER_DOLLAR" "q \<le> MAX_ORDER_QTY"
  shows "uint p * uint q \<le> 1000000000000000000"
proof -
  have "uint p \<le> 1000000000" "uint q \<le> 1000000000"
    using assms by (simp_all add: word_le_def)
  then have "uint p * uint q \<le> 1000000000 * 1000000000"
    using uint_bounds(1) [of p] uint_bounds(1) [of q] by (intro mult_mono) auto
  then show ?thesis by simp
qed

lemma ceil_mul_ratio_eq:
  "ceil_mul_ratio v n d = (if d = 0 then None else Some (word_of_int (div_ceil (uint v * uint n) (uint d))))"
  by (simp add: ceil_mul_ratio_def assert_opt_def)

lemma uint_pos: "(d :: u64) \<noteq> 0 \<Longrightarrow> 0 < uint d"
  using uint_bounds(1) [of d] by (metis order_le_less uint_0_iff)

lemma div_ceil_ratio_le:
  assumes "d \<noteq> 0" "n \<le> (d :: u64)"
  shows "div_ceil (uint v * uint n) (uint d) \<le> uint (v :: u64)"
proof -
  have "uint n \<le> uint d" using assms(2) by (simp add: word_le_def)
  then have "uint v * uint n \<le> uint d * uint v"
    by (subst mult.commute) (rule mult_right_mono, simp_all)
  then show ?thesis using div_ceil_least uint_pos [OF assms(1)] by blast
qed

lemma ceil_mul_ratio_uint:
  assumes "d \<noteq> 0" "n \<le> d"
  shows "ceil_mul_ratio v n d = Some r \<longleftrightarrow> uint r = div_ceil (uint v * uint n) (uint d)"
proof -
  have "fits_u64 (div_ceil (uint v * uint n) (uint d))"
    using div_ceil_ratio_le [OF assms, of v] uint_bounds(2) [of v]
      div_ceil_nonneg [OF uint_pos [OF assms(1)], of "uint v * uint n"]
    by (auto simp: fits_u64_def)
  then show ?thesis using assms(1) by (auto simp: ceil_mul_ratio_eq uint_eq_iff_u64)
qed

section \<open>Properties\<close>

text \<open>for a price of at most one dollar and an admissible quantity, the floor used by settlement and the
  ceiling used by reservations are both computed without overflow, are the exact floor and ceiling of
  \<open>price * qty / SHARE_SCALE\<close>, differ by at most one nano, and the truncating routines agree with them.\<close>

theorem notional_exact_in_protocol_range:
  assumes "p \<le> NANOS_PER_DOLLAR" "q \<le> MAX_ORDER_QTY"
  shows "\<exists>lo hi. checked_notional_i64 p q = Some lo \<and> checked_notional_ceil_i64 p q = Some hi \<and>
           val lo = uint p * uint q div 1000 \<and>
           (\<forall>k. val hi \<le> k \<longleftrightarrow> uint p * uint q \<le> 1000 * k) \<and>
           0 \<le> val lo \<and> val lo \<le> val hi \<and> val hi \<le> val lo + 1 \<and> val hi \<le> 1000000000000000 \<and>
           uint (notional_nanos p q) = val lo \<and> uint (notional_nanos_ceil p q) = val hi"
proof -
  let ?n = "uint p * uint q"
  have n: "0 \<le> ?n" "?n \<le> 1000000000000000000" using notional_bound [OF assms] by simp_all
  have c: "div_ceil ?n 1000 \<le> 1000000000000000" using n by (simp add: div_ceil_least)
  have f: "0 \<le> ?n div 1000" "?n div 1000 \<le> div_ceil ?n 1000" "div_ceil ?n 1000 \<le> ?n div 1000 + 1"
    using notional_nonneg [of p q] div_ceil_floor(1) [of 1000 ?n] div_ceil_floor(2) [of ?n 1000] by simp_all
  have fits: "fits_i64 (?n div 1000)" "fits_i64 (div_ceil ?n 1000)" "fits_u64 (?n div 1000)"
    "fits_u64 (div_ceil ?n 1000)"
    using c f unfolding fits_i64_def fits_u64_def by linarith+
  show ?thesis
    using c f fits
    by (simp add: checked_notional_i64_eq checked_notional_ceil_i64_eq i64_of_def notional_nanos_def
        notional_nanos_ceil_def div_ceil_least)
qed

theorem notional_exact_in_protocol_range_witness:
  "checked_notional_i64 333333333 1001 = Some (of_val 333666666) \<and>
   checked_notional_ceil_i64 333333333 1001 = Some (of_val 333666667) \<and>
   (\<exists>lo. checked_notional_i64 333333333 1001 = Some lo \<and> 0 \<le> val lo)"
proof -
  have "(333333333 :: u64) \<le> NANOS_PER_DOLLAR" "(1001 :: u64) \<le> MAX_ORDER_QTY"
    by (simp_all add: NANOS_PER_DOLLAR_def MAX_ORDER_QTY_def SHARE_SCALE_def)
  from notional_exact_in_protocol_range [OF this]
  have "\<exists>lo. checked_notional_i64 333333333 1001 = Some lo \<and> 0 \<le> val lo" by blast
  then show ?thesis
    by (simp add: checked_notional_i64_eq checked_notional_ceil_i64_eq i64_of_def fits_i64_def div_ceil_def)
qed

text \<open>scaling a reservation by \<open>numer / denom\<close> with \<open>numer \<le> denom\<close> returns the exact integer ceiling
  (the least integer \<open>k\<close> with \<open>value * numer \<le> denom * k\<close>), never more than the value itself, the value at
  \<open>numer = denom\<close> and zero at \<open>numer = 0\<close>.\<close>

theorem ceil_mul_ratio_exact:
  assumes "denom \<noteq> 0" "numer \<le> denom"
  shows "\<exists>r. ceil_mul_ratio value numer denom = Some r \<and> r \<le> value \<and>
           (\<forall>k. uint r \<le> k \<longleftrightarrow> uint value * uint numer \<le> uint denom * k) \<and>
           (numer = denom \<longrightarrow> r = value) \<and> (numer = 0 \<longrightarrow> r = 0)"
proof -
  let ?c = "div_ceil (uint value * uint numer) (uint denom)"
  have d: "0 < uint denom" using assms(1) by (rule uint_pos)
  obtain r where r: "ceil_mul_ratio value numer denom = Some r"
    using assms(1) by (auto simp: ceil_mul_ratio_eq)
  then have u: "uint r = ?c" using ceil_mul_ratio_uint [OF assms] by simp
  have "r \<le> value" using u div_ceil_ratio_le [OF assms, of "value"] by (simp add: word_le_def)
  moreover have "uint r \<le> k \<longleftrightarrow> uint value * uint numer \<le> uint denom * k" for k
    unfolding u by (rule div_ceil_least [OF d])
  moreover have "r = value" if "numer = denom"
    using u d that by (simp add: div_ceil_def word_uint_eq_iff)
  moreover have "r = 0" if "numer = 0"
    using u that by (simp add: div_ceil_def word_uint_eq_iff)
  ultimately show ?thesis using r by blast
qed

theorem ceil_mul_ratio_exact_witness:
  "ceil_mul_ratio 2997 17 999 = Some 51 \<and> (\<exists>r. ceil_mul_ratio 2997 17 999 = Some r \<and> r \<le> 2997)"
proof -
  have "\<exists>r. ceil_mul_ratio 2997 17 999 = Some r \<and> r \<le> 2997"
    using ceil_mul_ratio_exact [of 999 17 2997] by (simp; blast)
  then show ?thesis by (simp add: ceil_mul_ratio_eq div_ceil_def)
qed

end
