(* ===== verification/Engine_Order.thy ===== *)
theory Engine_Order
  imports Engine_Types
begin

text \<open>
  \<open>crates/matching-engine/src/order.rs\<close>: an order is a payoff vector over the atomic states of the
  markets it spans.  The fixed-size arrays of the source are lists of that length (\<open>order_wf\<close>); an index
  that is a constant of the code is always in range, one that depends on \<open>num_markets\<close> or \<open>num_states\<close>
  is not, and then the access aborts.
\<close>

definition MAX_MARKETS_PER_ORDER :: nat where "MAX_MARKETS_PER_ORDER = 5"
definition MAX_STATES :: nat where "MAX_STATES = 32"

datatype ConditionDir = Above | Below

record PriceCondition =
  pc_market :: MarketId
  pc_threshold :: Nanos
  pc_direction :: ConditionDir

record Order =
  o_id :: u64
  o_markets :: "MarketId list"
  o_num_markets :: u8
  o_payoffs :: "i8 list"
  o_num_states :: u8
  o_limit_price :: Nanos
  o_max_fill :: Qty
  o_condition :: "PriceCondition option"
  o_expires_at_block :: "u64 option"

record Fill =
  f_order_id :: u64
  f_fill_qty :: Qty
  f_fill_price :: Nanos
  f_account_id :: u64

definition order_wf :: "Order \<Rightarrow> bool" where
  "order_wf ord \<longleftrightarrow> length (o_markets ord) = MAX_MARKETS_PER_ORDER \<and> length (o_payoffs ord) = MAX_STATES"

definition order_new :: "u64 \<Rightarrow> Order" where
  "order_new i = \<lparr> o_id = i, o_markets = replicate MAX_MARKETS_PER_ORDER market_none, o_num_markets = 0,
     o_payoffs = replicate MAX_STATES 0, o_num_states = 0, o_limit_price = 0, o_max_fill = 0,
     o_condition = None, o_expires_at_block = None \<rparr>"

definition fill_new :: "u64 \<Rightarrow> Qty \<Rightarrow> Nanos \<Rightarrow> Fill" where
  "fill_new i q p = \<lparr> f_order_id = i, f_fill_qty = q, f_fill_price = p, f_account_id = 0 \<rparr>"

definition effective_expires_at_block :: "Order \<Rightarrow> u64 \<Rightarrow> u64 \<Rightarrow> u64" where
  "effective_expires_at_block ord created_at system_ttl_blocks =
     (let system_expiry = saturating_add_u64 created_at system_ttl_blocks
      in min (case o_expires_at_block ord of Some e \<Rightarrow> e | None \<Rightarrow> system_expiry) system_expiry)"

definition is_expired_at_block :: "Order \<Rightarrow> u64 \<Rightarrow> u64 \<Rightarrow> u64 \<Rightarrow> bool" where
  "is_expired_at_block ord current_height created_at ttl \<longleftrightarrow>
     effective_expires_at_block ord created_at ttl < current_height"

definition is_conditional :: "Order \<Rightarrow> bool" where
  "is_conditional ord \<longleftrightarrow> o_condition ord \<noteq> None"

definition active_markets :: "Order \<Rightarrow> MarketId list" where
  "active_markets ord = take (unat (o_num_markets ord)) (o_markets ord)"

definition is_seller :: "Order \<Rightarrow> bool option" where
  "is_seller ord = do {
     ps \<leftarrow> slice_to (o_payoffs ord) (unat (o_num_states ord));
     Some (list_ex (\<lambda>p. sint p < 0) ps) }"

definition welfare_contribution :: "Order \<Rightarrow> Nanos \<Rightarrow> Qty \<Rightarrow> i64 option" where
  "welfare_contribution ord fill_price fill_qty =
     (if fill_qty = 0 then Some 0
      else do {
        seller \<leftarrow> is_seller ord;
        surplus_per_unit \<leftarrow>
          (if seller then sub_i64 (I64 fill_price) (I64 (o_limit_price ord))
           else sub_i64 (I64 (o_limit_price ord)) (I64 fill_price));
        signed_price_delta_notional surplus_per_unit fill_qty })"

definition fill_welfare :: "Fill \<Rightarrow> Order \<Rightarrow> i64 option" where
  "fill_welfare fill ord = welfare_contribution ord (f_fill_price fill) (f_fill_qty fill)"

definition gross_welfare_contribution :: "Order \<Rightarrow> Qty \<Rightarrow> i64 option" where
  "gross_welfare_contribution ord fill_qty = do {
     let value = I64 (notional_nanos (o_limit_price ord) fill_qty);
     seller \<leftarrow> is_seller ord;
     if seller then neg_i64 value else Some value }"

definition is_satisfied_at_price :: "Order \<Rightarrow> Nanos \<Rightarrow> bool option" where
  "is_satisfied_at_price ord price = do {
     seller \<leftarrow> is_seller ord;
     Some (if seller then o_limit_price ord \<le> price else price \<le> o_limit_price ord) }"

text \<open>The error strings of \<open>validate_binary_one_hot\<close>, one constructor each.\<close>

datatype ShapeError =
    NotExactlyOneMarket | NotTwoBinaryStates | NoConcreteMarket | InactiveMarketNotNone
  | LimitPriceTooHigh | QuantityTooHigh | NotOneNonZeroPayoff | PayoffNotUnit | InactivePayoffNotZero

definition validate_binary_one_hot :: "Order \<Rightarrow> (ShapeError, unit) result" where
  "validate_binary_one_hot ord =
     (if o_num_markets ord \<noteq> 1 then Err NotExactlyOneMarket
      else if o_num_states ord \<noteq> 2 then Err NotTwoBinaryStates
      else if o_markets ord ! 0 = market_none then Err NoConcreteMarket
      else if list_ex (\<lambda>m. m \<noteq> market_none) (drop 1 (o_markets ord)) then Err InactiveMarketNotNone
      else if NANOS_PER_DOLLAR < o_limit_price ord then Err LimitPriceTooHigh
      else if MAX_ORDER_QTY < o_max_fill ord then Err QuantityTooHigh
      else let active = take 2 (o_payoffs ord);
               non_zero = length (filter (\<lambda>p. p \<noteq> 0) active)
           in if non_zero \<noteq> 1 then Err NotOneNonZeroPayoff
              else if \<not> list_ex (\<lambda>p. p = 1 \<or> p = - 1) active then Err PayoffNotUnit
              else if list_ex (\<lambda>p. p \<noteq> 0) (drop 2 (o_payoffs ord)) then Err InactivePayoffNotZero
              else Ok ())"

text \<open>The sum of the payoffs over the states in which the market of stride \<open>2 ^ m\<close> has outcome \<open>b\<close>.
  At most 255 terms of at most 128 each, so the \<open>i64\<close> accumulators of the code cannot overflow.\<close>

definition outcome_sum :: "i8 list \<Rightarrow> nat \<Rightarrow> nat \<Rightarrow> int" where
  "outcome_sum ps m_idx b =
     sum_list (map (\<lambda>s. if s div 2 ^ m_idx mod 2 = b then sint (ps ! s) else 0) [0..<length ps])"

definition outcome_count :: "nat \<Rightarrow> nat \<Rightarrow> nat \<Rightarrow> nat" where
  "outcome_count num_states m_idx b = length (filter (\<lambda>s. s div 2 ^ m_idx mod 2 = b) [0..<num_states])"

definition marginal_payoff :: "Order \<Rightarrow> nat \<Rightarrow> (MarketId \<times> i64) list option" where
  "marginal_payoff ord m_idx = do {
     market \<leftarrow> idx (o_markets ord) m_idx;
     if market = market_none then Some []
     else do {
       ps \<leftarrow> slice_to (o_payoffs ord) (unat (o_num_states ord));
       let marginal = outcome_sum ps m_idx 0 - outcome_sum ps m_idx 1;
       let other_states = int (unat (o_num_states ord) div 2);
       Some (if 0 < other_states \<and> tdiv marginal other_states \<noteq> 0
             then [(market, of_val (tdiv marginal other_states))] else []) } }"

definition marginal_payoffs_i64 :: "Order \<Rightarrow> (MarketId \<times> i64) list option" where
  "marginal_payoffs_i64 ord =
     map_option concat (map_opt (marginal_payoff ord) [0..<unat (o_num_markets ord)])"

fun position_from :: "nat \<Rightarrow> 'a \<Rightarrow> 'a list \<Rightarrow> nat option" where
  "position_from i x [] = None"
| "position_from i x (y # ys) = (if y = x then Some i else position_from (Suc i) x ys)"

definition derive_order_direction :: "Order \<Rightarrow> MarketId \<Rightarrow> OrderDirection option" where
  "derive_order_direction ord primary_market = do {
     let m_idx = (case position_from 0 primary_market (active_markets ord) of Some i \<Rightarrow> i | None \<Rightarrow> 0);
     ps \<leftarrow> slice_to (o_payoffs ord) (unat (o_num_states ord));
     let sum_yes = outcome_sum ps m_idx 0;
     let sum_no = outcome_sum ps m_idx 1;
     Some (if \<bar>sum_no\<bar> \<le> \<bar>sum_yes\<bar>
           then (if 0 \<le> sum_yes then BuyYes else SellYes)
           else if 0 \<le> sum_no then BuyNo else SellNo) }"

section \<open>The admitted shape\<close>

text \<open>A validated order buys or sells one outcome of one market: its payoff vector is one of four.\<close>

definition one_hot :: "OrderDirection \<Rightarrow> i8 list" where
  "one_hot d = (case d of BuyYes \<Rightarrow> [1, 0] | SellYes \<Rightarrow> [- 1, 0] | BuyNo \<Rightarrow> [0, 1] | SellNo \<Rightarrow> [0, - 1])"

definition is_sell_direction :: "OrderDirection \<Rightarrow> bool" where
  "is_sell_direction d \<longleftrightarrow> d = SellYes \<or> d = SellNo"

definition direction_outcome :: "OrderDirection \<Rightarrow> u8" where
  "direction_outcome d = (if d = BuyYes \<or> d = SellYes then 0 else 1)"

lemma order_wf_shape:
  assumes "order_wf ord"
  obtains m ms p0 p1 ps where "o_markets ord = m # ms" "o_payoffs ord = p0 # p1 # ps"
    "length ms = 4" "length ps = 30"
proof -
  have "length (o_markets ord) = Suc 4" "length (o_payoffs ord) = Suc (Suc 30)"
    using assms by (simp_all add: order_wf_def MAX_MARKETS_PER_ORDER_def MAX_STATES_def)
  then show ?thesis unfolding length_Suc_conv by (auto intro: that)
qed

lemma validate_Ok_shape:
  assumes wf: "order_wf ord" and ok: "validate_binary_one_hot ord = Ok ()"
  obtains d where "take 2 (o_payoffs ord) = one_hot d"
proof -
  obtain m ms p0 p1 ps where s: "o_markets ord = m # ms" "o_payoffs ord = p0 # p1 # ps"
    using wf by (rule order_wf_shape)
  have one: "length (filter (\<lambda>p. p \<noteq> 0) [p0, p1]) = 1" and unit: "p0 = 1 \<or> p0 = - 1 \<or> p1 = 1 \<or> p1 = - 1"
    using ok by (auto simp: validate_binary_one_hot_def s Let_def split: if_splits)
  have "[p0, p1] \<in> {one_hot BuyYes, one_hot SellYes, one_hot BuyNo, one_hot SellNo}"
    using one unit by (auto simp: one_hot_def split: if_splits)
  then obtain d where "[p0, p1] = one_hot d" by auto
  then show ?thesis by (intro that [of d]) (simp add: s)
qed

lemma validate_Ok_simps:
  assumes "validate_binary_one_hot ord = Ok ()"
  shows "o_num_markets ord = 1" "o_num_states ord = 2" "o_limit_price ord \<le> NANOS_PER_DOLLAR"
    "o_max_fill ord \<le> MAX_ORDER_QTY" "o_markets ord ! 0 \<noteq> market_none"
  using assms by (auto simp: validate_binary_one_hot_def not_less split: if_splits)

lemma validate_Ok_drop:
  assumes "validate_binary_one_hot ord = Ok ()"
  shows "p \<in> set (drop 2 (o_payoffs ord)) \<Longrightarrow> p = 0"
  using assms by (auto simp: validate_binary_one_hot_def Let_def list_ex_iff split: if_splits)

lemma one_hot_payoffs:
  assumes "order_wf ord" "take 2 (o_payoffs ord) = one_hot d"
  obtains ps where "o_payoffs ord = one_hot d @ ps" "length ps = 30"
proof
  show "o_payoffs ord = one_hot d @ drop 2 (o_payoffs ord)"
    using assms(2) append_take_drop_id [of 2 "o_payoffs ord"] by simp
  show "length (drop 2 (o_payoffs ord)) = 30"
    using assms(1) by (simp add: order_wf_def MAX_STATES_def)
qed

lemma validated_is_seller:
  assumes "order_wf ord" "o_num_states ord = 2" "take 2 (o_payoffs ord) = one_hot d"
  shows "is_seller ord = Some (is_sell_direction d)"
  using assms
  by (cases d) (simp_all add: is_seller_def slice_to_def order_wf_def MAX_STATES_def one_hot_def
      is_sell_direction_def)

lemma validated_direction:
  assumes "order_wf ord" "validate_binary_one_hot ord = Ok ()" "take 2 (o_payoffs ord) = one_hot d"
  shows "derive_order_direction ord (o_markets ord ! 0) = Some d"
proof -
  note v = validate_Ok_simps [OF assms(2)]
  have a: "active_markets ord = [o_markets ord ! 0]"
    using assms(1) by (rule order_wf_shape) (simp add: active_markets_def v)
  have "slice_to (o_payoffs ord) (unat (o_num_states ord)) = Some (one_hot d)"
    using assms v by (simp add: slice_to_def order_wf_def MAX_STATES_def)
  then show ?thesis
    by (cases d) (simp_all add: derive_order_direction_def a outcome_sum_def one_hot_def)
qed

text \<open>The order of a given direction on one market, the only shape that admission accepts.\<close>

definition one_hot_order :: "u64 \<Rightarrow> MarketId \<Rightarrow> OrderDirection \<Rightarrow> Nanos \<Rightarrow> Qty \<Rightarrow> Order" where
  "one_hot_order i m d lim qty =
     \<lparr> o_id = i, o_markets = m # replicate 4 market_none, o_num_markets = 1,
       o_payoffs = one_hot d @ replicate 30 0, o_num_states = 2, o_limit_price = lim, o_max_fill = qty,
       o_condition = None, o_expires_at_block = None \<rparr>"

lemma one_hot_order_simps [simp]:
  "o_id (one_hot_order i m d lim qty) = i" "o_markets (one_hot_order i m d lim qty) = m # replicate 4 market_none"
  "o_num_markets (one_hot_order i m d lim qty) = 1" "o_num_states (one_hot_order i m d lim qty) = 2"
  "o_limit_price (one_hot_order i m d lim qty) = lim" "o_max_fill (one_hot_order i m d lim qty) = qty"
  "o_payoffs (one_hot_order i m d lim qty) = one_hot d @ replicate 30 0"
  "o_condition (one_hot_order i m d lim qty) = None" "o_expires_at_block (one_hot_order i m d lim qty) = None"
  by (simp_all add: one_hot_order_def)

lemma length_one_hot [simp]: "length (one_hot d) = 2"
  by (cases d) (simp_all add: one_hot_def)

lemma one_hot_order_wf [simp]: "order_wf (one_hot_order i m d lim qty)"
  by (simp add: order_wf_def MAX_MARKETS_PER_ORDER_def MAX_STATES_def)

lemma one_hot_order_valid:
  "validate_binary_one_hot (one_hot_order i m d lim qty) = Ok () \<longleftrightarrow>
     m \<noteq> market_none \<and> lim \<le> NANOS_PER_DOLLAR \<and> qty \<le> MAX_ORDER_QTY"
  by (cases d) (auto simp: validate_binary_one_hot_def one_hot_def not_less list_ex_iff)

end
