(* ===== verification/Ordered_Map.thy ===== *)
theory Ordered_Map
  imports Prelude "HOL-Library.Product_Lexorder"
begin

text \<open>
  \<open>BTreeMap\<close> and \<open>HashMap\<close>: finite maps kept as strictly key-ordered association lists, so that equal
  maps are equal values, iteration has one order (the one of \<open>BTreeMap\<close>; for a \<open>HashMap\<close>, whose order
  is unspecified, it is one of the possible orders) and totals over all entries are sums over a list.
\<close>

fun al_upd :: "'k::linorder \<Rightarrow> 'v \<Rightarrow> ('k \<times> 'v) list \<Rightarrow> ('k \<times> 'v) list" where
  "al_upd k v [] = [(k, v)]"
| "al_upd k v ((a, b) # ps) =
     (if k < a then (k, v) # (a, b) # ps else if k = a then (k, v) # ps else (a, b) # al_upd k v ps)"

fun al_del :: "'k::linorder \<Rightarrow> ('k \<times> 'v) list \<Rightarrow> ('k \<times> 'v) list" where
  "al_del k [] = []"
| "al_del k ((a, b) # ps) = (if k = a then ps else (a, b) # al_del k ps)"

abbreviation sorted_keys :: "('k::linorder \<times> 'v) list \<Rightarrow> bool" where
  "sorted_keys xs \<equiv> sorted_wrt (<) (map fst xs)"

lemma set_al_upd: "fst ` set (al_upd k v xs) = insert k (fst ` set xs)"
  by (induction k v xs rule: al_upd.induct) auto

lemma sorted_al_upd: "sorted_keys xs \<Longrightarrow> sorted_keys (al_upd k v xs)"
proof (induction k v xs rule: al_upd.induct)
  case (2 k v a b ps)
  then show ?case using set_al_upd [of k v ps] by (auto simp: image_iff)
qed simp

lemma set_al_del: "set (al_del k xs) \<subseteq> set xs"
  by (induction k xs rule: al_del.induct) auto

lemma sorted_al_del: "sorted_keys xs \<Longrightarrow> sorted_keys (al_del k xs)"
proof (induction k xs rule: al_del.induct)
  case (2 k a b ps)
  then show ?case using set_al_del [of k ps] by auto
qed simp

lemma map_of_al_upd: "map_of (al_upd k v xs) = (map_of xs)(k \<mapsto> v)"
  by (induction k v xs rule: al_upd.induct) (auto simp: fun_eq_iff)

lemma map_of_sorted_notin: "sorted_keys ((a, b) # xs) \<Longrightarrow> k \<le> a \<Longrightarrow> map_of xs k = None"
  by (auto simp: map_of_eq_None_iff)

lemma map_of_al_del: "sorted_keys xs \<Longrightarrow> map_of (al_del k xs) = (map_of xs)(k := None)"
proof (induction k xs rule: al_del.induct)
  case (2 k a b ps)
  then show ?case using map_of_sorted_notin [of a b ps a] by (auto simp: fun_eq_iff)
qed simp

lemma sorted_keys_ext:
  assumes "sorted_keys xs" "sorted_keys ys" "map_of xs = map_of ys"
  shows "xs = ys"
proof (rule map_sorted_distinct_set_unique)
  have d: "sorted (map fst xs)" "distinct (map fst xs)" "sorted (map fst ys)" "distinct (map fst ys)"
    using assms(1,2) by (simp_all add: strict_sorted_iff)
  show "inj_on fst (set xs \<union> set ys)"
  proof (rule inj_onI)
    fix p q assume "p \<in> set xs \<union> set ys" "q \<in> set xs \<union> set ys" "fst p = fst q"
    then have "map_of xs (fst p) = Some (snd p)" "map_of xs (fst p) = Some (snd q)"
      using d(2,4) assms(3) by (auto simp: map_of_eq_Some_iff prod_eq_iff)
         (metis map_of_eq_Some_iff prod.collapse)+
    then show "p = q" using \<open>fst p = fst q\<close> by (simp add: prod_eq_iff)
  qed
  show "set xs = set ys" using d(2,4) assms(3) by (metis map_of_eqI set_map_of_compr)
qed (use assms in \<open>simp_all add: strict_sorted_iff\<close>)

typedef (overloaded) ('k :: linorder, 'v) omap = "{xs :: ('k \<times> 'v) list. sorted_keys xs}"
  morphisms entries OMap
  by (rule exI [of _ "[]"]) simp

setup_lifting type_definition_omap

lift_definition om_empty :: "('k::linorder, 'v) omap" is "[]" by simp
lift_definition om_ins :: "'k::linorder \<Rightarrow> 'v \<Rightarrow> ('k, 'v) omap \<Rightarrow> ('k, 'v) omap" is al_upd
  by (rule sorted_al_upd)
lift_definition om_del :: "'k::linorder \<Rightarrow> ('k, 'v) omap \<Rightarrow> ('k, 'v) omap" is al_del
  by (rule sorted_al_del)
lift_definition lookup :: "('k::linorder, 'v) omap \<Rightarrow> 'k \<Rightarrow> 'v option" is map_of .

definition om_keys :: "('k::linorder, 'v) omap \<Rightarrow> 'k list" where "om_keys m = map fst (entries m)"
definition om_values :: "('k::linorder, 'v) omap \<Rightarrow> 'v list" where "om_values m = map snd (entries m)"

text \<open>\<open>get(k).copied().unwrap_or(d)\<close>, and \<open>iter().collect()\<close>, in which a later pair replaces an earlier one.\<close>

definition get_or :: "('k::linorder, 'v) omap \<Rightarrow> 'k \<Rightarrow> 'v \<Rightarrow> 'v" where
  "get_or m k d = (case lookup m k of Some v \<Rightarrow> v | None \<Rightarrow> d)"

definition om_of_list :: "('k::linorder \<times> 'v) list \<Rightarrow> ('k, 'v) omap" where
  "om_of_list xs = fold (\<lambda>(k, v). om_ins k v) xs om_empty"

instantiation omap :: (linorder, equal) equal
begin

definition equal_omap :: "('a, 'b) omap \<Rightarrow> ('a, 'b) omap \<Rightarrow> bool" where
  "equal_omap m n \<longleftrightarrow> entries m = entries n"

instance by standard (simp add: equal_omap_def entries_inject)

end

section \<open>Laws\<close>

lemma entries_simps [simp]:
  "entries om_empty = []" "entries (om_ins k v m) = al_upd k v (entries m)"
  "entries (om_del k m) = al_del k (entries m)"
  by (transfer, simp)+

lemma sorted_entries: "sorted_keys (entries m)"
  using entries [of m] by simp

lemma distinct_keys: "distinct (map fst (entries m))" "distinct (om_keys m)"
  using sorted_entries [of m] by (simp_all add: strict_sorted_iff om_keys_def)

lemma sorted_om_keys: "sorted (om_keys m)"
  using sorted_entries [of m] by (simp add: strict_sorted_iff om_keys_def)

lemma lookup_empty [simp]: "lookup om_empty k = None"
  by transfer simp

lemma lookup_ins [simp]: "lookup (om_ins k v m) k' = (if k' = k then Some v else lookup m k')"
  by transfer (simp add: map_of_al_upd)

lemma lookup_del [simp]: "lookup (om_del k m) k' = (if k' = k then None else lookup m k')"
  by transfer (simp add: map_of_al_del)

lemma lookup_entries: "lookup m = map_of (entries m)"
  by transfer simp

lemma omap_eqI: "(\<And>k. lookup m k = lookup n k) \<Longrightarrow> m = n"
  by (transfer, rule sorted_keys_ext) auto

lemma omap_eq_iff: "m = n \<longleftrightarrow> (\<forall>k. lookup m k = lookup n k)"
  using omap_eqI by blast

lemma in_entries [simp]: "(k, v) \<in> set (entries m) \<longleftrightarrow> lookup m k = Some v"
  using distinct_keys(1) [of m] by (simp add: lookup_entries map_of_eq_Some_iff)

lemma in_om_keys: "k \<in> set (om_keys m) \<longleftrightarrow> lookup m k \<noteq> None"
  by (auto simp: om_keys_def lookup_entries map_of_eq_None_iff)

lemma in_om_values: "v \<in> set (om_values m) \<longleftrightarrow> (\<exists>k. lookup m k = Some v)"
proof -
  have "v \<in> set (om_values m) \<longleftrightarrow> (\<exists>k. (k, v) \<in> set (entries m))"
    by (auto simp: om_values_def simp del: in_entries intro: image_eqI [where x = "(_, v)"])
  then show ?thesis by simp
qed

lemma get_or_simps [simp]:
  "get_or om_empty k d = d"
  "get_or (om_ins k v m) k' d = (if k' = k then v else get_or m k' d)"
  "get_or (om_del k m) k' d = (if k' = k then d else get_or m k' d)"
  by (simp_all add: get_or_def)

lemma om_of_list_Nil [simp]: "om_of_list [] = om_empty"
  by (simp add: om_of_list_def)

lemma om_of_list_snoc [simp]: "om_of_list (xs @ [(k, v)]) = om_ins k v (om_of_list xs)"
  by (simp add: om_of_list_def)

lemma lookup_om_of_list: "lookup (om_of_list xs) = map_of (rev xs)"
  by (induction xs rule: rev_induct) (auto simp: fun_eq_iff)

lemma lookup_om_of_list_in: "lookup (om_of_list xs) k = Some v \<Longrightarrow> (k, v) \<in> set xs"
  by (auto simp: lookup_om_of_list dest: map_of_SomeD)

lemma lookup_om_of_list_distinct:
  "distinct (map fst xs) \<Longrightarrow> lookup (om_of_list xs) k = map_of xs k"
  unfolding lookup_om_of_list by (rule fun_cong, rule map_of_eqI) (auto simp: rev_map [symmetric])

lemma lookup_om_of_list_None: "lookup (om_of_list xs) k = None \<longleftrightarrow> k \<notin> fst ` set xs"
  by (simp add: lookup_om_of_list map_of_eq_None_iff)

section \<open>Totals\<close>

definition om_sum :: "('k \<Rightarrow> 'v \<Rightarrow> int) \<Rightarrow> ('k::linorder, 'v) omap \<Rightarrow> int" where
  "om_sum f m = sum_list (map (\<lambda>(k, v). f k v) (entries m))"

lemma sum_al_upd:
  "sorted_keys xs \<Longrightarrow> sum_list (map (\<lambda>(k, v). f k v) (al_upd k v xs)) =
     sum_list (map (\<lambda>(k, v). f k v) xs) - (case map_of xs k of Some w \<Rightarrow> f k w | None \<Rightarrow> (0 :: int)) + f k v"
proof (induction k v xs rule: al_upd.induct)
  case (2 k v a b ps)
  then show ?case using map_of_sorted_notin [of a b ps k]
    by (auto simp: not_less split: option.splits)
qed simp

lemma sum_al_del:
  "sorted_keys xs \<Longrightarrow> sum_list (map (\<lambda>(k, v). f k v) (al_del k xs)) =
     sum_list (map (\<lambda>(k, v). f k v) xs) - (case map_of xs k of Some w \<Rightarrow> f k w | None \<Rightarrow> (0 :: int))"
  by (induction k xs rule: al_del.induct) (auto split: option.splits)

lemma om_sum_simps [simp]: "om_sum f om_empty = 0"
  by (simp add: om_sum_def)

lemma om_sum_ins:
  "om_sum f (om_ins k v m) = om_sum f m - (case lookup m k of Some w \<Rightarrow> f k w | None \<Rightarrow> 0) + f k v"
  by (simp add: om_sum_def sum_al_upd sorted_entries lookup_entries)

lemma om_sum_del:
  "om_sum f (om_del k m) = om_sum f m - (case lookup m k of Some w \<Rightarrow> f k w | None \<Rightarrow> 0)"
  by (simp add: om_sum_def sum_al_del sorted_entries lookup_entries)

lemma om_sum_ins_default:
  "f k d = 0 \<Longrightarrow> om_sum f (om_ins k v m) = om_sum f m - f k (get_or m k d) + f k v"
  by (simp add: om_sum_ins get_or_def split: option.splits)

lemma om_sum_nonneg: "(\<And>k v. lookup m k = Some v \<Longrightarrow> 0 \<le> f k v) \<Longrightarrow> 0 \<le> om_sum f m"
  unfolding om_sum_def by (rule sum_list_nonneg) auto

lemma om_sum_ge_member:
  assumes "\<And>k v. lookup m k = Some v \<Longrightarrow> 0 \<le> f k v" "lookup m k = Some v"
  shows "f k v \<le> om_sum f m"
proof -
  have "0 \<le> om_sum f (om_del k m)" using assms(1) by (intro om_sum_nonneg) (auto split: if_splits)
  then show ?thesis using assms(2) by (simp add: om_sum_del)
qed

lemma om_sum_cong:
  "(\<And>k v. lookup m k = Some v \<Longrightarrow> f k v = g k v) \<Longrightarrow> om_sum f m = om_sum g m"
  unfolding om_sum_def by (rule arg_cong [of _ _ sum_list], rule map_cong) auto

text \<open>A total depends only on what each key contributes, a missing key contributing nothing.\<close>

definition contrib :: "('k \<Rightarrow> 'v \<Rightarrow> int) \<Rightarrow> ('k::linorder, 'v) omap \<Rightarrow> 'k \<Rightarrow> int" where
  "contrib f m k = (case lookup m k of Some v \<Rightarrow> f k v | None \<Rightarrow> 0)"

lemma om_sum_contrib:
  assumes "finite K" "set (om_keys m) \<subseteq> K"
  shows "om_sum f m = sum (contrib f m) K"
proof -
  have "map (\<lambda>(k, v). f k v) (entries m) = map (contrib f m) (om_keys m)"
    by (auto simp: om_keys_def contrib_def)
  then have "om_sum f m = sum (contrib f m) (set (om_keys m))"
    by (simp add: om_sum_def sum_list_distinct_conv_sum_set distinct_keys)
  also have "\<dots> = sum (contrib f m) K"
    using assms by (intro sum.mono_neutral_left) (auto simp: in_om_keys contrib_def)
  finally show ?thesis .
qed

lemma om_sum_eqI:
  assumes "\<And>k. contrib f m k = contrib g n k"
  shows "om_sum f m = om_sum g n"
proof -
  let ?K = "set (om_keys m) \<union> set (om_keys n)"
  have "om_sum f m = sum (contrib f m) ?K" by (rule om_sum_contrib) auto
  also have "\<dots> = sum (contrib g n) ?K" using assms by simp
  also have "\<dots> = om_sum g n" by (rule om_sum_contrib [symmetric]) auto
  finally show ?thesis .
qed

lemma om_sum_zero: "(\<And>k v. lookup m k = Some v \<Longrightarrow> f k v = 0) \<Longrightarrow> om_sum f m = 0"
  using om_sum_cong [of m f "\<lambda>_ _. 0"] by (simp add: om_sum_def case_prod_unfold sum_list_0)

lemma om_sum_except:
  "om_sum (\<lambda>i v. if i = k then 0 else f i v) m = om_sum f m - (case lookup m k of Some v \<Rightarrow> f k v | None \<Rightarrow> 0)"
proof -
  have "om_sum (\<lambda>i v. if i = k then 0 else f i v) m = om_sum f (om_del k m)"
    by (rule om_sum_eqI) (simp add: contrib_def split: option.splits)
  then show ?thesis by (simp add: om_sum_del)
qed

end
