(* ===== verification/Engine_Settlement.thy ===== *)
theory Engine_Settlement
  imports Engine_Order Ordered_Map
begin

text \<open>
  \<open>crates/matching-engine/src/settlement.rs\<close>: the pure settlement functions that the sequencer applies
  and the verifier replays.  A fill becomes one signed cash delta and a list of position deltas; position
  imbalances become adjustments of the MINT account.  The lemmas give the settlement of an admitted
  order in closed form, and show that the minting adjustments restore \<open>YES = NO\<close> in every market.
\<close>

type_synonym Prices = "(MarketId, Nanos list) omap"
type_synonym PositionDelta = "MarketId \<times> u8 \<times> i64"

record SettlementDelta =
  sd_balance_delta :: i64
  sd_position_deltas :: "PositionDelta list"

datatype SettlementArithmeticError = PriceQuantityOverflow | PositionQuantityOverflow | BalanceOverflow

definition checked_position_delta :: "i64 \<Rightarrow> i64 \<Rightarrow> i64 \<Rightarrow> (SettlementArithmeticError, i64) result" where
  "checked_position_delta payoff_units fill_qty divisor =
     ok_or PositionQuantityOverflow (Option.bind (mul_i64 payoff_units fill_qty) (\<lambda>v. div_i64 v divisor))"

text \<open>\<open>if per_unit != 0 { position_deltas.push((market, outcome, checked_position_delta(..)?)) }\<close>\<close>

definition push_delta ::
  "MarketId \<Rightarrow> u8 \<Rightarrow> i64 \<Rightarrow> i64 \<Rightarrow> i64 \<Rightarrow> PositionDelta list \<Rightarrow> (SettlementArithmeticError, PositionDelta list) result"
where
  "push_delta market outcome per_unit fill_qty divisor acc =
     (if per_unit = 0 then Ok acc
      else and_then (checked_position_delta per_unit fill_qty divisor) (\<lambda>d. Ok (acc @ [(market, outcome, d)])))"

definition generic_market_step ::
  "Order \<Rightarrow> i64 \<Rightarrow> nat \<Rightarrow> nat \<Rightarrow> PositionDelta list \<Rightarrow> (SettlementArithmeticError, PositionDelta list) result option"
where
  "generic_market_step ord fill_qty num_states m_idx acc = do {
     market \<leftarrow> idx (o_markets ord) m_idx;
     ps \<leftarrow> slice_to (o_payoffs ord) num_states;
     Some (and_then
       (push_delta market 0 (of_val (outcome_sum ps m_idx 0)) fill_qty
          (of_val (int (outcome_count num_states m_idx 0))) acc)
       (push_delta market 1 (of_val (outcome_sum ps m_idx 1)) fill_qty
          (of_val (int (outcome_count num_states m_idx 1))))) }"

fun generic_markets ::
  "Order \<Rightarrow> i64 \<Rightarrow> nat \<Rightarrow> nat list \<Rightarrow> PositionDelta list \<Rightarrow> (SettlementArithmeticError, PositionDelta list) result option"
where
  "generic_markets ord fill_qty num_states [] acc = Some (Ok acc)"
| "generic_markets ord fill_qty num_states (m_idx # rest) acc = do {
     r \<leftarrow> generic_market_step ord fill_qty num_states m_idx acc;
     case r of Ok acc' \<Rightarrow> generic_markets ord fill_qty num_states rest acc' | Err e \<Rightarrow> Some (Err e) }"

definition generic_position_deltas ::
  "Order \<Rightarrow> i64 \<Rightarrow> nat \<Rightarrow> nat \<Rightarrow> (SettlementArithmeticError, PositionDelta list) result option"
where
  "generic_position_deltas ord fill_qty num_markets num_states =
     (if num_markets = 1
      then let market = o_markets ord ! 0;
               yes_payoff = of_val (sint (o_payoffs ord ! 0));
               no_payoff = of_val (sint (o_payoffs ord ! 1))
           in Some (and_then (push_delta market 0 yes_payoff fill_qty (of_val 1) [])
                             (push_delta market 1 no_payoff fill_qty (of_val 1)))
      else generic_markets ord fill_qty num_states [0..<num_markets] [])"

definition compute_generic_settlement ::
  "Order \<Rightarrow> Fill \<Rightarrow> nat \<Rightarrow> nat \<Rightarrow> (SettlementArithmeticError, SettlementDelta option) result option"
where
  "compute_generic_settlement ord fill num_markets num_states =
     (case checked_notional_i64 (f_fill_price fill) (f_fill_qty fill) of
        None \<Rightarrow> Some (Err PriceQuantityOverflow)
      | Some cost \<Rightarrow>
        (case i64_of (uint (f_fill_qty fill)) of
           None \<Rightarrow> Some (Err PositionQuantityOverflow)
         | Some fill_qty \<Rightarrow> do {
             r \<leftarrow> generic_position_deltas ord fill_qty num_markets num_states;
             case r of
               Err e \<Rightarrow> Some (Err e)
             | Ok deltas \<Rightarrow> do {
                 debit \<leftarrow> neg_i64 cost;
                 Some (Ok (Some \<lparr> sd_balance_delta = debit, sd_position_deltas = deltas \<rparr>)) } }))"

text \<open>The fast path recognises a single signed entry: outcome, payoff and whether it sells.\<close>

definition simple_outcome :: "i8 \<Rightarrow> i8 \<Rightarrow> (u8 \<times> i8 \<times> bool) option" where
  "simple_outcome yes_payoff no_payoff =
     (if no_payoff = 0 \<and> 0 < sint yes_payoff then Some (0, yes_payoff, False)
      else if no_payoff = 0 \<and> sint yes_payoff < 0 then Some (0, yes_payoff, True)
      else if yes_payoff = 0 \<and> 0 < sint no_payoff then Some (1, no_payoff, False)
      else if yes_payoff = 0 \<and> sint no_payoff < 0 then Some (1, no_payoff, True)
      else None)"

definition simple_settlement ::
  "Order \<Rightarrow> Fill \<Rightarrow> i64 \<Rightarrow> u8 \<Rightarrow> i8 \<Rightarrow> bool \<Rightarrow> (SettlementArithmeticError, SettlementDelta option) result option"
where
  "simple_settlement ord fill fill_qty outcome payoff is_sell =
     (case checked_notional_i64 (f_fill_price fill) (f_fill_qty fill) of
        None \<Rightarrow> Some (Err PriceQuantityOverflow)
      | Some cost \<Rightarrow> do {
          delta \<leftarrow> (if is_sell then Some cost else neg_i64 cost);
          Some (and_then (checked_position_delta (of_val (sint payoff)) fill_qty (of_val 1))
            (\<lambda>d. Ok (Some \<lparr> sd_balance_delta = delta,
                            sd_position_deltas = [(o_markets ord ! 0, outcome, d)] \<rparr>))) })"

definition compute_fill_settlement_checked ::
  "Order \<Rightarrow> Fill \<Rightarrow> (SettlementArithmeticError, SettlementDelta option) result option"
where
  "compute_fill_settlement_checked ord fill =
     (if f_fill_qty fill = 0 then Some (Ok None)
      else let num_markets = unat (o_num_markets ord); num_states = unat (o_num_states ord)
      in case i64_of (uint (f_fill_qty fill)) of
           None \<Rightarrow> Some (Err PositionQuantityOverflow)
         | Some fill_qty \<Rightarrow>
             (case (if num_markets = 1 \<and> num_states = 2
                    then simple_outcome (o_payoffs ord ! 0) (o_payoffs ord ! 1) else None) of
                Some (outcome, payoff, is_sell) \<Rightarrow> simple_settlement ord fill fill_qty outcome payoff is_sell
              | None \<Rightarrow> compute_generic_settlement ord fill num_markets num_states))"

definition compute_fill_settlement :: "Order \<Rightarrow> Fill \<Rightarrow> SettlementDelta option option" where
  "compute_fill_settlement ord fill =
     map_option (\<lambda>r. Option.bind (result_ok r) id) (compute_fill_settlement_checked ord fill)"

section \<open>Minting\<close>

record MintAdjustment =
  ma_market_id :: MarketId
  ma_outcome :: u8
  ma_position_delta :: i64
  ma_balance_delta :: i64

definition price_at :: "Prices \<Rightarrow> MarketId \<Rightarrow> nat \<Rightarrow> Nanos" where
  "price_at clearing_prices m i =
     (case Option.bind (lookup clearing_prices m) (\<lambda>p. idx p i) of Some p \<Rightarrow> p | None \<Rightarrow> 0)"

text \<open>\<open>-diff\<close> is taken of a positive \<open>diff\<close> only, so it does not overflow.\<close>

definition mint_adjustment :: "Prices \<Rightarrow> MarketId \<Rightarrow> i64 \<Rightarrow> (SettlementArithmeticError, MintAdjustment) result" where
  "mint_adjustment clearing_prices market_id diff =
     (if 0 < diff
      then let yes_price = price_at clearing_prices market_id 0 in
        and_then
          (if yes_price = 0 then Ok 0
           else ok_or PriceQuantityOverflow (checked_signed_notional_nanos yes_price diff))
          (\<lambda>b. Ok \<lparr> ma_market_id = market_id, ma_outcome = 0,
                    ma_position_delta = of_val (- val diff), ma_balance_delta = b \<rparr>)
      else let no_price = price_at clearing_prices market_id 1 in
        and_then
          (if no_price = 0 then Ok 0
           else ok_or PriceQuantityOverflow (checked_notional_i64 no_price (unsigned_abs diff)))
          (\<lambda>b. Ok \<lparr> ma_market_id = market_id, ma_outcome = 1,
                    ma_position_delta = diff, ma_balance_delta = b \<rparr>))"

fun derive_minting_checked ::
  "(MarketId \<times> i64 \<times> i64) list \<Rightarrow> Prices \<Rightarrow> (SettlementArithmeticError, MintAdjustment list) result"
where
  "derive_minting_checked [] clearing_prices = Ok []"
| "derive_minting_checked ((market_id, total_yes, total_no) # rest) clearing_prices =
     (case sub_i64 total_yes total_no of
        None \<Rightarrow> Err PositionQuantityOverflow
      | Some diff \<Rightarrow>
          if diff = 0 then derive_minting_checked rest clearing_prices
          else and_then (mint_adjustment clearing_prices market_id diff) (\<lambda>adj.
                 and_then (derive_minting_checked rest clearing_prices) (\<lambda>adjs. Ok (adj # adjs))))"

definition derive_minting :: "(MarketId \<times> i64 \<times> i64) list \<Rightarrow> Prices \<Rightarrow> MintAdjustment list" where
  "derive_minting totals prices = (case derive_minting_checked totals prices of Ok xs \<Rightarrow> xs | Err _ \<Rightarrow> [])"

definition minting_cost_from_fill_balance_delta_checked :: "i64 \<Rightarrow> (SettlementArithmeticError, i64) result" where
  "minting_cost_from_fill_balance_delta_checked fill_balance_delta =
     ok_or BalanceOverflow (neg_i64 fill_balance_delta)"

definition minting_cost_from_fill_balance_delta :: "i64 \<Rightarrow> i64" where
  "minting_cost_from_fill_balance_delta d =
     (case minting_cost_from_fill_balance_delta_checked d of Ok c \<Rightarrow> c | Err _ \<Rightarrow> 0)"

definition net_welfare :: "i64 \<Rightarrow> i64 \<Rightarrow> i64 option" where
  "net_welfare gross_welfare minting_cost = sub_i64 gross_welfare minting_cost"

text \<open>Objectives over a batch.  Summation runs in the order of the fills and aborts on overflow.\<close>

definition order_map_of :: "Order list \<Rightarrow> (u64, Order) omap" where
  "order_map_of orders = om_of_list (map (\<lambda>ord. (o_id ord, ord)) orders)"

definition gross_welfare_from_fills :: "Order list \<Rightarrow> Fill list \<Rightarrow> i64 option" where
  "gross_welfare_from_fills orders fills =
     fold_opt (\<lambda>fill acc. case lookup (order_map_of orders) (f_order_id fill) of
         None \<Rightarrow> Some acc
       | Some ord \<Rightarrow> do { v \<leftarrow> gross_welfare_contribution ord (f_fill_qty fill); add_i64 acc v }) fills 0"

definition fill_balance_delta_from_fills :: "Order list \<Rightarrow> Fill list \<Rightarrow> i64 option" where
  "fill_balance_delta_from_fills orders fills =
     fold_opt (\<lambda>fill acc. case lookup (order_map_of orders) (f_order_id fill) of
         None \<Rightarrow> Some acc
       | Some ord \<Rightarrow> do {
           d \<leftarrow> compute_fill_settlement ord fill;
           case d of None \<Rightarrow> Some acc | Some delta \<Rightarrow> add_i64 acc (sd_balance_delta delta) }) fills 0"

definition minting_cost_from_fills :: "Order list \<Rightarrow> Fill list \<Rightarrow> i64 option" where
  "minting_cost_from_fills orders fills =
     map_option minting_cost_from_fill_balance_delta (fill_balance_delta_from_fills orders fills)"

definition totals_step :: "PositionDelta \<Rightarrow> (MarketId, i64 \<times> i64) omap \<Rightarrow> (MarketId, i64 \<times> i64) omap option" where
  "totals_step d totals = (case d of (market, outcome, qty_delta) \<Rightarrow>
     (case get_or totals market (0, 0) of (y, n) \<Rightarrow>
        if outcome = 0 then map_option (\<lambda>y'. om_ins market (y', n) totals) (add_i64 y qty_delta)
        else if outcome = 1 then map_option (\<lambda>n'. om_ins market (y, n') totals) (add_i64 n qty_delta)
        else Some (om_ins market (y, n) totals)))"

definition market_totals_from_fills :: "Order list \<Rightarrow> Fill list \<Rightarrow> (MarketId \<times> i64 \<times> i64) list option" where
  "market_totals_from_fills orders fills =
     map_option entries (fold_opt (\<lambda>fill totals. case lookup (order_map_of orders) (f_order_id fill) of
         None \<Rightarrow> Some totals
       | Some ord \<Rightarrow> do {
           d \<leftarrow> compute_fill_settlement ord fill;
           case d of None \<Rightarrow> Some totals
           | Some delta \<Rightarrow> fold_opt totals_step (sd_position_deltas delta) totals }) fills om_empty)"

section \<open>Settlement of an admitted order\<close>

text \<open>The closed form: floor notional against the buyer, for the seller, and the quantity on one outcome.\<close>

definition floor_notional :: "Nanos \<Rightarrow> Qty \<Rightarrow> int" where
  "floor_notional p q = uint p * uint q div 1000"

definition direction_sign :: "OrderDirection \<Rightarrow> int" where
  "direction_sign d = (if is_sell_direction d then - 1 else 1)"

lemma floor_notional_bounds:
  assumes "p \<le> NANOS_PER_DOLLAR" "q \<le> MAX_ORDER_QTY"
  shows "0 \<le> floor_notional p q" "floor_notional p q \<le> 1000000000000000"
  using notional_bound [OF assms] notional_nonneg [of p q] by (auto simp: floor_notional_def)

lemma checked_position_delta_1:
  "checked_position_delta a b (of_val 1) = ok_or PositionQuantityOverflow (i64_of (val a * val b))"
  by (auto simp: checked_position_delta_def mul_i64_def div_i64_def i64_of_def val_eq_iff fits_i64_def
      split: option.splits)

lemma settlement_one_hot:
  assumes wf: "order_wf ord" and ok: "validate_binary_one_hot ord = Ok ()"
    and d: "take 2 (o_payoffs ord) = one_hot d"
    and q: "f_fill_qty fill \<noteq> 0" "f_fill_qty fill \<le> MAX_ORDER_QTY"
    and p: "f_fill_price fill \<le> NANOS_PER_DOLLAR"
  shows "compute_fill_settlement_checked ord fill = Some (Ok (Some
     \<lparr> sd_balance_delta = of_val (- direction_sign d * floor_notional (f_fill_price fill) (f_fill_qty fill)),
       sd_position_deltas =
         [(o_markets ord ! 0, direction_outcome d, of_val (direction_sign d * uint (f_fill_qty fill)))] \<rparr>))"
proof -
  note v = validate_Ok_simps [OF ok]
  let ?q = "uint (f_fill_qty fill)" and ?c = "floor_notional (f_fill_price fill) (f_fill_qty fill)"
  have qb: "0 \<le> ?q" "?q \<le> 1000000000" using q(2) by (simp_all add: word_le_def)
  have cb: "0 \<le> ?c" "?c \<le> 1000000000000000" using floor_notional_bounds [OF p q(2)] by auto
  have fits: "fits_i64 ?q" "fits_i64 (- ?q)" "fits_i64 ?c" "fits_i64 (- ?c)"
    using qb cb unfolding fits_i64_def by linarith+
  have cost: "checked_notional_i64 (f_fill_price fill) (f_fill_qty fill) = Some (of_val ?c)"
    using fits by (simp add: checked_notional_i64_eq floor_notional_def i64_of_def)
  have p01: "o_payoffs ord ! 0 = one_hot d ! 0" "o_payoffs ord ! Suc 0 = one_hot d ! Suc 0"
    by (simp_all add: d [symmetric])
  have one: "fits_i64 1" "fits_i64 (- 1)" by (simp_all add: fits_i64_def)
  show ?thesis
    using fits one
    by (cases d) (simp_all add: compute_fill_settlement_checked_def v q(1) i64_of_def p01 one_hot_def
        simple_outcome_def simple_settlement_def cost checked_position_delta_1 direction_sign_def
        is_sell_direction_def direction_outcome_def neg_i64_def)
qed

section \<open>Minting restores balance\<close>

text \<open>What a list of adjustments adds to outcome \<open>b\<close> of market \<open>m\<close>.\<close>

definition mint_delta :: "MintAdjustment list \<Rightarrow> MarketId \<Rightarrow> u8 \<Rightarrow> int" where
  "mint_delta adjs m b = sum_list (map (\<lambda>a. val (ma_position_delta a))
     (filter (\<lambda>a. ma_market_id a = m \<and> ma_outcome a = b) adjs))"

lemma mint_delta_Nil [simp]: "mint_delta [] m b = 0"
  by (simp add: mint_delta_def)

lemma mint_delta_Cons [simp]:
  "mint_delta (a # adjs) m b =
     (if ma_market_id a = m \<and> ma_outcome a = b then val (ma_position_delta a) else 0) + mint_delta adjs m b"
  by (simp add: mint_delta_def)

lemma mint_adjustment_Ok:
  assumes "mint_adjustment prices m diff = Ok adj" "diff \<noteq> 0"
  shows "ma_market_id adj = m" "val (ma_position_delta adj) = - \<bar>val diff\<bar>"
    "ma_outcome adj = (if 0 < val diff then 0 else 1)" "0 \<le> val (ma_balance_delta adj)"
proof -
  have nz: "val diff \<noteq> 0" using assms(2) by (simp add: val_eq_iff)
  have f: "fits_i64 (- val diff)" if "0 < val diff"
    using that val_bounds [of diff] by (simp add: fits_i64_def)
  have nn: "0 \<le> uint p * \<bar>val diff\<bar> div 1000" for p :: u64
    using notional_nonneg [of p "unsigned_abs diff"] by simp
  show "ma_market_id adj = m" "val (ma_position_delta adj) = - \<bar>val diff\<bar>"
    "ma_outcome adj = (if 0 < val diff then 0 else 1)"
    using assms(1) nz f by (auto simp: mint_adjustment_def opt less_i64_def Let_def split: if_splits)
  show "0 \<le> val (ma_balance_delta adj)"
    using assms(1) nz nn [of "price_at prices m 0"] nn [of "price_at prices m 1"]
    by (auto simp: mint_adjustment_def opt less_i64_def checked_signed_notional_nonneg
        checked_notional_i64_eq i64_of_eq_Some Let_def split: if_splits)
qed

lemma derive_minting_markets:
  "derive_minting_checked totals prices = Ok adjs \<Longrightarrow> a \<in> set adjs \<Longrightarrow> ma_market_id a \<in> fst ` set totals"
  by (induction totals arbitrary: adjs)
     (auto simp: opt mint_adjustment_Ok(1) split: option.splits if_splits)

lemma derive_minting_signs:
  "derive_minting_checked totals prices = Ok adjs \<Longrightarrow> a \<in> set adjs \<Longrightarrow>
     val (ma_position_delta a) < 0 \<and> 0 \<le> val (ma_balance_delta a) \<and> (ma_outcome a = 0 \<or> ma_outcome a = 1)"
  by (induction totals arbitrary: adjs)
     (auto simp: opt mint_adjustment_Ok val_eq_iff split: option.splits if_splits)

lemma mint_delta_absent: "m \<notin> ma_market_id ` set adjs \<Longrightarrow> mint_delta adjs m b = 0"
  by (induction adjs) auto

lemma derive_minting_balances:
  assumes "derive_minting_checked totals prices = Ok adjs" "distinct (map fst totals)"
    "(m, y, n) \<in> set totals"
  shows "val y + mint_delta adjs m 0 = val n + mint_delta adjs m 1"
  using assms
proof (induction totals prices arbitrary: adjs rule: derive_minting_checked.induct)
  case (2 market_id total_yes total_no rest prices)
  obtain diff where diff: "sub_i64 total_yes total_no = Some diff"
    using "2.prems"(1) by (auto split: option.splits)
  then have dv: "val diff = val total_yes - val total_no" by (simp add: num)
  have absent: "mint_delta adjs' market_id b = 0" if "derive_minting_checked rest prices = Ok adjs'" for adjs' b
    using "2.prems"(2) derive_minting_markets [OF that] by (intro mint_delta_absent) force
  show ?case
  proof (cases "diff = 0")
    case True
    then have r: "derive_minting_checked rest prices = Ok adjs" using "2.prems"(1) diff by simp
    from True have "val diff = 0" by simp
    with "2.prems" "2.IH"(1) [OF diff True r] absent [OF r] dv show ?thesis by auto
  next
    case False
    with "2.prems"(1) diff obtain adj adjs' where a: "mint_adjustment prices market_id diff = Ok adj"
      and r: "derive_minting_checked rest prices = Ok adjs'" and adjs: "adjs = adj # adjs'"
      by (auto simp: opt)
    note adj = mint_adjustment_Ok [OF a False]
    from False have "val diff \<noteq> 0" by (simp add: val_eq_iff)
    with "2.prems"(2,3) "2.IH"(2) [OF diff False r] absent [OF r] dv adj adjs show ?thesis
      by (force simp: image_iff)
  qed
qed simp

section \<open>Properties\<close>

text \<open>A fill of an admitted order (one binary market, one unit payoff), of a non-zero quantity within the
  protocol bound and at a price of at most one dollar, always settles.  The buyer pays and the seller
  receives exactly \<open>floor(price * qty / SHARE_SCALE)\<close>, and exactly the filled quantity moves on the traded
  outcome of the order's market, with the sign of the order's direction.\<close>

theorem admitted_fill_settlement:
  assumes "order_wf ord" "validate_binary_one_hot ord = Ok ()"
    and "f_fill_qty fill \<noteq> 0" "f_fill_qty fill \<le> MAX_ORDER_QTY" "f_fill_price fill \<le> NANOS_PER_DOLLAR"
  shows "\<exists>d delta. derive_order_direction ord (o_markets ord ! 0) = Some d \<and>
           is_seller ord = Some (is_sell_direction d) \<and>
           compute_fill_settlement_checked ord fill = Some (Ok (Some delta)) \<and>
           val (sd_balance_delta delta) =
             - direction_sign d * (uint (f_fill_price fill) * uint (f_fill_qty fill) div 1000) \<and>
           (\<exists>q. sd_position_deltas delta = [(o_markets ord ! 0, direction_outcome d, q)] \<and>
                val q = direction_sign d * uint (f_fill_qty fill))"
proof -
  obtain d where d: "take 2 (o_payoffs ord) = one_hot d" using assms(1,2) by (rule validate_Ok_shape)
  let ?q = "uint (f_fill_qty fill)" and ?c = "floor_notional (f_fill_price fill) (f_fill_qty fill)"
  have qb: "0 \<le> ?q" "?q \<le> 1000000000" using assms(4) by (simp_all add: word_le_def)
  have cb: "0 \<le> ?c" "?c \<le> 1000000000000000" using floor_notional_bounds [OF assms(5,4)] by auto
  have "fits_i64 (- direction_sign d * ?c)" "fits_i64 (direction_sign d * ?q)"
    using qb cb unfolding fits_i64_def direction_sign_def by (cases "is_sell_direction d"; simp; linarith)+
  then show ?thesis
    using settlement_one_hot [OF assms(1,2) d assms(3,4,5)] validated_direction [OF assms(1,2) d]
      validated_is_seller [OF assms(1) validate_Ok_simps(2) [OF assms(2)] d]
    by (simp add: floor_notional_def)
qed

theorem admitted_fill_settlement_witness:
  "let ord = one_hot_order 7 3 SellYes 400000000 5000;
       fill = \<lparr> f_order_id = 7, f_fill_qty = 1500, f_fill_price = 450000001, f_account_id = 2 \<rparr>
   in \<exists>d delta. derive_order_direction ord 3 = Some d \<and>
        compute_fill_settlement_checked ord fill = Some (Ok (Some delta)) \<and>
        val (sd_balance_delta delta) = - direction_sign d * 675000001"
proof -
  let ?ord = "one_hot_order 7 3 SellYes 400000000 5000"
  let ?fill = "\<lparr> f_order_id = 7, f_fill_qty = 1500, f_fill_price = 450000001, f_account_id = 2 \<rparr>"
  have "validate_binary_one_hot ?ord = Ok ()"
    by (simp add: one_hot_order_valid market_none_def u32_max_def NANOS_PER_DOLLAR_def MAX_ORDER_QTY_def SHARE_SCALE_def)
  from admitted_fill_settlement [OF one_hot_order_wf this, of ?fill] show ?thesis
    by (simp add: NANOS_PER_DOLLAR_def MAX_ORDER_QTY_def SHARE_SCALE_def Let_def) blast
qed

text \<open>Whenever the minting adjustments of a block are derived, applying them to the MINT account makes the
  YES total equal the NO total in every market; every adjustment is a short position against a
  non-negative revenue, on a market of the totals.\<close>

theorem minting_restores_balance:
  assumes "derive_minting_checked totals prices = Ok adjs" "distinct (map fst totals)"
  shows "(\<forall>(m, y, n) \<in> set totals. val y + mint_delta adjs m 0 = val n + mint_delta adjs m 1) \<and>
         (\<forall>a \<in> set adjs. val (ma_position_delta a) < 0 \<and> 0 \<le> val (ma_balance_delta a) \<and>
            ma_market_id a \<in> fst ` set totals)"
  using derive_minting_balances [OF assms] derive_minting_signs [OF assms(1)]
    derive_minting_markets [OF assms(1)]
  by blast

theorem minting_restores_balance_witness:
  "\<exists>adjs. derive_minting_checked [(1, of_val 5000, of_val 2000), (4, of_val 10, of_val 10), (9, of_val 0, of_val 700)]
       (om_of_list [(1, [600000000, 400000000]), (9, [900000000, 100000000])]) = Ok adjs \<and>
     length adjs = 2 \<and> 5000 + mint_delta adjs 1 0 = 2000 + mint_delta adjs 1 1"
proof -
  let ?totals = "[(1, of_val 5000, of_val 2000), (4, of_val 10, of_val 10), (9, of_val 0, of_val 700)]
    :: (MarketId \<times> i64 \<times> i64) list"
  let ?prices = "om_of_list [(1, [600000000, 400000000]), (9, [900000000, 100000000])] :: Prices"
  have "\<exists>adjs. derive_minting_checked ?totals ?prices = Ok adjs \<and> length adjs = 2"
    by (simp add: sub_i64_def i64_of_def fits_i64_def mint_adjustment_def price_at_def om_of_list_def
        less_i64_def val_eq_iff checked_signed_notional_nanos_eq checked_notional_i64_eq idx_def)
  then obtain adjs where a: "derive_minting_checked ?totals ?prices = Ok adjs" "length adjs = 2" by blast
  from minting_restores_balance [OF a(1)]
  have "val (of_val 5000) + mint_delta adjs 1 0 = val (of_val 2000) + mint_delta adjs 1 1" by simp
  then have "5000 + mint_delta adjs 1 0 = 2000 + mint_delta adjs 1 1" by (simp add: fits_i64_def)
  with a show ?thesis by blast
qed

end
