(* ===== verification/Engine_Builder.thy ===== *)
theory Engine_Builder
  imports Engine_Settlement
begin

text \<open>
  \<open>crates/matching-engine/src/state.rs\<close>, \<open>market.rs\<close> and \<open>order_builder.rs\<close>: mixed-radix numbering of the
  atomic states, the set of binary markets, and the constructors of payoff-vector orders.  \<open>usize\<close> is
  \<open>nat\<close> with the 64-bit overflow check written out.
\<close>

section \<open>State numbering\<close>

definition usize_of :: "nat \<Rightarrow> nat option" where
  "usize_of n = (if n < 2 ^ 64 then Some n else None)"

text \<open>The loop of \<open>state_index\<close>: \<open>idx\<close>, \<open>multiplier\<close> and the sizes not yet consumed.  An outcome without a
  size leaves the multiplier as it is.\<close>

fun state_index_loop :: "nat \<Rightarrow> nat \<Rightarrow> u8 list \<Rightarrow> u8 list \<Rightarrow> nat option" where
  "state_index_loop index multiplier [] sizes = Some index"
| "state_index_loop index multiplier (outcome # outcomes) sizes = do {
     term \<leftarrow> usize_of (unat outcome * multiplier);
     index' \<leftarrow> usize_of (index + term);
     case sizes of
       [] \<Rightarrow> state_index_loop index' multiplier outcomes []
     | sz # rest \<Rightarrow> do {
         multiplier' \<leftarrow> usize_of (multiplier * unat sz);
         state_index_loop index' multiplier' outcomes rest } }"

definition state_index :: "u8 list \<Rightarrow> u8 list \<Rightarrow> nat option" where
  "state_index outcomes market_sizes = state_index_loop 0 1 outcomes market_sizes"

text \<open>Remainder and division by a zero size abort.\<close>

fun state_to_outcomes :: "nat \<Rightarrow> u8 list \<Rightarrow> u8 list option" where
  "state_to_outcomes remaining [] = Some []"
| "state_to_outcomes remaining (sz # sizes) = do {
     assert_opt (sz \<noteq> 0);
     rest \<leftarrow> state_to_outcomes (remaining div unat sz) sizes;
     Some (of_nat (remaining mod unat sz) # rest) }"

fun total_states :: "u8 list \<Rightarrow> nat option" where
  "total_states sizes = fold_opt (\<lambda>s acc. usize_of (acc * unat s)) sizes 1"

definition has_outcome :: "u8 list \<Rightarrow> nat \<Rightarrow> nat \<Rightarrow> u8 \<Rightarrow> bool option" where
  "has_outcome market_sizes state_idx market_idx outcome =
     (if length market_sizes \<le> market_idx then Some False
      else do {
        outcomes \<leftarrow> state_to_outcomes state_idx market_sizes;
        Some (case idx outcomes market_idx of Some out \<Rightarrow> out = outcome | None \<Rightarrow> False) })"

section \<open>Markets\<close>

record Market =
  mk_id :: MarketId
  mk_name :: string

record MarketSet =
  ms_markets :: "(MarketId, Market) omap"
  ms_next_id :: u32

definition market_set_new :: MarketSet where
  "market_set_new = \<lparr> ms_markets = om_empty, ms_next_id = 0 \<rparr>"

definition inc_u32 :: "u32 \<Rightarrow> u32 option" where
  "inc_u32 w = (if w = u32_max then None else Some (w + 1))"

definition add_binary :: "string \<Rightarrow> MarketSet \<Rightarrow> (MarketId \<times> MarketSet) option" where
  "add_binary nm ms = do {
     let i = ms_next_id ms;
     nxt \<leftarrow> inc_u32 (ms_next_id ms);
     Some (i, ms\<lparr> ms_next_id := nxt,
                   ms_markets := om_ins i \<lparr> mk_id = i, mk_name = nm \<rparr> (ms_markets ms) \<rparr>) }"

definition add_market :: "Market \<Rightarrow> MarketSet \<Rightarrow> MarketSet option" where
  "add_market market ms = do {
     nxt \<leftarrow> (if ms_next_id ms \<le> mk_id market then inc_u32 (mk_id market) else Some (ms_next_id ms));
     Some (ms\<lparr> ms_next_id := nxt, ms_markets := om_ins (mk_id market) market (ms_markets ms) \<rparr>) }"

definition market_get :: "MarketSet \<Rightarrow> MarketId \<Rightarrow> Market option" where
  "market_get ms i = (if i = market_none then None else lookup (ms_markets ms) i)"

definition num_outcomes :: "MarketSet \<Rightarrow> MarketId \<Rightarrow> u8" where
  "num_outcomes ms i = (if market_get ms i \<noteq> None then 2 else 0)"

section \<open>Order construction\<close>

record OrderBuilder =
  ob_markets :: MarketSet
  ob_order :: Order
  ob_state_space :: "u8 list option"

definition builder_new :: "MarketSet \<Rightarrow> u64 \<Rightarrow> OrderBuilder" where
  "builder_new ms i = \<lparr> ob_markets = ms, ob_order = order_new i, ob_state_space = None \<rparr>"

text \<open>\<open>total_states() as u8\<close> truncates.\<close>

definition spanning :: "MarketId list \<Rightarrow> OrderBuilder \<Rightarrow> OrderBuilder option" where
  "spanning market_ids b = do {
     assert_opt (length market_ids \<le> MAX_MARKETS_PER_ORDER);
     let sizes = map (num_outcomes (ob_markets b)) market_ids;
     total \<leftarrow> total_states sizes;
     Some (b\<lparr> ob_order := (ob_order b)\<lparr>
                  o_markets := market_ids @ drop (length market_ids) (o_markets (ob_order b)),
                  o_num_markets := of_nat (length market_ids),
                  o_num_states := of_nat total \<rparr>,
                ob_state_space := Some sizes \<rparr>) }"

definition limit :: "Nanos \<Rightarrow> OrderBuilder \<Rightarrow> OrderBuilder" where
  "limit price b = b\<lparr> ob_order := (ob_order b)\<lparr> o_limit_price := price \<rparr> \<rparr>"

definition quantity :: "Qty \<Rightarrow> OrderBuilder \<Rightarrow> OrderBuilder" where
  "quantity qty b = b\<lparr> ob_order := (ob_order b)\<lparr> o_max_fill := qty \<rparr> \<rparr>"

definition with_condition :: "MarketId \<Rightarrow> Nanos \<Rightarrow> ConditionDir \<Rightarrow> OrderBuilder \<Rightarrow> OrderBuilder" where
  "with_condition market threshold dir b = b\<lparr> ob_order := (ob_order b)\<lparr> o_condition :=
     Some \<lparr> pc_market = market, pc_threshold = threshold, pc_direction = dir \<rparr> \<rparr> \<rparr>"

definition payoff_at :: "nat \<Rightarrow> i8 \<Rightarrow> OrderBuilder \<Rightarrow> OrderBuilder" where
  "payoff_at state_idx payoff b =
     (if state_idx < MAX_STATES
      then b\<lparr> ob_order := (ob_order b)\<lparr> o_payoffs := (o_payoffs (ob_order b))[state_idx := payoff] \<rparr> \<rparr>
      else b)"

definition payoff_when :: "u8 list \<Rightarrow> i8 \<Rightarrow> OrderBuilder \<Rightarrow> OrderBuilder option" where
  "payoff_when outcomes payoff b =
     (case ob_state_space b of
        None \<Rightarrow> Some b
      | Some sizes \<Rightarrow> do { i \<leftarrow> state_index outcomes sizes; Some (payoff_at i payoff b) })"

definition build_on :: "MarketSet \<Rightarrow> u64 \<Rightarrow> MarketId list \<Rightarrow> u64 \<Rightarrow> u64 \<Rightarrow> OrderBuilder option" where
  "build_on ms i market_ids limit_price qty = do {
     b \<leftarrow> spanning market_ids (builder_new ms i);
     Some (quantity qty (limit limit_price b)) }"

definition simple_yes_buy :: "MarketSet \<Rightarrow> u64 \<Rightarrow> MarketId \<Rightarrow> u64 \<Rightarrow> u64 \<Rightarrow> Order option" where
  "simple_yes_buy ms i market limit_price qty = do {
     b \<leftarrow> build_on ms i [market] limit_price qty;
     Some (ob_order (payoff_at 1 0 (payoff_at 0 1 b))) }"

definition simple_no_buy :: "MarketSet \<Rightarrow> u64 \<Rightarrow> MarketId \<Rightarrow> u64 \<Rightarrow> u64 \<Rightarrow> Order option" where
  "simple_no_buy ms i market limit_price qty = do {
     b \<leftarrow> build_on ms i [market] limit_price qty;
     Some (ob_order (payoff_at 1 1 (payoff_at 0 0 b))) }"

definition outcome_buy :: "MarketSet \<Rightarrow> u64 \<Rightarrow> MarketId \<Rightarrow> u8 \<Rightarrow> u64 \<Rightarrow> u64 \<Rightarrow> Order option" where
  "outcome_buy ms i market outcome_idx limit_price qty = do {
     b \<leftarrow> build_on ms i [market] limit_price qty;
     Some (ob_order (payoff_at (unat outcome_idx) 1 b)) }"

definition outcome_sell :: "MarketSet \<Rightarrow> u64 \<Rightarrow> MarketId \<Rightarrow> u8 \<Rightarrow> u64 \<Rightarrow> u64 \<Rightarrow> Order option" where
  "outcome_sell ms i market outcome_idx limit_price qty = do {
     b \<leftarrow> build_on ms i [market] limit_price qty;
     Some (ob_order (payoff_at (unat outcome_idx) (- 1) b)) }"

text \<open>\<open>-sign\<close> on \<open>i8\<close>; the only callers pass 1 and -1.\<close>

definition spread_order :: "MarketSet \<Rightarrow> u64 \<Rightarrow> MarketId \<Rightarrow> MarketId \<Rightarrow> u64 \<Rightarrow> u64 \<Rightarrow> i8 \<Rightarrow> Order option" where
  "spread_order ms i market_a market_b limit_price qty sign = do {
     b \<leftarrow> build_on ms i [market_a, market_b] limit_price qty;
     b \<leftarrow> payoff_when [0, 0] 0 b;
     b \<leftarrow> payoff_when [1, 0] (- sign) b;
     b \<leftarrow> payoff_when [0, 1] sign b;
     b \<leftarrow> payoff_when [1, 1] 0 b;
     Some (ob_order b) }"

definition spread :: "MarketSet \<Rightarrow> u64 \<Rightarrow> MarketId \<Rightarrow> MarketId \<Rightarrow> u64 \<Rightarrow> u64 \<Rightarrow> Order option" where
  "spread ms i market_a market_b limit_price qty = spread_order ms i market_a market_b limit_price qty 1"

definition spread_sell :: "MarketSet \<Rightarrow> u64 \<Rightarrow> MarketId \<Rightarrow> MarketId \<Rightarrow> u64 \<Rightarrow> u64 \<Rightarrow> Order option" where
  "spread_sell ms i market_a market_b limit_price qty = spread_order ms i market_a market_b limit_price qty (- 1)"

definition butterfly :: "MarketSet \<Rightarrow> u64 \<Rightarrow> MarketId \<Rightarrow> MarketId \<Rightarrow> MarketId \<Rightarrow> u64 \<Rightarrow> u64 \<Rightarrow> Order option" where
  "butterfly ms i market_a market_b market_c limit_price qty = do {
     b \<leftarrow> build_on ms i [market_a, market_b, market_c] limit_price qty;
     b \<leftarrow> payoff_when [1, 1, 0] 1 b;
     b \<leftarrow> payoff_when [1, 0, 1] (- 2) b;
     b \<leftarrow> payoff_when [0, 1, 1] 1 b;
     Some (ob_order b) }"

definition bundle_order :: "MarketSet \<Rightarrow> u64 \<Rightarrow> MarketId list \<Rightarrow> u64 \<Rightarrow> u64 \<Rightarrow> i8 \<Rightarrow> Order option" where
  "bundle_order ms i market_ids limit_price qty payoff_sign = do {
     let all_yes = replicate (length market_ids) 0;
     b \<leftarrow> build_on ms i market_ids limit_price qty;
     winning_state \<leftarrow> state_index all_yes (map (num_outcomes ms) market_ids);
     Some (ob_order (payoff_at winning_state payoff_sign b)) }"

definition bundle_yes :: "MarketSet \<Rightarrow> u64 \<Rightarrow> MarketId list \<Rightarrow> u64 \<Rightarrow> u64 \<Rightarrow> Order option" where
  "bundle_yes ms i market_ids limit_price qty = bundle_order ms i market_ids limit_price qty 1"

definition bundle_sell :: "MarketSet \<Rightarrow> u64 \<Rightarrow> MarketId list \<Rightarrow> u64 \<Rightarrow> u64 \<Rightarrow> Order option" where
  "bundle_sell ms i market_ids limit_price qty = bundle_order ms i market_ids limit_price qty (- 1)"

definition i8_of :: "int \<Rightarrow> i8 option" where
  "i8_of n = (if - 128 \<le> n \<and> n \<le> 127 then Some (word_of_int n) else None)"

definition ratio_spread ::
  "MarketSet \<Rightarrow> u64 \<Rightarrow> MarketId \<Rightarrow> i8 \<Rightarrow> MarketId \<Rightarrow> i8 \<Rightarrow> u64 \<Rightarrow> u64 \<Rightarrow> Order option"
where
  "ratio_spread ms i market_a ratio_a market_b ratio_b limit_price qty = do {
     b \<leftarrow> build_on ms i [market_a, market_b] limit_price qty;
     both \<leftarrow> i8_of (sint ratio_a - sint ratio_b);
     b \<leftarrow> payoff_when [0, 0] both b;
     neg_b \<leftarrow> i8_of (- sint ratio_b);
     b \<leftarrow> payoff_when [1, 0] neg_b b;
     b \<leftarrow> payoff_when [0, 1] ratio_a b;
     b \<leftarrow> payoff_when [1, 1] 0 b;
     Some (ob_order b) }"

definition conditional_buy ::
  "MarketSet \<Rightarrow> u64 \<Rightarrow> MarketId \<Rightarrow> u64 \<Rightarrow> u64 \<Rightarrow> MarketId \<Rightarrow> u64 \<Rightarrow> ConditionDir \<Rightarrow> Order option"
where
  "conditional_buy ms i market limit_price qty condition_market threshold dir = do {
     b \<leftarrow> build_on ms i [market] limit_price qty;
     Some (ob_order (with_condition condition_market threshold dir (payoff_at 0 1 b))) }"

section \<open>Round trip of the state numbering\<close>

fun radix :: "u8 list \<Rightarrow> u8 list \<Rightarrow> nat" where
  "radix (out # outs) (sz # sizes) = unat out + unat sz * radix outs sizes"
| "radix _ _ = 0"

definition states :: "u8 list \<Rightarrow> nat" where "states sizes = prod_list (map unat sizes)"

lemma states_simps [simp]: "states [] = 1" "states (s # ss) = unat s * states ss"
  by (simp_all add: states_def)

definition outcomes_ok :: "u8 list \<Rightarrow> u8 list \<Rightarrow> bool" where
  "outcomes_ok outs sizes \<longleftrightarrow> list_all2 (<) outs sizes"

lemma states_pos: "outcomes_ok outs sizes \<Longrightarrow> 0 < states sizes"
  unfolding outcomes_ok_def
  by (induction rule: list_all2_induct) (auto simp: word_less_nat_alt)

lemma digit_less:
  assumes "a < (b :: nat)" "c < n" shows "c + n * a < n * b"
proof -
  have "c + n * a < n * Suc a" using assms(2) by simp
  also have "\<dots> \<le> n * b" using assms(1) by (intro mult_le_mono) simp_all
  finally show ?thesis .
qed

lemma radix_less: "outcomes_ok outs sizes \<Longrightarrow> radix outs sizes < states sizes"
  unfolding outcomes_ok_def
  by (induction rule: list_all2_induct) (auto simp: word_less_nat_alt intro: digit_less)

lemma state_index_loop_radix:
  assumes "outcomes_ok outs sizes" "index < multiplier" "multiplier * states sizes < 2 ^ 64"
  shows "state_index_loop index multiplier outs sizes = Some (index + multiplier * radix outs sizes)"
  using assms
proof (induction outs arbitrary: index multiplier sizes)
  case Nil
  then show ?case by (simp add: outcomes_ok_def)
next
  case (Cons out outs)
  then obtain sz ss where s: "sizes = sz # ss" "unat out < unat sz" "outcomes_ok outs ss"
    by (auto simp: outcomes_ok_def list_all2_Cons1 word_less_nat_alt)
  have i: "index + unat out * multiplier < multiplier * unat sz"
    using digit_less [OF s(2) Cons.prems(2)] by (simp add: mult.commute)
  have m: "multiplier * unat sz * states ss < 2 ^ 64" using Cons.prems(3) s(1) by (simp add: ac_simps)
  have "multiplier * unat sz \<le> multiplier * unat sz * states ss" using states_pos [OF s(3)] by simp
  with m have m': "multiplier * unat sz < 2 ^ 64" by linarith
  have "unat out * multiplier < 2 ^ 64" "index + unat out * multiplier < 2 ^ 64"
    using i m' by linarith+
  with m' Cons.IH [OF s(3) i m] s(1) show ?case
    by (simp add: usize_of_def algebra_simps)
qed

lemma state_index_radix:
  "outcomes_ok outs sizes \<Longrightarrow> states sizes < 2 ^ 64 \<Longrightarrow> state_index outs sizes = Some (radix outs sizes)"
  by (simp add: state_index_def state_index_loop_radix)

lemma state_to_outcomes_radix:
  "outcomes_ok outs sizes \<Longrightarrow> state_to_outcomes (radix outs sizes) sizes = Some outs"
  unfolding outcomes_ok_def
proof (induction rule: list_all2_induct)
  case (Cons out outs sz sizes)
  then have lt: "unat out < unat sz" by (simp add: word_less_nat_alt)
  then have "sz \<noteq> 0" by auto
  with lt Cons.IH show ?case by (simp add: assert_opt_def)
qed simp

lemma state_to_outcomes_ok:
  assumes "0 \<notin> set sizes"
  obtains outs where "state_to_outcomes n sizes = Some outs" "outcomes_ok outs sizes"
    "radix outs sizes = n mod states sizes"
  using assms
proof (induction sizes arbitrary: n thesis)
  case Nil
  then show ?case by (simp add: outcomes_ok_def)
next
  case (Cons sz ss)
  then have nz: "sz \<noteq> 0" "0 < unat sz" by (auto simp: unat_gt_0)
  obtain outs where outs: "state_to_outcomes (n div unat sz) ss = Some outs" "outcomes_ok outs ss"
    "radix outs ss = n div unat sz mod states ss"
    using Cons.IH [of "n div unat sz"] Cons.prems(2) by auto
  let ?d = "of_nat (n mod unat sz) :: u8"
  have "n mod unat sz < unat sz" using nz(2) by simp
  moreover have "unat sz < 256" using unsigned_less [of sz] by simp
  ultimately have u: "unat ?d = n mod unat sz" by (simp add: unat_of_nat)
  show ?case
  proof (rule Cons.prems(1) [of "?d # outs"])
    show "state_to_outcomes n (sz # ss) = Some (?d # outs)" using nz(1) outs(1) by (simp add: assert_opt_def)
    show "outcomes_ok (?d # outs) (sz # ss)"
      using outs(2) u \<open>n mod unat sz < unat sz\<close> by (simp add: outcomes_ok_def word_less_nat_alt)
    show "radix (?d # outs) (sz # ss) = n mod states (sz # ss)"
      using u outs(3) by (simp add: mod_mult2_eq add.commute)
  qed
qed

section \<open>Built orders\<close>

definition dir_of :: "u8 \<Rightarrow> bool \<Rightarrow> OrderDirection" where
  "dir_of outcome sell =
     (if outcome = 0 then (if sell then SellYes else BuyYes) else (if sell then SellNo else BuyNo))"

lemma replicate_numerals: "replicate 5 x = x # replicate 4 x" "replicate 32 x = x # x # replicate 30 x"
  by (simp_all add: numeral_eq_Suc)

lemma built_order:
  assumes m: "market_get ms market \<noteq> None" and out: "outcome = 0 \<or> outcome = 1"
    and lim: "lim \<le> NANOS_PER_DOLLAR" and qty: "qty \<le> MAX_ORDER_QTY"
  shows "\<exists>ord. (if sell then outcome_sell else outcome_buy) ms i market outcome lim qty = Some ord \<and>
           order_wf ord \<and> validate_binary_one_hot ord = Ok () \<and> o_id ord = i \<and> o_markets ord ! 0 = market \<and>
           o_limit_price ord = lim \<and> o_max_fill ord = qty \<and> take 2 (o_payoffs ord) = one_hot (dir_of outcome sell)"
proof -
  have n: "num_outcomes ms market = 2" using m by (simp add: num_outcomes_def)
  have c: "market \<noteq> market_none" using m by (auto simp: market_get_def)
  have b: "build_on ms i [market] lim qty = Some \<lparr> ob_markets = ms, ob_order =
      \<lparr> o_id = i, o_markets = market # replicate 4 market_none, o_num_markets = 1,
        o_payoffs = 0 # 0 # replicate 30 0, o_num_states = 2, o_limit_price = lim, o_max_fill = qty,
        o_condition = None, o_expires_at_block = None \<rparr>, ob_state_space = Some [2] \<rparr>"
    by (simp add: build_on_def spanning_def builder_new_def order_new_def n usize_of_def limit_def
        quantity_def MAX_MARKETS_PER_ORDER_def MAX_STATES_def assert_opt_def replicate_numerals)
  have v: "order_wf ord \<and> validate_binary_one_hot ord = Ok ()"
    if "o_markets ord = market # replicate 4 market_none" "o_num_markets ord = 1" "o_num_states ord = 2"
      "o_payoffs ord = one_hot d @ replicate 30 0" "o_limit_price ord = lim" "o_max_fill ord = qty" for ord d
    using that lim qty c
    by (cases d) (simp_all add: order_wf_def MAX_MARKETS_PER_ORDER_def MAX_STATES_def one_hot_def
        validate_binary_one_hot_def not_less list_ex_iff)
  show ?thesis
    using out
    by (elim disjE; cases sell)
       (simp_all add: outcome_buy_def outcome_sell_def b payoff_at_def MAX_STATES_def dir_of_def one_hot_def
         v [of _ "dir_of outcome sell"])
qed

section \<open>Properties\<close>

text \<open>for markets with at least one outcome each and a state space that fits a \<open>usize\<close>, encoding outcomes
  as a state index and decoding it again are mutually inverse, between the outcome vectors in range and
  the indices below the number of states.\<close>

theorem state_numbering_bijective:
  assumes "0 \<notin> set sizes" "prod_list (map unat sizes) < 2 ^ 64"
  shows "(\<forall>outs. list_all2 (<) outs sizes \<longrightarrow>
            (\<exists>n. state_index outs sizes = Some n \<and> n < prod_list (map unat sizes) \<and>
                 state_to_outcomes n sizes = Some outs)) \<and>
         (\<forall>n < prod_list (map unat sizes). \<exists>outs. state_to_outcomes n sizes = Some outs \<and>
            list_all2 (<) outs sizes \<and> state_index outs sizes = Some n)"
proof (intro conjI allI impI)
  fix outs assume "list_all2 (<) outs sizes"
  then have o: "outcomes_ok outs sizes" by (simp add: outcomes_ok_def)
  from state_index_radix [OF o] radix_less [OF o] state_to_outcomes_radix [OF o] assms(2)
  show "\<exists>n. state_index outs sizes = Some n \<and> n < prod_list (map unat sizes) \<and>
            state_to_outcomes n sizes = Some outs"
    by (simp add: states_def)
next
  fix n assume n: "n < prod_list (map unat sizes)"
  obtain outs where o: "state_to_outcomes n sizes = Some outs" "outcomes_ok outs sizes"
    "radix outs sizes = n mod states sizes" using assms(1) by (rule state_to_outcomes_ok)
  with n have "radix outs sizes = n" by (simp add: states_def)
  with state_index_radix [OF o(2)] assms(2) o
  show "\<exists>outs. state_to_outcomes n sizes = Some outs \<and> list_all2 (<) outs sizes \<and> state_index outs sizes = Some n"
    by (auto simp: states_def outcomes_ok_def)
qed

theorem state_numbering_bijective_witness:
  "state_index [1, 2, 0] [2, 3, 2] = Some 5 \<and>
   (\<exists>outs. state_to_outcomes 11 [2, 3, 2] = Some outs \<and> state_index outs [2, 3, 2] = Some 11)"
proof -
  have "\<forall>n < prod_list (map unat [2, 3, 2 :: u8]). \<exists>outs. state_to_outcomes n [2, 3, 2] = Some outs \<and>
      list_all2 (<) outs [2, 3, 2] \<and> state_index outs [2, 3, 2] = Some n"
    using state_numbering_bijective [of "[2, 3, 2]"] by simp
  then have "\<exists>outs. state_to_outcomes 11 [2, 3, 2] = Some outs \<and> state_index outs [2, 3, 2] = Some 11"
    by (auto dest: spec [of _ 11])
  then show ?thesis by (simp add: state_index_def usize_of_def)
qed

text \<open>an order built by \<open>outcome_buy\<close> or \<open>outcome_sell\<close> for an outcome of a listed market, with limit and
  quantity in protocol range, passes public admission's shape check and is classified with exactly the
  requested side and outcome.\<close>

theorem built_orders_are_admissible:
  assumes "market_get ms market \<noteq> None" "outcome = 0 \<or> outcome = 1"
    and "lim \<le> NANOS_PER_DOLLAR" "qty \<le> MAX_ORDER_QTY"
  shows "\<exists>ord. (if sell then outcome_sell else outcome_buy) ms i market outcome lim qty = Some ord \<and>
           order_wf ord \<and> validate_binary_one_hot ord = Ok () \<and> is_seller ord = Some sell \<and>
           derive_order_direction ord market = Some (dir_of outcome sell)"
proof -
  from built_order [OF assms, of sell i] obtain ord where
    o: "(if sell then outcome_sell else outcome_buy) ms i market outcome lim qty = Some ord"
    "order_wf ord" "validate_binary_one_hot ord = Ok ()" "o_markets ord ! 0 = market"
    "take 2 (o_payoffs ord) = one_hot (dir_of outcome sell)" by blast
  then show ?thesis
    using validated_direction [OF o(2,3,5)] validated_is_seller [OF o(2) validate_Ok_simps(2) [OF o(3)] o(5)]
    by (auto simp: is_sell_direction_def dir_of_def)
qed

theorem built_orders_are_admissible_witness:
  "\<exists>ord. outcome_sell \<lparr> ms_markets = om_of_list [(0, \<lparr> mk_id = 0, mk_name = ''A'' \<rparr>)], ms_next_id = 1 \<rparr>
      9 0 1 250000000 4000 = Some ord \<and> derive_order_direction ord 0 = Some SellNo"
proof -
  let ?ms = "\<lparr> ms_markets = om_of_list [(0, \<lparr> mk_id = 0, mk_name = ''A'' \<rparr>)], ms_next_id = 1 \<rparr>"
  have "market_get ?ms 0 \<noteq> None" by (simp add: market_get_def market_none_def u32_max_def om_of_list_def)
  from built_orders_are_admissible [OF this, of 1 250000000 4000 True 9] show ?thesis
    by (auto simp: NANOS_PER_DOLLAR_def MAX_ORDER_QTY_def SHARE_SCALE_def dir_of_def)
qed

end
