(* ===== verification/Engine_Mm.thy ===== *)
theory Engine_Mm
  imports Engine_Builder
begin

text \<open>
  \<open>crates/matching-engine/src/mm_constraint.rs\<close> and \<open>problem.rs\<close>: market-maker capital constraints, market
  groups and the consistency check of a problem instance.  The lemmas show that the capital charged for a
  sale is exactly the liability that the sale proceeds do not cover.
\<close>

datatype MmSide = MmSellYes | MmBuyYes | MmSellNo | MmBuyNo

definition mm_sells :: "MmSide \<Rightarrow> bool" where
  "mm_sells side \<longleftrightarrow> side = MmSellYes \<or> side = MmSellNo"

definition capital_needed :: "MmSide \<Rightarrow> Nanos \<Rightarrow> Qty \<Rightarrow> Nanos" where
  "capital_needed side price qty =
     (let price_per_share = (if mm_sells side then saturating_sub_u64 NANOS_PER_DOLLAR price else price)
      in notional_nanos_ceil price_per_share qty)"

definition checked_capital_needed :: "MmSide \<Rightarrow> Nanos \<Rightarrow> Qty \<Rightarrow> Nanos option" where
  "checked_capital_needed side price qty =
     (if mm_sells side
      then if NANOS_PER_DOLLAR < price then None
           else checked_notional_nanos_ceil (NANOS_PER_DOLLAR - price) qty
      else checked_notional_nanos_ceil price qty)"

record MmConstraint =
  mm_id :: u64
  mm_max_capital :: Nanos
  mm_order_ids :: "u64 list"
  mm_order_sides :: "(u64, MmSide) omap"

definition mm_new :: "u64 \<Rightarrow> Nanos \<Rightarrow> MmConstraint" where
  "mm_new i max_capital = \<lparr> mm_id = i, mm_max_capital = max_capital, mm_order_ids = [], mm_order_sides = om_empty \<rparr>"

definition add_order :: "u64 \<Rightarrow> MmSide \<Rightarrow> MmConstraint \<Rightarrow> MmConstraint" where
  "add_order order_id side mm = mm\<lparr> mm_order_ids := mm_order_ids mm @ [order_id],
     mm_order_sides := om_ins order_id side (mm_order_sides mm) \<rparr>"

definition contains_order :: "MmConstraint \<Rightarrow> u64 \<Rightarrow> bool" where
  "contains_order mm order_id \<longleftrightarrow> order_id \<in> set (mm_order_ids mm)"

type_synonym MmFills = "(u64, Nanos \<times> Qty) omap"

definition capital_used :: "MmConstraint \<Rightarrow> MmFills \<Rightarrow> Nanos option" where
  "capital_used mm fills = fold_opt (\<lambda>order_id total.
     case (lookup fills order_id, lookup (mm_order_sides mm) order_id) of
       (Some (price, qty), Some side) \<Rightarrow> add_u64 total (capital_needed side price qty)
     | _ \<Rightarrow> Some total) (mm_order_ids mm) 0"

definition checked_capital_used :: "MmConstraint \<Rightarrow> MmFills \<Rightarrow> Nanos option" where
  "checked_capital_used mm fills = fold_opt (\<lambda>order_id total.
     case (lookup fills order_id, lookup (mm_order_sides mm) order_id) of
       (Some (price, qty), Some side) \<Rightarrow> do {
         c \<leftarrow> checked_capital_needed side price qty;
         add_u64 total c }
     | _ \<Rightarrow> Some total) (mm_order_ids mm) 0"

definition is_satisfied :: "MmConstraint \<Rightarrow> MmFills \<Rightarrow> bool option" where
  "is_satisfied mm fills = map_option (\<lambda>c. c \<le> mm_max_capital mm) (capital_used mm fills)"

section \<open>Problem instances\<close>

definition MAX_OPERATOR_CREATION_KEY_BYTES :: nat where "MAX_OPERATOR_CREATION_KEY_BYTES = 128"

definition key_char :: "char \<Rightarrow> bool" where
  "key_char c \<longleftrightarrow> (let n = of_char c :: nat in
     48 \<le> n \<and> n \<le> 57 \<or> 65 \<le> n \<and> n \<le> 90 \<or> 97 \<le> n \<and> n \<le> 122) \<or> c \<in> set ''-_:./''"

definition operator_creation_key_is_valid :: "string \<Rightarrow> bool" where
  "operator_creation_key_is_valid key \<longleftrightarrow>
     key \<noteq> [] \<and> length key \<le> MAX_OPERATOR_CREATION_KEY_BYTES \<and> list_all key_char key"

record MarketGroup =
  mg_name :: string
  mg_creation_key :: "string option"
  mg_markets :: "MarketId list"

record Problem =
  pr_name :: string
  pr_markets :: MarketSet
  pr_orders :: "Order list"
  pr_mm_constraints :: "MmConstraint list"
  pr_market_groups :: "MarketGroup list"

datatype ProblemError =
    DuplicateOrderIdError u64 | OrderMarketMissing u64 MarketId | MmOrderMissing u64 u64
  | InvalidCreationKey string | DuplicateCreationKey string | GroupMarketMissing string MarketId

fun duplicate_ids :: "u64 list \<Rightarrow> u64 list \<Rightarrow> ProblemError list" where
  "duplicate_ids seen [] = []"
| "duplicate_ids seen (i # is) =
     (if i \<in> set seen then DuplicateOrderIdError i # duplicate_ids seen is else duplicate_ids (i # seen) is)"

definition missing_order_markets :: "MarketSet \<Rightarrow> Order \<Rightarrow> ProblemError list" where
  "missing_order_markets ms ord =
     map (OrderMarketMissing (o_id ord))
       (filter (\<lambda>m. m \<noteq> market_none \<and> market_get ms m = None) (active_markets ord))"

fun group_errors :: "MarketSet \<Rightarrow> string list \<Rightarrow> MarketGroup list \<Rightarrow> ProblemError list" where
  "group_errors ms keys [] = []"
| "group_errors ms keys (g # gs) =
     (let (errs, keys') = (case mg_creation_key g of
            None \<Rightarrow> ([], keys)
          | Some key \<Rightarrow>
              if \<not> operator_creation_key_is_valid key then ([InvalidCreationKey (mg_name g)], keys)
              else if key \<in> set keys then ([DuplicateCreationKey key], keys)
              else ([], key # keys))
      in errs @ map (GroupMarketMissing (mg_name g)) (filter (\<lambda>m. market_get ms m = None) (mg_markets g))
           @ group_errors ms keys' gs)"

definition problem_validate :: "Problem \<Rightarrow> (ProblemError list, unit) result" where
  "problem_validate p =
     (let order_ids = map o_id (pr_orders p);
          errors = duplicate_ids [] order_ids
            @ concat (map (missing_order_markets (pr_markets p)) (pr_orders p))
            @ concat (map (\<lambda>mm. map (MmOrderMissing (mm_id mm))
                (filter (\<lambda>i. i \<notin> set order_ids) (mm_order_ids mm))) (pr_mm_constraints p))
            @ group_errors (pr_markets p) [] (pr_market_groups p)
      in if errors = [] then Ok () else Err errors)"

section \<open>Capital of a market maker\<close>

lemma uint_dollar_minus: "price \<le> NANOS_PER_DOLLAR \<Longrightarrow> uint (NANOS_PER_DOLLAR - price) = 1000000000 - uint price"
  by (simp add: uint_minus_simple_alt word_le_def)

lemma saturating_dollar_minus:
  "uint (saturating_sub_u64 NANOS_PER_DOLLAR price) = (if price \<le> NANOS_PER_DOLLAR then 1000000000 - uint price else 0)"
  by (auto simp: uint_saturating_sub word_le_def)

lemma div_ceil_complement: "div_ceil (1000000 * 1000 * q - n) 1000 = 1000000 * q - n div 1000"
proof -
  have "1000000 * 1000 * q - n + 999 = (999 - n) + 1000 * (1000000 * q)" by simp
  then have "(1000000 * 1000 * q - n + 999) div 1000 = (999 - n) div 1000 + 1000000 * q"
    using div_mult_self2 [of 1000 "999 - n" "1000000 * q"] by simp
  moreover have "(999 - n) div 1000 = - (n div 1000)"
  proof (rule int_div_pos_eq)
    show "999 - n = 1000 * - (n div 1000) + (999 - n mod 1000)"
      using mult_div_mod_eq [of 1000 n] by linarith
    show "0 \<le> 999 - n mod 1000" "999 - n mod 1000 < 1000"
      using pos_mod_bound [of 1000 n] pos_mod_sign [of 1000 n] by linarith+
  qed
  ultimately show ?thesis by (simp add: div_ceil_1000)
qed

text \<open>Spent cash of a purchase, uncovered liability of a sale.\<close>

definition mm_exposure :: "MmSide \<Rightarrow> Nanos \<Rightarrow> Qty \<Rightarrow> int" where
  "mm_exposure side price qty =
     (if mm_sells side then 1000000 * uint qty - uint price * uint qty div 1000
      else div_ceil (uint price * uint qty) 1000)"

lemma checked_capital_needed_eq:
  "checked_capital_needed side price qty =
     (if mm_sells side \<and> NANOS_PER_DOLLAR < price then None else u64_of (mm_exposure side price qty))"
proof -
  have "(1000000000 - uint price) * uint qty = 1000000 * 1000 * uint qty - uint price * uint qty"
    by (simp add: left_diff_distrib)
  then show ?thesis
    using div_ceil_complement [of "uint qty" "uint price * uint qty"]
    by (auto simp: checked_capital_needed_def mm_exposure_def checked_notional_nanos_ceil_eq uint_dollar_minus not_less)
qed

lemma checked_capital_used_sum:
  assumes "checked_capital_used mm fills = Some c"
  shows "uint c = sum_list (map (\<lambda>i. case (lookup fills i, lookup (mm_order_sides mm) i) of
            (Some (price, qty), Some side) \<Rightarrow> mm_exposure side price qty | _ \<Rightarrow> 0) (mm_order_ids mm))"
proof -
  let ?f = "\<lambda>order_id total. case (lookup fills order_id, lookup (mm_order_sides mm) order_id) of
       (Some (price, qty), Some side) \<Rightarrow> do { c \<leftarrow> checked_capital_needed side price qty; add_u64 total c }
     | _ \<Rightarrow> Some total"
  let ?g = "\<lambda>i. case (lookup fills i, lookup (mm_order_sides mm) i) of
            (Some (price, qty), Some side) \<Rightarrow> mm_exposure side price qty | _ \<Rightarrow> 0"
  have "fold_opt ?f ids t = Some c \<Longrightarrow> uint c = uint t + sum_list (map ?g ids)" for ids t
  proof (induction ids arbitrary: t)
    case (Cons i ids)
    then obtain t' where t': "?f i t = Some t'" "fold_opt ?f ids t' = Some c" by (auto simp: opt)
    from t'(1) have "uint t' = uint t + ?g i"
      by (auto simp: opt num checked_capital_needed_eq split: option.splits if_splits)
    with Cons.IH [OF t'(2)] show ?case by simp
  qed simp
  from this [of "mm_order_ids mm" 0] assms show ?thesis by (simp add: checked_capital_used_def)
qed

section \<open>Properties\<close>

text \<open>The capital charged to a market maker for a fill at a price of at most one dollar and an admissible
  quantity never overflows; for a sale it is exactly the one-dollar-per-share liability minus the floor
  proceeds that settlement credits, and for a purchase at least the floor cost that settlement debits,
  by at most one nano more.\<close>

theorem capital_covers_exposure:
  assumes "price \<le> NANOS_PER_DOLLAR" "qty \<le> MAX_ORDER_QTY"
  shows "\<exists>c. checked_capital_needed side price qty = Some c \<and> capital_needed side price qty = c \<and>
           (if mm_sells side then uint c + uint price * uint qty div 1000 = 1000000 * uint qty
            else uint price * uint qty div 1000 \<le> uint c \<and> uint c \<le> uint price * uint qty div 1000 + 1)"
proof -
  have b: "uint price * uint qty \<le> 1000000000000000000" by (rule notional_bound [OF assms])
  have q: "0 \<le> uint qty" "uint qty \<le> 1000000000" using assms(2) by (simp_all add: word_le_def)
  have p: "uint price \<le> 1000000000" using assms(1) by (simp add: word_le_def)
  have "uint price * uint qty \<le> 1000000000 * uint qty" using p q by (intro mult_right_mono) auto
  then have "uint price * uint qty div 1000 \<le> (1000000000 * uint qty) div 1000" by (rule zdiv_mono1) simp
  then have le: "uint price * uint qty div 1000 \<le> 1000000 * uint qty" by simp
  have c: "0 \<le> div_ceil (uint price * uint qty) 1000" "div_ceil (uint price * uint qty) 1000 \<le> 1000000000000000"
    using b by (simp_all add: ceil_notional_nonneg div_ceil_least)
  have fits: "fits_u64 (mm_exposure side price qty)"
    using le c q notional_nonneg [of price qty] unfolding fits_u64_def mm_exposure_def by (cases "mm_sells side"; simp)
  then obtain w where "u64_of (mm_exposure side price qty) = Some w" by (auto simp: u64_of_def)
  then have w: "checked_capital_needed side price qty = Some w" "uint w = mm_exposure side price qty"
    using assms(1) by (auto simp: checked_capital_needed_eq u64_of_eq_Some not_less)
  have "capital_needed side price qty = w"
  proof (cases "mm_sells side")
    case True
    then have "checked_notional_nanos_ceil (NANOS_PER_DOLLAR - price) qty = Some w"
      using w(1) assms(1) by (simp add: checked_capital_needed_def split: if_splits)
    moreover have "saturating_sub_u64 NANOS_PER_DOLLAR price = NANOS_PER_DOLLAR - price"
      using assms(1) by (simp add: word_uint_eq_iff saturating_dollar_minus uint_dollar_minus)
    ultimately show ?thesis using True by (simp add: capital_needed_def notional_nanos_ceil_checked)
  next
    case False
    then show ?thesis using w(1)
      by (simp add: capital_needed_def checked_capital_needed_def notional_nanos_ceil_checked)
  qed
  with w show ?thesis
    using div_ceil_floor(1) [of 1000 "uint price * uint qty"] div_ceil_floor(2) [of "uint price * uint qty" 1000]
    by (auto simp: mm_exposure_def)
qed

theorem capital_covers_exposure_witness:
  "\<exists>c. checked_capital_needed MmSellNo 333333333 1001 = Some c \<and> uint c + 333666666 = 1001000000"
  using capital_covers_exposure [of 333333333 1001 MmSellNo]
  by (auto simp: NANOS_PER_DOLLAR_def MAX_ORDER_QTY_def SHARE_SCALE_def mm_sells_def)

end
