(* ===== verification/Passes.thy ===== *)
theory Passes
  imports Prelude
begin

text \<open>
  The verifier is a sequence of passes: a loop over a list that threads a state, may abort, and pushes
  violations.  \<open>scan\<close> is that loop and \<open>each\<close> is the loop without a state.  A pass is clean when it
  pushes nothing; the locale \<open>clean_pass\<close> is the contract of a step whose clean runs keep an invariant,
  and a component interprets it on its own step functions.
\<close>

fun scan :: "('a \<Rightarrow> 's \<Rightarrow> ('s \<times> 'v list) option) \<Rightarrow> 'a list \<Rightarrow> 's \<Rightarrow> ('s \<times> 'v list) option" where
  "scan f [] s = Some (s, [])"
| "scan f (x # xs) s = do {
     (t, vs) \<leftarrow> f x s;
     (u, ws) \<leftarrow> scan f xs t;
     Some (u, vs @ ws) }"

definition each :: "('a \<Rightarrow> 'v list option) \<Rightarrow> 'a list \<Rightarrow> 'v list option" where
  "each f xs = map_option concat (map_opt f xs)"

text \<open>\<open>if bad { violations.push(kind) }\<close>\<close>

definition flag :: "bool \<Rightarrow> 'v \<Rightarrow> 'v list" where
  "flag bad kind = (if bad then [kind] else [])"

lemma flag_Nil [simp]: "flag b k = [] \<longleftrightarrow> \<not> b"
  by (simp add: flag_def)

lemma scan_Cons_clean:
  "scan f (x # xs) s = Some (u, []) \<longleftrightarrow> (\<exists>t. f x s = Some (t, []) \<and> scan f xs t = Some (u, []))"
  by (auto simp: opt)

lemma scan_append_clean:
  "scan f (xs @ ys) s = Some (u, []) \<longleftrightarrow> (\<exists>t. scan f xs s = Some (t, []) \<and> scan f ys t = Some (u, []))"
  by (induction xs arbitrary: s) (auto simp: opt)

lemma each_Nil [simp]: "each f [] = Some []"
  by (simp add: each_def)

lemma each_Cons: "each f (x # xs) = do { vs \<leftarrow> f x; ws \<leftarrow> each f xs; Some (vs @ ws) }"
  by (cases "f x"; cases "map_opt f xs") (simp_all add: each_def)

lemma each_clean: "each f xs = Some [] \<longleftrightarrow> (\<forall>x \<in> set xs. f x = Some [])"
  by (induction xs) (auto simp: each_Cons opt)

lemma concat_map_Nil: "concat (map f xs) = [] \<longleftrightarrow> (\<forall>x \<in> set xs. f x = [])"
  by simp

text \<open>Every prefix of a clean run is a clean run, so each element is processed from a clean state.\<close>

lemma scan_clean_at:
  assumes "scan f xs s = Some (u, [])" "x \<in> set xs"
  obtains ys zs t t' where "xs = ys @ x # zs" "scan f ys s = Some (t, [])" "f x t = Some (t', [])"
    "scan f zs t' = Some (u, [])"
proof -
  obtain ys zs where xs: "xs = ys @ x # zs" using assms(2) by (meson split_list)
  with assms(1) obtain t t' where "scan f ys s = Some (t, [])" "f x t = Some (t', [])" "scan f zs t' = Some (u, [])"
    unfolding xs scan_append_clean scan_Cons_clean by blast
  with xs show ?thesis using that by blast
qed

text \<open>Duplicate detection with a set of seen keys, as the code does it with \<open>HashSet::insert\<close>.\<close>

definition seen_step :: "('a \<Rightarrow> 'k) \<Rightarrow> 'v \<Rightarrow> 'a \<Rightarrow> 'k list \<Rightarrow> ('k list \<times> 'v list) option" where
  "seen_step key kind x seen = Some (key x # seen, flag (key x \<in> set seen) kind)"

lemma scan_seen_clean:
  "(\<exists>t. scan (seen_step key kind) xs s = Some (t, [])) \<longleftrightarrow> distinct (map key xs) \<and> set (map key xs) \<inter> set s = {}"
  by (induction xs arbitrary: s) (auto simp: scan_Cons_clean seen_step_def simp del: scan.simps(2))

lemma scan_seen_total: "\<exists>t vs. scan (seen_step key kind) xs s = Some (t, vs)"
  by (induction xs arbitrary: s) (auto simp: seen_step_def opt)

locale clean_pass =
  fixes step :: "'a \<Rightarrow> 's \<Rightarrow> ('s \<times> 'v list) option" and inv :: "'s \<Rightarrow> bool"
  assumes step_inv: "inv s \<Longrightarrow> step x s = Some (t, []) \<Longrightarrow> inv t"
begin

lemma run_inv: "inv s \<Longrightarrow> scan step xs s = Some (t, []) \<Longrightarrow> inv t"
  by (induction xs arbitrary: s) (auto simp: scan_Cons_clean simp del: scan.simps(2) intro: step_inv)

lemma run_inv_at:
  assumes "inv s" "scan step xs s = Some (u, [])" "x \<in> set xs"
  obtains t t' where "inv t" "step x t = Some (t', [])" "inv t'"
proof -
  from assms(2,3) obtain ys zs t t' where r: "scan step ys s = Some (t, [])" "step x t = Some (t', [])"
    by (rule scan_clean_at)
  have "inv t" using assms(1) r(1) by (rule run_inv)
  with r(2) show ?thesis using that step_inv by blast
qed

end

text \<open>A pass whose clean steps change a total by an amount that depends on the element only.\<close>

locale measured_pass =
  fixes step :: "'a \<Rightarrow> 's \<Rightarrow> ('s \<times> 'v list) option" and inv :: "'s \<Rightarrow> bool"
    and total :: "'s \<Rightarrow> int" and amount :: "'a \<Rightarrow> int"
  assumes inv_step: "inv s \<Longrightarrow> step x s = Some (t, []) \<Longrightarrow> inv t"
    and total_step: "inv s \<Longrightarrow> step x s = Some (t, []) \<Longrightarrow> total t = total s + amount x"
begin

sublocale clean_pass step inv
  by unfold_locales (rule inv_step)

lemma run_total:
  "inv s \<Longrightarrow> scan step xs s = Some (t, []) \<Longrightarrow> total t = total s + sum_list (map amount xs)"
proof (induction xs arbitrary: s)
  case (Cons x xs)
  then obtain u where u: "step x s = Some (u, [])" "scan step xs u = Some (t, [])"
    by (auto simp: scan_Cons_clean simp del: scan.simps(2))
  from Cons.IH [OF step_inv [OF Cons.prems(1) u(1)] u(2)] total_step [OF Cons.prems(1) u(1)]
  show ?case by simp
qed simp

end

text \<open>A step that implements a specification on an abstract state, for the elements and states in scope.\<close>

locale refined_pass =
  fixes step :: "'a \<Rightarrow> 's \<Rightarrow> ('s \<times> 'v list) option" and inv :: "'s \<Rightarrow> bool" and scope :: "'a \<Rightarrow> bool"
    and abs :: "'s \<Rightarrow> 't" and spec :: "'a \<Rightarrow> 't \<Rightarrow> 't"
  assumes refines: "inv s \<Longrightarrow> scope x \<Longrightarrow> step x s = Some (t, []) \<Longrightarrow> inv t \<and> abs t = spec x (abs s)"
begin

lemma run_refines:
  "inv s \<Longrightarrow> \<forall>x \<in> set xs. scope x \<Longrightarrow> scan step xs s = Some (t, []) \<Longrightarrow> inv t \<and> abs t = fold spec xs (abs s)"
proof (induction xs arbitrary: s)
  case (Cons x xs)
  then obtain u where u: "step x s = Some (u, [])" "scan step xs u = Some (t, [])"
    unfolding scan_Cons_clean by blast
  have "inv u" "abs u = spec x (abs s)" using refines [OF Cons.prems(1) _ u(1)] Cons.prems(2) by simp_all
  with Cons.IH [OF _ _ u(2)] Cons.prems(2) show ?case by simp
qed simp

end

end
