(* ===== verification/Verifier_Types.thy ===== *)
theory Verifier_Types
  imports Engine_Mm Passes "HOL-Library.List_Lexorder"
begin

text \<open>
  \<open>crates/sybil-verifier/src/types.rs\<close> and \<open>violations.rs\<close>: the block witness and the verdict.  Fixed byte
  arrays are byte lists, ordered lexicographically as in Rust.  A violation is its kind: the detail
  strings are diagnostics that no decision reads.
\<close>

type_synonym bytes = "byte list"

record KeyRecord =
  kr_auth_scheme :: u8
  kr_pubkey_sec1 :: bytes
  kr_capability_mask :: u32

definition FULL_CAPABILITY_MASK :: u32 where "FULL_CAPABILITY_MASK = u32_max"

definition canonical_sort_key :: "KeyRecord \<Rightarrow> bytes \<times> u8" where
  "canonical_sort_key k = (kr_pubkey_sec1 k, kr_auth_scheme k)"

text \<open>The authorization envelope: signer key, signature, and for WebAuthn the authenticator data and the
  client data.\<close>

datatype KeyOpAuth =
    RawP256 bytes bytes
  | WebAuthn bytes bytes bytes bytes

fun signer_pubkey :: "KeyOpAuth \<Rightarrow> bytes" where
  "signer_pubkey (RawP256 pk sig) = pk"
| "signer_pubkey (WebAuthn pk ad cd sig) = pk"

fun signer_auth_scheme :: "KeyOpAuth \<Rightarrow> u8" where
  "signer_auth_scheme (RawP256 pk sig) = 0"
| "signer_auth_scheme (WebAuthn pk ad cd sig) = 1"

record WitnessBlockHeader =
  h_height :: u64
  h_parent_hash :: bytes
  h_state_root :: bytes
  h_events_root :: bytes
  h_order_count :: u32
  h_fill_count :: u32
  h_timestamp_ms :: u64

record WitnessOrder =
  wo_order :: Order
  wo_account_id :: u64
  wo_is_mm :: bool

datatype RejectionReason =
    RInsufficientBalance i64 i64 \<comment> \<open>required, available\<close>
  | RInsufficientPosition MarketId u8 i64 i64 \<comment> \<open>market, outcome, required, available\<close>
  | RAccountNotFound
  | RCompleteSetFormation
  | RAtomicBundle
  | RInvalidOrder string
  | RExpired u64 u64 \<comment> \<open>current block, expires at block\<close>

record WitnessRejection =
  wr_order :: Order
  wr_account_id :: u64
  wr_reason :: RejectionReason

text \<open>Client actions: account, payload, nonce, authorization.\<close>

datatype ClientActionWitness =
    CaOrder u64 Order u64 KeyOpAuth
  | CaCancel u64 u64 u64 KeyOpAuth
  | CaMmBundle u64 bytes u64 "Order list" "MmSide list" Nanos u64 KeyOpAuth
  | CaMmBundleReplace u64 bytes u64 u64 "Order list" "MmSide list" Nanos u64 KeyOpAuth
  | CaMmBundleCancel u64 bytes u64 u64 KeyOpAuth

datatype WithdrawalRefundReasonWitness = L1Cancelled | L1Expired u64

datatype SystemEventWitness =
    CreateAccount u64 i64 "KeyRecord list"
  | Deposit u64 i64
  | L1Deposit u64 i64 u64 bytes bytes \<comment> \<open>account, amount, deposit id, deposit root, account key\<close>
  | WithdrawalCreated u64 i64 u64 bytes bytes u64 u64 bytes
      \<comment> \<open>account, amount, withdrawal id, recipient, token, token units, expiry height, nullifier\<close>
  | WithdrawalRefunded u64 u64 i64 WithdrawalRefundReasonWitness \<comment> \<open>account, withdrawal id, amount, reason\<close>
  | WithdrawalFinalized u64 u64 i64
  | L1BlockObserved u64
  | MarketResolved MarketId Nanos "u64 list"
  | OrderCancelled u64 u64 "MarketId list" OrderDirection u64
  | MarketGroupExtended u64 MarketId
  | KeyRegistered u64 KeyRecord KeyOpAuth
  | KeyRevoked u64 KeyRecord KeyOpAuth
  | DepositQuarantined i64 u64 bytes bytes \<comment> \<open>amount, deposit id, deposit root, account key\<close>
  | QuarantineClaimed u64 i64 bytes
  | ClientActionAuthorized ClientActionWitness

record L1DepositWitness =
  ld_deposit_id :: u64
  ld_chain_id :: u64
  ld_vault_address :: bytes
  ld_token_address :: bytes
  ld_sender :: bytes
  ld_sybil_account_key :: bytes
  ld_amount_token_units :: u64
  ld_deposit_root :: bytes

record DepositAccumulatorWitness =
  da_pre_frontier :: "bytes list"
  da_pre_count :: u64
  da_new_deposits :: "L1DepositWitness list"

record AccountSnapshot =
  as_id :: u64
  as_balance :: i64
  as_total_deposited :: i64
  as_positions :: "PositionDelta list"
  as_events_digest :: bytes
  as_keys_digest :: bytes
  as_last_trading_nonce :: u64

datatype OracleSourceSnapshot = OsAdmin | OsDataFeed u64

record ResolutionRecordSnapshot =
  rr_payout_nanos :: Nanos
  rr_resolved_by :: OracleSourceSnapshot
  rr_resolved_at_ms :: u64

datatype MarketStatusSnapshot = MsActive | MsResolved ResolutionRecordSnapshot

record MarketSnapshot =
  mks_market_id :: MarketId
  mks_name :: string
  mks_num_outcomes :: u8
  mks_status :: MarketStatusSnapshot
  mks_metadata_digest :: bytes
  mks_resolution_template :: string
  mks_last_clearing_prices :: "Nanos list"

record MarketGroupSnapshot =
  mgs_group_id :: u64
  mgs_name :: string
  mgs_creation_key :: "string option"
  mgs_markets :: "MarketId list"

record QuarantineEntrySnapshot =
  qe_sybil_account_key :: bytes
  qe_amount :: i64

record WithdrawalSnapshot =
  ws_withdrawal_id :: u64
  ws_account_id :: u64
  ws_recipient :: bytes
  ws_token :: bytes
  ws_amount_token_units :: u64
  ws_amount_nanos :: u64
  ws_expiry_height :: u64
  ws_nullifier :: bytes

record BridgeStateSnapshot =
  br_deposit_cursor :: u64
  br_deposit_root :: bytes
  br_observed_l1_height :: u64
  br_next_withdrawal_id :: u64
  br_withdrawals :: "WithdrawalSnapshot list"
  br_quarantine :: "QuarantineEntrySnapshot list"

record RestingOrderSnapshot =
  ro_order :: Order
  ro_account_id :: u64
  ro_created_at :: u64
  ro_expires_at_block :: u64
  ro_reserved_balance :: i64
  ro_reserved_positions :: "PositionDelta list"

record AccountReservationSnapshot =
  ar_account_id :: u64
  ar_reserved_balance :: i64
  ar_reserved_positions :: "PositionDelta list"

record StateSidecarSnapshot =
  sc_bridge :: BridgeStateSnapshot
  sc_markets :: "MarketSnapshot list"
  sc_market_groups :: "MarketGroupSnapshot list"
  sc_resting_orders :: "RestingOrderSnapshot list"
  sc_account_reservations :: "AccountReservationSnapshot list"

record BlockWitness =
  bw_header :: WitnessBlockHeader
  bw_previous_header :: "WitnessBlockHeader option"
  bw_genesis_hash :: bytes
  bw_orders :: "WitnessOrder list"
  bw_rejections :: "WitnessRejection list"
  bw_system_events :: "SystemEventWitness list"
  bw_deposit_accumulator :: DepositAccumulatorWitness
  bw_fills :: "Fill list"
  bw_clearing_prices :: Prices
  bw_total_welfare :: i64
  bw_minting_cost :: i64
  bw_mm_constraints :: "MmConstraint list"
  bw_market_groups :: "MarketGroup list"
  bw_pre_state :: "AccountSnapshot list"
  bw_post_system_state :: "AccountSnapshot list"
  bw_post_state :: "AccountSnapshot list"
  bw_account_keys :: "(u64 \<times> KeyRecord list) list"
  bw_state_sidecar :: StateSidecarSnapshot
  bw_pre_state_sidecar :: StateSidecarSnapshot
  bw_resolved_markets :: "MarketId list"

section \<open>Verdicts\<close>

datatype ViolationKind =
    OrderNotFound | QuantityExceedsMax | PriceExceedsLimit | DuplicateFill | NegativeWelfare
  | WelfareMismatch | MmBudgetExceeded | ZeroQuantityFill | UniformClearingPriceViolation
  | PriceComplementarityViolation | ResolvedMarketViolation | DuplicateOrderId
  | ConditionalActivationViolation | NegativeBalance | NegativePosition | SettlementBalanceMismatch
  | SettlementPositionMismatch | SettlementOverflow | FillAccountMismatch | SettlementAccountMismatch
  | SystemStateMismatch | KeyTransitionMismatch | ClientActionMismatch | MintingWithoutClearingPrice
  | StateRootMismatch | EventRootMismatch | ParentHashMismatch | HeightNotConsecutive
  | OrderCountMismatch | FillCountMismatch | GenesisParentHashNonZero | InsufficientBalance
  | InsufficientPosition | IntraBatchDoubleSpend | AcceptedOrderMissingAccount | OrderExpiryViolation
  | InvalidOrder | FalseRejection | IncorrectRejectionReason | SidecarReservationMismatch
  | SidecarRestingOrderMismatch | SidecarWithdrawalMismatch | SidecarDepositCursorMismatch
  | SidecarDepositRootMismatch | SidecarMarketStatusMismatch | SidecarMarketGroupMismatch
  | PreStateRootMismatch

record VerificationStats =
  st_fills_checked :: nat
  st_orders_checked :: nat
  st_mm_constraints_checked :: nat
  st_computed_welfare :: i64
  st_reported_welfare :: i64
  st_minting_cost_nanos :: i64
  st_accounts_checked :: nat
  st_market_group_avg_delta :: "u64 option"

definition stats_default :: VerificationStats where
  "stats_default = \<lparr> st_fills_checked = 0, st_orders_checked = 0, st_mm_constraints_checked = 0,
     st_computed_welfare = 0, st_reported_welfare = 0, st_minting_cost_nanos = 0,
     st_accounts_checked = 0, st_market_group_avg_delta = None \<rparr>"

definition stats_merge :: "VerificationStats \<Rightarrow> VerificationStats \<Rightarrow> VerificationStats" where
  "stats_merge a b = \<lparr>
     st_fills_checked = st_fills_checked a + st_fills_checked b,
     st_orders_checked = st_orders_checked a + st_orders_checked b,
     st_mm_constraints_checked = st_mm_constraints_checked a + st_mm_constraints_checked b,
     st_computed_welfare = (if st_computed_welfare b \<noteq> 0 then st_computed_welfare b else st_computed_welfare a),
     st_reported_welfare = (if st_reported_welfare b \<noteq> 0 then st_reported_welfare b else st_reported_welfare a),
     st_minting_cost_nanos = (if st_minting_cost_nanos b \<noteq> 0 then st_minting_cost_nanos b else st_minting_cost_nanos a),
     st_accounts_checked = st_accounts_checked a + st_accounts_checked b,
     st_market_group_avg_delta = (case st_market_group_avg_delta b of
        Some d \<Rightarrow> Some d | None \<Rightarrow> st_market_group_avg_delta a) \<rparr>"

record VerificationResult =
  vr_valid :: bool
  vr_violations :: "ViolationKind list"
  vr_stats :: VerificationStats

definition from_violations :: "ViolationKind list \<Rightarrow> VerificationResult" where
  "from_violations vs = \<lparr> vr_valid = (vs = []), vr_violations = vs, vr_stats = stats_default \<rparr>"

definition result_merge :: "VerificationResult \<Rightarrow> VerificationResult \<Rightarrow> VerificationResult" where
  "result_merge a b = \<lparr> vr_valid = (if \<not> vr_valid b then False else vr_valid a),
     vr_violations = vr_violations a @ vr_violations b, vr_stats = stats_merge (vr_stats a) (vr_stats b) \<rparr>"

lemma result_merge_valid [simp]: "vr_valid (result_merge a b) \<longleftrightarrow> vr_valid a \<and> vr_valid b"
  by (simp add: result_merge_def)

lemma from_violations_valid [simp]: "vr_valid (from_violations vs) \<longleftrightarrow> vs = []"
  by (simp add: from_violations_def)

end
