(* ===== verification/Encoding.thy ===== *)
theory Encoding
  imports Verifier_Types
begin

text \<open>
  Little-endian integers and the account-event encodings of \<open>crates/sybil-verifier/src/settlement.rs\<close> and
  \<open>system.rs\<close>.  An account's event digest is a hash chain over these encodings; blake3 is the parameter
  \<open>h\<close>.  The encodings of all account events together are injective: they start with distinct tags and
  every field has a fixed width or a length prefix.
\<close>

unbundle bit_operations_syntax

definition le_bytes :: "nat \<Rightarrow> 'a::len word \<Rightarrow> byte list" where
  "le_bytes n w = map (\<lambda>i. ucast (drop_bit (8 * i) w)) [0..<n]"

definition le64 :: "u64 \<Rightarrow> byte list" where "le64 w = le_bytes 8 w"
definition le32 :: "u32 \<Rightarrow> byte list" where "le32 w = le_bytes 4 w"
definition le_i64 :: "i64 \<Rightarrow> byte list" where "le_i64 x = le64 (bits64 x)"

type_synonym hash = "byte list \<Rightarrow> byte list"

definition update_digest :: "hash \<Rightarrow> bytes \<Rightarrow> bytes \<Rightarrow> bytes" where
  "update_digest h current event_bytes = h (current @ event_bytes)"

definition zero_digest :: bytes where "zero_digest = replicate 32 0"

section \<open>Events\<close>

definition encode_fill_event :: "u64 \<Rightarrow> u64 \<Rightarrow> u64 \<Rightarrow> u64 \<Rightarrow> bytes" where
  "encode_fill_event order_id fill_qty fill_price block_height =
     [0x01] @ le64 order_id @ le64 fill_qty @ le64 fill_price @ le64 block_height"

definition encode_mint_adjustment :: "MintAdjustment \<Rightarrow> bytes" where
  "encode_mint_adjustment a =
     le32 (ma_market_id a) @ [ma_outcome a] @ le_i64 (ma_position_delta a) @ le_i64 (ma_balance_delta a)"

definition encode_mint_event :: "MintAdjustment list \<Rightarrow> u64 \<Rightarrow> bytes" where
  "encode_mint_event adjustments block_height =
     [0x05] @ le64 (of_nat (length adjustments)) @ concat (map encode_mint_adjustment adjustments) @ le64 block_height"

definition encode_create_account_event :: "i64 \<Rightarrow> u64 \<Rightarrow> bytes" where
  "encode_create_account_event initial_balance block_height = [0x04] @ le_i64 initial_balance @ le64 block_height"

definition encode_deposit_event :: "i64 \<Rightarrow> u64 \<Rightarrow> bytes" where
  "encode_deposit_event amount block_height = [0x02] @ le_i64 amount @ le64 block_height"

definition encode_l1_deposit_event :: "u64 \<Rightarrow> i64 \<Rightarrow> bytes \<Rightarrow> u64 \<Rightarrow> bytes" where
  "encode_l1_deposit_event deposit_id amount deposit_root block_height =
     [0x06] @ le64 deposit_id @ le_i64 amount @ deposit_root @ le64 block_height"

definition encode_withdrawal_created_event :: "u64 \<Rightarrow> i64 \<Rightarrow> bytes \<Rightarrow> u64 \<Rightarrow> bytes" where
  "encode_withdrawal_created_event withdrawal_id amount nullifier block_height =
     [0x07] @ le64 withdrawal_id @ le_i64 amount @ nullifier @ le64 block_height"

fun encode_refund_reason :: "WithdrawalRefundReasonWitness \<Rightarrow> bytes" where
  "encode_refund_reason L1Cancelled = [0]"
| "encode_refund_reason (L1Expired observed_l1_height) = [1] @ le64 observed_l1_height"

definition encode_withdrawal_refunded_event ::
  "u64 \<Rightarrow> i64 \<Rightarrow> WithdrawalRefundReasonWitness \<Rightarrow> u64 \<Rightarrow> bytes"
where
  "encode_withdrawal_refunded_event withdrawal_id amount reason block_height =
     [0x09] @ le64 withdrawal_id @ le_i64 amount @ encode_refund_reason reason @ le64 block_height"

definition encode_resolution_event :: "MarketId \<Rightarrow> Nanos \<Rightarrow> u64 \<Rightarrow> bytes" where
  "encode_resolution_event market_id payout_nanos block_height =
     [0x03] @ le32 market_id @ le64 payout_nanos @ le64 block_height"

definition encode_order_cancelled_event ::
  "u64 \<Rightarrow> MarketId list \<Rightarrow> OrderDirection \<Rightarrow> u64 \<Rightarrow> u64 \<Rightarrow> bytes"
where
  "encode_order_cancelled_event order_id market_ids side remaining_quantity block_height =
     [0x08] @ le64 order_id @ le64 (of_nat (length market_ids)) @ concat (map le32 market_ids) @
     [direction_to_byte side] @ le64 remaining_quantity @ le64 block_height"

definition encode_key_event :: "u8 \<Rightarrow> KeyRecord \<Rightarrow> u64 \<Rightarrow> bytes" where
  "encode_key_event tag key block_height =
     [tag] @ [kr_auth_scheme key] @ kr_pubkey_sec1 key @ le32 (kr_capability_mask key) @ le64 block_height"

definition encode_quarantine_claimed_event :: "i64 \<Rightarrow> u64 \<Rightarrow> bytes" where
  "encode_quarantine_claimed_event amount block_height = [0x0c] @ le_i64 amount @ le64 block_height"

section \<open>Little-endian integers are injective\<close>

lemma length_le_bytes [simp]: "length (le_bytes n w) = n"
  by (simp add: le_bytes_def)

lemma le_lengths [simp]: "length (le64 w) = 8" "length (le32 v) = 4" "length (le_i64 x) = 8"
  by (simp_all add: le64_def le32_def le_i64_def)

lemma le_bytes_inj:
  fixes v w :: "'a::len word"
  assumes "le_bytes n v = le_bytes n w" "LENGTH('a) \<le> 8 * n"
  shows "v = w"
proof (rule bit_word_eqI)
  fix k assume k: "k < LENGTH('a)"
  let ?i = "k div 8"
  have "?i < n" using k assms(2) by simp
  then have "le_bytes n v ! ?i = le_bytes n w ! ?i" using assms(1) by simp
  then have "(ucast (drop_bit (8 * ?i) v) :: byte) = ucast (drop_bit (8 * ?i) w)"
    using \<open>?i < n\<close> by (simp add: le_bytes_def)
  then have "bit (ucast (drop_bit (8 * ?i) v) :: byte) (k mod 8) = bit (ucast (drop_bit (8 * ?i) w) :: byte) (k mod 8)"
    by simp
  then show "bit v k = bit w k" by (simp add: bit_ucast_iff bit_drop_bit_eq)
qed

lemma le64_inj [simp]: "le64 v = le64 w \<longleftrightarrow> v = w"
  using le_bytes_inj [of 8 v w] by (auto simp: le64_def)

lemma le32_inj [simp]: "le32 v = le32 w \<longleftrightarrow> v = w"
  using le_bytes_inj [of 4 v w] by (auto simp: le32_def)

lemma le_i64_inj [simp]: "le_i64 x = le_i64 y \<longleftrightarrow> x = y"
  by (cases x; cases y) (simp add: le_i64_def)

section \<open>Event encodings are injective\<close>

text \<open>The events that enter an account's digest.\<close>

datatype AccountEvent =
    EvFill u64 u64 u64 u64
  | EvDeposit i64 u64
  | EvResolution MarketId Nanos u64
  | EvCreateAccount i64 u64
  | EvMint "MintAdjustment list" u64
  | EvL1Deposit u64 i64 bytes u64
  | EvWithdrawalCreated u64 i64 bytes u64
  | EvOrderCancelled u64 "MarketId list" OrderDirection u64 u64
  | EvWithdrawalRefunded u64 i64 WithdrawalRefundReasonWitness u64
  | EvKeyRegistered KeyRecord u64
  | EvKeyRevoked KeyRecord u64
  | EvQuarantineClaimed i64 u64

fun encode_event :: "AccountEvent \<Rightarrow> bytes" where
  "encode_event (EvFill i q p b) = encode_fill_event i q p b"
| "encode_event (EvDeposit a b) = encode_deposit_event a b"
| "encode_event (EvResolution m p b) = encode_resolution_event m p b"
| "encode_event (EvCreateAccount a b) = encode_create_account_event a b"
| "encode_event (EvMint adjs b) = encode_mint_event adjs b"
| "encode_event (EvL1Deposit i a r b) = encode_l1_deposit_event i a r b"
| "encode_event (EvWithdrawalCreated i a n b) = encode_withdrawal_created_event i a n b"
| "encode_event (EvOrderCancelled i ms d q b) = encode_order_cancelled_event i ms d q b"
| "encode_event (EvWithdrawalRefunded i a r b) = encode_withdrawal_refunded_event i a r b"
| "encode_event (EvKeyRegistered k b) = encode_key_event 0x0a k b"
| "encode_event (EvKeyRevoked k b) = encode_key_event 0x0b k b"
| "encode_event (EvQuarantineClaimed a b) = encode_quarantine_claimed_event a b"

text \<open>Digests have 32 bytes, keys 33, and a list has fewer than \<open>2 ^ 64\<close> elements.\<close>

fun event_wf :: "AccountEvent \<Rightarrow> bool" where
  "event_wf (EvMint adjs b) \<longleftrightarrow> length adjs < 2 ^ 64"
| "event_wf (EvL1Deposit i a r b) \<longleftrightarrow> length r = 32"
| "event_wf (EvWithdrawalCreated i a n b) \<longleftrightarrow> length n = 32"
| "event_wf (EvOrderCancelled i ms d q b) \<longleftrightarrow> length ms < 2 ^ 64"
| "event_wf (EvKeyRegistered k b) \<longleftrightarrow> length (kr_pubkey_sec1 k) = 33"
| "event_wf (EvKeyRevoked k b) \<longleftrightarrow> length (kr_pubkey_sec1 k) = 33"
| "event_wf _ \<longleftrightarrow> True"

lemma concat_chunks_inj:
  assumes "length xs = length ys" "\<And>x. length (f x) = k" "\<And>x y. f x = f y \<Longrightarrow> x = y"
    "concat (map f xs) @ r = concat (map f ys) @ r'"
  shows "xs = ys \<and> r = r'"
  using assms(1,4)
proof (induction rule: list_induct2)
  case (Cons x xs y ys)
  then show ?case using assms(2,3) by (auto simp: append_eq_append_conv)
qed simp

lemma encode_mint_adjustment_inj: "encode_mint_adjustment a = encode_mint_adjustment b \<Longrightarrow> a = b"
  by (cases a; cases b) (simp add: encode_mint_adjustment_def)

lemma length_mint_adjustment: "length (encode_mint_adjustment a) = 21"
  by (simp add: encode_mint_adjustment_def)

lemma of_nat_u64_inj: "m < 2 ^ 64 \<Longrightarrow> n < 2 ^ 64 \<Longrightarrow> (of_nat m :: u64) = of_nat n \<longleftrightarrow> m = n"
  by (auto simp: word_unat_eq_iff unat_of_nat)

lemma encode_refund_reason_inj:
  "encode_refund_reason r @ le64 b = encode_refund_reason r' @ le64 b' \<Longrightarrow> r = r' \<and> b = b'"
  by (cases r; cases r') auto

lemma direction_to_byte_inj [simp]: "direction_to_byte d = direction_to_byte d' \<longleftrightarrow> d = d'"
  by (cases d; cases d') simp_all

lemmas encode_fixed_defs = encode_fill_event_def encode_create_account_event_def
  encode_deposit_event_def encode_l1_deposit_event_def encode_withdrawal_created_event_def
  encode_resolution_event_def encode_quarantine_claimed_event_def

lemmas encode_defs = encode_fill_event_def encode_mint_event_def encode_create_account_event_def
  encode_deposit_event_def encode_l1_deposit_event_def encode_withdrawal_created_event_def
  encode_withdrawal_refunded_event_def encode_resolution_event_def encode_order_cancelled_event_def
  encode_key_event_def encode_quarantine_claimed_event_def

lemma mint_event_inj:
  assumes "encode_mint_event xs b = encode_mint_event ys c" "length xs < 2 ^ 64" "length ys < 2 ^ 64"
  shows "xs = ys \<and> b = c"
proof -
  have e: "of_nat (length xs) = (of_nat (length ys) :: u64)"
    "concat (map encode_mint_adjustment xs) @ le64 b = concat (map encode_mint_adjustment ys) @ le64 c"
    using assms(1) by (simp_all add: encode_mint_event_def)
  then have "length xs = length ys" using assms(2,3) by (simp only: of_nat_u64_inj)
  from concat_chunks_inj [OF this length_mint_adjustment encode_mint_adjustment_inj e(2)] show ?thesis by simp
qed

lemma order_cancelled_event_inj:
  assumes "encode_order_cancelled_event i xs d q b = encode_order_cancelled_event j ys d' q' c"
    "length xs < 2 ^ 64" "length ys < 2 ^ 64"
  shows "i = j \<and> xs = ys \<and> d = d' \<and> q = q' \<and> b = c"
proof -
  have e: "i = j" "of_nat (length xs) = (of_nat (length ys) :: u64)"
    "concat (map le32 xs) @ [direction_to_byte d] @ le64 q @ le64 b =
     concat (map le32 ys) @ [direction_to_byte d'] @ le64 q' @ le64 c"
    using assms(1) by (simp_all add: encode_order_cancelled_event_def)
  then have "length xs = length ys" using assms(2,3) by (simp only: of_nat_u64_inj)
  moreover have "length (le32 x) = 4" for x by simp
  ultimately show ?thesis using concat_chunks_inj [OF _ _ _ e(3), of 4] e(1) by auto
qed

lemma withdrawal_refunded_event_inj:
  "encode_withdrawal_refunded_event i a r b = encode_withdrawal_refunded_event j a' r' c \<Longrightarrow>
     i = j \<and> a = a' \<and> r = r' \<and> b = c"
  using encode_refund_reason_inj [of r b r' c] by (simp add: encode_withdrawal_refunded_event_def)

lemma key_event_inj:
  assumes "encode_key_event t k b = encode_key_event t k' c" "length (kr_pubkey_sec1 k) = 33"
    "length (kr_pubkey_sec1 k') = 33"
  shows "k = k' \<and> b = c"
  using assms by (cases k; cases k') (simp add: encode_key_event_def)

fun event_tag :: "AccountEvent \<Rightarrow> byte" where
  "event_tag (EvFill i q p b) = 1"
| "event_tag (EvDeposit a b) = 2"
| "event_tag (EvResolution m p b) = 3"
| "event_tag (EvCreateAccount a b) = 4"
| "event_tag (EvMint adjs b) = 5"
| "event_tag (EvL1Deposit i a r b) = 6"
| "event_tag (EvWithdrawalCreated i a n b) = 7"
| "event_tag (EvOrderCancelled i ms d q b) = 8"
| "event_tag (EvWithdrawalRefunded i a r b) = 9"
| "event_tag (EvKeyRegistered k b) = 10"
| "event_tag (EvKeyRevoked k b) = 11"
| "event_tag (EvQuarantineClaimed a b) = 12"

lemma encode_event_tag: "hd (encode_event e) = event_tag e"
  by (cases e) (simp_all add: encode_defs)

section \<open>Properties\<close>

text \<open>C38: no two distinct account events have the same encoding, so an account's digest chain commits to
  the exact sequence of events as far as the hash does.\<close>

theorem event_encoding_injective:
  assumes "encode_event e = encode_event e'" "event_wf e" "event_wf e'"
  shows "e = e'"
proof -
  have t: "event_tag e = event_tag e'" using assms(1) encode_event_tag by metis
  show ?thesis
    using assms t
    by (cases e; cases e')
       (auto simp: encode_fixed_defs dest: mint_event_inj order_cancelled_event_inj
         withdrawal_refunded_event_inj key_event_inj)
qed

theorem event_encoding_injective_witness:
  "encode_event (EvOrderCancelled 7 [1, 2] SellNo 40 9) \<noteq> encode_event (EvOrderCancelled 7 [1] SellNo 40 9)"
  using event_encoding_injective [of "EvOrderCancelled 7 [1, 2] SellNo 40 9" "EvOrderCancelled 7 [1] SellNo 40 9"]
  by auto

end
