(* ===== verification/Account_Keys.thy ===== *)
theory Account_Keys
  imports Encoding "HOL-Library.Multiset"
begin

text \<open>
  \<open>crates/sybil-verifier/src/account_keys.rs\<close>: the digest of an account's key set and the byte strings a key
  operation or an escape claim authorizes.  Sha256 is the parameter \<open>sha\<close>; the pre-images are injective.
\<close>

definition ascii :: "string \<Rightarrow> bytes" where
  "ascii s = map (\<lambda>c. of_nat (of_char c)) s"

definition ACCOUNT_KEYS_DIGEST_DOMAIN :: bytes where
  "ACCOUNT_KEYS_DIGEST_DOMAIN = ascii ''sybil/state/account-keys-digest/v2''"

definition MAX_KEYS_PER_ACCOUNT :: nat where "MAX_KEYS_PER_ACCOUNT = 16"
definition MAX_KEY_OPS_PER_BLOCK :: nat where "MAX_KEY_OPS_PER_BLOCK = 64"

definition encode_key_record :: "KeyRecord \<Rightarrow> bytes" where
  "encode_key_record key = [kr_auth_scheme key] @ kr_pubkey_sec1 key @ le32 (kr_capability_mask key)"

definition account_keys_preimage :: "u64 \<Rightarrow> KeyRecord list \<Rightarrow> bytes" where
  "account_keys_preimage account_id keys =
     (let keys = sort_key canonical_sort_key keys
      in ACCOUNT_KEYS_DIGEST_DOMAIN @ le64 account_id @ le64 (of_nat (length keys)) @
         concat (map encode_key_record keys))"

definition account_keys_digest :: "hash \<Rightarrow> u64 \<Rightarrow> KeyRecord list \<Rightarrow> bytes" where
  "account_keys_digest sha account_id keys = sha (account_keys_preimage account_id keys)"

definition empty_account_keys_digest :: "hash \<Rightarrow> u64 \<Rightarrow> bytes" where
  "empty_account_keys_digest sha account_id = account_keys_digest sha account_id []"

definition canonical_key_op_bytes :: "bytes \<Rightarrow> bytes \<Rightarrow> u64 \<Rightarrow> KeyRecord \<Rightarrow> bytes \<Rightarrow> bytes \<Rightarrow> bytes" where
  "canonical_key_op_bytes domain genesis_hash account_id key bound_keys_digest bound_events_digest =
     domain @ genesis_hash @ le64 account_id @ encode_key_record key @ bound_keys_digest @ bound_events_digest"

definition canonical_key_registration_bytes :: "bytes \<Rightarrow> u64 \<Rightarrow> KeyRecord \<Rightarrow> bytes \<Rightarrow> bytes \<Rightarrow> bytes" where
  "canonical_key_registration_bytes = canonical_key_op_bytes (ascii ''sybil/keyop/register/v1'')"

definition canonical_key_revocation_bytes :: "bytes \<Rightarrow> u64 \<Rightarrow> KeyRecord \<Rightarrow> bytes \<Rightarrow> bytes \<Rightarrow> bytes" where
  "canonical_key_revocation_bytes = canonical_key_op_bytes (ascii ''sybil/keyop/revoke/v1'')"

definition canonical_escape_claim_bytes ::
  "bytes \<Rightarrow> u64 \<Rightarrow> bytes \<Rightarrow> bytes \<Rightarrow> u64 \<Rightarrow> u64 \<Rightarrow> bytes \<Rightarrow> u64 \<Rightarrow> bytes"
where
  "canonical_escape_claim_bytes genesis_hash chain_id vault_address state_root height account_id recipient
       amount_token_units =
     ascii ''sybil/escape-claim/v1'' @ genesis_hash @ le64 chain_id @ vault_address @ state_root @ le64 height @
     le64 account_id @ recipient @ le64 amount_token_units"

section \<open>The pre-images are injective\<close>

definition key_wf :: "KeyRecord \<Rightarrow> bool" where "key_wf k \<longleftrightarrow> length (kr_pubkey_sec1 k) = 33"

lemma encode_key_record_inj:
  "encode_key_record a = encode_key_record b \<Longrightarrow> key_wf a \<Longrightarrow> key_wf b \<Longrightarrow> a = b"
  by (cases a; cases b) (simp add: encode_key_record_def key_wf_def)

lemma length_encode_key_record: "key_wf a \<Longrightarrow> length (encode_key_record a) = 38"
  by (simp add: encode_key_record_def key_wf_def)

lemma concat_key_records_inj:
  "length xs = length ys \<Longrightarrow> \<forall>k \<in> set xs \<union> set ys. key_wf k \<Longrightarrow>
     concat (map encode_key_record xs) = concat (map encode_key_record ys) \<Longrightarrow> xs = ys"
proof (induction rule: list_induct2)
  case (Cons x xs y ys)
  then show ?case
    using length_encode_key_record [of x] length_encode_key_record [of y] encode_key_record_inj [of x y]
    by (auto simp: append_eq_append_conv)
qed simp

text \<open>Accounts with the same key-digest pre-image are the same account with the same set of keys, up to
  the order the keys are listed in, and the order does not change the pre-image when no two keys agree in
  public key and scheme.\<close>

theorem account_keys_preimage_canonical:
  assumes "\<forall>k \<in> set xs \<union> set ys. key_wf k" "length xs < 2 ^ 64" "length ys < 2 ^ 64"
    and "inj_on canonical_sort_key (set xs)"
  shows "account_keys_preimage i xs = account_keys_preimage j ys \<longleftrightarrow> i = j \<and> mset xs = mset ys"
proof
  assume eq: "account_keys_preimage i xs = account_keys_preimage j ys"
  let ?xs = "sort_key canonical_sort_key xs" and ?ys = "sort_key canonical_sort_key ys"
  have "i = j" "of_nat (length xs) = (of_nat (length ys) :: u64)"
    "concat (map encode_key_record ?xs) = concat (map encode_key_record ?ys)"
    using eq by (simp_all add: account_keys_preimage_def Let_def)
  moreover from this(2) have "length xs = length ys" using assms(2,3) by (simp only: of_nat_u64_inj)
  ultimately have "?xs = ?ys" using assms(1) by (intro concat_key_records_inj) auto
  then show "i = j \<and> mset xs = mset ys" using \<open>i = j\<close> by (metis mset_sort)
next
  assume "i = j \<and> mset xs = mset ys"
  moreover from this have "sort_key canonical_sort_key xs = sort_key canonical_sort_key ys"
    using assms(4) by (intro sort_key_inj_key_eq) simp_all
  ultimately show "account_keys_preimage i xs = account_keys_preimage j ys"
    by (simp add: account_keys_preimage_def)
qed

theorem account_keys_preimage_canonical_witness:
  "account_keys_preimage 7 [\<lparr> kr_auth_scheme = 1, kr_pubkey_sec1 = replicate 33 3, kr_capability_mask = u32_max \<rparr>,
                             \<lparr> kr_auth_scheme = 0, kr_pubkey_sec1 = replicate 33 2, kr_capability_mask = u32_max \<rparr>] =
   account_keys_preimage 7 [\<lparr> kr_auth_scheme = 0, kr_pubkey_sec1 = replicate 33 2, kr_capability_mask = u32_max \<rparr>,
                             \<lparr> kr_auth_scheme = 1, kr_pubkey_sec1 = replicate 33 3, kr_capability_mask = u32_max \<rparr>]"
  by (subst account_keys_preimage_canonical) (simp_all add: key_wf_def canonical_sort_key_def inj_on_def)

text \<open>A key operation is authorized for one kind of operation, deployment, account, key and pair of bound
  digests only: no other registration or revocation has the same bytes.\<close>

theorem key_op_bytes_injective:
  assumes "key_wf k" "key_wf k'" "length g = 32" "length g' = 32" "length kd = 32" "length kd' = 32"
  shows "canonical_key_registration_bytes g i k kd ed \<noteq> canonical_key_revocation_bytes g' i' k' kd' ed' \<and>
    (canonical_key_registration_bytes g i k kd ed = canonical_key_registration_bytes g' i' k' kd' ed' \<longrightarrow>
      g = g' \<and> i = i' \<and> k = k' \<and> kd = kd' \<and> ed = ed') \<and>
    (canonical_key_revocation_bytes g i k kd ed = canonical_key_revocation_bytes g' i' k' kd' ed' \<longrightarrow>
      g = g' \<and> i = i' \<and> k = k' \<and> kd = kd' \<and> ed = ed')"
  using assms length_encode_key_record [of k] length_encode_key_record [of k'] encode_key_record_inj [of k k']
  by (auto simp: canonical_key_registration_bytes_def canonical_key_revocation_bytes_def canonical_key_op_bytes_def
      ascii_def append_eq_append_conv)

theorem key_op_bytes_injective_witness:
  "canonical_key_registration_bytes (replicate 32 1) 7
     \<lparr> kr_auth_scheme = 0, kr_pubkey_sec1 = replicate 33 2, kr_capability_mask = u32_max \<rparr> (replicate 32 0) (replicate 32 0) \<noteq>
   canonical_key_revocation_bytes (replicate 32 1) 7
     \<lparr> kr_auth_scheme = 0, kr_pubkey_sec1 = replicate 33 2, kr_capability_mask = u32_max \<rparr> (replicate 32 0) (replicate 32 0)"
  by (intro conjunct1 [OF key_op_bytes_injective]) (simp_all add: key_wf_def)

end
