(* ===== verification/Sample_Block.thy ===== *)
theory Sample_Block
  imports Encoding
begin

text \<open>
  One concrete block on which the properties of the verifier layers are instantiated: two orders buy the two
  outcomes of market 0 at clearing prices 0.55 and 0.45, for 1.000 and 0.800 shares, and MINT takes
  the other side of the 0.200 share imbalance.  The hash of the event digests is instantiated by a
  constant function.
\<close>

definition sample_hash :: hash where "sample_hash bs = zero_digest"

definition sample_order_1 :: Order where "sample_order_1 = one_hot_order 1 0 BuyYes 600000000 1000"
definition sample_order_2 :: Order where "sample_order_2 = one_hot_order 2 0 BuyNo 450000000 1000"

definition sample_orders :: "WitnessOrder list" where
  "sample_orders = [\<lparr> wo_order = sample_order_1, wo_account_id = 1, wo_is_mm = False \<rparr>,
                    \<lparr> wo_order = sample_order_2, wo_account_id = 2, wo_is_mm = False \<rparr>]"

definition sample_fills :: "Fill list" where
  "sample_fills = [\<lparr> f_order_id = 1, f_fill_qty = 1000, f_fill_price = 550000000, f_account_id = 1 \<rparr>,
                   \<lparr> f_order_id = 2, f_fill_qty = 800, f_fill_price = 450000000, f_account_id = 2 \<rparr>]"

definition sample_prices :: Prices where
  "sample_prices = om_ins 0 [550000000, 450000000] om_empty"

definition snapshot :: "u64 \<Rightarrow> int \<Rightarrow> int \<Rightarrow> PositionDelta list \<Rightarrow> AccountSnapshot" where
  "snapshot i bal dep pos = \<lparr> as_id = i, as_balance = of_val bal, as_total_deposited = of_val dep, as_positions = pos,
     as_events_digest = zero_digest, as_keys_digest = zero_digest, as_last_trading_nonce = 0 \<rparr>"

definition sample_post_system :: "AccountSnapshot list" where
  "sample_post_system = [snapshot 1 2000000000 2000000000 [], snapshot 2 1000000000 1000000000 []]"

definition sample_post :: "AccountSnapshot list" where
  "sample_post = [snapshot 1 1450000000 2000000000 [(0, 0, of_val 1000)],
                  snapshot 2 640000000 1000000000 [(0, 1, of_val 800)],
                  snapshot u64_max 110000000 0 [(0, 0, of_val (- 200))]]"

definition sample_header :: WitnessBlockHeader where
  "sample_header = \<lparr> h_height = 5, h_parent_hash = zero_digest, h_state_root = zero_digest,
     h_events_root = zero_digest, h_order_count = 2, h_fill_count = 2, h_timestamp_ms = 0 \<rparr>"

definition sample_bridge :: BridgeStateSnapshot where
  "sample_bridge = \<lparr> br_deposit_cursor = 0, br_deposit_root = zero_digest, br_observed_l1_height = 0,
     br_next_withdrawal_id = 1, br_withdrawals = [], br_quarantine = [] \<rparr>"

definition sample_sidecar :: StateSidecarSnapshot where
  "sample_sidecar = \<lparr> sc_bridge = sample_bridge, sc_markets = [], sc_market_groups = [],
     sc_resting_orders = [], sc_account_reservations = [] \<rparr>"

definition sample_block :: BlockWitness where
  "sample_block = \<lparr> bw_header = sample_header, bw_previous_header = None, bw_genesis_hash = zero_digest,
     bw_orders = sample_orders, bw_rejections = [], bw_system_events = [],
     bw_deposit_accumulator = \<lparr> da_pre_frontier = replicate 32 zero_digest, da_pre_count = 0, da_new_deposits = [] \<rparr>,
     bw_fills = sample_fills, bw_clearing_prices = sample_prices, bw_total_welfare = of_val 50000000,
     bw_minting_cost = of_val 910000000,
     bw_mm_constraints = [\<lparr> mm_id = 1, mm_max_capital = 400000000, mm_order_ids = [2],
        mm_order_sides = om_ins 2 MmBuyNo om_empty \<rparr>],
     bw_market_groups = [], bw_pre_state = sample_post_system, bw_post_system_state = sample_post_system,
     bw_post_state = sample_post, bw_account_keys = [], bw_state_sidecar = sample_sidecar,
     bw_pre_state_sidecar = sample_sidecar, bw_resolved_markets = [] \<rparr>"

lemma sample_block_simps [simp]:
  "bw_header sample_block = sample_header" "bw_orders sample_block = sample_orders"
  "bw_fills sample_block = sample_fills" "bw_clearing_prices sample_block = sample_prices"
  "bw_total_welfare sample_block = of_val 50000000" "bw_minting_cost sample_block = of_val 910000000"
  "bw_mm_constraints sample_block = [\<lparr> mm_id = 1, mm_max_capital = 400000000, mm_order_ids = [2],
        mm_order_sides = om_ins 2 MmBuyNo om_empty \<rparr>]"
  "bw_market_groups sample_block = []" "bw_pre_state sample_block = sample_post_system"
  "bw_post_system_state sample_block = sample_post_system" "bw_post_state sample_block = sample_post"
  "bw_resolved_markets sample_block = []" "bw_system_events sample_block = []" "bw_rejections sample_block = []"
  "bw_state_sidecar sample_block = sample_sidecar" "bw_pre_state_sidecar sample_block = sample_sidecar"
  "h_height sample_header = 5"
  by (simp_all add: sample_block_def sample_header_def)

lemma sample_is_seller [simp]: "is_seller sample_order_1 = Some False" "is_seller sample_order_2 = Some False"
  using validated_is_seller [of sample_order_1 BuyYes] validated_is_seller [of sample_order_2 BuyNo]
  by (simp_all add: sample_order_1_def sample_order_2_def is_sell_direction_def)

lemma sample_order_fields [simp]:
  "o_id sample_order_1 = 1" "o_id sample_order_2 = 2"
  "o_limit_price sample_order_1 = 600000000" "o_limit_price sample_order_2 = 450000000"
  "o_max_fill sample_order_1 = 1000" "o_max_fill sample_order_2 = 1000"
  "o_condition sample_order_1 = None" "o_condition sample_order_2 = None"
  "order_wf sample_order_1" "order_wf sample_order_2"
  by (simp_all add: sample_order_1_def sample_order_2_def)

lemma sample_valid [simp]:
  "validate_binary_one_hot sample_order_1 = Ok ()" "validate_binary_one_hot sample_order_2 = Ok ()"
  by (simp_all add: sample_order_1_def sample_order_2_def one_hot_order_valid market_none_def u32_max_def
      NANOS_PER_DOLLAR_def MAX_ORDER_QTY_def SHARE_SCALE_def)

lemma sample_settlement [simp]:
  "compute_fill_settlement_checked sample_order_1
     \<lparr> f_order_id = 1, f_fill_qty = 1000, f_fill_price = 550000000, f_account_id = 1 \<rparr> =
   Some (Ok (Some \<lparr> sd_balance_delta = of_val (- 550000000), sd_position_deltas = [(0, 0, of_val 1000)] \<rparr>))"
  "compute_fill_settlement_checked sample_order_2
     \<lparr> f_order_id = 2, f_fill_qty = 800, f_fill_price = 450000000, f_account_id = 2 \<rparr> =
   Some (Ok (Some \<lparr> sd_balance_delta = of_val (- 360000000), sd_position_deltas = [(0, 1, of_val 800)] \<rparr>))"
proof -
  let ?f = "\<lparr> f_order_id = 1, f_fill_qty = 1000, f_fill_price = 550000000, f_account_id = 1 \<rparr>"
  let ?g = "\<lparr> f_order_id = 2, f_fill_qty = 800, f_fill_price = 450000000, f_account_id = 2 \<rparr>"
  note s = NANOS_PER_DOLLAR_def MAX_ORDER_QTY_def SHARE_SCALE_def
  show "compute_fill_settlement_checked sample_order_1 ?f =
     Some (Ok (Some \<lparr> sd_balance_delta = of_val (- 550000000), sd_position_deltas = [(0, 0, of_val 1000)] \<rparr>))"
    using settlement_one_hot [of sample_order_1 BuyYes ?f]
    by (simp add: s sample_order_1_def direction_sign_def is_sell_direction_def direction_outcome_def floor_notional_def
        one_hot_order_valid market_none_def u32_max_def)
  show "compute_fill_settlement_checked sample_order_2 ?g =
     Some (Ok (Some \<lparr> sd_balance_delta = of_val (- 360000000), sd_position_deltas = [(0, 1, of_val 800)] \<rparr>))"
    using settlement_one_hot [of sample_order_2 BuyNo ?g]
    by (simp add: s sample_order_2_def direction_sign_def is_sell_direction_def direction_outcome_def floor_notional_def
        one_hot_order_valid market_none_def u32_max_def)
qed

end
