(* ===== verification/Verifier_Settlement.thy ===== *)
theory Verifier_Settlement
  imports Sample_Block
begin

text \<open>
  \<open>crates/sybil-verifier/src/settlement.rs\<close>, layer 2 of block verification: the post-state is re-derived from
  the post-system state and the fills, MINT adjustments included, and compared with the claimed
  post-state.  The blake3 hash of the event digests is the parameter \<open>h\<close>.  The lemmas account for every
  nanodollar and every share of a block that passes.
\<close>

definition MINT_ID :: u64 where "MINT_ID = u64_max"

type_synonym Positions = "(MarketId \<times> u8, i64) omap"

record DerivedAccountState =
  dv_balance :: i64
  dv_total_deposited :: i64
  dv_positions :: Positions
  dv_events_digest :: bytes
  dv_last_trading_nonce :: u64

type_synonym Accounts = "(u64, DerivedAccountState) omap"

definition derived_default :: DerivedAccountState where
  "derived_default = \<lparr> dv_balance = 0, dv_total_deposited = 0, dv_positions = om_empty,
     dv_events_digest = zero_digest, dv_last_trading_nonce = 0 \<rparr>"

record DerivedSettlement =
  ds_accounts :: Accounts
  ds_violations :: "ViolationKind list"
  ds_accounts_checked :: nat
  ds_minting_cost :: i64
  ds_fill_balance_delta :: i64

section \<open>Replay of the fills\<close>

definition position_map :: "PositionDelta list \<Rightarrow> Positions" where
  "position_map positions = om_of_list (map (\<lambda>(m, out, q). ((m, out), q)) positions)"

definition derived_of_snapshot :: "AccountSnapshot \<Rightarrow> DerivedAccountState" where
  "derived_of_snapshot snap = \<lparr> dv_balance = as_balance snap, dv_total_deposited = as_total_deposited snap,
     dv_positions = position_map (as_positions snap), dv_events_digest = as_events_digest snap,
     dv_last_trading_nonce = as_last_trading_nonce snap \<rparr>"

definition initial_accounts :: "AccountSnapshot list \<Rightarrow> Accounts" where
  "initial_accounts snaps = om_of_list (map (\<lambda>snap. (as_id snap, derived_of_snapshot snap)) snaps)"

text \<open>An overflowing position keeps its value (zero if the entry is new) and is reported.\<close>

definition apply_position_delta :: "PositionDelta \<Rightarrow> Positions \<Rightarrow> (Positions \<times> ViolationKind list) option" where
  "apply_position_delta d pos = (case d of (m, out, q) \<Rightarrow>
     let entry = get_or pos (m, out) 0
     in Some (case add_i64 entry q of
          None \<Rightarrow> (om_ins (m, out) entry pos, [SettlementOverflow])
        | Some updated \<Rightarrow> (om_ins (m, out) updated pos, [])))"

definition apply_fill_delta ::
  "hash \<Rightarrow> u64 \<Rightarrow> Fill \<Rightarrow> u64 \<Rightarrow> SettlementDelta \<Rightarrow> Accounts \<times> i64 \<Rightarrow> ((Accounts \<times> i64) \<times> ViolationKind list) option"
where
  "apply_fill_delta h block_height fill account_id delta st = (case st of (accounts, fbd) \<Rightarrow>
     (let account = get_or accounts account_id derived_default
      in case add_i64 fbd (sd_balance_delta delta) of
           None \<Rightarrow> Some ((accounts, fbd), [SettlementOverflow])
         | Some fbd' \<Rightarrow>
             (case add_i64 (dv_balance account) (sd_balance_delta delta) of
                None \<Rightarrow> Some ((accounts, fbd'), [SettlementOverflow])
              | Some balance \<Rightarrow> do {
                  (pos, vs) \<leftarrow> scan apply_position_delta (sd_position_deltas delta) (dv_positions account);
                  let event = encode_fill_event (f_order_id fill) (f_fill_qty fill) (f_fill_price fill) block_height;
                  let account' = account\<lparr> dv_balance := balance, dv_positions := pos,
                        dv_events_digest := update_digest h (dv_events_digest account) event \<rparr>;
                  Some ((om_ins account_id account' accounts, fbd'), vs) })))"

definition derive_fill_step ::
  "hash \<Rightarrow> u64 \<Rightarrow> (u64, WitnessOrder) omap \<Rightarrow> Fill \<Rightarrow> Accounts \<times> i64 \<Rightarrow> ((Accounts \<times> i64) \<times> ViolationKind list) option"
where
  "derive_fill_step h block_height order_map fill st = (case st of (accounts, fbd) \<Rightarrow>
     (if f_fill_qty fill = 0 then Some (st, [])
      else case lookup order_map (f_order_id fill) of
        None \<Rightarrow> Some (st, [])
      | Some wo \<Rightarrow>
          (let v = flag (f_account_id fill \<noteq> 0 \<and> f_account_id fill \<noteq> wo_account_id wo) FillAccountMismatch;
               account_id = (if f_account_id fill \<noteq> 0 then f_account_id fill else wo_account_id wo);
               ord = wo_order wo
           in if NANOS_PER_DOLLAR < o_limit_price ord then Some (st, v @ [SettlementOverflow])
              else if NANOS_PER_DOLLAR < f_fill_price fill then Some (st, v @ [SettlementOverflow])
              else let accounts' = om_ins account_id (get_or accounts account_id derived_default) accounts
              in do {
                r \<leftarrow> compute_fill_settlement_checked ord fill;
                case r of
                  Err e \<Rightarrow> Some ((accounts', fbd), v @ [SettlementOverflow])
                | Ok None \<Rightarrow> Some ((accounts', fbd), v)
                | Ok (Some delta) \<Rightarrow> do {
                    (st', vs) \<leftarrow> apply_fill_delta h block_height fill account_id delta (accounts', fbd);
                    Some (st', v @ vs) } })))"

section \<open>Minting\<close>

text \<open>\<open>try_fold\<close> over the accounts; the iteration order is the one of the ordered map.\<close>

definition outcome_total :: "Accounts \<Rightarrow> MarketId \<Rightarrow> u8 \<Rightarrow> i64 option" where
  "outcome_total accounts m out =
     fold_opt (\<lambda>a s. add_i64 s (get_or (dv_positions a) (m, out) 0)) (om_values accounts) 0"

definition market_total_for_accounts :: "Accounts \<Rightarrow> MarketId \<Rightarrow> (MarketId \<times> i64 \<times> i64) option" where
  "market_total_for_accounts accounts m = do {
     total_yes \<leftarrow> outcome_total accounts m 0;
     total_no \<leftarrow> outcome_total accounts m 1;
     Some (m, total_yes, total_no) }"

definition all_markets :: "Accounts \<Rightarrow> MarketId list" where
  "all_markets accounts =
     sort (remdups (concat (map (\<lambda>a. map fst (om_keys (dv_positions a))) (om_values accounts))))"

definition derive_adjustments :: "Accounts \<Rightarrow> Prices \<Rightarrow> MintAdjustment list \<times> ViolationKind list" where
  "derive_adjustments accounts clearing_prices =
     (let (totals, v1) = (case map_opt (market_total_for_accounts accounts) (all_markets accounts) of
            Some ts \<Rightarrow> (ts, []) | None \<Rightarrow> ([], [SettlementOverflow]));
          (adjs, v2) = (case derive_minting_checked totals clearing_prices of
            Ok as \<Rightarrow> (as, []) | Err e \<Rightarrow> ([], [SettlementOverflow]))
      in (adjs, v1 @ v2))"

definition apply_adjustment ::
  "MintAdjustment \<Rightarrow> DerivedAccountState \<Rightarrow> (DerivedAccountState \<times> ViolationKind list) option"
where
  "apply_adjustment adj mint =
     (let key = (ma_market_id adj, ma_outcome adj);
          position = get_or (dv_positions mint) key 0
      in Some (case add_i64 position (ma_position_delta adj) of
           None \<Rightarrow> (mint\<lparr> dv_positions := om_ins key position (dv_positions mint) \<rparr>, [SettlementOverflow])
         | Some updated \<Rightarrow>
             let mint' = mint\<lparr> dv_positions := om_ins key updated (dv_positions mint) \<rparr>
             in case add_i64 (dv_balance mint') (ma_balance_delta adj) of
                  None \<Rightarrow> (mint', [SettlementOverflow])
                | Some balance \<Rightarrow> (mint'\<lparr> dv_balance := balance \<rparr>, [])))"

definition derive_mint ::
  "hash \<Rightarrow> u64 \<Rightarrow> MintAdjustment list \<Rightarrow> Accounts \<Rightarrow> (Accounts \<times> ViolationKind list) option"
where
  "derive_mint h block_height adjustments accounts =
     (if adjustments = [] then Some (accounts, [])
      else do {
        let mint = get_or accounts MINT_ID derived_default;
        let v = concat (map (\<lambda>adj. flag (ma_balance_delta adj = 0) MintingWithoutClearingPrice) adjustments);
        (mint', vs) \<leftarrow> scan apply_adjustment adjustments mint;
        let event = encode_mint_event adjustments block_height;
        let mint'' = mint'\<lparr> dv_events_digest := update_digest h (dv_events_digest mint') event \<rparr>;
        Some (om_ins MINT_ID mint'' accounts, v @ vs) })"

definition derived_minting_cost :: "i64 \<Rightarrow> i64 \<times> ViolationKind list" where
  "derived_minting_cost fbd = (case minting_cost_from_fill_balance_delta_checked fbd of
     Ok cost \<Rightarrow> (cost, []) | Err e \<Rightarrow> (0, [SettlementOverflow]))"

definition witness_order_entries :: "WitnessOrder list \<Rightarrow> (u64, WitnessOrder) omap" where
  "witness_order_entries orders = om_of_list (map (\<lambda>wo. (o_id (wo_order wo), wo)) orders)"

definition derive_post_state ::
  "hash \<Rightarrow> AccountSnapshot list \<Rightarrow> WitnessOrder list \<Rightarrow> Fill list \<Rightarrow> Prices \<Rightarrow> u64 \<Rightarrow> DerivedSettlement option"
where
  "derive_post_state h post_system_state orders fills clearing_prices block_height = do {
     ((accounts, fbd), v1) \<leftarrow> scan (derive_fill_step h block_height (witness_order_entries orders)) fills
        (initial_accounts post_system_state, 0);
     let (adjustments, v2) = derive_adjustments accounts clearing_prices;
     let (cost, v3) = derived_minting_cost fbd;
     (accounts', v4) \<leftarrow> derive_mint h block_height adjustments accounts;
     Some \<lparr> ds_accounts = accounts', ds_violations = v1 @ v2 @ v3 @ v4,
            ds_accounts_checked = length post_system_state, ds_minting_cost = cost,
            ds_fill_balance_delta = fbd \<rparr> }"

section \<open>Comparison with the claimed post-state\<close>

definition negative_balances :: "Accounts \<Rightarrow> ViolationKind list" where
  "negative_balances accounts =
     concat (map (\<lambda>(i, a). flag (dv_balance a < 0 \<and> i \<noteq> MINT_ID) NegativeBalance) (entries accounts))"

definition negative_positions :: "Accounts \<Rightarrow> ViolationKind list" where
  "negative_positions accounts =
     concat (map (\<lambda>(i, a). if i = MINT_ID then []
        else concat (map (\<lambda>q. flag (q < 0) NegativePosition) (om_values (dv_positions a)))) (entries accounts))"

definition compare_positions :: "Positions \<Rightarrow> Positions \<Rightarrow> ViolationKind list" where
  "compare_positions derived claimed =
     concat (map (\<lambda>key.
        let derived_qty = get_or derived key 0; claimed_qty = get_or claimed key 0
        in if derived_qty = 0 \<and> claimed_qty = 0 then []
           else flag (derived_qty \<noteq> claimed_qty) SettlementPositionMismatch)
      (om_keys derived @ filter (\<lambda>k. lookup derived k = None) (om_keys claimed)))"

definition compare_account :: "DerivedAccountState option \<Rightarrow> AccountSnapshot option \<Rightarrow> ViolationKind list" where
  "compare_account derived claimed =
     (let derived_balance = (case derived of Some a \<Rightarrow> dv_balance a | None \<Rightarrow> 0)
      in case claimed of
           Some c \<Rightarrow>
             flag (derived_balance \<noteq> as_balance c) SettlementBalanceMismatch @
             (case derived of
                None \<Rightarrow> []
              | Some a \<Rightarrow>
                  flag (dv_total_deposited a \<noteq> as_total_deposited c) SettlementAccountMismatch @
                  flag (dv_events_digest a \<noteq> as_events_digest c) SettlementAccountMismatch @
                  flag (dv_last_trading_nonce a \<noteq> as_last_trading_nonce c) SettlementAccountMismatch) @
             compare_positions (case derived of Some a \<Rightarrow> dv_positions a | None \<Rightarrow> om_empty)
               (position_map (as_positions c))
         | None \<Rightarrow>
             (let has_positions = (case derived of
                    Some a \<Rightarrow> list_ex (\<lambda>v. v \<noteq> 0) (om_values (dv_positions a)) | None \<Rightarrow> False)
              in flag (derived_balance \<noteq> 0 \<or> has_positions) SettlementAccountMismatch))"

definition snapshot_map :: "AccountSnapshot list \<Rightarrow> (u64, AccountSnapshot) omap" where
  "snapshot_map snaps = om_of_list (map (\<lambda>s. (as_id s, s)) snaps)"

definition compare_accounts :: "Accounts \<Rightarrow> (u64, AccountSnapshot) omap \<Rightarrow> ViolationKind list" where
  "compare_accounts derived post_map =
     concat (map (\<lambda>i. compare_account (lookup derived i) (lookup post_map i))
       (om_keys derived @ filter (\<lambda>k. lookup derived k = None) (om_keys post_map)))"

definition verify_settlement :: "hash \<Rightarrow> BlockWitness \<Rightarrow> VerificationResult option" where
  "verify_settlement h w = do {
     derived \<leftarrow> derive_post_state h (bw_post_system_state w) (bw_orders w) (bw_fills w)
        (bw_clearing_prices w) (h_height (bw_header w));
     let vs = ds_violations derived
            @ flag (ds_minting_cost derived \<noteq> bw_minting_cost w) WelfareMismatch
            @ negative_balances (ds_accounts derived)
            @ negative_positions (ds_accounts derived)
            @ compare_accounts (ds_accounts derived) (snapshot_map (bw_post_state w));
     Some \<lparr> vr_valid = (vs = []), vr_violations = vs,
            vr_stats = stats_default\<lparr> st_accounts_checked := ds_accounts_checked derived \<rparr> \<rparr> }"

section \<open>What a clean replay does\<close>

text \<open>The account of a derived state (a missing account is the default one), cash and position totals.\<close>

definition acct :: "Accounts \<Rightarrow> u64 \<Rightarrow> DerivedAccountState" where
  "acct accounts i = get_or accounts i derived_default"

definition pos_of :: "DerivedAccountState \<Rightarrow> MarketId \<Rightarrow> u8 \<Rightarrow> int" where
  "pos_of a m out = val (get_or (dv_positions a) (m, out) 0)"

definition cash_total :: "Accounts \<Rightarrow> int" where
  "cash_total accounts = om_sum (\<lambda>i a. val (dv_balance a)) accounts"

definition pos_total :: "MarketId \<Rightarrow> u8 \<Rightarrow> Accounts \<Rightarrow> int" where
  "pos_total m out accounts = om_sum (\<lambda>i a. pos_of a m out) accounts"

lemma derived_default_simps [simp]:
  "dv_balance derived_default = 0" "dv_positions derived_default = om_empty"
  "dv_total_deposited derived_default = 0" "dv_last_trading_nonce derived_default = 0"
  "pos_of derived_default m out = 0"
  by (simp_all add: derived_default_def pos_of_def)

text \<open>What one settlement adds to an outcome of a market.\<close>

definition delta_at :: "PositionDelta list \<Rightarrow> MarketId \<Rightarrow> u8 \<Rightarrow> int" where
  "delta_at ds m out = sum_list (map (\<lambda>(m', out', q). if m' = m \<and> out' = out then val q else 0) ds)"

interpretation pos_pass: measured_pass apply_position_delta "\<lambda>_. True" "\<lambda>pos. val (get_or pos (m, out) 0)"
    "\<lambda>(m', out', q). if m' = m \<and> out' = out then val q else 0" for m out
  by unfold_locales
     (auto simp: apply_position_delta_def num Let_def split: prod.splits option.splits)

lemma scan_positions:
  "scan apply_position_delta ds pos = Some (pos', []) \<Longrightarrow>
     val (get_or pos' (m, out) 0) = val (get_or pos (m, out) 0) + delta_at ds m out"
  using pos_pass.run_total by (simp add: delta_at_def)

text \<open>The account and the settlement of a fill of the replay.\<close>

definition settled_of :: "(u64, WitnessOrder) omap \<Rightarrow> Fill \<Rightarrow> (u64 \<times> SettlementDelta) option" where
  "settled_of order_map fill =
     (if f_fill_qty fill = 0 then None
      else case lookup order_map (f_order_id fill) of
        None \<Rightarrow> None
      | Some wo \<Rightarrow> (case compute_fill_settlement_checked (wo_order wo) fill of
          Some (Ok (Some delta)) \<Rightarrow> Some (wo_account_id wo, delta) | _ \<Rightarrow> None))"

definition fill_cash :: "(u64, WitnessOrder) omap \<Rightarrow> Fill \<Rightarrow> int" where
  "fill_cash om fill = (case settled_of om fill of Some (a, d) \<Rightarrow> val (sd_balance_delta d) | None \<Rightarrow> 0)"

definition fill_pos :: "(u64, WitnessOrder) omap \<Rightarrow> MarketId \<Rightarrow> u8 \<Rightarrow> Fill \<Rightarrow> int" where
  "fill_pos om m out fill =
     (case settled_of om fill of Some (a, d) \<Rightarrow> delta_at (sd_position_deltas d) m out | None \<Rightarrow> 0)"

definition fill_cash_of :: "(u64, WitnessOrder) omap \<Rightarrow> u64 \<Rightarrow> Fill \<Rightarrow> int" where
  "fill_cash_of om i fill =
     (case settled_of om fill of Some (a, d) \<Rightarrow> if a = i then val (sd_balance_delta d) else 0 | None \<Rightarrow> 0)"

definition fill_pos_of :: "(u64, WitnessOrder) omap \<Rightarrow> u64 \<Rightarrow> MarketId \<Rightarrow> u8 \<Rightarrow> Fill \<Rightarrow> int" where
  "fill_pos_of om i m out fill = (case settled_of om fill of
     Some (a, d) \<Rightarrow> if a = i then delta_at (sd_position_deltas d) m out else 0 | None \<Rightarrow> 0)"

lemma apply_fill_delta_clean:
  assumes "apply_fill_delta h ht fill i delta (accounts, fbd) = Some ((accounts', fbd'), [])"
  shows "\<exists>a. accounts' = om_ins i a accounts \<and> val fbd' = val fbd + val (sd_balance_delta delta) \<and>
    val (dv_balance a) = val (dv_balance (acct accounts i)) + val (sd_balance_delta delta) \<and>
    (\<forall>m out. pos_of a m out = pos_of (acct accounts i) m out + delta_at (sd_position_deltas delta) m out) \<and>
    dv_total_deposited a = dv_total_deposited (acct accounts i) \<and>
    dv_last_trading_nonce a = dv_last_trading_nonce (acct accounts i)"
proof -
  from assms obtain fb bal pos where f: "add_i64 fbd (sd_balance_delta delta) = Some fb"
    and b: "add_i64 (dv_balance (acct accounts i)) (sd_balance_delta delta) = Some bal"
    and p: "scan apply_position_delta (sd_position_deltas delta) (dv_positions (acct accounts i)) = Some (pos, [])"
    and eq: "fbd' = fb" "accounts' = om_ins i ((acct accounts i)\<lparr> dv_balance := bal, dv_positions := pos,
         dv_events_digest := update_digest h (dv_events_digest (acct accounts i))
           (encode_fill_event (f_order_id fill) (f_fill_qty fill) (f_fill_price fill) ht) \<rparr>) accounts"
    by (auto simp: apply_fill_delta_def acct_def opt Let_def split: option.splits)
  show ?thesis
    by (rule exI, intro conjI, rule eq(2))
       (use f b eq(1) scan_positions [OF p] in \<open>simp_all add: num pos_of_def\<close>)
qed

lemma derive_fill_step_clean:
  assumes "derive_fill_step h ht om fill (accounts, fbd) = Some ((accounts', fbd'), [])"
  shows "case settled_of om fill of
      None \<Rightarrow> fbd' = fbd \<and> (accounts' = accounts \<or> (\<exists>i. accounts' = om_ins i (acct accounts i) accounts))
    | Some (i, delta) \<Rightarrow> \<exists>a. accounts' = om_ins i a accounts \<and> val fbd' = val fbd + val (sd_balance_delta delta) \<and>
        val (dv_balance a) = val (dv_balance (acct accounts i)) + val (sd_balance_delta delta) \<and>
        (\<forall>m out. pos_of a m out = pos_of (acct accounts i) m out + delta_at (sd_position_deltas delta) m out) \<and>
        dv_total_deposited a = dv_total_deposited (acct accounts i) \<and>
        dv_last_trading_nonce a = dv_last_trading_nonce (acct accounts i)"
proof (cases "f_fill_qty fill = 0 \<or> lookup om (f_order_id fill) = None")
  case True
  then show ?thesis using assms by (auto simp: derive_fill_step_def settled_of_def split: option.splits)
next
  case False
  then obtain wo where wo: "f_fill_qty fill \<noteq> 0" "lookup om (f_order_id fill) = Some wo" by auto
  let ?i = "wo_account_id wo"
  let ?acc = "om_ins ?i (acct accounts ?i) accounts"
  have "compute_fill_settlement_checked (wo_order wo) fill \<noteq> None"
  proof
    assume "compute_fill_settlement_checked (wo_order wo) fill = None"
    with assms wo show False by (auto simp: derive_fill_step_def Let_def split: if_splits)
  qed
  then obtain r where r: "compute_fill_settlement_checked (wo_order wo) fill = Some r" by auto
  have m: "f_account_id fill = 0 \<or> f_account_id fill = ?i"
    using assms wo r by (cases r) (auto simp: derive_fill_step_def Let_def opt split: if_splits option.splits)
  have i: "(if f_account_id fill \<noteq> 0 then f_account_id fill else ?i) = ?i" using m by auto
  show ?thesis
  proof (cases "\<exists>delta. r = Ok (Some delta)")
    case True
    then obtain delta where d: "r = Ok (Some delta)" by blast
    from assms wo r d i have "apply_fill_delta h ht fill ?i delta (?acc, fbd) = Some ((accounts', fbd'), [])"
      by (auto simp: derive_fill_step_def Let_def acct_def opt split: if_splits)
    note a = apply_fill_delta_clean [OF this]
    have "om_ins ?i a ?acc = om_ins ?i a accounts" for a by (rule omap_eqI) simp
    moreover have "acct ?acc ?i = acct accounts ?i" by (simp add: acct_def)
    ultimately show ?thesis using a wo r d by (auto simp: settled_of_def)
  next
    case F: False
    then have "settled_of om fill = None"
      using wo r by (auto simp: settled_of_def split: result.splits option.splits)
    moreover from F assms wo r i have "accounts' = ?acc \<and> fbd' = fbd"
      by (auto simp: derive_fill_step_def Let_def acct_def opt split: if_splits result.splits option.splits)
    ultimately show ?thesis by auto
  qed
qed

lemma cash_total_ins: "cash_total (om_ins i a m) = cash_total m - val (dv_balance (acct m i)) + val (dv_balance a)"
  unfolding cash_total_def acct_def by (subst om_sum_ins_default [where d = derived_default]) simp_all

lemma pos_total_ins: "pos_total mk out (om_ins i a m) = pos_total mk out m - pos_of (acct m i) mk out + pos_of a mk out"
  unfolding pos_total_def acct_def by (subst om_sum_ins_default [where d = derived_default]) simp_all

lemma acct_ins: "acct (om_ins i a m) j = (if j = i then a else acct m j)"
  by (simp add: acct_def)

lemmas replay_simps = cash_total_ins pos_total_ins acct_ins fill_cash_def fill_pos_def fill_cash_of_def fill_pos_of_def

interpretation cash_pass: measured_pass "derive_fill_step h ht om" "\<lambda>_. True" "\<lambda>st. cash_total (fst st)" "fill_cash om"
  for h ht om
  by unfold_locales
     (auto simp: replay_simps dest!: derive_fill_step_clean split: option.splits prod.splits)

interpretation fbd_pass: measured_pass "derive_fill_step h ht om" "\<lambda>_. True" "\<lambda>st. val (snd st)" "fill_cash om"
  for h ht om
  by unfold_locales
     (auto simp: replay_simps dest!: derive_fill_step_clean split: option.splits prod.splits)

interpretation pos_total_pass: measured_pass "derive_fill_step h ht om" "\<lambda>_. True"
    "\<lambda>st. pos_total m out (fst st)" "fill_pos om m out" for h ht om m out
  by unfold_locales
     (auto simp: replay_simps dest!: derive_fill_step_clean split: option.splits prod.splits)

interpretation acct_cash_pass: measured_pass "derive_fill_step h ht om" "\<lambda>_. True"
    "\<lambda>st. val (dv_balance (acct (fst st) i))" "fill_cash_of om i" for h ht om i
  by unfold_locales
     (auto simp: replay_simps dest!: derive_fill_step_clean split: option.splits prod.splits)

interpretation acct_pos_pass: measured_pass "derive_fill_step h ht om" "\<lambda>_. True"
    "\<lambda>st. pos_of (acct (fst st) i) m out" "fill_pos_of om i m out" for h ht om i m out
  by unfold_locales
     (auto simp: replay_simps dest!: derive_fill_step_clean split: option.splits prod.splits)

section \<open>The minting stage\<close>

interpretation adj_cash_pass: measured_pass apply_adjustment "\<lambda>_. True" "\<lambda>a. val (dv_balance a)" "\<lambda>adj. val (ma_balance_delta adj)"
  by unfold_locales (auto simp: apply_adjustment_def num Let_def split: option.splits)

interpretation adj_pos_pass: measured_pass apply_adjustment "\<lambda>_. True" "\<lambda>a. pos_of a m out"
    "\<lambda>adj. if ma_market_id adj = m \<and> ma_outcome adj = out then val (ma_position_delta adj) else 0" for m out
  by unfold_locales (auto simp: apply_adjustment_def num pos_of_def Let_def split: option.splits)

lemma mint_delta_sum: "mint_delta adjs m out =
    sum_list (map (\<lambda>adj. if ma_market_id adj = m \<and> ma_outcome adj = out then val (ma_position_delta adj) else 0) adjs)"
  by (induction adjs) auto

definition mint_cash :: "MintAdjustment list \<Rightarrow> int" where
  "mint_cash adjs = sum_list (map (\<lambda>adj. val (ma_balance_delta adj)) adjs)"

lemma derive_mint_clean:
  assumes "derive_mint h ht adjs accounts = Some (accounts', [])"
  shows "cash_total accounts' = cash_total accounts + mint_cash adjs"
    "pos_total m out accounts' = pos_total m out accounts + mint_delta adjs m out"
    "i \<noteq> MINT_ID \<Longrightarrow> acct accounts' i = acct accounts i"
    "adj \<in> set adjs \<Longrightarrow> ma_balance_delta adj \<noteq> 0"
proof -
  have "cash_total accounts' = cash_total accounts + mint_cash adjs \<and>
    pos_total m out accounts' = pos_total m out accounts + mint_delta adjs m out \<and>
    (i \<noteq> MINT_ID \<longrightarrow> acct accounts' i = acct accounts i) \<and> (adj \<in> set adjs \<longrightarrow> ma_balance_delta adj \<noteq> 0)"
  proof (cases "adjs = []")
    case True
    then show ?thesis using assms by (simp add: mint_cash_def derive_mint_def)
  next
    case False
    obtain mint v where mint: "scan apply_adjustment adjs (acct accounts MINT_ID) = Some (mint, v)"
      and v: "concat (map (\<lambda>adj. flag (ma_balance_delta adj = 0) MintingWithoutClearingPrice) adjs) @ v = []"
      and eq: "accounts' = om_ins MINT_ID (mint\<lparr> dv_events_digest :=
         update_digest h (dv_events_digest mint) (encode_mint_event adjs ht) \<rparr>) accounts"
      using assms False unfolding derive_mint_def acct_def
      by (simp add: opt Let_def split: prod.splits) blast
    have v0: "v = []" "\<forall>adj \<in> set adjs. ma_balance_delta adj \<noteq> 0" using v by auto
    note mint = mint [unfolded v0(1)]
    let ?a = "mint\<lparr> dv_events_digest := update_digest h (dv_events_digest mint) (encode_mint_event adjs ht) \<rparr>"
    have "val (dv_balance ?a) = val (dv_balance (acct accounts MINT_ID)) + mint_cash adjs"
      using adj_cash_pass.run_total [OF _ mint] by (simp add: mint_cash_def)
    moreover have "pos_of ?a m out = pos_of (acct accounts MINT_ID) m out + mint_delta adjs m out"
      using adj_pos_pass.run_total [OF _ mint, of m out] by (simp add: mint_delta_sum pos_of_def)
    ultimately show ?thesis using eq v0(2) by (simp add: replay_simps)
  qed
  then show "cash_total accounts' = cash_total accounts + mint_cash adjs"
    "pos_total m out accounts' = pos_total m out accounts + mint_delta adjs m out"
    "i \<noteq> MINT_ID \<Longrightarrow> acct accounts' i = acct accounts i"
    "adj \<in> set adjs \<Longrightarrow> ma_balance_delta adj \<noteq> 0" by blast+
qed

lemma outcome_total_val: "outcome_total accounts m out = Some t \<Longrightarrow> val t = pos_total m out accounts"
proof -
  have *: "fold_opt (\<lambda>a s. add_i64 s (get_or (dv_positions a) (m, out) 0)) xs s = Some t \<Longrightarrow>
      val t = val s + sum_list (map (\<lambda>a. pos_of a m out) xs)" for xs s
    by (induction xs arbitrary: s) (auto simp: opt num pos_of_def)
  assume "outcome_total accounts m out = Some t"
  with * [of "om_values accounts" 0] show ?thesis
    by (simp add: outcome_total_def pos_total_def om_sum_def om_values_def comp_def case_prod_unfold)
qed

lemma pos_total_other: "m \<notin> set (all_markets accounts) \<Longrightarrow> pos_total m out accounts = 0"
proof -
  assume m: "m \<notin> set (all_markets accounts)"
  have "pos_of a m out = 0" if "lookup accounts i = Some a" for i a
  proof -
    have "a \<in> set (om_values accounts)" using that by (auto simp: in_om_values)
    with m have "m \<notin> fst ` set (om_keys (dv_positions a))" by (auto simp: all_markets_def)
    then have "(m, out) \<notin> set (om_keys (dv_positions a))" by (metis fst_conv image_eqI)
    then have "lookup (dv_positions a) (m, out) = None" by (simp add: in_om_keys)
    then show ?thesis by (simp add: pos_of_def get_or_def)
  qed
  then show ?thesis unfolding pos_total_def by (rule om_sum_zero)
qed

lemma derive_adjustments_clean:
  assumes "derive_adjustments accounts prices = (adjs, [])"
  shows "pos_total m 0 accounts + mint_delta adjs m 0 = pos_total m 1 accounts + mint_delta adjs m 1"
    "adj \<in> set adjs \<Longrightarrow> val (ma_position_delta adj) < 0 \<and> 0 \<le> val (ma_balance_delta adj)"
proof -
  from assms obtain totals where t: "map_opt (market_total_for_accounts accounts) (all_markets accounts) = Some totals"
    and d: "derive_minting_checked totals prices = Ok adjs"
    by (auto simp: derive_adjustments_def Let_def split: option.splits result.splits)
  have rel: "list_all2 (\<lambda>m e. market_total_for_accounts accounts m = Some e) (all_markets accounts) totals"
    using t by (simp add: map_opt_eq_Some)
  have ids: "map fst totals = all_markets accounts"
    using rel by (induction rule: list_all2_induct) (auto simp: market_total_for_accounts_def opt)
  have dist: "distinct (map fst totals)" by (simp add: ids all_markets_def)
  show "adj \<in> set adjs \<Longrightarrow> val (ma_position_delta adj) < 0 \<and> 0 \<le> val (ma_balance_delta adj)"
    using derive_minting_signs [OF d] by blast
  show "pos_total m 0 accounts + mint_delta adjs m 0 = pos_total m 1 accounts + mint_delta adjs m 1"
  proof (cases "m \<in> set (all_markets accounts)")
    case True
    with rel obtain e where e: "e \<in> set totals" "market_total_for_accounts accounts m = Some e"
      by (metis (mono_tags, lifting) in_set_conv_nth list_all2_conv_all_nth)
    from e(2) obtain y n where yn: "e = (m, y, n)" "val y = pos_total m 0 accounts" "val n = pos_total m 1 accounts"
      by (auto simp: market_total_for_accounts_def opt dest: outcome_total_val)
    from derive_minting_balances [OF d dist e(1) [unfolded yn(1)]] yn show ?thesis by simp
  next
    case False
    then have "m \<notin> ma_market_id ` set adjs"
      using derive_minting_markets [OF d] ids by (metis imageE list.set_map)
    with False show ?thesis by (simp add: pos_total_other mint_delta_absent)
  qed
qed

section \<open>The comparison\<close>

definition claimed_balance :: "(u64, AccountSnapshot) omap \<Rightarrow> u64 \<Rightarrow> int" where
  "claimed_balance m i = (case lookup m i of Some c \<Rightarrow> val (as_balance c) | None \<Rightarrow> 0)"

definition claimed_pos :: "(u64, AccountSnapshot) omap \<Rightarrow> u64 \<Rightarrow> MarketId \<Rightarrow> u8 \<Rightarrow> int" where
  "claimed_pos m i mk out = (case lookup m i of
     Some c \<Rightarrow> val (get_or (position_map (as_positions c)) (mk, out) 0) | None \<Rightarrow> 0)"

lemma compare_positions_clean: "compare_positions d c = [] \<Longrightarrow> get_or d k 0 = get_or c k 0"
proof (cases "lookup d k = None \<and> lookup c k = None")
  case False
  assume "compare_positions d c = []"
  moreover have "k \<in> set (om_keys d @ filter (\<lambda>k. lookup d k = None) (om_keys c))"
    using False by (auto simp: in_om_keys)
  ultimately have "(if get_or d k 0 = 0 \<and> get_or c k 0 = 0 then []
      else flag (get_or d k 0 \<noteq> get_or c k 0) SettlementPositionMismatch) = []"
    unfolding compare_positions_def concat_map_Nil Let_def by blast
  then show ?thesis by (simp split: if_splits)
qed (simp add: get_or_def)

lemma compare_accounts_clean:
  assumes "compare_accounts d m = []"
  shows "claimed_balance m i = val (dv_balance (acct d i))" "claimed_pos m i mk out = pos_of (acct d i) mk out"
    "lookup m i = Some c \<Longrightarrow> lookup d i = Some a \<Longrightarrow> as_total_deposited c = dv_total_deposited a \<and>
       as_events_digest c = dv_events_digest a \<and> as_last_trading_nonce c = dv_last_trading_nonce a"
proof -
  have cmp: "compare_account (lookup d i) (lookup m i) = []"
  proof (cases "lookup d i = None \<and> lookup m i = None")
    case False
    then have "i \<in> set (om_keys d @ filter (\<lambda>k. lookup d k = None) (om_keys m))" by (auto simp: in_om_keys)
    with assms show ?thesis unfolding compare_accounts_def concat_map_Nil by blast
  qed (simp add: compare_account_def)
  then show "claimed_balance m i = val (dv_balance (acct d i))"
    by (auto simp: compare_account_def claimed_balance_def acct_def get_or_def Let_def split: option.splits)
  show "claimed_pos m i mk out = pos_of (acct d i) mk out"
  proof (cases "lookup m i")
    case None
    have "get_or (dv_positions a) (mk, out) 0 = 0" if "lookup d i = Some a" for a
    proof (cases "lookup (dv_positions a) (mk, out)")
      case (Some q)
      then have "q \<in> set (om_values (dv_positions a))" by (auto simp: in_om_values)
      with cmp None that Some show ?thesis by (auto simp: compare_account_def get_or_def list_ex_iff)
    qed (simp add: get_or_def)
    with None show ?thesis
      by (cases "lookup d i") (simp_all add: claimed_pos_def acct_def get_or_def [of d] pos_of_def derived_default_def)
  next
    case (Some c)
    with cmp have "compare_positions (case lookup d i of Some a \<Rightarrow> dv_positions a | None \<Rightarrow> om_empty)
        (position_map (as_positions c)) = []" by (simp add: compare_account_def Let_def)
    from compare_positions_clean [OF this, of "(mk, out)"] Some show ?thesis
      by (cases "lookup d i") (simp_all add: claimed_pos_def acct_def get_or_def [of d] pos_of_def derived_default_def)
  qed
  show "lookup m i = Some c \<Longrightarrow> lookup d i = Some a \<Longrightarrow> as_total_deposited c = dv_total_deposited a \<and>
       as_events_digest c = dv_events_digest a \<and> as_last_trading_nonce c = dv_last_trading_nonce a"
    using cmp by (simp add: compare_account_def Let_def)
qed

section \<open>A settlement that passes\<close>

lemma verify_settlement_parts:
  assumes "verify_settlement h w = Some r" "vr_valid r"
  obtains accounts fbd adjs accounts' where
    "scan (derive_fill_step h (h_height (bw_header w)) (witness_order_entries (bw_orders w))) (bw_fills w)
       (initial_accounts (bw_post_system_state w), 0) = Some ((accounts, fbd), [])"
    "derive_adjustments accounts (bw_clearing_prices w) = (adjs, [])"
    "val (bw_minting_cost w) = - val fbd"
    "derive_mint h (h_height (bw_header w)) adjs accounts = Some (accounts', [])"
    "negative_balances accounts' = []" "negative_positions accounts' = []"
    "compare_accounts accounts' (snapshot_map (bw_post_state w)) = []"
proof -
  obtain d where d: "derive_post_state h (bw_post_system_state w) (bw_orders w) (bw_fills w)
        (bw_clearing_prices w) (h_height (bw_header w)) = Some d"
    and c: "ds_violations d = []" "ds_minting_cost d = bw_minting_cost w"
      "negative_balances (ds_accounts d) = []" "negative_positions (ds_accounts d) = []"
      "compare_accounts (ds_accounts d) (snapshot_map (bw_post_state w)) = []"
    using assms by (auto simp: verify_settlement_def opt Let_def)
  obtain st v1 accounts' v4 where s: "scan (derive_fill_step h (h_height (bw_header w)) (witness_order_entries (bw_orders w)))
        (bw_fills w) (initial_accounts (bw_post_system_state w), 0) = Some (st, v1)"
    and m: "derive_mint h (h_height (bw_header w)) (fst (derive_adjustments (fst st) (bw_clearing_prices w))) (fst st)
        = Some (accounts', v4)"
    and eq: "ds_accounts d = accounts'" "ds_minting_cost d = fst (derived_minting_cost (snd st))"
      "ds_violations d = v1 @ snd (derive_adjustments (fst st) (bw_clearing_prices w)) @ snd (derived_minting_cost (snd st)) @ v4"
    using d by (auto simp: derive_post_state_def opt Let_def case_prod_beta)
  have "val (bw_minting_cost w) = - val (snd st)"
    using c(1,2) eq(2,3)
    by (auto simp: derived_minting_cost_def minting_cost_from_fill_balance_delta_checked_def num opt split: result.splits)
  then show ?thesis
    using s m eq c by (intro that [of "fst st" "snd st" "fst (derive_adjustments (fst st) (bw_clearing_prices w))" accounts'])
      (auto simp: prod_eq_iff)
qed

lemma initial_acct:
  "val (dv_balance (acct (initial_accounts snaps) i)) = claimed_balance (snapshot_map snaps) i"
  "pos_of (acct (initial_accounts snaps) i) m out = claimed_pos (snapshot_map snaps) i m out"
proof -
  have *: "lookup (initial_accounts snaps) i = map_option derived_of_snapshot (lookup (snapshot_map snaps) i)"
    unfolding initial_accounts_def snapshot_map_def lookup_om_of_list
    by (induction snaps rule: rev_induct) auto
  show "val (dv_balance (acct (initial_accounts snaps) i)) = claimed_balance (snapshot_map snaps) i"
    "pos_of (acct (initial_accounts snaps) i) m out = claimed_pos (snapshot_map snaps) i m out"
    using *
    by (auto simp: acct_def get_or_def [of "initial_accounts snaps"] claimed_balance_def claimed_pos_def
        derived_of_snapshot_def pos_of_def split: option.splits)
qed

lemma claimed_pos_total:
  assumes "\<And>i. claimed_pos m i mk out = pos_of (acct accounts i) mk out"
  shows "om_sum (\<lambda>i c. claimed_pos m i mk out) m = pos_total mk out accounts"
  unfolding pos_total_def
proof (rule om_sum_eqI)
  fix i show "contrib (\<lambda>i c. claimed_pos m i mk out) m i = contrib (\<lambda>i a. pos_of a mk out) accounts i"
    using assms [of i]
    by (cases "lookup m i"; cases "lookup accounts i")
       (simp_all add: contrib_def claimed_pos_def acct_def get_or_def [of accounts])
qed

lemma negative_balances_clean:
  "negative_balances accounts = [] \<Longrightarrow> i \<noteq> MINT_ID \<Longrightarrow> 0 \<le> val (dv_balance (acct accounts i))"
proof (cases "lookup accounts i")
  case (Some a)
  then have "(i, a) \<in> set (entries accounts)" by simp
  moreover assume "negative_balances accounts = []" "i \<noteq> MINT_ID"
  ultimately have "\<not> dv_balance a < 0" unfolding negative_balances_def concat_map_Nil by fastforce
  with Some show ?thesis by (simp add: acct_def get_or_def less_i64_def)
qed (simp add: acct_def get_or_def)

lemma negative_positions_clean:
  assumes "negative_positions accounts = []" "i \<noteq> MINT_ID"
  shows "0 \<le> pos_of (acct accounts i) m out"
proof (cases "lookup accounts i")
  case (Some a)
  then have "(i, a) \<in> set (entries accounts)" by simp
  with assms have *: "concat (map (\<lambda>q. flag (q < 0) NegativePosition) (om_values (dv_positions a))) = []"
    unfolding negative_positions_def concat_map_Nil by fastforce
  show ?thesis
  proof (cases "lookup (dv_positions a) (m, out)")
    case (Some q)
    then have "q \<in> set (om_values (dv_positions a))" by (auto simp: in_om_values)
    with * have "\<not> q < 0" by auto
    then show ?thesis using Some \<open>lookup accounts i = Some a\<close>
      by (simp add: acct_def get_or_def pos_of_def less_i64_def)
  qed (simp add: acct_def get_or_def pos_of_def Some)
qed (simp add: acct_def get_or_def)

text \<open>The cash of every account but MINT.\<close>

definition trader_cash :: "AccountSnapshot list \<Rightarrow> int" where
  "trader_cash snaps = om_sum (\<lambda>i c. if i = MINT_ID then 0 else val (as_balance c)) (snapshot_map snaps)"

lemma trader_cash_eq:
  assumes "\<And>i. claimed_balance (snapshot_map snaps) i = val (dv_balance (acct accounts i))"
  shows "trader_cash snaps = cash_total accounts - claimed_balance (snapshot_map snaps) MINT_ID"
proof -
  have "om_sum (\<lambda>i c. val (as_balance c)) (snapshot_map snaps) = cash_total accounts"
    unfolding cash_total_def
  proof (rule om_sum_eqI)
    fix i show "contrib (\<lambda>i c. val (as_balance c)) (snapshot_map snaps) i = contrib (\<lambda>i a. val (dv_balance a)) accounts i"
      using assms [of i]
      by (cases "lookup (snapshot_map snaps) i"; cases "lookup accounts i")
         (simp_all add: contrib_def claimed_balance_def acct_def get_or_def [of accounts])
  qed
  then show ?thesis by (simp add: trader_cash_def om_sum_except claimed_balance_def)
qed

lemma mint_not_settled:
  assumes "\<forall>wo \<in> set orders. wo_account_id wo \<noteq> i"
  shows "fill_cash_of (witness_order_entries orders) i f = 0"
proof -
  have "wo_account_id wo \<noteq> i" if "lookup (witness_order_entries orders) k = Some wo" for k wo
    using assms lookup_om_of_list_in [OF that [unfolded witness_order_entries_def]] by auto
  then show ?thesis by (auto simp: fill_cash_of_def settled_of_def split: option.splits result.splits prod.splits)
qed

lemma derive_mint_balance:
  assumes "derive_mint h ht adjs accounts = Some (accounts', [])"
  shows "val (dv_balance (acct accounts' MINT_ID)) = val (dv_balance (acct accounts MINT_ID)) + mint_cash adjs"
proof (cases "adjs = []")
  case False
  obtain mint v where "scan apply_adjustment adjs (acct accounts MINT_ID) = Some (mint, v)" "v = []"
    and "accounts' = om_ins MINT_ID (mint\<lparr> dv_events_digest :=
       update_digest h (dv_events_digest mint) (encode_mint_event adjs ht) \<rparr>) accounts"
    using assms False unfolding derive_mint_def acct_def
    by (simp add: opt Let_def split: prod.splits) blast
  then show ?thesis using adj_cash_pass.run_total by (simp add: mint_cash_def acct_ins)
qed (use assms in \<open>simp add: derive_mint_def mint_cash_def\<close>)

section \<open>Properties\<close>

lemma sample_settled: "\<exists>r. verify_settlement sample_hash sample_block = Some r \<and> vr_valid r"
proof -
  note e = witness_order_entries_def sample_orders_def om_of_list_def sample_fills_def
  have l: "lookup (witness_order_entries sample_orders) 1 = Some (sample_orders ! 0)"
    "lookup (witness_order_entries sample_orders) 2 = Some (sample_orders ! 1)"
    by (simp_all add: e)
  let ?a = "\<lambda>b dep p. \<lparr> dv_balance = of_val b, dv_total_deposited = of_val dep, dv_positions = p,
     dv_events_digest = zero_digest, dv_last_trading_nonce = 0 \<rparr>"
  define a1 where "a1 = ?a 1450000000 2000000000 (om_ins (0, 0) (of_val 1000) om_empty)"
  define a2 where "a2 = ?a 640000000 1000000000 (om_ins (0, 1) (of_val 800) om_empty)"
  define accounts :: Accounts where "accounts = om_ins 1 a1 (om_ins 2 a2 om_empty)"
  have i: "initial_accounts sample_post_system =
      om_ins 1 (?a 2000000000 2000000000 om_empty) (om_ins 2 (?a 1000000000 1000000000 om_empty) om_empty)"
    by (rule omap_eqI) (simp add: initial_accounts_def sample_post_system_def om_of_list_def snapshot_def
        derived_of_snapshot_def position_map_def)
  have step1: "derive_fill_step sample_hash 5 (witness_order_entries sample_orders) (sample_fills ! 0)
      (initial_accounts sample_post_system, 0) =
      Some ((om_ins 1 a1 (om_ins 2 (?a 1000000000 1000000000 om_empty) om_empty), of_val (- 550000000)), [])"
    by (simp add: derive_fill_step_def apply_fill_delta_def l i e NANOS_PER_DOLLAR_def a1_def Let_def add_i64_def i64_of_def
        fits_i64_def apply_position_delta_def update_digest_def sample_hash_def flag_def omap_eq_iff)
  have step2: "derive_fill_step sample_hash 5 (witness_order_entries sample_orders) (sample_fills ! 1)
      (om_ins 1 a1 (om_ins 2 (?a 1000000000 1000000000 om_empty) om_empty), of_val (- 550000000)) =
      Some ((accounts, of_val (- 910000000)), [])"
    by (simp add: derive_fill_step_def apply_fill_delta_def l e NANOS_PER_DOLLAR_def a2_def accounts_def Let_def add_i64_def
        i64_of_def fits_i64_def apply_position_delta_def update_digest_def sample_hash_def flag_def omap_eq_iff)
  have fills: "scan (derive_fill_step sample_hash 5 (witness_order_entries sample_orders)) sample_fills
      (initial_accounts sample_post_system, 0) = Some ((accounts, of_val (- 910000000)), [])"
    using step1 step2 by (simp add: sample_fills_def)
  have mk: "all_markets accounts = [0]"
    by (simp add: all_markets_def accounts_def om_values_def om_keys_def a1_def a2_def)
  have tot: "market_total_for_accounts accounts 0 = Some (0, of_val 1000, of_val 800)"
    by (simp add: market_total_for_accounts_def outcome_total_def accounts_def om_values_def a1_def a2_def
        add_i64_def i64_of_def fits_i64_def)
  let ?adj = "\<lparr> ma_market_id = 0, ma_outcome = 0, ma_position_delta = of_val (- 200), ma_balance_delta = of_val 110000000 \<rparr>"
  have adjs: "derive_adjustments accounts sample_prices = ([?adj], [])"
    by (simp add: derive_adjustments_def mk tot sub_i64_def i64_of_def fits_i64_def mint_adjustment_def sample_prices_def
        less_i64_def val_eq_iff price_at_def checked_signed_notional_nanos_eq idx_def)
  have mint: "derive_mint sample_hash 5 [?adj] accounts =
      Some (om_ins MINT_ID (?a 110000000 0 (om_ins (0, 0) (of_val (- 200)) om_empty)) accounts, [])"
    by (simp add: derive_mint_def apply_adjustment_def accounts_def MINT_ID_def u64_max_def derived_default_def add_i64_def
        i64_of_def fits_i64_def val_eq_iff zero_i64_def update_digest_def sample_hash_def flag_def)
  have cost: "derived_minting_cost (of_val (- 910000000)) = (of_val 910000000, [])"
    by (simp add: derived_minting_cost_def minting_cost_from_fill_balance_delta_checked_def neg_i64_def i64_of_def fits_i64_def)
  have cmp: "compare_accounts (om_ins MINT_ID (?a 110000000 0 (om_ins (0, 0) (of_val (- 200)) om_empty)) accounts)
      (snapshot_map sample_post) = []"
    by (simp add: compare_accounts_def om_keys_def accounts_def snapshot_map_def sample_post_def om_of_list_def snapshot_def
        compare_account_def compare_positions_def position_map_def a1_def a2_def MINT_ID_def u64_max_def zero_i64_def Let_def)
  have neg: "negative_balances (om_ins MINT_ID (?a 110000000 0 (om_ins (0, 0) (of_val (- 200)) om_empty)) accounts) = []"
     "negative_positions (om_ins MINT_ID (?a 110000000 0 (om_ins (0, 0) (of_val (- 200)) om_empty)) accounts) = []"
    by (simp_all add: negative_balances_def negative_positions_def accounts_def a1_def a2_def om_values_def less_i64_def
        MINT_ID_def u64_max_def fits_i64_def)
  show ?thesis
    by (simp add: verify_settlement_def derive_post_state_def fills adjs mint cost cmp neg)
qed

text \<open>C23: in a block that passes settlement verification, the claimed post-state of every account but MINT is
  its post-system state plus the settlements of its own fills and nothing else, for the cash and for each
  outcome of each market, and neither its balance nor any of its positions is negative.\<close>

theorem settlement_replays_accounts:
  assumes "verify_settlement h w = Some r" "vr_valid r" "i \<noteq> MINT_ID"
  shows "claimed_balance (snapshot_map (bw_post_state w)) i =
           claimed_balance (snapshot_map (bw_post_system_state w)) i +
           sum_list (map (fill_cash_of (witness_order_entries (bw_orders w)) i) (bw_fills w)) \<and>
         claimed_pos (snapshot_map (bw_post_state w)) i m out =
           claimed_pos (snapshot_map (bw_post_system_state w)) i m out +
           sum_list (map (fill_pos_of (witness_order_entries (bw_orders w)) i m out) (bw_fills w)) \<and>
         0 \<le> claimed_balance (snapshot_map (bw_post_state w)) i \<and>
         0 \<le> claimed_pos (snapshot_map (bw_post_state w)) i m out"
  using assms(1,2)
proof (rule verify_settlement_parts)
  fix accounts fbd adjs accounts'
  assume s: "scan (derive_fill_step h (h_height (bw_header w)) (witness_order_entries (bw_orders w))) (bw_fills w)
       (initial_accounts (bw_post_system_state w), 0) = Some ((accounts, fbd), [])"
    and m: "derive_mint h (h_height (bw_header w)) adjs accounts = Some (accounts', [])"
    and n: "negative_balances accounts' = []" "negative_positions accounts' = []"
    and c: "compare_accounts accounts' (snapshot_map (bw_post_state w)) = []"
  from acct_cash_pass.run_total [OF _ s, of i] acct_pos_pass.run_total [OF _ s, of i m out]
  show ?thesis
    using derive_mint_clean(3) [OF m assms(3)] compare_accounts_clean(1,2) [OF c]
      negative_balances_clean [OF n(1) assms(3)] negative_positions_clean [OF n(2) assms(3), of m out]
    by (simp add: initial_acct)
qed

theorem settlement_replays_accounts_witness:
  "claimed_balance (snapshot_map (bw_post_state sample_block)) 2 =
     claimed_balance (snapshot_map (bw_post_system_state sample_block)) 2 +
     sum_list (map (fill_cash_of (witness_order_entries (bw_orders sample_block)) 2) (bw_fills sample_block))"
proof -
  obtain r where "verify_settlement sample_hash sample_block = Some r" "vr_valid r" using sample_settled by blast
  from settlement_replays_accounts [OF this, of 2] show ?thesis by (simp add: MINT_ID_def u64_max_def)
qed

text \<open>C24: in the claimed post-state of a block that passes settlement verification, every market is
  balanced: the YES shares over all accounts, MINT included, are as many as the NO shares.\<close>

theorem settled_markets_balanced:
  assumes "verify_settlement h w = Some r" "vr_valid r"
  shows "om_sum (\<lambda>i c. claimed_pos (snapshot_map (bw_post_state w)) i m 0) (snapshot_map (bw_post_state w)) =
         om_sum (\<lambda>i c. claimed_pos (snapshot_map (bw_post_state w)) i m 1) (snapshot_map (bw_post_state w))"
  using assms
proof (rule verify_settlement_parts)
  fix accounts fbd adjs accounts'
  assume d: "derive_adjustments accounts (bw_clearing_prices w) = (adjs, [])"
    and m: "derive_mint h (h_height (bw_header w)) adjs accounts = Some (accounts', [])"
    and c: "compare_accounts accounts' (snapshot_map (bw_post_state w)) = []"
  show ?thesis
    using claimed_pos_total [OF compare_accounts_clean(2) [OF c]] derive_mint_clean(2) [OF m]
      derive_adjustments_clean(1) [OF d, of m]
    by simp
qed

theorem settled_markets_balanced_witness:
  "om_sum (\<lambda>i c. claimed_pos (snapshot_map sample_post) i 0 0) (snapshot_map sample_post) =
   om_sum (\<lambda>i c. claimed_pos (snapshot_map sample_post) i 0 1) (snapshot_map sample_post)"
proof -
  obtain r where "verify_settlement sample_hash sample_block = Some r" "vr_valid r" using sample_settled by blast
  from settled_markets_balanced [OF this, of 0] show ?thesis by simp
qed

text \<open>What MINT receives in cash from fills of its own orders (less what it pays).\<close>

definition mint_own_cash :: "BlockWitness \<Rightarrow> int" where
  "mint_own_cash w = sum_list (map (fill_cash_of (witness_order_entries (bw_orders w)) MINT_ID) (bw_fills w))"

text \<open>C25: in a block that passes settlement verification, the accounts other than MINT together pay exactly the claimed
  minting cost, corrected by what MINT itself received in fills of its own orders, and MINT's balance grows by at least
  that; so when MINT places no order (which the verifier does not check) the traders together pay exactly the minting
  cost and MINT never loses cash.\<close>

theorem minting_cost_is_trader_outflow:
  assumes "verify_settlement h w = Some r" "vr_valid r"
  shows "trader_cash (bw_post_state w) = trader_cash (bw_post_system_state w) - (val (bw_minting_cost w) + mint_own_cash w) \<and>
         claimed_balance (snapshot_map (bw_post_system_state w)) MINT_ID + mint_own_cash w
           \<le> claimed_balance (snapshot_map (bw_post_state w)) MINT_ID \<and>
         ((\<forall>wo \<in> set (bw_orders w). wo_account_id wo \<noteq> MINT_ID) \<longrightarrow> mint_own_cash w = 0)"
  using assms(1,2)
proof (rule verify_settlement_parts)
  fix accounts fbd adjs accounts'
  assume s: "scan (derive_fill_step h (h_height (bw_header w)) (witness_order_entries (bw_orders w))) (bw_fills w)
       (initial_accounts (bw_post_system_state w), 0) = Some ((accounts, fbd), [])"
    and d: "derive_adjustments accounts (bw_clearing_prices w) = (adjs, [])"
    and cost: "val (bw_minting_cost w) = - val fbd"
    and m: "derive_mint h (h_height (bw_header w)) adjs accounts = Some (accounts', [])"
    and c: "compare_accounts accounts' (snapshot_map (bw_post_state w)) = []"
  have "trader_cash (bw_post_state w) = cash_total accounts' - val (dv_balance (acct accounts' MINT_ID))"
    using trader_cash_eq [OF compare_accounts_clean(1) [OF c]] compare_accounts_clean(1) [OF c] by simp
  moreover have "trader_cash (bw_post_system_state w) = cash_total (initial_accounts (bw_post_system_state w)) -
      val (dv_balance (acct (initial_accounts (bw_post_system_state w)) MINT_ID))"
    using trader_cash_eq [OF initial_acct(1) [symmetric]] initial_acct(1) [of _ MINT_ID] by simp
  moreover have "val (dv_balance (acct accounts MINT_ID)) =
      val (dv_balance (acct (initial_accounts (bw_post_system_state w)) MINT_ID)) + mint_own_cash w"
    using acct_cash_pass.run_total [OF _ s, of MINT_ID] by (simp add: mint_own_cash_def)
  moreover have "0 \<le> mint_cash adjs"
    unfolding mint_cash_def by (rule sum_list_nonneg) (use derive_adjustments_clean(2) [OF d] in auto)
  moreover have "(\<forall>wo \<in> set (bw_orders w). wo_account_id wo \<noteq> MINT_ID) \<longrightarrow> mint_own_cash w = 0"
    unfolding mint_own_cash_def using mint_not_settled [of "bw_orders w" MINT_ID] by (simp add: sum_list_0 cong: map_cong)
  ultimately show ?thesis
    using cash_pass.run_total [OF _ s] fbd_pass.run_total [OF _ s] cost derive_mint_clean(1) [OF m]
      derive_mint_balance [OF m] compare_accounts_clean(1) [OF c, of MINT_ID] initial_acct(1) [of "bw_post_system_state w" MINT_ID]
    by simp
qed

theorem minting_cost_is_trader_outflow_witness:
  "trader_cash sample_post = trader_cash sample_post_system - 910000000"
proof -
  obtain r where "verify_settlement sample_hash sample_block = Some r" "vr_valid r" using sample_settled by blast
  from minting_cost_is_trader_outflow [OF this] show ?thesis by (simp add: sample_orders_def MINT_ID_def u64_max_def fits_i64_def)
qed

end
