(* ===== verification/Verifier_System.thy ===== *)
theory Verifier_System
  imports Account_Keys Verifier_Settlement
begin

text \<open>
  \<open>crates/sybil-verifier/src/system.rs\<close>: the account-value effects of system events are replayed on the
  authenticated pre-state and compared with the claimed post-system state.  An event that fails half-way
  keeps what it has already changed, as the code mutates in place.  blake3 is the parameter \<open>h\<close>, the sha256 of
  the key digest the parameter \<open>sha\<close>.
\<close>

type_synonym SystemAccounts = "(u64, AccountSnapshot) omap"

section \<open>Events\<close>

text \<open>\<open>account_mut\<close> followed by a mutation of the account; the flag is \<open>Ok\<close>.\<close>

definition with_account ::
  "u64 \<Rightarrow> (AccountSnapshot \<Rightarrow> AccountSnapshot \<times> bool) \<Rightarrow> SystemAccounts \<Rightarrow> SystemAccounts \<times> bool"
where
  "with_account account_id f accounts = (case lookup accounts account_id of
     None \<Rightarrow> (accounts, False)
   | Some account \<Rightarrow> (let (account', ok) = f account in (om_ins account_id account' accounts, ok)))"

definition log_event :: "hash \<Rightarrow> bytes \<Rightarrow> AccountSnapshot \<Rightarrow> AccountSnapshot" where
  "log_event h encoded account = account\<lparr> as_events_digest := update_digest h (as_events_digest account) encoded \<rparr>"

definition credit_deposit :: "hash \<Rightarrow> i64 \<Rightarrow> bytes \<Rightarrow> AccountSnapshot \<Rightarrow> AccountSnapshot \<times> bool" where
  "credit_deposit h amount encoded account = (case add_i64 (as_balance account) amount of
     None \<Rightarrow> (account, False)
   | Some b \<Rightarrow>
       (let account1 = account\<lparr> as_balance := b \<rparr>
        in case add_i64 (as_total_deposited account1) amount of
             None \<Rightarrow> (account1, False)
           | Some t \<Rightarrow> (log_event h encoded (account1\<lparr> as_total_deposited := t \<rparr>), True)))"

definition debit_withdrawal :: "hash \<Rightarrow> i64 \<Rightarrow> bytes \<Rightarrow> AccountSnapshot \<Rightarrow> AccountSnapshot \<times> bool" where
  "debit_withdrawal h amount encoded account = (case sub_i64 (as_balance account) amount of
     None \<Rightarrow> (account, False)
   | Some b \<Rightarrow> (log_event h encoded (account\<lparr> as_balance := b \<rparr>), True))"

definition credit_refund :: "hash \<Rightarrow> i64 \<Rightarrow> bytes \<Rightarrow> AccountSnapshot \<Rightarrow> AccountSnapshot \<times> bool" where
  "credit_refund h amount encoded account = (case add_i64 (as_balance account) amount of
     None \<Rightarrow> (account, False)
   | Some b \<Rightarrow> (log_event h encoded (account\<lparr> as_balance := b \<rparr>), True))"

text \<open>\<open>retain\<close> drops every matching entry; the quantity is the last one seen.\<close>

definition remove_position :: "MarketId \<Rightarrow> u8 \<Rightarrow> AccountSnapshot \<Rightarrow> AccountSnapshot \<times> i64" where
  "remove_position market outcome account =
     (let matching = (\<lambda>(m, out, q). m = market \<and> out = outcome);
          qty = fold (\<lambda>(m, out, q) acc. if m = market \<and> out = outcome then q else acc) (as_positions account) 0
      in (account\<lparr> as_positions := filter (\<lambda>p. \<not> matching p) (as_positions account) \<rparr>, qty))"

text \<open>\<open>notional_nanos\<close> truncates to 64 bits without a check.\<close>

definition system_signed_notional :: "Nanos \<Rightarrow> i64 \<Rightarrow> i64 option" where
  "system_signed_notional price qty = do {
     signed \<leftarrow> i64_of (uint (notional_nanos price (unsigned_abs qty)));
     mul_i64 signed (of_val (sgn (val qty))) }"

definition resolve_account :: "hash \<Rightarrow> MarketId \<Rightarrow> Nanos \<Rightarrow> u64 \<Rightarrow> AccountSnapshot \<Rightarrow> AccountSnapshot \<times> bool" where
  "resolve_account h market_id payout_nanos block_height account =
     (let no_payout = saturating_sub_u64 NANOS_PER_DOLLAR payout_nanos;
          (account, yes) = remove_position market_id 0 account;
          (account, no) = remove_position market_id 1 account
      in case (system_signed_notional payout_nanos yes, system_signed_notional no_payout no) of
           (Some yes_value, Some no_value) \<Rightarrow>
             (case add_i64 (as_balance account) yes_value of
                None \<Rightarrow> (account, False)
              | Some b \<Rightarrow>
                  (let account = account\<lparr> as_balance := b \<rparr>
                   in case add_i64 (as_balance account) no_value of
                        None \<Rightarrow> (account, False)
                      | Some b' \<Rightarrow> (log_event h (encode_resolution_event market_id payout_nanos block_height)
                            (account\<lparr> as_balance := b' \<rparr>), True)))
         | _ \<Rightarrow> (account, False))"

fun resolve_accounts :: "hash \<Rightarrow> MarketId \<Rightarrow> Nanos \<Rightarrow> u64 \<Rightarrow> u64 list \<Rightarrow> SystemAccounts \<Rightarrow> SystemAccounts \<times> bool" where
  "resolve_accounts h m payout block_height [] accounts = (accounts, True)"
| "resolve_accounts h m payout block_height (i # rest) accounts =
     (let (accounts', ok) = with_account i (resolve_account h m payout block_height) accounts
      in if ok then resolve_accounts h m payout block_height rest accounts' else (accounts', False))"

fun action_account :: "ClientActionWitness \<Rightarrow> u64" where
  "action_account (CaOrder account_id ord nonce auth) = account_id"
| "action_account (CaCancel account_id order_id nonce auth) = account_id"
| "action_account (CaMmBundle account_id bid r orders sides cap nonce auth) = account_id"
| "action_account (CaMmBundleReplace account_id bid r r' orders sides cap nonce auth) = account_id"
| "action_account (CaMmBundleCancel account_id bid r nonce auth) = account_id"

fun action_nonce :: "ClientActionWitness \<Rightarrow> u64" where
  "action_nonce (CaOrder account_id ord nonce auth) = nonce"
| "action_nonce (CaCancel account_id order_id nonce auth) = nonce"
| "action_nonce (CaMmBundle account_id bid r orders sides cap nonce auth) = nonce"
| "action_nonce (CaMmBundleReplace account_id bid r r' orders sides cap nonce auth) = nonce"
| "action_nonce (CaMmBundleCancel account_id bid r nonce auth) = nonce"

definition authorize_nonce :: "u64 \<Rightarrow> AccountSnapshot \<Rightarrow> AccountSnapshot \<times> bool" where
  "authorize_nonce nonce account =
     (if nonce \<le> as_last_trading_nonce account then (account, False)
      else (account\<lparr> as_last_trading_nonce := nonce \<rparr>, True))"

fun apply_event :: "hash \<Rightarrow> hash \<Rightarrow> u64 \<Rightarrow> SystemEventWitness \<Rightarrow> SystemAccounts \<Rightarrow> SystemAccounts \<times> bool" where
  "apply_event h sha ht (CreateAccount account_id initial_balance initial_keys) accounts =
     (if lookup accounts account_id \<noteq> None then (accounts, False)
      else (om_ins account_id
        \<lparr> as_id = account_id, as_balance = initial_balance, as_total_deposited = initial_balance, as_positions = [],
          as_events_digest = update_digest h zero_digest (encode_create_account_event initial_balance ht),
          as_keys_digest = account_keys_digest sha account_id initial_keys, as_last_trading_nonce = 0 \<rparr> accounts, True))"
| "apply_event h sha ht (Deposit account_id amount) accounts =
     with_account account_id (credit_deposit h amount (encode_deposit_event amount ht)) accounts"
| "apply_event h sha ht (L1Deposit account_id amount deposit_id deposit_root key) accounts =
     with_account account_id
       (credit_deposit h amount (encode_l1_deposit_event deposit_id amount deposit_root ht)) accounts"
| "apply_event h sha ht (WithdrawalCreated account_id amount withdrawal_id recipient token units expiry nullifier) accounts =
     with_account account_id
       (debit_withdrawal h amount (encode_withdrawal_created_event withdrawal_id amount nullifier ht)) accounts"
| "apply_event h sha ht (WithdrawalRefunded account_id withdrawal_id amount reason) accounts =
     with_account account_id
       (credit_refund h amount (encode_withdrawal_refunded_event withdrawal_id amount reason ht)) accounts"
| "apply_event h sha ht (MarketResolved market_id payout_nanos affected_accounts) accounts =
     resolve_accounts h market_id payout_nanos ht affected_accounts accounts"
| "apply_event h sha ht (OrderCancelled account_id order_id market_ids side remaining) accounts =
     with_account account_id
       (\<lambda>a. (log_event h (encode_order_cancelled_event order_id market_ids side remaining ht) a, True)) accounts"
| "apply_event h sha ht (KeyRegistered account_id key auth) accounts =
     with_account account_id (\<lambda>a. (log_event h (encode_key_event 0x0a key ht) a, True)) accounts"
| "apply_event h sha ht (KeyRevoked account_id key auth) accounts =
     with_account account_id (\<lambda>a. (log_event h (encode_key_event 0x0b key ht) a, True)) accounts"
| "apply_event h sha ht (QuarantineClaimed account_id amount key) accounts =
     with_account account_id (credit_deposit h amount (encode_quarantine_claimed_event amount ht)) accounts"
| "apply_event h sha ht (ClientActionAuthorized action) accounts =
     with_account (action_account action) (authorize_nonce (action_nonce action)) accounts"
| "apply_event h sha ht (DepositQuarantined amount deposit_id deposit_root key) accounts = (accounts, True)"
| "apply_event h sha ht (WithdrawalFinalized account_id withdrawal_id amount) accounts = (accounts, True)"
| "apply_event h sha ht (L1BlockObserved height) accounts = (accounts, True)"
| "apply_event h sha ht (MarketGroupExtended group_id market_id) accounts = (accounts, True)"

definition system_step ::
  "hash \<Rightarrow> hash \<Rightarrow> u64 \<Rightarrow> SystemEventWitness \<Rightarrow> SystemAccounts \<Rightarrow> (SystemAccounts \<times> ViolationKind list) option"
where
  "system_step h sha ht event accounts =
     (let (accounts', ok) = apply_event h sha ht event accounts
      in Some (accounts', flag (\<not> ok) SystemStateMismatch))"

definition normalized_positions :: "AccountSnapshot \<Rightarrow> Positions" where
  "normalized_positions account =
     om_of_list (map (\<lambda>(m, out, q). ((m, out), q)) (filter (\<lambda>(m, out, q). q \<noteq> 0) (as_positions account)))"

definition compare_system_account :: "AccountSnapshot option \<Rightarrow> AccountSnapshot option \<Rightarrow> ViolationKind list" where
  "compare_system_account expected actual = (case (expected, actual) of
     (Some e, Some a) \<Rightarrow> flag (as_balance e \<noteq> as_balance a \<or> as_total_deposited e \<noteq> as_total_deposited a \<or>
        normalized_positions e \<noteq> normalized_positions a \<or> as_events_digest e \<noteq> as_events_digest a \<or>
        as_last_trading_nonce e \<noteq> as_last_trading_nonce a) SystemStateMismatch
   | (None, None) \<Rightarrow> []
   | _ \<Rightarrow> [SystemStateMismatch])"

definition verify_system_transition :: "hash \<Rightarrow> hash \<Rightarrow> BlockWitness \<Rightarrow> VerificationResult option" where
  "verify_system_transition h sha w = do {
     (accounts, v1) \<leftarrow> scan (system_step h sha (h_height (bw_header w))) (bw_system_events w) (snapshot_map (bw_pre_state w));
     let claimed = snapshot_map (bw_post_system_state w);
     let ids = sort (remdups (om_keys accounts @ om_keys claimed));
     Some (from_violations (v1 @ concat (map (\<lambda>i. compare_system_account (lookup accounts i) (lookup claimed i)) ids))) }"

section \<open>The ledger the events describe\<close>

text \<open>The account values as mathematical functions, and what each event means for them: no machine integers,
  no missing accounts, no errors.\<close>

record Ledger =
  lg_cash :: "u64 \<Rightarrow> int"
  lg_deposited :: "u64 \<Rightarrow> int"
  lg_pos :: "u64 \<Rightarrow> MarketId \<times> u8 \<Rightarrow> int"
  lg_nonce :: "u64 \<Rightarrow> u64"

definition claimed_deposited :: "SystemAccounts \<Rightarrow> u64 \<Rightarrow> int" where
  "claimed_deposited m i = (case lookup m i of Some c \<Rightarrow> val (as_total_deposited c) | None \<Rightarrow> 0)"

definition claimed_nonce :: "SystemAccounts \<Rightarrow> u64 \<Rightarrow> u64" where
  "claimed_nonce m i = (case lookup m i of Some c \<Rightarrow> as_last_trading_nonce c | None \<Rightarrow> 0)"

definition ledger_of :: "SystemAccounts \<Rightarrow> Ledger" where
  "ledger_of m = \<lparr> lg_cash = claimed_balance m, lg_deposited = claimed_deposited m,
     lg_pos = (\<lambda>i (mk, out). claimed_pos m i mk out), lg_nonce = claimed_nonce m \<rparr>"

definition credit :: "u64 \<Rightarrow> int \<Rightarrow> Ledger \<Rightarrow> Ledger" where
  "credit i n l = l\<lparr> lg_cash := (lg_cash l)(i := lg_cash l i + n) \<rparr>"

definition deposit :: "u64 \<Rightarrow> int \<Rightarrow> Ledger \<Rightarrow> Ledger" where
  "deposit i n l = (credit i n l)\<lparr> lg_deposited := (lg_deposited l)(i := lg_deposited l i + n) \<rparr>"

text \<open>What \<open>q\<close> units pay at a price per share, rounded towards zero.\<close>

definition share_value :: "int \<Rightarrow> int \<Rightarrow> int" where
  "share_value p q = sgn q * (p * \<bar>q\<bar> div 1000)"

definition redeem :: "MarketId \<Rightarrow> Nanos \<Rightarrow> u64 \<Rightarrow> Ledger \<Rightarrow> Ledger" where
  "redeem m p i l = (credit i (share_value (uint p) (lg_pos l i (m, 0)) +
        share_value (1000000000 - uint p) (lg_pos l i (m, 1))) l)
     \<lparr> lg_pos := (lg_pos l)(i := (lg_pos l i)((m, 0) := 0, (m, 1) := 0)) \<rparr>"

fun event_meaning :: "SystemEventWitness \<Rightarrow> Ledger \<Rightarrow> Ledger" where
  "event_meaning (CreateAccount i b ks) = deposit i (val b)"
| "event_meaning (Deposit i a) = deposit i (val a)"
| "event_meaning (L1Deposit i a d r k) = deposit i (val a)"
| "event_meaning (QuarantineClaimed i a k) = deposit i (val a)"
| "event_meaning (WithdrawalCreated i a w r t u e n) = credit i (- val a)"
| "event_meaning (WithdrawalRefunded i w a r) = credit i (val a)"
| "event_meaning (MarketResolved m p affected) = fold (redeem m p) affected"
| "event_meaning (ClientActionAuthorized a) = (\<lambda>l. l\<lparr> lg_nonce := (lg_nonce l)(action_account a := action_nonce a) \<rparr>)"
| "event_meaning _ = (\<lambda>l. l)"

text \<open>The scope of the refinement: payouts of at most one dollar, and positions small enough that the
  truncating \<open>notional_nanos\<close> loses nothing.\<close>

fun payout_in_range :: "SystemEventWitness \<Rightarrow> bool" where
  "payout_in_range (MarketResolved m p affected) \<longleftrightarrow> p \<le> NANOS_PER_DOLLAR"
| "payout_in_range _ \<longleftrightarrow> True"

definition MAX_REDEEMABLE :: int where "MAX_REDEEMABLE = 18446744073709"

definition redeemable :: "SystemAccounts \<Rightarrow> bool" where
  "redeemable accounts \<longleftrightarrow> (\<forall>i m out. \<bar>claimed_pos accounts i m out\<bar> \<le> MAX_REDEEMABLE)"

section \<open>Replay\<close>

lemma with_account_ok:
  "with_account i f accounts = (t, True) \<longleftrightarrow>
     (\<exists>a a'. lookup accounts i = Some a \<and> f a = (a', True) \<and> t = om_ins i a' accounts)"
  by (auto simp: with_account_def split: option.splits prod.splits)

lemma claimed_ins:
  "claimed_balance (om_ins i a m) = (claimed_balance m)(i := val (as_balance a))"
  "claimed_deposited (om_ins i a m) = (claimed_deposited m)(i := val (as_total_deposited a))"
  "claimed_nonce (om_ins i a m) = (claimed_nonce m)(i := as_last_trading_nonce a)"
  "claimed_pos (om_ins i a m) j mk out =
     (if j = i then val (get_or (position_map (as_positions a)) (mk, out) 0) else claimed_pos m j mk out)"
  by (auto simp: claimed_balance_def claimed_deposited_def claimed_nonce_def claimed_pos_def)

lemma claimed_of:
  assumes "lookup m i = Some a"
  shows "claimed_balance m i = val (as_balance a)" "claimed_deposited m i = val (as_total_deposited a)"
    "claimed_nonce m i = as_last_trading_nonce a"
    "claimed_pos m i mk out = val (get_or (position_map (as_positions a)) (mk, out) 0)"
  using assms by (simp_all add: claimed_balance_def claimed_deposited_def claimed_nonce_def claimed_pos_def)

lemma log_event_simps [simp]:
  "as_balance (log_event h e a) = as_balance a" "as_total_deposited (log_event h e a) = as_total_deposited a"
  "as_positions (log_event h e a) = as_positions a" "as_last_trading_nonce (log_event h e a) = as_last_trading_nonce a"
  by (simp_all add: log_event_def)

text \<open>An operation on one account whose values change as given.\<close>

lemma ledger_ins:
  assumes "lookup m i = Some a" "val (as_balance a') = val (as_balance a) + c"
    "val (as_total_deposited a') = val (as_total_deposited a) + d" "as_positions a' = as_positions a"
    "as_last_trading_nonce a' = n"
  shows "ledger_of (om_ins i a' m) = (credit i c (ledger_of m))\<lparr>
      lg_deposited := (claimed_deposited m)(i := claimed_deposited m i + d), lg_nonce := (claimed_nonce m)(i := n) \<rparr>"
  using assms by (auto simp: ledger_of_def credit_def claimed_ins claimed_of fun_eq_iff)

lemma ledger_same: "ledger_of m\<lparr> lg_deposited := (claimed_deposited m)(i := claimed_deposited m i),
    lg_nonce := (claimed_nonce m)(i := claimed_nonce m i) \<rparr> = ledger_of m"
  by (simp add: ledger_of_def)

lemma remove_position_pos:
  assumes "remove_position m out a = (a', q)"
  shows "position_map (as_positions a') = om_del (m, out) (position_map (as_positions a))"
    "q = get_or (position_map (as_positions a)) (m, out) 0"
    "as_balance a' = as_balance a" "as_total_deposited a' = as_total_deposited a"
    "as_last_trading_nonce a' = as_last_trading_nonce a"
proof -
  have "position_map (filter (\<lambda>p. \<not> (case p of (mk, o', q) \<Rightarrow> mk = m \<and> o' = out)) xs) = om_del (m, out) (position_map xs)"
    for xs
    by (induction xs rule: rev_induct) (auto simp: position_map_def omap_eq_iff)
  then show "position_map (as_positions a') = om_del (m, out) (position_map (as_positions a))"
    using assms by (auto simp: remove_position_def)
  have "fold (\<lambda>(mk, o', q) acc. if mk = m \<and> o' = out then q else acc) xs 0 = get_or (position_map xs) (m, out) 0" for xs
    by (induction xs rule: rev_induct) (auto simp: position_map_def)
  then show "q = get_or (position_map (as_positions a)) (m, out) 0"
    using assms by (auto simp: remove_position_def)
qed (use assms in \<open>auto simp: remove_position_def\<close>)

lemma system_signed_notional_val:
  assumes "system_signed_notional p q = Some v" "uint p \<le> 1000000000" "\<bar>val q\<bar> \<le> MAX_REDEEMABLE"
  shows "val v = share_value (uint p) (val q)"
proof -
  have "uint p * \<bar>val q\<bar> \<le> 1000000000 * 18446744073709"
    using assms(2,3) by (intro mult_mono) (simp_all add: MAX_REDEEMABLE_def)
  moreover have "0 \<le> uint p * \<bar>val q\<bar>" by simp
  ultimately have "fits_u64 (uint p * \<bar>val q\<bar> div 1000)" unfolding fits_u64_def by linarith
  then have "uint (notional_nanos p (unsigned_abs q)) = uint p * \<bar>val q\<bar> div 1000"
    by (simp add: notional_nanos_def SHARE_SCALE_def)
  moreover have "fits_i64 (sgn (val q))" by (simp add: fits_i64_def sgn_if)
  ultimately show ?thesis using assms(1)
    by (auto simp: system_signed_notional_def opt num share_value_def mult.commute)
qed

lemma uint_NANOS: "uint NANOS_PER_DOLLAR = 1000000000"
  by (simp add: NANOS_PER_DOLLAR_def)

lemma resolve_account_ok:
  assumes "resolve_account h m p ht a = (a', True)" "p \<le> NANOS_PER_DOLLAR"
    and "\<bar>val (get_or (position_map (as_positions a)) (m, 0) 0)\<bar> \<le> MAX_REDEEMABLE"
      "\<bar>val (get_or (position_map (as_positions a)) (m, 1) 0)\<bar> \<le> MAX_REDEEMABLE"
  shows "val (as_balance a') = val (as_balance a) +
      share_value (uint p) (val (get_or (position_map (as_positions a)) (m, 0) 0)) +
      share_value (1000000000 - uint p) (val (get_or (position_map (as_positions a)) (m, 1) 0))"
    "position_map (as_positions a') = om_del (m, 1) (om_del (m, 0) (position_map (as_positions a)))"
    "as_total_deposited a' = as_total_deposited a" "as_last_trading_nonce a' = as_last_trading_nonce a"
proof -
  obtain a1 yes a2 no where r: "remove_position m 0 a = (a1, yes)" "remove_position m 1 a1 = (a2, no)"
    by (metis surj_pair)
  from assms(1) obtain v v' b b' where v: "system_signed_notional p yes = Some v"
      "system_signed_notional (saturating_sub_u64 NANOS_PER_DOLLAR p) no = Some v'"
    and b: "add_i64 (as_balance a2) v = Some b" "add_i64 b v' = Some b'"
    and eq: "a' = log_event h (encode_resolution_event m p ht) (a2\<lparr> as_balance := b' \<rparr>)"
    by (auto simp: resolve_account_def r Let_def split: option.splits)
  have p: "uint p \<le> 1000000000" using assms(2) by (simp add: word_le_def uint_NANOS)
  then have p': "uint (saturating_sub_u64 NANOS_PER_DOLLAR p) = 1000000000 - uint p"
    by (simp add: num uint_NANOS)
  note r1 = remove_position_pos [OF r(1)] and r2 = remove_position_pos [OF r(2)]
  have no: "no = get_or (position_map (as_positions a)) (m, 1) 0" using r1(1) r2(2) by simp
  have "val v = share_value (uint p) (val yes)"
    using system_signed_notional_val [OF v(1) p] assms(3) r1(2) by simp
  moreover have "val v' = share_value (1000000000 - uint p) (val no)"
    using system_signed_notional_val [OF v(2)] p' assms(4) no by simp
  ultimately show "val (as_balance a') = val (as_balance a) +
      share_value (uint p) (val (get_or (position_map (as_positions a)) (m, 0) 0)) +
      share_value (1000000000 - uint p) (val (get_or (position_map (as_positions a)) (m, 1) 0))"
    using b r1 r2 eq no by (simp add: num)
  show "position_map (as_positions a') = om_del (m, 1) (om_del (m, 0) (position_map (as_positions a)))"
    "as_total_deposited a' = as_total_deposited a" "as_last_trading_nonce a' = as_last_trading_nonce a"
    using r1 r2 by (simp_all add: eq)
qed

lemma share_value_0 [simp]: "share_value p 0 = 0"
  by (simp add: share_value_def)

lemma resolve_accounts_ok:
  assumes "resolve_accounts h m p ht xs accounts = (t, True)" "p \<le> NANOS_PER_DOLLAR" "redeemable accounts"
  shows "redeemable t \<and> ledger_of t = fold (redeem m p) xs (ledger_of accounts)"
  using assms
proof (induction xs arbitrary: accounts)
  case (Cons i xs)
  from Cons.prems(1) obtain u where "with_account i (resolve_account h m p ht) accounts = (u, True)"
    and rest: "resolve_accounts h m p ht xs u = (t, True)"
    by (auto simp: Let_def split: prod.splits if_splits)
  then obtain a a' where a: "lookup accounts i = Some a" "resolve_account h m p ht a = (a', True)" "u = om_ins i a' accounts"
    by (auto simp: with_account_ok)
  have small: "\<bar>val (get_or (position_map (as_positions a)) (mk, out) 0)\<bar> \<le> MAX_REDEEMABLE" for mk out
    using Cons.prems(3) claimed_of(4) [OF a(1)] by (metis redeemable_def)
  note ra = resolve_account_ok [OF a(2) Cons.prems(2) small small]
  have "redeemable u"
    using Cons.prems(3) small by (auto simp: redeemable_def a(3) claimed_ins ra(2) MAX_REDEEMABLE_def)
  moreover have "ledger_of u = redeem m p i (ledger_of accounts)"
    using ra a(1)
    by (auto simp: a(3) ledger_of_def redeem_def credit_def claimed_ins claimed_of fun_eq_iff)
  ultimately show ?case using Cons.IH [OF rest Cons.prems(2)] by simp
qed simp

lemma claimed_pos_ins_same:
  "lookup s i = Some a \<Longrightarrow> as_positions a' = as_positions a \<Longrightarrow> claimed_pos (om_ins i a' s) = claimed_pos s"
  by (auto simp: fun_eq_iff claimed_ins claimed_of)

text \<open>The single-account operations, as changes of value.\<close>

definition changes :: "(AccountSnapshot \<Rightarrow> AccountSnapshot \<times> bool) \<Rightarrow> int \<Rightarrow> int \<Rightarrow> bool" where
  "changes f c d \<longleftrightarrow> (\<forall>a a'. f a = (a', True) \<longrightarrow> val (as_balance a') = val (as_balance a) + c \<and>
     val (as_total_deposited a') = val (as_total_deposited a) + d \<and> as_positions a' = as_positions a \<and>
     as_last_trading_nonce a' = as_last_trading_nonce a)"

lemma account_changes:
  "changes (credit_deposit h n e) (val n) (val n)"
  "changes (debit_withdrawal h n e) (- val n) 0"
  "changes (credit_refund h n e) (val n) 0"
  "changes (\<lambda>a. (log_event h e a, True)) 0 0"
  by (auto simp: changes_def credit_deposit_def debit_withdrawal_def credit_refund_def num Let_def split: option.splits)

lemma with_account_changes:
  assumes "with_account i f s = (t, True)" "changes f c d" "redeemable s"
  shows "redeemable t \<and> ledger_of t = (credit i c (ledger_of s))\<lparr>
      lg_deposited := (lg_deposited (ledger_of s))(i := lg_deposited (ledger_of s) i + d) \<rparr>"
proof -
  from assms(1) obtain a a' where a: "lookup s i = Some a" "f a = (a', True)" "t = om_ins i a' s"
    by (auto simp: with_account_ok)
  have c: "val (as_balance a') = val (as_balance a) + c" "val (as_total_deposited a') = val (as_total_deposited a) + d"
    "as_positions a' = as_positions a" "as_last_trading_nonce a' = as_last_trading_nonce a"
    using assms(2) a(2) unfolding changes_def by blast+
  have p: "claimed_pos t = claimed_pos s" by (simp add: a(3) claimed_pos_ins_same [OF a(1) c(3)])
  show ?thesis
    using assms(3)
    by (simp add: redeemable_def p ledger_of_def credit_def) (simp add: a(3) claimed_ins c claimed_of [OF a(1)] fun_eq_iff)
qed

interpretation system_pass: refined_pass "system_step h sha ht" redeemable payout_in_range ledger_of event_meaning
  for h sha ht
proof
  fix s x t assume inv: "redeemable s" and scope: "payout_in_range x" and step: "system_step h sha ht x s = Some (t, [])"
  from step have ok: "apply_event h sha ht x s = (t, True)"
    by (auto simp: system_step_def Let_def split: prod.splits)
  note wc = with_account_changes [OF _ _ inv] and ac = account_changes
  have same: "l\<lparr> lg_deposited := lg_deposited l \<rparr> = l" "credit i 0 l = l" for l i
    by (simp_all add: credit_def)
  show "redeemable t \<and> ledger_of t = event_meaning x (ledger_of s)"
  proof (cases x)
    case (CreateAccount i b ks)
    with ok have n: "lookup s i = None" and t: "ledger_of t = deposit i (val b) (ledger_of s)"
      by (auto simp: ledger_of_def deposit_def credit_def claimed_ins fun_eq_iff claimed_balance_def [of s]
          claimed_deposited_def [of s] claimed_nonce_def [of s] claimed_pos_def [of s] position_map_def split: if_splits)
    with CreateAccount ok inv show ?thesis
      by (auto simp: redeemable_def claimed_ins position_map_def MAX_REDEEMABLE_def split: if_splits)
  next
    case (MarketResolved m p affected)
    with ok scope inv resolve_accounts_ok show ?thesis by simp
  next
    case (ClientActionAuthorized act)
    with ok inv show ?thesis
      by (auto simp: with_account_ok authorize_nonce_def redeemable_def ledger_of_def claimed_pos_ins_same claimed_ins(1-3)
          claimed_of fun_eq_iff split: if_splits)
  qed (use ok inv wc [OF _ ac(1)] wc [OF _ ac(2)] wc [OF _ ac(3)] wc [OF _ ac(4)] in
      \<open>simp_all add: deposit_def same fun_upd_idem credit_def [of _ "- _"] credit_def [of _ "val _"]\<close>)
qed

text \<open>Snapshots list each outcome of a market once.\<close>

definition canonical_positions :: "PositionDelta list \<Rightarrow> bool" where
  "canonical_positions ps \<longleftrightarrow> distinct (map (\<lambda>(m, out, q). (m, out)) ps)"

definition canonical_accounts :: "SystemAccounts \<Rightarrow> bool" where
  "canonical_accounts accounts \<longleftrightarrow> (\<forall>i a. lookup accounts i = Some a \<longrightarrow> canonical_positions (as_positions a))"

lemma canonical_filter: "canonical_positions ps \<Longrightarrow> canonical_positions (filter P ps)"
  by (simp add: canonical_positions_def distinct_map_filter)

definition keeps_canonical :: "(AccountSnapshot \<Rightarrow> AccountSnapshot \<times> bool) \<Rightarrow> bool" where
  "keeps_canonical f \<longleftrightarrow> (\<forall>a. canonical_positions (as_positions a) \<longrightarrow> canonical_positions (as_positions (fst (f a))))"

lemma with_account_canonical:
  "keeps_canonical f \<Longrightarrow> canonical_accounts s \<Longrightarrow> canonical_accounts (fst (with_account i f s))"
  by (auto simp: with_account_def canonical_accounts_def keeps_canonical_def Let_def case_prod_beta split: option.splits)

lemma account_canonical:
  "keeps_canonical (credit_deposit h n e)" "keeps_canonical (debit_withdrawal h n e)" "keeps_canonical (credit_refund h n e)"
  "keeps_canonical (\<lambda>a. (log_event h e a, True))" "keeps_canonical (authorize_nonce k)"
  "keeps_canonical (resolve_account h m p ht)"
  by (auto simp: keeps_canonical_def credit_deposit_def debit_withdrawal_def credit_refund_def authorize_nonce_def
      resolve_account_def remove_position_def Let_def canonical_filter split: option.splits)

lemma resolve_accounts_canonical:
  "canonical_accounts s \<Longrightarrow> canonical_accounts (fst (resolve_accounts h m p ht xs s))"
proof (induction xs arbitrary: s)
  case (Cons i xs)
  from with_account_canonical [OF account_canonical(6) Cons.prems] Cons.IH show ?case
    by (auto simp: Let_def split: prod.splits) (metis fst_conv)+
qed simp

interpretation canonical_pass: clean_pass "system_step h sha ht" canonical_accounts for h sha ht
proof
  fix s x t assume "canonical_accounts s" "system_step h sha ht x s = Some (t, [])"
  moreover from this(1) have "canonical_accounts (fst (apply_event h sha ht x s))"
    by (cases x) (simp_all add: with_account_canonical account_canonical resolve_accounts_canonical,
        auto simp: canonical_accounts_def canonical_positions_def)
  ultimately show "canonical_accounts t" by (auto simp: system_step_def Let_def split: prod.splits)
qed

lemma normalized_lookup:
  assumes "canonical_positions (as_positions a)"
  shows "get_or (normalized_positions a) k 0 = get_or (position_map (as_positions a)) k 0"
proof -
  have "distinct (map fst (map (\<lambda>(m, out, q). ((m, out), q)) ps))" if "canonical_positions ps" for ps
    using that by (simp add: canonical_positions_def o_def case_prod_beta')
  note d = this [OF assms] this [OF canonical_filter [OF assms]]
  have "map_of (map (\<lambda>(m, out, q). ((m, out), q)) (filter (\<lambda>(m, out, q). q \<noteq> 0) ps)) k =
      (case map_of (map (\<lambda>(m, out, q). ((m, out), q)) ps) k of Some q \<Rightarrow> if q = 0 then None else Some q | None \<Rightarrow> None)"
    if "distinct (map fst (map (\<lambda>(m, out, q). ((m, out), q)) ps))" for ps :: "PositionDelta list"
    using that
    by (induction ps) (auto split: option.splits if_splits simp: map_of_eq_None_iff [symmetric] image_iff dest: map_of_SomeD)
  with d show ?thesis
    by (simp add: normalized_positions_def position_map_def get_or_def lookup_om_of_list_distinct split: option.splits)
qed

section \<open>Properties\<close>

lemma verify_system_parts:
  assumes "verify_system_transition h sha w = Some r" "vr_valid r"
  obtains accounts where
    "scan (system_step h sha (h_height (bw_header w))) (bw_system_events w) (snapshot_map (bw_pre_state w)) = Some (accounts, [])"
    "\<And>i. compare_system_account (lookup accounts i) (lookup (snapshot_map (bw_post_system_state w)) i) = []"
proof -
  from assms obtain accounts where s: "scan (system_step h sha (h_height (bw_header w))) (bw_system_events w)
      (snapshot_map (bw_pre_state w)) = Some (accounts, [])"
    and c: "\<forall>i \<in> set (om_keys accounts) \<union> set (om_keys (snapshot_map (bw_post_system_state w))).
      compare_system_account (lookup accounts i) (lookup (snapshot_map (bw_post_system_state w)) i) = []"
    by (auto simp: verify_system_transition_def opt Let_def case_prod_beta)
  have "compare_system_account (lookup accounts i) (lookup (snapshot_map (bw_post_system_state w)) i) = []" for i
  proof (cases "lookup accounts i = None \<and> lookup (snapshot_map (bw_post_system_state w)) i = None")
    case False
    then show ?thesis using c by (auto simp: in_om_keys)
  qed (simp add: compare_system_account_def)
  with s show ?thesis by (rule that)
qed

lemma compare_system_account_clean:
  assumes "compare_system_account x y = []"
  shows "(x = None \<and> y = None) \<or> (\<exists>e a. x = Some e \<and> y = Some a \<and> as_balance e = as_balance a \<and>
    as_total_deposited e = as_total_deposited a \<and> normalized_positions e = normalized_positions a \<and>
    as_events_digest e = as_events_digest a \<and> as_last_trading_nonce e = as_last_trading_nonce a)"
  using assms by (auto simp: compare_system_account_def split: option.splits)

text \<open>C26: in a block that passes system verification, the claimed post-system state is what the system events
  mean for the pre-state, event by event and in their order, for cash, deposit totals, positions and
  nonces of every account.  Scope: resolutions pay at most one dollar, pre-state positions are at most
  \<open>MAX_REDEEMABLE\<close>, and snapshots list an outcome once.\<close>

theorem system_state_is_event_meaning:
  assumes "verify_system_transition h sha w = Some r" "vr_valid r"
    and "\<forall>e \<in> set (bw_system_events w). payout_in_range e" "redeemable (snapshot_map (bw_pre_state w))"
    and "canonical_accounts (snapshot_map (bw_pre_state w))" "canonical_accounts (snapshot_map (bw_post_system_state w))"
  shows "ledger_of (snapshot_map (bw_post_system_state w)) =
         fold event_meaning (bw_system_events w) (ledger_of (snapshot_map (bw_pre_state w)))"
  using assms(1,2)
proof (rule verify_system_parts)
  let ?post = "snapshot_map (bw_post_system_state w)"
  fix accounts
  assume s: "scan (system_step h sha (h_height (bw_header w))) (bw_system_events w) (snapshot_map (bw_pre_state w)) = Some (accounts, [])"
    and c: "\<And>i. compare_system_account (lookup accounts i) (lookup ?post i) = []"
  have can: "canonical_accounts accounts" using canonical_pass.run_inv [OF assms(5) s] .
  have "claimed_balance ?post i = claimed_balance accounts i \<and> claimed_deposited ?post i = claimed_deposited accounts i \<and>
    claimed_nonce ?post i = claimed_nonce accounts i \<and> claimed_pos ?post i m out = claimed_pos accounts i m out" for i m out
    using compare_system_account_clean [OF c [of i]]
  proof (elim disjE exE conjE)
    fix e a assume l: "lookup accounts i = Some e" "lookup ?post i = Some a" and p: "normalized_positions e = normalized_positions a"
      and eq: "as_balance e = as_balance a" "as_total_deposited e = as_total_deposited a"
        "as_last_trading_nonce e = as_last_trading_nonce a"
    have "canonical_positions (as_positions e)" "canonical_positions (as_positions a)"
      using can assms(6) l by (auto simp: canonical_accounts_def)
    then have "get_or (position_map (as_positions e)) (m, out) 0 = get_or (position_map (as_positions a)) (m, out) 0"
      using p by (metis normalized_lookup)
    then show ?thesis using eq by (simp add: claimed_of [OF l(1)] claimed_of [OF l(2)])
  qed (simp add: claimed_balance_def claimed_deposited_def claimed_nonce_def claimed_pos_def)
  then have "ledger_of ?post = ledger_of accounts" by (auto simp: ledger_of_def fun_eq_iff)
  also have "\<dots> = fold event_meaning (bw_system_events w) (ledger_of (snapshot_map (bw_pre_state w)))"
    using system_pass.run_refines [OF assms(4,3) s] by blast
  finally show ?thesis .
qed

text \<open>A block that resolves the market of the sample block.\<close>

definition resolution_post :: "AccountSnapshot list" where
  "resolution_post = [(snapshot 1 2050000005 2000000005 [])\<lparr> as_last_trading_nonce := 3 \<rparr>, snapshot 2 960000000 1000000000 [],
                      snapshot u64_max (- 10000000) 0 []]"

definition resolution_block :: BlockWitness where
  "resolution_block = sample_block\<lparr> bw_system_events := [MarketResolved 0 600000000 [1, 2, u64_max], Deposit 1 (of_val 5),
       ClientActionAuthorized (CaCancel 1 9 3 (RawP256 [] []))],
     bw_pre_state := sample_post, bw_post_system_state := resolution_post \<rparr>"

lemma resolution_block_passes:
  "\<exists>r. verify_system_transition sample_hash sample_hash resolution_block = Some r \<and> vr_valid r"
  by (simp add: verify_system_transition_def resolution_block_def snapshot_map_def sample_post_def resolution_post_def
      om_of_list_def snapshot_def system_step_def with_account_def resolve_account_def remove_position_def Let_def
      system_signed_notional_def notional_nanos_def SHARE_SCALE_def NANOS_PER_DOLLAR_def saturating_sub_u64_def sub_u64_def
      u64_of_def fits_u64_def i64_of_def fits_i64_def mul_i64_def add_i64_def unsigned_abs_def log_event_def update_digest_def
      sample_hash_def credit_deposit_def u64_max_def om_keys_def compare_system_account_def normalized_positions_def authorize_nonce_def)

theorem system_state_is_event_meaning_witness:
  "ledger_of (snapshot_map resolution_post) =
   fold event_meaning [MarketResolved 0 600000000 [1, 2, u64_max], Deposit 1 (of_val 5),
       ClientActionAuthorized (CaCancel 1 9 3 (RawP256 [] []))] (ledger_of (snapshot_map sample_post))"
proof -
  obtain r where v: "verify_system_transition sample_hash sample_hash resolution_block = Some r" "vr_valid r"
    using resolution_block_passes by blast
  have "redeemable (snapshot_map sample_post)" "canonical_accounts (snapshot_map sample_post)"
    "canonical_accounts (snapshot_map resolution_post)"
    by (auto simp: redeemable_def claimed_pos_def snapshot_map_def sample_post_def resolution_post_def om_of_list_def
        snapshot_def position_map_def fits_i64_def MAX_REDEEMABLE_def canonical_accounts_def canonical_positions_def
        split: if_splits)
  with system_state_is_event_meaning [OF v] show ?thesis
    by (simp add: resolution_block_def NANOS_PER_DOLLAR_def)
qed

text \<open>The nonces of an account's authorized actions.\<close>

fun event_nonces :: "u64 \<Rightarrow> SystemEventWitness \<Rightarrow> u64 list" where
  "event_nonces i (ClientActionAuthorized a) = (if action_account a = i then [action_nonce a] else [])"
| "event_nonces i _ = []"

definition nonces_of :: "u64 \<Rightarrow> SystemEventWitness list \<Rightarrow> u64 list" where
  "nonces_of i events = concat (map (event_nonces i) events)"

lemma resolve_accounts_nonce: "claimed_nonce (fst (resolve_accounts h m p ht xs s)) i = claimed_nonce s i"
proof (induction xs arbitrary: s)
  case (Cons j xs)
  have n: "as_last_trading_nonce (fst (resolve_account h m p ht a)) = as_last_trading_nonce a" for a
    by (simp add: resolve_account_def remove_position_def Let_def split: option.splits)
  have "claimed_nonce (fst (with_account j (resolve_account h m p ht) s)) i = claimed_nonce s i"
    using n by (auto simp: with_account_def case_prod_beta claimed_ins claimed_of(3) split: option.splits)
  with Cons.IH show ?case by (auto simp: Let_def case_prod_beta)
qed simp

lemma apply_event_nonce:
  assumes "apply_event h sha ht x s = (t, True)"
  shows "sorted_wrt (<) (claimed_nonce s i # event_nonces i x) \<and> claimed_nonce t i = last (claimed_nonce s i # event_nonces i x)"
proof (cases x)
  case (ClientActionAuthorized a)
  with assms show ?thesis
    by (auto simp: with_account_ok authorize_nonce_def claimed_ins claimed_of not_le split: if_splits)
next
  case (CreateAccount j b ks)
  with assms show ?thesis by (auto simp: claimed_ins claimed_nonce_def [of s] split: if_splits)
next
  case (MarketResolved m p xs)
  with assms resolve_accounts_nonce [of h m p ht xs s i] show ?thesis by simp
qed (use assms account_changes in \<open>auto simp: with_account_ok claimed_ins claimed_of changes_def\<close>)

lemma scan_nonces:
  "scan (system_step h sha ht) events s = Some (t, []) \<Longrightarrow>
     sorted_wrt (<) (claimed_nonce s i # nonces_of i events) \<and> claimed_nonce t i = last (claimed_nonce s i # nonces_of i events)"
proof (induction events arbitrary: s)
  case (Cons x events)
  then obtain u where u: "apply_event h sha ht x s = (u, True)" "scan (system_step h sha ht) events u = Some (t, [])"
    unfolding scan_Cons_clean by (auto simp: system_step_def Let_def split: prod.splits)
  from apply_event_nonce [OF u(1), of i] Cons.IH [OF u(2)] show ?case
    by (cases x) (auto simp: nonces_of_def split: if_splits intro: less_trans)
qed (simp add: nonces_of_def)

text \<open>C31: in a block that passes system verification, the nonces of an account's authorized client actions are
  strictly increasing and above its pre-state nonce, and its claimed post-system nonce is the last of
  them: no authorized action can be applied twice.\<close>

theorem nonces_strictly_increase:
  assumes "verify_system_transition h sha w = Some r" "vr_valid r"
  shows "sorted_wrt (<) (claimed_nonce (snapshot_map (bw_pre_state w)) i # nonces_of i (bw_system_events w)) \<and>
         claimed_nonce (snapshot_map (bw_post_system_state w)) i =
           last (claimed_nonce (snapshot_map (bw_pre_state w)) i # nonces_of i (bw_system_events w))"
  using assms
proof (rule verify_system_parts)
  fix accounts
  assume s: "scan (system_step h sha (h_height (bw_header w))) (bw_system_events w) (snapshot_map (bw_pre_state w)) = Some (accounts, [])"
    and c: "\<And>i. compare_system_account (lookup accounts i) (lookup (snapshot_map (bw_post_system_state w)) i) = []"
  from scan_nonces [OF s, of i] compare_system_account_clean [OF c [of i]] show ?thesis
    by (auto simp: claimed_nonce_def [of accounts] claimed_nonce_def [of "snapshot_map (bw_post_system_state w)"])
qed

theorem nonces_strictly_increase_witness:
  "claimed_nonce (snapshot_map (bw_post_system_state resolution_block)) 1 =
     last (claimed_nonce (snapshot_map (bw_pre_state resolution_block)) 1 # nonces_of 1 (bw_system_events resolution_block))"
proof -
  obtain r where "verify_system_transition sample_hash sample_hash resolution_block = Some r" "vr_valid r"
    using resolution_block_passes by blast
  from nonces_strictly_increase [OF this] show ?thesis by blast
qed

lemma share_value_error: "0 \<le> p \<Longrightarrow> \<bar>1000 * share_value p q - p * q\<bar> \<le> 999"
proof -
  have *: "\<bar>1000 * (p * n div 1000) - p * n\<bar> \<le> 999" for n :: int
    using minus_mod_eq_mult_div [of "p * n" 1000] pos_mod_bound [of 1000 "p * n"] pos_mod_sign [of 1000 "p * n"]
    by linarith
  assume "0 \<le> p"
  show ?thesis
  proof (cases "0 \<le> q")
    case True
    then show ?thesis using * [of q] by (cases "q = 0") (simp_all add: share_value_def)
  next
    case False
    then have "1000 * share_value p q - p * q = - (1000 * (p * (- q) div 1000) - p * (- q))"
      by (simp add: share_value_def)
    then show ?thesis using * [of "- q"] by simp
  qed
qed

lemma fold_redeem_other: "i \<notin> set xs \<Longrightarrow> lg_cash (fold (redeem m p) xs l) i = lg_cash l i"
  by (induction xs arbitrary: l) (auto simp: redeem_def credit_def)

lemma fold_redeem_pos:
  "lg_pos (fold (redeem m p) xs l) i k = (if i \<in> set xs \<and> (k = (m, 0) \<or> k = (m, 1)) then 0 else lg_pos l i k)"
  by (induction xs arbitrary: l) (auto simp: redeem_def credit_def)

lemma fold_redeem_cash:
  "distinct xs \<Longrightarrow> i \<in> set xs \<Longrightarrow> lg_cash (fold (redeem m p) xs l) i =
     lg_cash l i + share_value (uint p) (lg_pos l i (m, 0)) + share_value (1000000000 - uint p) (lg_pos l i (m, 1))"
  by (induction xs arbitrary: l) (auto simp: fold_redeem_other, auto simp: redeem_def credit_def)

lemma sum_list_error:
  fixes f g :: "'a \<Rightarrow> int"
  assumes "\<And>x. \<bar>f x - g x\<bar> \<le> k"
  shows "\<bar>sum_list (map f xs) - sum_list (map g xs)\<bar> \<le> k * int (length xs)"
proof (induction xs)
  case (Cons x xs)
  then show ?case using assms [of x] by (simp add: algebra_simps)
qed simp

text \<open>C32: resolving a market at a price of at most one dollar, whose YES and NO shares over the affected
  accounts are equally many, pays the affected accounts together one dollar per pair of shares, up to two nanos
  per account of rounding; it clears their positions in the market and leaves every other account alone.\<close>

theorem resolution_pays_one_dollar_per_pair:
  assumes "apply_event h sha ht (MarketResolved m p affected) s = (t, True)"
    and "p \<le> NANOS_PER_DOLLAR" "redeemable s" "distinct affected"
    and "sum_list (map (\<lambda>i. claimed_pos s i m 0) affected) = pairs" "sum_list (map (\<lambda>i. claimed_pos s i m 1) affected) = pairs"
  shows "\<bar>sum_list (map (\<lambda>i. claimed_balance t i - claimed_balance s i) affected) - 1000000 * pairs\<bar>
           \<le> 2 * int (length affected) \<and>
         (\<forall>i \<in> set affected. claimed_pos t i m 0 = 0 \<and> claimed_pos t i m 1 = 0) \<and>
         (\<forall>i. i \<notin> set affected \<longrightarrow> claimed_balance t i = claimed_balance s i)"
proof -
  have l: "ledger_of t = fold (redeem m p) affected (ledger_of s)"
    using resolve_accounts_ok [OF _ assms(2,3)] assms(1) by simp
  have cash: "claimed_balance t i = lg_cash (fold (redeem m p) affected (ledger_of s)) i"
    and pos: "claimed_pos t i mk out = lg_pos (fold (redeem m p) affected (ledger_of s)) i (mk, out)" for i mk out
    using l [symmetric] by (simp_all add: ledger_of_def)
  let ?p = "uint p" and ?n = "1000000000 - uint p"
  have p: "0 \<le> ?p" "0 \<le> ?n" using assms(2) by (simp_all add: word_le_def uint_NANOS)
  let ?paid = "\<lambda>i. share_value ?p (claimed_pos s i m 0) + share_value ?n (claimed_pos s i m 1)"
  let ?exact = "\<lambda>i. ?p * claimed_pos s i m 0 + ?n * claimed_pos s i m 1"
  have paid: "map (\<lambda>i. claimed_balance t i - claimed_balance s i) affected = map ?paid affected"
    using assms(4) by (simp add: cash fold_redeem_cash) (simp add: ledger_of_def)
  have "\<bar>1000 * ?paid i - ?exact i\<bar> \<le> 1998" for i
    using share_value_error [OF p(1), of "claimed_pos s i m 0"] share_value_error [OF p(2), of "claimed_pos s i m 1"]
    by (simp add: distrib_left)
  from sum_list_error [of "\<lambda>i. 1000 * ?paid i" ?exact 1998 affected, OF this]
  have "\<bar>1000 * sum_list (map ?paid affected) - (?p * pairs + ?n * pairs)\<bar> \<le> 1998 * int (length affected)"
    using assms(5,6) by (simp only: sum_list_const_mult sum_list_addf)
  moreover have "?p * pairs + ?n * pairs = 1000 * (1000000 * pairs)" by (simp add: algebra_simps)
  ultimately have "\<bar>sum_list (map ?paid affected) - 1000000 * pairs\<bar> \<le> 2 * int (length affected)" by linarith
  then show ?thesis unfolding paid
    using pos cash fold_redeem_other [of _ affected m p "ledger_of s"] by (auto simp: fold_redeem_pos ledger_of_def)
qed

theorem resolution_pays_one_dollar_per_pair_witness:
  "\<exists>t. apply_event sample_hash sample_hash 5 (MarketResolved 0 600000000 [1, 2, u64_max]) (snapshot_map sample_post) = (t, True) \<and>
     \<bar>sum_list (map (\<lambda>i. claimed_balance t i - claimed_balance (snapshot_map sample_post) i) [1, 2, u64_max]) - 800000000\<bar> \<le> 6"
proof -
  let ?s = "snapshot_map sample_post" and ?e = "MarketResolved 0 600000000 [1, 2, u64_max]"
  have ok: "snd (apply_event sample_hash sample_hash 5 ?e ?s)"
    by (simp add: snapshot_map_def sample_post_def om_of_list_def snapshot_def with_account_def resolve_account_def
      remove_position_def Let_def system_signed_notional_def notional_nanos_def SHARE_SCALE_def NANOS_PER_DOLLAR_def
      saturating_sub_u64_def sub_u64_def u64_of_def fits_u64_def i64_of_def fits_i64_def mul_i64_def add_i64_def
      unsigned_abs_def u64_max_def)
  have "redeemable ?s"
    by (auto simp: redeemable_def claimed_pos_def snapshot_map_def sample_post_def om_of_list_def
        snapshot_def position_map_def fits_i64_def MAX_REDEEMABLE_def)
  moreover have "claimed_pos ?s 1 0 0 = 1000" "claimed_pos ?s 1 0 1 = 0" "claimed_pos ?s 2 0 0 = 0" "claimed_pos ?s 2 0 1 = 800"
    "claimed_pos ?s u64_max 0 0 = - 200" "claimed_pos ?s u64_max 0 1 = 0"
    by (simp_all add: claimed_pos_def snapshot_map_def sample_post_def om_of_list_def snapshot_def position_map_def
        u64_max_def fits_i64_def)
  ultimately show ?thesis
    using resolution_pays_one_dollar_per_pair [of sample_hash sample_hash 5 0 600000000 "[1, 2, u64_max]" ?s
        "fst (apply_event sample_hash sample_hash 5 ?e ?s)" 800] ok
    by (intro exI [of _ "fst (apply_event sample_hash sample_hash 5 ?e ?s)"])
       (simp add: prod_eq_iff u64_max_def NANOS_PER_DOLLAR_def)
qed

section \<open>Repeated positions\<close>

text \<open>
  The system layer compares \<open>normalized_positions\<close>, which drops zero entries before the last entry of an
  outcome wins; the settlement layer builds its map from all entries.  A post-system snapshot that lists a
  position and then the same outcome with quantity zero is equal to the pre-state for the one and empty for
  the other, so a block without events and fills passes both while the positions disappear.
\<close>

definition vanishing_block :: BlockWitness where
  "vanishing_block = sample_block\<lparr> bw_orders := [], bw_fills := [], bw_minting_cost := 0,
     bw_pre_state := [snapshot 1 0 0 [(0, 0, of_val 500)], snapshot 2 0 0 [(0, 1, of_val 500)]],
     bw_post_system_state := [snapshot 1 0 0 [(0, 0, of_val 500), (0, 0, of_val 0)],
                              snapshot 2 0 0 [(0, 1, of_val 500), (0, 1, of_val 0)]],
     bw_post_state := [snapshot 1 0 0 [], snapshot 2 0 0 []] \<rparr>"

text \<open>C39: the system layer and the settlement layer read a snapshot that repeats an outcome differently: there is a block
  without events and without fills that passes both layers although a position of its pre-state is gone
  from its post-state.\<close>

theorem vanishing_positions_pass_both_layers:
  "(\<exists>r. verify_system_transition sample_hash sample_hash vanishing_block = Some r \<and> vr_valid r) \<and>
   (\<exists>r. verify_settlement sample_hash vanishing_block = Some r \<and> vr_valid r) \<and>
   bw_system_events vanishing_block = [] \<and> bw_fills vanishing_block = [] \<and>
   claimed_pos (snapshot_map (bw_pre_state vanishing_block)) 1 0 0 = 500 \<and>
   claimed_pos (snapshot_map (bw_post_state vanishing_block)) 1 0 0 = 0"
proof (intro conjI)
  note d = vanishing_block_def snapshot_map_def om_of_list_def snapshot_def
  show "\<exists>r. verify_system_transition sample_hash sample_hash vanishing_block = Some r \<and> vr_valid r"
    by (simp add: d verify_system_transition_def om_keys_def compare_system_account_def normalized_positions_def
        val_eq_iff fits_i64_def)
  show "\<exists>r. verify_settlement sample_hash vanishing_block = Some r \<and> vr_valid r"
    by (simp add: d verify_settlement_def derive_post_state_def initial_accounts_def derived_of_snapshot_def position_map_def
        derive_adjustments_def all_markets_def om_values_def om_keys_def market_total_for_accounts_def outcome_total_def
        add_i64_def sub_i64_def i64_of_def fits_i64_def val_eq_iff derived_minting_cost_def
        minting_cost_from_fill_balance_delta_checked_def neg_i64_def derive_mint_def negative_balances_def
        negative_positions_def compare_accounts_def compare_account_def compare_positions_def less_i64_def Let_def)
qed (simp_all add: vanishing_block_def claimed_pos_def snapshot_map_def om_of_list_def snapshot_def position_map_def fits_i64_def)

end
