(* ===== verification/Sequencer_Account.thy ===== *)
theory Sequencer_Account
  imports Verifier_System
begin

text \<open>
  \<open>crates/matching-sequencer/src/account.rs\<close> and \<open>canonical_state.rs\<close>: the sequencer's account store and the
  canonical snapshots it commits.  The \<open>HashMap\<close> of accounts and the one of positions are ordered maps; the
  canonical state is sorted, so the iteration order of the code does not show in it.  The lemmas say that a
  snapshot carries exactly what the verifier reads of an account, and that account identifiers are never
  reused and never collide with MINT.
\<close>

definition MAX_API_KEYS_PER_ACCOUNT :: nat where "MAX_API_KEYS_PER_ACCOUNT = 64"
definition MAX_API_KEY_LABEL_BYTES :: nat where "MAX_API_KEY_LABEL_BYTES = 128"

record AccountProfile =
  pf_display_name :: "string option"
  pf_avatar_seed :: "string option"

definition profile_default :: AccountProfile where
  "profile_default = \<lparr> pf_display_name = None, pf_avatar_seed = None \<rparr>"

definition profile_is_empty :: "AccountProfile \<Rightarrow> bool" where
  "profile_is_empty p \<longleftrightarrow> pf_display_name p = None \<and> pf_avatar_seed p = None"

record ApiKeyRecord =
  ak_id :: u64
  ak_hash :: bytes
  ak_label :: "string option"
  ak_created_at_ms :: u64
  ak_revoked_at_ms :: "u64 option"

definition api_key_is_active :: "ApiKeyRecord \<Rightarrow> bool" where
  "api_key_is_active k \<longleftrightarrow> ak_revoked_at_ms k = None"

record Account =
  ac_id :: AccountId
  ac_balance :: i64
  ac_positions :: Positions
  ac_total_deposited :: i64
  ac_last_nonce :: u64
  ac_last_trading_nonce :: u64
  ac_events_digest :: bytes
  ac_keys_digest :: bytes
  ac_profile :: AccountProfile
  ac_api_keys :: "ApiKeyRecord list"
  ac_next_api_key_id :: u64

definition account_new :: "hash \<Rightarrow> AccountId \<Rightarrow> i64 \<Rightarrow> Account" where
  "account_new sha i balance = \<lparr> ac_id = i, ac_balance = balance, ac_positions = om_empty,
     ac_total_deposited = balance, ac_last_nonce = 0, ac_last_trading_nonce = 0, ac_events_digest = zero_digest,
     ac_keys_digest = empty_account_keys_digest sha i, ac_profile = profile_default, ac_api_keys = [],
     ac_next_api_key_id = 0 \<rparr>"

definition position :: "Account \<Rightarrow> MarketId \<Rightarrow> u8 \<Rightarrow> i64" where
  "position account market outcome = get_or (ac_positions account) (market, outcome) 0"

record AccountStore =
  sto_accounts :: "(AccountId, Account) omap"
  sto_next_id :: u64

definition store_new :: "hash \<Rightarrow> AccountStore" where
  "store_new sha = \<lparr> sto_accounts = om_ins MINT_ID (account_new sha MINT_ID 0) om_empty, sto_next_id = 0 \<rparr>"

text \<open>\<open>next_id += 1\<close> runs before the insertion and aborts on overflow.\<close>

definition create_account :: "hash \<Rightarrow> i64 \<Rightarrow> AccountStore \<Rightarrow> (AccountId \<times> AccountStore) option" where
  "create_account sha balance store = do {
     let i = sto_next_id store;
     next \<leftarrow> add_u64 (sto_next_id store) 1;
     Some (i, store\<lparr> sto_next_id := next,
                     sto_accounts := om_ins i (account_new sha i balance) (sto_accounts store) \<rparr>) }"

definition get_account :: "AccountStore \<Rightarrow> AccountId \<Rightarrow> Account option" where
  "get_account store i = lookup (sto_accounts store) i"

definition set_account :: "AccountId \<Rightarrow> Account \<Rightarrow> AccountStore \<Rightarrow> AccountStore" where
  "set_account i account store = store\<lparr> sto_accounts := om_ins i account (sto_accounts store) \<rparr>"

definition total_balance :: "AccountStore \<Rightarrow> i64 option" where
  "total_balance store = fold_opt (\<lambda>a s. add_i64 s (ac_balance a)) (om_values (sto_accounts store)) 0"

definition store_restore :: "(AccountId, Account) omap \<Rightarrow> u64 \<Rightarrow> AccountStore" where
  "store_restore accounts next_id = \<lparr> sto_accounts = accounts, sto_next_id = next_id \<rparr>"

section \<open>Canonical snapshots\<close>

definition canonicalize_snapshot :: "AccountSnapshot \<Rightarrow> AccountSnapshot" where
  "canonicalize_snapshot snap = snap\<lparr> as_positions :=
     sort_key (\<lambda>(m, out, q). (m, out)) (filter (\<lambda>(m, out, q). q \<noteq> 0) (as_positions snap)) \<rparr>"

definition snapshot_account :: "Account \<Rightarrow> AccountSnapshot" where
  "snapshot_account account = canonicalize_snapshot
     \<lparr> as_id = ac_id account, as_balance = ac_balance account, as_total_deposited = ac_total_deposited account,
       as_positions = map (\<lambda>((m, out), q). (m, out, q)) (entries (ac_positions account)),
       as_events_digest = ac_events_digest account, as_keys_digest = ac_keys_digest account,
       as_last_trading_nonce = ac_last_trading_nonce account \<rparr>"

definition from_snapshot_iter :: "AccountSnapshot list \<Rightarrow> AccountSnapshot list" where
  "from_snapshot_iter snapshots = sort_key as_id (map canonicalize_snapshot snapshots)"

definition from_accounts :: "AccountStore \<Rightarrow> AccountSnapshot list" where
  "from_accounts store = from_snapshot_iter (map snapshot_account (om_values (sto_accounts store)))"

type_synonym MarketTotals = "(MarketId, i64 \<times> i64) omap"

definition position_totals_from_snapshots :: "AccountSnapshot list \<Rightarrow> MarketTotals option" where
  "position_totals_from_snapshots accounts =
     fold_opt (\<lambda>account totals. fold_opt totals_step (as_positions account) totals) accounts om_empty"

definition totals_for :: "MarketTotals \<Rightarrow> MarketId \<Rightarrow> i64 \<times> i64" where
  "totals_for totals market_id = get_or totals market_id (0, 0)"

definition minting_inputs :: "MarketTotals \<Rightarrow> (MarketId \<times> i64 \<times> i64) list" where
  "minting_inputs totals = entries totals"

section \<open>Identifiers\<close>

text \<open>MINT is present, every account is stored under its own identifier, and identifiers at or above the
  counter other than MINT are free.\<close>

definition store_wf :: "AccountStore \<Rightarrow> bool" where
  "store_wf store \<longleftrightarrow> lookup (sto_accounts store) MINT_ID \<noteq> None \<and>
     (\<forall>i a. lookup (sto_accounts store) i = Some a \<longrightarrow> ac_id a = i \<and> (i = MINT_ID \<or> i < sto_next_id store))"

lemma store_new_wf: "store_wf (store_new sha)"
  by (auto simp: store_wf_def store_new_def account_new_def)

lemma add_u64_1: "add_u64 w 1 = Some v \<longleftrightarrow> w \<noteq> u64_max \<and> v = w + 1"
proof (cases "w = u64_max")
  case True
  then show ?thesis using uint_bounds(2) [of v] by (auto simp: num u64_max_def)
next
  case False
  then have "uint w \<noteq> 18446744073709551615" by (auto simp: u64_max_def word_uint_eq_iff)
  then have "uint w + 1 < 2 ^ 64" using uint_bounds(2) [of w] by simp
  then have "uint (w + 1) = uint w + 1" by (simp add: uint_plus_if')
  with False show ?thesis by (auto simp: num word_uint_eq_iff)
qed

lemma inc_less: "w \<noteq> u64_max \<Longrightarrow> w < w + 1"
  using add_u64_1 [of w "w + 1"] by (simp add: num word_less_def)

lemma create_account_eq:
  "create_account sha b store = Some (i, store') \<longleftrightarrow> sto_next_id store \<noteq> u64_max \<and> i = sto_next_id store \<and>
     store' = \<lparr> sto_accounts = om_ins i (account_new sha i b) (sto_accounts store), sto_next_id = i + 1 \<rparr>"
  unfolding create_account_def Let_def by (auto simp: opt add_u64_1)

lemma create_account_wf:
  assumes "store_wf store" "create_account sha b store = Some (i, store')"
  shows "store_wf store'" "i \<noteq> MINT_ID" "lookup (sto_accounts store) i = None"
    "lookup (sto_accounts store') i = Some (account_new sha i b)"
    "j \<noteq> i \<Longrightarrow> lookup (sto_accounts store') j = lookup (sto_accounts store) j" "sto_next_id store < sto_next_id store'"
proof -
  note c = assms(2) [unfolded create_account_eq]
  have lt: "sto_next_id store < sto_next_id store + 1" using inc_less c by blast
  show "i \<noteq> MINT_ID" using c by (auto simp: MINT_ID_def)
  show "lookup (sto_accounts store) i = None"
    using assms(1) c by (cases "lookup (sto_accounts store) i") (auto simp: store_wf_def MINT_ID_def)
  show "store_wf store'"
    using assms(1) c lt by (auto simp: store_wf_def account_new_def MINT_ID_def) (meson less_trans)
qed (use assms(2) inc_less in \<open>auto simp: create_account_eq\<close>)

section \<open>What a snapshot carries\<close>

lemma canonicalize_sel [simp]:
  "as_id (canonicalize_snapshot s) = as_id s" "as_balance (canonicalize_snapshot s) = as_balance s"
  "as_total_deposited (canonicalize_snapshot s) = as_total_deposited s"
  "as_events_digest (canonicalize_snapshot s) = as_events_digest s"
  "as_keys_digest (canonicalize_snapshot s) = as_keys_digest s"
  "as_last_trading_nonce (canonicalize_snapshot s) = as_last_trading_nonce s"
  by (simp_all add: canonicalize_snapshot_def)

lemma snapshot_sel [simp]:
  "as_id (snapshot_account a) = ac_id a" "as_balance (snapshot_account a) = ac_balance a"
  "as_total_deposited (snapshot_account a) = ac_total_deposited a"
  "as_events_digest (snapshot_account a) = ac_events_digest a" "as_keys_digest (snapshot_account a) = ac_keys_digest a"
  "as_last_trading_nonce (snapshot_account a) = ac_last_trading_nonce a"
  by (simp_all add: snapshot_account_def)

lemma sort_key_id: "sorted (map k xs) \<Longrightarrow> sort_key k xs = xs"
  by (induction xs) (auto simp: insort_is_Cons)

lemma canonicalize_idem [simp]: "canonicalize_snapshot (canonicalize_snapshot s) = canonicalize_snapshot s"
  by (simp add: canonicalize_snapshot_def filter_sort sort_key_id)

lemma snapshot_positions: "as_positions (snapshot_account a) =
    map (\<lambda>((m, out), q). (m, out, q)) (filter (\<lambda>(k, q). q \<noteq> 0) (entries (ac_positions a)))"
proof -
  let ?key = "\<lambda>(m :: MarketId, out :: u8, q :: i64). (m, out)" and ?f = "\<lambda>((m :: MarketId, out :: u8), q :: i64). (m, out, q)"
  have "sorted (map fst (filter P (entries (ac_positions a))))" for P
    using sorted_om_keys [of "ac_positions a"] by (simp add: om_keys_def sorted_filter)
  moreover have "map ?key (map ?f xs) = map fst xs" for xs by auto
  ultimately have "sorted (map ?key (map ?f (filter P (entries (ac_positions a)))))" for P by (simp only:)
  then show ?thesis
    by (simp add: snapshot_account_def canonicalize_snapshot_def filter_map comp_def sort_key_id case_prod_unfold)
qed

lemma snapshot_position [simp]:
  "get_or (position_map (as_positions (snapshot_account a))) k 0 = get_or (ac_positions a) k 0"
proof -
  let ?xs = "filter (\<lambda>(k, q). q \<noteq> 0) (entries (ac_positions a))"
  have "map (\<lambda>(m, out, q). ((m, out), q)) (as_positions (snapshot_account a)) = ?xs"
    by (auto simp: snapshot_positions comp_def case_prod_unfold)
  moreover have d: "distinct (map fst ?xs)"
    using distinct_keys(1) [of "ac_positions a"] by (rule distinct_map_filter)
  ultimately have l: "lookup (position_map (as_positions (snapshot_account a))) k = map_of ?xs k"
    by (simp add: position_map_def lookup_om_of_list_distinct)
  show ?thesis
  proof (cases "map_of ?xs k")
    case None
    then have "lookup (ac_positions a) k = Some q \<Longrightarrow> q = 0" for q
      by (cases k) (auto simp: map_of_eq_None_iff image_iff)
    with None l show ?thesis by (auto simp: get_or_def split: option.splits)
  next
    case (Some q)
    then have "(k, q) \<in> set ?xs" by (rule map_of_SomeD)
    with Some l show ?thesis by (simp add: get_or_def)
  qed
qed

lemma snapshot_distinct: "distinct (map (\<lambda>(m, out, q). (m, out)) (as_positions (snapshot_account a)))"
proof -
  have "map (\<lambda>(m, out, q). (m, out)) (as_positions (snapshot_account a)) =
      map fst (filter (\<lambda>(k, q). q \<noteq> 0) (entries (ac_positions a)))" by (auto simp: snapshot_positions)
  then show ?thesis using distinct_map_filter [OF distinct_keys(1) [of "ac_positions a"]] by (simp only:)
qed

lemma from_accounts_eq: "from_accounts store = sort_key as_id (map snapshot_account (om_values (sto_accounts store)))"
proof -
  have "canonicalize_snapshot \<circ> snapshot_account = snapshot_account"
    by (simp add: fun_eq_iff snapshot_account_def)
  then show ?thesis by (simp add: from_accounts_def from_snapshot_iter_def)
qed

text \<open>Under the identifiers of a well-formed store, the canonical state is the map of the snapshots.\<close>

lemma snapshot_map_from_accounts:
  assumes "store_wf store"
  shows "lookup (snapshot_map (from_accounts store)) i = map_option snapshot_account (lookup (sto_accounts store) i)"
proof -
  let ?m = "sto_accounts store"
  have id: "ac_id a = k" if "(k, a) \<in> set (entries ?m)" for k a
    using assms that by (auto simp: store_wf_def)
  have ids: "map (as_id \<circ> snapshot_account) (om_values ?m) = om_keys ?m"
    using id by (auto simp: om_values_def om_keys_def)
  then have "sorted (map as_id (map snapshot_account (om_values ?m)))" using sorted_om_keys [of ?m] by simp
  then have fa: "from_accounts store = map snapshot_account (om_values ?m)"
    by (simp add: from_accounts_eq sort_key_id)
  have eq: "map (\<lambda>s. (as_id s, s)) (from_accounts store) = map (\<lambda>(k, a). (k, snapshot_account a)) (entries ?m)"
    unfolding fa om_values_def using id by auto
  have fst: "map fst (map (\<lambda>(k, a). (k, snapshot_account a)) (entries ?m)) = map fst (entries ?m)" by auto
  have "lookup (snapshot_map (from_accounts store)) i = map_of (map (\<lambda>(k, a). (k, snapshot_account a)) (entries ?m)) i"
    unfolding snapshot_map_def eq
    by (rule lookup_om_of_list_distinct) (simp only: fst distinct_keys(1))
  then show ?thesis by (simp add: lookup_entries map_of_map)
qed

end
