(* ===== verification/Sequencer_Settlement.thy ===== *)
theory Sequencer_Settlement
  imports Sequencer_Account
begin

text \<open>
  \<open>crates/matching-sequencer/src/settlement.rs\<close> and \<open>sequencer/production/finalize.rs\<close>: the sequencer applies
  the fills of a solved batch to its accounts, mints what the fills need, and checks its own invariants.  The
  refinement is towards the verifier: what the sequencer computes passes the verifier's replay.  The analytics
  of the finalize phase (volumes, mark prices) are views and are left out.
\<close>

section \<open>Fills\<close>

definition add_position :: "PositionDelta \<Rightarrow> Positions \<Rightarrow> Positions option" where
  "add_position d pos = (case d of (market, outcome, qty_delta) \<Rightarrow> do {
     q \<leftarrow> add_i64 (get_or pos (market, outcome) 0) qty_delta;
     Some (om_ins (market, outcome) q pos) })"

text \<open>The inner option is the code's; the outer one is the abort.\<close>

definition settle_fill_with_delta :: "Account \<Rightarrow> Order \<Rightarrow> Fill \<Rightarrow> (Account \<times> SettlementDelta option) option" where
  "settle_fill_with_delta account ord fill = do {
     d \<leftarrow> compute_fill_settlement ord fill;
     case d of None \<Rightarrow> Some (account, None)
     | Some delta \<Rightarrow> do {
         balance \<leftarrow> add_i64 (ac_balance account) (sd_balance_delta delta);
         positions \<leftarrow> fold_opt add_position (sd_position_deltas delta) (ac_positions account);
         Some (account\<lparr> ac_balance := balance, ac_positions := positions \<rparr>, Some delta) } }"

definition settle_fill :: "Account \<Rightarrow> Order \<Rightarrow> Fill \<Rightarrow> (Account \<times> bool) option" where
  "settle_fill account ord fill = map_option (\<lambda>(a, d). (a, d \<noteq> None)) (settle_fill_with_delta account ord fill)"

datatype UnsettleableFillReason = MissingOrder | MissingAccount | SettlementOverflowReason

datatype BlockInvariantFailure =
    UnsettleableFill u64 u64 UnsettleableFillReason
  | NegativeBalanceFailure AccountId i64
  | BalanceDeltaMismatch i64 i64
  | PositionImbalance MarketId i64 i64
  | PreparedStateRootMismatch bytes bytes
  | FullVerificationFailed "ViolationKind list"

type_synonym BatchState = "AccountStore \<times> BlockInvariantFailure list \<times> PositionDelta list"

definition settle_step :: "hash \<Rightarrow> u64 \<Rightarrow> (u64, Order) omap \<Rightarrow> Fill \<Rightarrow> BatchState \<Rightarrow> BatchState option" where
  "settle_step h block_height order_map fill st = (case st of (accounts, failures, position_deltas) \<Rightarrow>
     (if f_fill_qty fill = 0 then Some st
      else let fail = (\<lambda>reason. (accounts,
                 failures @ [UnsettleableFill (f_order_id fill) (f_account_id fill) reason], position_deltas))
      in case lookup order_map (f_order_id fill) of
           None \<Rightarrow> Some (fail MissingOrder)
         | Some ord \<Rightarrow>
             (case get_account accounts (f_account_id fill) of
                None \<Rightarrow> Some (fail MissingAccount)
              | Some account \<Rightarrow> do {
                  (account', d) \<leftarrow> settle_fill_with_delta account ord fill;
                  case d of None \<Rightarrow> Some (fail SettlementOverflowReason)
                  | Some delta \<Rightarrow>
                      (let event = encode_fill_event (f_order_id fill) (f_fill_qty fill) (f_fill_price fill) block_height;
                           account'' = account'\<lparr> ac_events_digest := update_digest h (ac_events_digest account') event \<rparr>
                       in Some (set_account (f_account_id fill) account'' accounts, failures,
                                position_deltas @ sd_position_deltas delta)) })))"

definition settle_batch_with_position_deltas ::
  "hash \<Rightarrow> AccountStore \<Rightarrow> Fill list \<Rightarrow> Order list \<Rightarrow> u64 \<Rightarrow> BatchState option"
where
  "settle_batch_with_position_deltas h accounts fills orders block_height =
     fold_opt (settle_step h block_height (order_map_of orders)) fills (accounts, [], [])"

definition settle_batch ::
  "hash \<Rightarrow> AccountStore \<Rightarrow> Fill list \<Rightarrow> Order list \<Rightarrow> u64 \<Rightarrow> (AccountStore \<times> BlockInvariantFailure list) option"
where
  "settle_batch h accounts fills orders block_height =
     map_option (\<lambda>(a, fs, ds). (a, fs)) (settle_batch_with_position_deltas h accounts fills orders block_height)"

section \<open>Minting\<close>

definition minting_step :: "MintAdjustment \<Rightarrow> Account \<Rightarrow> Account option" where
  "minting_step adj mint = do {
     positions \<leftarrow> add_position (ma_market_id adj, ma_outcome adj, ma_position_delta adj) (ac_positions mint);
     balance \<leftarrow> add_i64 (ac_balance mint) (ma_balance_delta adj);
     Some (mint\<lparr> ac_positions := positions, ac_balance := balance \<rparr>) }"

definition apply_minting :: "hash \<Rightarrow> Account \<Rightarrow> MintAdjustment list \<Rightarrow> u64 \<Rightarrow> Account option" where
  "apply_minting h mint adjustments block_height = do {
     mint' \<leftarrow> fold_opt minting_step adjustments mint;
     Some (if adjustments = [] then mint'
           else mint'\<lparr> ac_events_digest :=
                  update_digest h (ac_events_digest mint') (encode_mint_event adjustments block_height) \<rparr>) }"

section \<open>Resolution\<close>

text \<open>\<open>notional_nanos(..).0 as i64 * pos.signum()\<close> added to the balance, when the position is not zero.\<close>

definition pay_out :: "Nanos \<Rightarrow> i64 \<Rightarrow> Account \<Rightarrow> Account option" where
  "pay_out payout pos account =
     (if pos = 0 then Some account
      else do {
        value \<leftarrow> mul_i64 (I64 (notional_nanos payout (unsigned_abs pos))) (of_val (sgn (val pos)));
        balance \<leftarrow> add_i64 (ac_balance account) value;
        Some (account\<lparr> ac_balance := balance \<rparr>) })"

definition resolve_one :: "MarketId \<Rightarrow> Nanos \<Rightarrow> Account \<Rightarrow> (Account \<times> bool) option" where
  "resolve_one market yes_payout_nanos account = do {
     let no_payout_nanos = saturating_sub_u64 NANOS_PER_DOLLAR yes_payout_nanos;
     let yes_pos = get_or (ac_positions account) (market, 0) 0;
     let account = account\<lparr> ac_positions := om_del (market, 0) (ac_positions account) \<rparr>;
     let no_pos = get_or (ac_positions account) (market, 1) 0;
     let account = account\<lparr> ac_positions := om_del (market, 1) (ac_positions account) \<rparr>;
     account \<leftarrow> pay_out yes_payout_nanos yes_pos account;
     account \<leftarrow> pay_out no_payout_nanos no_pos account;
     Some (account, yes_pos \<noteq> 0 \<or> no_pos \<noteq> 0) }"

definition resolve_market :: "MarketId \<Rightarrow> Nanos \<Rightarrow> AccountStore \<Rightarrow> (AccountStore \<times> AccountId list) option" where
  "resolve_market market yes_payout_nanos accounts =
     fold_opt (\<lambda>i (store, affected). do {
         account \<leftarrow> get_account store i;
         (account', hit) \<leftarrow> resolve_one market yes_payout_nanos account;
         Some (set_account i account' store, if hit then affected @ [i] else affected) })
       (om_keys (sto_accounts accounts)) (accounts, [])"

section \<open>Aggregates and invariants\<close>

record AccountAggregates =
  ag_total_balance :: i64
  ag_market_position_totals :: MarketTotals
  ag_negative_balances :: "(AccountId \<times> i64) list"

definition aggregates_default :: AccountAggregates where
  "aggregates_default = \<lparr> ag_total_balance = 0, ag_market_position_totals = om_empty, ag_negative_balances = [] \<rparr>"

definition observe_account :: "AccountId \<times> Account \<Rightarrow> AccountAggregates \<Rightarrow> AccountAggregates option" where
  "observe_account e aggregates = (case e of (account_id, account) \<Rightarrow> do {
     total \<leftarrow> add_i64 (ag_total_balance aggregates) (ac_balance account);
     let negative = (if account_id \<noteq> MINT_ID \<and> ac_balance account < 0 then [(account_id, ac_balance account)] else []);
     totals \<leftarrow> fold_opt (\<lambda>((m, out), q) t. if q = 0 then Some t else totals_step (m, out, q) t)
        (entries (ac_positions account)) (ag_market_position_totals aggregates);
     Some \<lparr> ag_total_balance = total, ag_market_position_totals = totals,
            ag_negative_balances = ag_negative_balances aggregates @ negative \<rparr> })"

definition aggregates_from_accounts :: "AccountStore \<Rightarrow> AccountAggregates option" where
  "aggregates_from_accounts accounts = fold_opt observe_account (entries (sto_accounts accounts)) aggregates_default"

definition apply_position_deltas :: "PositionDelta list \<Rightarrow> AccountAggregates \<Rightarrow> AccountAggregates option" where
  "apply_position_deltas position_deltas aggregates =
     map_option (\<lambda>t. aggregates\<lparr> ag_market_position_totals := t \<rparr>)
       (fold_opt totals_step position_deltas (ag_market_position_totals aggregates))"

definition invariant_failures_from_aggregates ::
  "AccountAggregates \<Rightarrow> MarketId list \<Rightarrow> BlockInvariantFailure list"
where
  "invariant_failures_from_aggregates aggregates markets =
     map (\<lambda>(account_id, balance). NegativeBalanceFailure account_id balance) (ag_negative_balances aggregates) @
     concat (map (\<lambda>m. let (total_yes, total_no) = totals_for (ag_market_position_totals aggregates) m
        in flag (total_yes \<noteq> total_no) (PositionImbalance m total_yes total_no)) markets)"

definition collect_account_invariant_failures :: "AccountStore \<Rightarrow> MarketId list \<Rightarrow> BlockInvariantFailure list option" where
  "collect_account_invariant_failures accounts markets =
     map_option (\<lambda>a. invariant_failures_from_aggregates a markets) (aggregates_from_accounts accounts)"

definition expected_balance_delta_from_fills ::
  "Fill list \<Rightarrow> (u64, Order) omap \<Rightarrow> MintAdjustment list \<Rightarrow> i64 option"
where
  "expected_balance_delta_from_fills fills order_map mint_adjustments = do {
     fill_delta \<leftarrow> fold_opt (\<lambda>fill net_delta.
        if f_fill_qty fill = 0 then Some net_delta
        else case lookup order_map (f_order_id fill) of
          None \<Rightarrow> Some net_delta
        | Some ord \<Rightarrow> do {
            d \<leftarrow> compute_fill_settlement ord fill;
            case d of None \<Rightarrow> Some net_delta | Some delta \<Rightarrow> add_i64 net_delta (sd_balance_delta delta) }) fills 0;
     mint_delta \<leftarrow> fold_opt (\<lambda>adj s. add_i64 s (ma_balance_delta adj)) mint_adjustments 0;
     add_i64 fill_delta mint_delta }"

section \<open>The finalize phase\<close>

record FinalizedBlockState =
  fb_accounts :: AccountStore
  fb_post_state :: "AccountSnapshot list"
  fb_minting_cost :: i64
  fb_mint_adjustments :: "MintAdjustment list"
  fb_invariant_failures :: "BlockInvariantFailure list"

definition finalize_block_state_phase ::
  "hash \<Rightarrow> AccountStore \<Rightarrow> Fill list \<Rightarrow> Order list \<Rightarrow> MarketId list \<Rightarrow> Prices \<Rightarrow> u64 \<Rightarrow> FinalizedBlockState option"
where
  "finalize_block_state_phase h accounts fills orders markets clearing_prices height = do {
     pre_aggregates \<leftarrow> aggregates_from_accounts accounts;
     (accounts1, settle_failures, fill_position_deltas) \<leftarrow>
        settle_batch_with_position_deltas h accounts fills orders height;
     pre_aggregates' \<leftarrow> apply_position_deltas fill_position_deltas pre_aggregates;
     let market_totals = minting_inputs (ag_market_position_totals pre_aggregates');
     let mint_adjustments = derive_minting market_totals clearing_prices;
     fill_balance_delta \<leftarrow> fill_balance_delta_from_fills orders fills;
     let minting_cost = minting_cost_from_fill_balance_delta fill_balance_delta;
     accounts2 \<leftarrow> (if mint_adjustments = [] then Some accounts1
        else do {
          mint \<leftarrow> get_account accounts1 MINT_ID;
          mint' \<leftarrow> apply_minting h mint mint_adjustments height;
          Some (set_account MINT_ID mint' accounts1) });
     post_aggregates \<leftarrow> aggregates_from_accounts accounts2;
     balance_delta \<leftarrow> sub_i64 (ag_total_balance post_aggregates) (ag_total_balance pre_aggregates);
     mismatch \<leftarrow> (if balance_delta = 0 then Some []
        else do {
          expected \<leftarrow> expected_balance_delta_from_fills fills (order_map_of orders) mint_adjustments;
          Some (flag (balance_delta \<noteq> expected) (BalanceDeltaMismatch balance_delta expected)) });
     Some \<lparr> fb_accounts = accounts2, fb_post_state = from_accounts accounts2, fb_minting_cost = minting_cost,
            fb_mint_adjustments = mint_adjustments,
            fb_invariant_failures = settle_failures @ mismatch @
              invariant_failures_from_aggregates post_aggregates markets \<rparr> }"

end
