(* ===== verification/Settlement_Refinement.thy ===== *)
theory Settlement_Refinement
  imports Sequencer_Settlement
begin

text \<open>
  The sequencer's settlement refines the verifier's replay.  The sequencer mutates its account store fill by
  fill and derives the minting adjustments from incrementally maintained market totals; the verifier replays
  the same fills on the canonical snapshots and recomputes the totals from scratch.  \<open>store_agrees\<close> is the
  simulation relation; one lemma per stage carries it through the fills, the totals, the adjustments and the
  final comparison.
\<close>

section \<open>The verifier replays the fills\<close>

text \<open>An account of the store and a derived account of the verifier hold the same values; a missing position
  entry and a zero one are the same.\<close>

definition account_agrees :: "Account \<Rightarrow> DerivedAccountState \<Rightarrow> bool" where
  "account_agrees a d \<longleftrightarrow> dv_balance d = ac_balance a \<and> dv_total_deposited d = ac_total_deposited a \<and>
     dv_events_digest d = ac_events_digest a \<and> dv_last_trading_nonce d = ac_last_trading_nonce a \<and>
     (\<forall>k. get_or (dv_positions d) k 0 = get_or (ac_positions a) k 0)"

definition store_agrees :: "AccountStore \<Rightarrow> Accounts \<Rightarrow> bool" where
  "store_agrees store accounts \<longleftrightarrow> (\<forall>i. rel_option account_agrees (lookup (sto_accounts store) i) (lookup accounts i))"

lemma store_agrees_set:
  "store_agrees store accounts \<Longrightarrow> account_agrees a d \<Longrightarrow> store_agrees (set_account i a store) (om_ins i d accounts)"
  by (simp add: store_agrees_def set_account_def)

lemma store_agrees_get:
  assumes "store_agrees store accounts" "get_account store i = Some a"
  obtains d where "lookup accounts i = Some d" "account_agrees a d"
  using assms unfolding store_agrees_def get_account_def
  by (metis option_rel_Some1)

lemma store_agrees_initial:
  assumes "store_wf store" shows "store_agrees store (initial_accounts (from_accounts store))"
proof -
  have "lookup (initial_accounts snaps) i = map_option derived_of_snapshot (lookup (snapshot_map snaps) i)" for snaps i
    unfolding initial_accounts_def snapshot_map_def lookup_om_of_list
    by (induction snaps rule: rev_induct) auto
  then show ?thesis
    by (auto simp: store_agrees_def snapshot_map_from_accounts [OF assms] account_agrees_def derived_of_snapshot_def
        option.map_comp rel_option_iff split: option.splits)
qed

lemma order_entries:
  "lookup (order_map_of (map wo_order wos)) k = map_option wo_order (lookup (witness_order_entries wos) k)"
  unfolding order_map_of_def witness_order_entries_def lookup_om_of_list
  by (induction wos rule: rev_induct) auto

lemma add_positions_agree:
  assumes "fold_opt add_position ds pos = Some pos'" "\<And>k. get_or p k 0 = get_or pos k 0"
  shows "\<exists>p'. scan apply_position_delta ds p = Some (p', []) \<and> (\<forall>k. get_or p' k 0 = get_or pos' k 0)"
  using assms
proof (induction ds arbitrary: pos p)
  case (Cons d ds)
  obtain m out q where d: "d = (m, out, q)" by (metis prod_cases3)
  from Cons.prems(1) obtain v where v: "add_i64 (get_or pos (m, out) 0) q = Some v"
    and r: "fold_opt add_position ds (om_ins (m, out) v pos) = Some pos'"
    by (auto simp: d add_position_def [of "(m, out, q)"] opt)
  have "apply_position_delta d p = Some (om_ins (m, out) v p, [])"
    using v Cons.prems(2) by (simp add: d apply_position_delta_def)
  with Cons.IH [OF r, of "om_ins (m, out) v p"] Cons.prems(2) show ?case by simp
qed simp

definition fbd_step :: "Order list \<Rightarrow> Fill \<Rightarrow> i64 \<Rightarrow> i64 option" where
  "fbd_step orders fill acc = (case lookup (order_map_of orders) (f_order_id fill) of
       None \<Rightarrow> Some acc
     | Some ord \<Rightarrow> do {
         d \<leftarrow> compute_fill_settlement ord fill;
         case d of None \<Rightarrow> Some acc | Some delta \<Rightarrow> add_i64 acc (sd_balance_delta delta) })"

lemma fill_balance_delta_from_fills_eq: "fill_balance_delta_from_fills orders fills = fold_opt (fbd_step orders) fills 0"
  unfolding fill_balance_delta_from_fills_def fbd_step_def by (rule refl)

text \<open>What the block builder guarantees of a fill: it names an order of the batch and that order's account,
  and neither price exceeds one dollar.\<close>

definition fill_in_batch :: "WitnessOrder list \<Rightarrow> Fill \<Rightarrow> bool" where
  "fill_in_batch wos fill \<longleftrightarrow> (\<forall>wo. lookup (witness_order_entries wos) (f_order_id fill) = Some wo \<longrightarrow>
     f_account_id fill = wo_account_id wo \<and> o_limit_price (wo_order wo) \<le> NANOS_PER_DOLLAR \<and>
     f_fill_price fill \<le> NANOS_PER_DOLLAR)"

lemma settle_step_failures:
  "settle_step h ht om fill (store, fs, ds) = Some (store', fs', ds') \<Longrightarrow> \<exists>gs. fs' = fs @ gs"
  by (auto simp: settle_step_def opt Let_def split: if_splits option.splits)

lemma settle_batch_failures:
  "fold_opt (settle_step h ht om) fills (store, fs, ds) = Some (store', fs', ds') \<Longrightarrow> \<exists>gs. fs' = fs @ gs"
proof (induction fills arbitrary: store fs ds)
  case (Cons f fills)
  then obtain store1 fs1 ds1 where "settle_step h ht om f (store, fs, ds) = Some (store1, fs1, ds1)"
    "fold_opt (settle_step h ht om) fills (store1, fs1, ds1) = Some (store', fs', ds')"
    by (auto simp: opt)
  with Cons.IH settle_step_failures show ?case by (metis append.assoc)
qed simp

lemma settle_step_clean:
  assumes "settle_step h ht om fill (store, [], ds) = Some (store', [], ds')"
  shows "f_fill_qty fill = 0 \<and> store' = store \<and> ds' = ds \<or>
    (\<exists>ord a delta b pos. f_fill_qty fill \<noteq> 0 \<and> lookup om (f_order_id fill) = Some ord \<and>
       get_account store (f_account_id fill) = Some a \<and> compute_fill_settlement ord fill = Some (Some delta) \<and>
       add_i64 (ac_balance a) (sd_balance_delta delta) = Some b \<and>
       fold_opt add_position (sd_position_deltas delta) (ac_positions a) = Some pos \<and>
       ds' = ds @ sd_position_deltas delta \<and>
       store' = set_account (f_account_id fill) (a\<lparr> ac_balance := b, ac_positions := pos, ac_events_digest :=
         update_digest h (ac_events_digest a)
           (encode_fill_event (f_order_id fill) (f_fill_qty fill) (f_fill_price fill) ht) \<rparr>) store)"
proof (cases "f_fill_qty fill = 0")
  case False
  with assms obtain ord a where o: "lookup om (f_order_id fill) = Some ord" "get_account store (f_account_id fill) = Some a"
    by (auto simp: settle_step_def Let_def split: option.splits)
  with assms False obtain a' d where s: "settle_fill_with_delta a ord fill = Some (a', d)"
    by (auto simp: settle_step_def Let_def opt)
  with assms False o obtain delta where d: "d = Some delta"
    by (cases d) (auto simp: settle_step_def Let_def opt)
  with s obtain b pos where "compute_fill_settlement ord fill = Some (Some delta)"
    "add_i64 (ac_balance a) (sd_balance_delta delta) = Some b"
    "fold_opt add_position (sd_position_deltas delta) (ac_positions a) = Some pos"
    "a' = a\<lparr> ac_balance := b, ac_positions := pos \<rparr>"
    by (auto simp: settle_fill_with_delta_def opt split: option.splits)
  with assms False o s d show ?thesis by (auto simp: settle_step_def Let_def)
qed (use assms in \<open>simp add: settle_step_def\<close>)

lemma compute_fill_settlement_Some:
  "compute_fill_settlement ord fill = Some (Some delta) \<longleftrightarrow> compute_fill_settlement_checked ord fill = Some (Ok (Some delta))"
  by (auto simp: compute_fill_settlement_def opt split: option.splits)

lemma settle_step_replayed:
  assumes step: "settle_step h ht (order_map_of (map wo_order wos)) fill (store, [], ds) = Some (store', [], ds')"
    and fbd: "fbd_step (map wo_order wos) fill fbd = Some fbd'"
    and ok: "fill_in_batch wos fill" and agree: "store_agrees store accounts"
  shows "\<exists>accounts'. derive_fill_step h ht (witness_order_entries wos) fill (accounts, fbd) = Some ((accounts', fbd'), []) \<and>
    store_agrees store' accounts' \<and> (\<forall>m out. delta_at ds' m out - delta_at ds m out = pos_total m out accounts' - pos_total m out accounts)"
  using settle_step_clean [OF step]
proof (elim disjE exE conjE)
  assume q: "f_fill_qty fill = 0" and s: "store' = store" "ds' = ds"
  have "compute_fill_settlement ord fill = Some None" for ord
    by (simp add: compute_fill_settlement_def compute_fill_settlement_checked_def q)
  then have "fbd' = fbd" using fbd by (simp add: fbd_step_def split: option.splits)
  with q s agree show ?thesis by (simp add: derive_fill_step_def)
next
  fix ord and a :: Account and delta b pos
  let ?i = "f_account_id fill"
  let ?dig = "update_digest h (ac_events_digest a)
      (encode_fill_event (f_order_id fill) (f_fill_qty fill) (f_fill_price fill) ht)"
  assume q: "f_fill_qty fill \<noteq> 0" and o: "lookup (order_map_of (map wo_order wos)) (f_order_id fill) = Some ord"
    and a: "get_account store ?i = Some a" and c: "compute_fill_settlement ord fill = Some (Some delta)"
    and b: "add_i64 (ac_balance a) (sd_balance_delta delta) = Some b"
    and p: "fold_opt add_position (sd_position_deltas delta) (ac_positions a) = Some pos"
    and ds: "ds' = ds @ sd_position_deltas delta"
    and st: "store' = set_account ?i (a\<lparr> ac_balance := b, ac_positions := pos, ac_events_digest := ?dig \<rparr>) store"
  obtain wo where wo: "lookup (witness_order_entries wos) (f_order_id fill) = Some wo" "wo_order wo = ord"
    using o by (auto simp: order_entries)
  have i: "wo_account_id wo = ?i" "o_limit_price ord \<le> NANOS_PER_DOLLAR" "f_fill_price fill \<le> NANOS_PER_DOLLAR"
    using ok wo by (auto simp: fill_in_batch_def)
  obtain d where d: "lookup accounts ?i = Some d" "account_agrees a d" using agree a by (rule store_agrees_get)
  have f: "add_i64 fbd (sd_balance_delta delta) = Some fbd'" using fbd o c by (simp add: fbd_step_def)
  obtain p' where p': "scan apply_position_delta (sd_position_deltas delta) (dv_positions d) = Some (p', [])"
    "\<forall>k. get_or p' k 0 = get_or pos k 0"
    using add_positions_agree [OF p, of "dv_positions d"] d(2) by (auto simp: account_agrees_def)
  let ?d = "d\<lparr> dv_balance := b, dv_positions := p', dv_events_digest := ?dig \<rparr>"
  have same: "om_ins ?i d accounts = accounts" using d(1) by (intro omap_eqI) simp
  have g: "get_or accounts ?i derived_default = d" using d(1) by (simp add: get_or_def)
  have app: "apply_fill_delta h ht fill ?i delta (accounts, fbd) = Some ((om_ins ?i ?d accounts, fbd'), [])"
    using f b p'(1) d(2) by (simp add: apply_fill_delta_def g account_agrees_def Let_def)
  have "derive_fill_step h ht (witness_order_entries wos) fill (accounts, fbd) = Some ((om_ins ?i ?d accounts, fbd'), [])"
    using q wo i c [unfolded compute_fill_settlement_Some] app g same
    by (cases "?i = 0") (simp_all add: derive_fill_step_def not_less [symmetric] flag_def Let_def)
  moreover have "store_agrees store' (om_ins ?i ?d accounts)"
    unfolding st using agree d(2) p'(2) by (intro store_agrees_set) (simp_all add: account_agrees_def)
  moreover have "delta_at ds' m out - delta_at ds m out = pos_total m out (om_ins ?i ?d accounts) - pos_total m out accounts"
    for m out
    using scan_positions [OF p'(1), of m out] d(1)
    by (simp add: ds pos_total_ins acct_def get_or_def [of accounts] pos_of_def) (simp add: delta_at_def)
  ultimately show ?thesis by blast
qed

lemma settle_batch_replayed:
  assumes "fold_opt (settle_step h ht (order_map_of (map wo_order wos))) fills (store, [], ds) = Some (store', [], ds')"
    and "fold_opt (fbd_step (map wo_order wos)) fills fbd = Some fbd'"
    and "\<forall>fill \<in> set fills. fill_in_batch wos fill" and "store_agrees store accounts"
  shows "\<exists>accounts'. scan (derive_fill_step h ht (witness_order_entries wos)) fills (accounts, fbd) = Some ((accounts', fbd'), []) \<and>
    store_agrees store' accounts' \<and> (\<forall>m out. delta_at ds' m out - delta_at ds m out = pos_total m out accounts' - pos_total m out accounts)"
  using assms
proof (induction fills arbitrary: store ds fbd accounts)
  case (Cons f fills)
  from Cons.prems(1) obtain store1 fs1 ds1 where s: "settle_step h ht (order_map_of (map wo_order wos)) f (store, [], ds) = Some (store1, fs1, ds1)"
    and r: "fold_opt (settle_step h ht (order_map_of (map wo_order wos))) fills (store1, fs1, ds1) = Some (store', [], ds')"
    by (auto simp: opt)
  have "fs1 = []" using settle_batch_failures [OF r] by auto
  note s = s [unfolded this] and r = r [unfolded this]
  from Cons.prems(2) obtain fbd1 where f: "fbd_step (map wo_order wos) f fbd = Some fbd1"
    "fold_opt (fbd_step (map wo_order wos)) fills fbd1 = Some fbd'" by (auto simp: opt)
  have ok: "fill_in_batch wos f" "\<forall>fill \<in> set fills. fill_in_batch wos fill" using Cons.prems(3) by simp_all
  from settle_step_replayed [OF s f(1) ok(1) Cons.prems(4)] obtain accounts1 where
    d: "derive_fill_step h ht (witness_order_entries wos) f (accounts, fbd) = Some ((accounts1, fbd1), [])"
    and a: "store_agrees store1 accounts1"
    and t: "\<forall>m out. delta_at ds1 m out - delta_at ds m out = pos_total m out accounts1 - pos_total m out accounts" by blast
  from Cons.IH [OF r f(2) ok(2) a] obtain accounts' where
    d': "scan (derive_fill_step h ht (witness_order_entries wos)) fills (accounts1, fbd1) = Some ((accounts', fbd'), [])"
    and a': "store_agrees store' accounts'"
    and t': "\<forall>m out. delta_at ds' m out - delta_at ds1 m out = pos_total m out accounts' - pos_total m out accounts1" by blast
  have "delta_at ds' m out - delta_at ds m out = pos_total m out accounts' - pos_total m out accounts" for m out
    using t [rule_format, of m out] t' [rule_format, of m out] by linarith
  with d d' a' show ?case by auto
qed simp

section \<open>Market totals\<close>

lemma totals_step_val:
  assumes "totals_step (m, out, q) T = Some T'"
  shows "val (fst (totals_for T' k)) = val (fst (totals_for T k)) + (if m = k \<and> out = 0 then val q else 0)"
    "val (snd (totals_for T' k)) = val (snd (totals_for T k)) + (if m = k \<and> out = 1 then val q else 0)"
  using assms by (auto simp: totals_step_def totals_for_def num split: prod.splits if_splits)

lemma totals_fold_val:
  "fold_opt totals_step ds T = Some T' \<Longrightarrow>
     val (fst (totals_for T' k)) = val (fst (totals_for T k)) + delta_at ds k 0 \<and>
     val (snd (totals_for T' k)) = val (snd (totals_for T k)) + delta_at ds k 1"
proof (induction ds arbitrary: T)
  case (Cons d ds)
  obtain m out q where d: "d = (m, out, q)" by (metis prod_cases3)
  from Cons.prems obtain T1 where t: "totals_step (m, out, q) T = Some T1" "fold_opt totals_step ds T1 = Some T'"
    by (auto simp: d opt)
  from Cons.IH [OF t(2)] totals_step_val [OF t(1)] show ?case by (auto simp: d delta_at_def)
qed (simp add: delta_at_def)

lemma delta_at_entries: "delta_at (map (\<lambda>((m, out), q). (m, out, q)) (entries pos)) m b = val (get_or pos (m, b) 0)"
proof -
  let ?f = "\<lambda>k q. if k = (m, b) then val q else 0"
  have "delta_at (map (\<lambda>((m, out), q). (m, out, q)) (entries pos)) m b = om_sum ?f pos"
    unfolding delta_at_def om_sum_def by (auto intro!: arg_cong [of _ _ sum_list])
  also have "\<dots> = val (get_or pos (m, b) 0)"
    using om_sum_except [of "(m, b)" ?f pos] om_sum_zero [of pos "\<lambda>k v. if k = (m, b) then 0 else ?f k v"]
    by (auto simp: get_or_def split: option.splits)
  finally show ?thesis .
qed

lemma skip_zeros:
  "fold_opt (\<lambda>((m, out), q) t. if q = 0 then Some t else totals_step (m, out, q) t) xs T =
   fold_opt totals_step (map (\<lambda>((m, out), q). (m, out, q)) (filter (\<lambda>(k, q). q \<noteq> 0) xs)) T"
  by (induction xs arbitrary: T) (auto split: bind_split)

lemma delta_at_filter:
  "delta_at (map (\<lambda>((m, out), q). (m, out, q)) (filter (\<lambda>(k, q). q \<noteq> 0) xs)) k b =
   delta_at (map (\<lambda>((m, out), q). (m, out, q)) xs) k b"
  by (induction xs) (auto simp: delta_at_def split: if_splits)

lemma observe_account_val:
  assumes "observe_account (i, a) ag = Some ag'"
  shows "val (fst (totals_for (ag_market_position_totals ag') m)) =
      val (fst (totals_for (ag_market_position_totals ag) m)) + val (position a m 0)"
    "val (snd (totals_for (ag_market_position_totals ag') m)) =
      val (snd (totals_for (ag_market_position_totals ag) m)) + val (position a m 1)"
    "val (ag_total_balance ag') = val (ag_total_balance ag) + val (ac_balance a)"
    "ag_negative_balances ag' = ag_negative_balances ag @ (if i \<noteq> MINT_ID \<and> ac_balance a < 0 then [(i, ac_balance a)] else [])"
proof -
  from assms obtain T where t: "fold_opt totals_step (map (\<lambda>((m, out), q). (m, out, q))
        (filter (\<lambda>(k, q). q \<noteq> 0) (entries (ac_positions a)))) (ag_market_position_totals ag) = Some T"
    and e: "ag_market_position_totals ag' = T"
    unfolding observe_account_def skip_zeros by (auto simp: opt Let_def)
  show "val (fst (totals_for (ag_market_position_totals ag') m)) =
      val (fst (totals_for (ag_market_position_totals ag) m)) + val (position a m 0)"
    "val (snd (totals_for (ag_market_position_totals ag') m)) =
      val (snd (totals_for (ag_market_position_totals ag) m)) + val (position a m 1)"
    using totals_fold_val [OF t, of m] by (simp_all add: e delta_at_filter delta_at_entries position_def)
qed (use assms in \<open>auto simp: observe_account_def opt num Let_def\<close>)

lemma observe_accounts_val:
  "fold_opt observe_account xs ag = Some ag' \<Longrightarrow>
     val (fst (totals_for (ag_market_position_totals ag') m)) =
       val (fst (totals_for (ag_market_position_totals ag) m)) + sum_list (map (\<lambda>(i, a). val (position a m 0)) xs) \<and>
     val (snd (totals_for (ag_market_position_totals ag') m)) =
       val (snd (totals_for (ag_market_position_totals ag) m)) + sum_list (map (\<lambda>(i, a). val (position a m 1)) xs) \<and>
     ag_negative_balances ag' = ag_negative_balances ag @
       concat (map (\<lambda>(i, a). if i \<noteq> MINT_ID \<and> ac_balance a < 0 then [(i, ac_balance a)] else []) xs)"
proof (induction xs arbitrary: ag)
  case (Cons e xs)
  obtain i a where e: "e = (i, a)" by force
  from Cons.prems obtain ag1 where o: "observe_account (i, a) ag = Some ag1" "fold_opt observe_account xs ag1 = Some ag'"
    by (auto simp: e opt)
  from Cons.IH [OF o(2)] observe_account_val [OF o(1)] show ?case by (simp add: e)
qed simp

definition store_pos :: "AccountStore \<Rightarrow> MarketId \<Rightarrow> u8 \<Rightarrow> int" where
  "store_pos store m out = om_sum (\<lambda>i a. val (position a m out)) (sto_accounts store)"

lemma aggregates_val:
  assumes "aggregates_from_accounts store = Some ag"
  shows "val (fst (totals_for (ag_market_position_totals ag) m)) = store_pos store m 0"
    "val (snd (totals_for (ag_market_position_totals ag) m)) = store_pos store m 1"
    "ag_negative_balances ag = [] \<Longrightarrow> lookup (sto_accounts store) i = Some a \<Longrightarrow> i \<noteq> MINT_ID \<Longrightarrow> 0 \<le> val (ac_balance a)"
proof -
  note o = observe_accounts_val [OF assms [unfolded aggregates_from_accounts_def], of m]
  show "val (fst (totals_for (ag_market_position_totals ag) m)) = store_pos store m 0"
    "val (snd (totals_for (ag_market_position_totals ag) m)) = store_pos store m 1"
    using o by (simp_all add: aggregates_default_def totals_for_def store_pos_def om_sum_def)
  assume n: "ag_negative_balances ag = []" and l: "lookup (sto_accounts store) i = Some a" "i \<noteq> MINT_ID"
  then have "concat (map (\<lambda>(i, a). if i \<noteq> MINT_ID \<and> ac_balance a < 0 then [(i, ac_balance a)] else [])
      (entries (sto_accounts store))) = []" using o by simp
  moreover have "(i, a) \<in> set (entries (sto_accounts store))" using l by simp
  ultimately have "\<not> ac_balance a < 0" using l(2) unfolding concat_map_Nil by fastforce
  then show "0 \<le> val (ac_balance a)" by (simp add: less_i64_def)
qed

lemma store_pos_agrees:
  assumes "store_agrees store accounts" shows "store_pos store m out = pos_total m out accounts"
  unfolding store_pos_def pos_total_def
proof (rule om_sum_eqI)
  fix i show "contrib (\<lambda>i a. val (position a m out)) (sto_accounts store) i = contrib (\<lambda>i a. pos_of a m out) accounts i"
    using assms [unfolded store_agrees_def, rule_format, of i]
    by (cases "lookup (sto_accounts store) i"; cases "lookup accounts i")
       (auto simp: contrib_def account_agrees_def position_def pos_of_def)
qed

section \<open>Minting depends on the imbalances only\<close>

definition nonzero_diffs :: "(MarketId \<times> i64 \<times> i64) list \<Rightarrow> (MarketId \<times> int) list" where
  "nonzero_diffs totals = filter (\<lambda>(m, d). d \<noteq> 0) (map (\<lambda>(m, y, n). (m, val y - val n)) totals)"

fun mint_diffs :: "Prices \<Rightarrow> (MarketId \<times> int) list \<Rightarrow> (SettlementArithmeticError, MintAdjustment list) result" where
  "mint_diffs prices [] = Ok []"
| "mint_diffs prices ((m, d) # rest) = and_then (mint_adjustment prices m (of_val d)) (\<lambda>adj.
     and_then (mint_diffs prices rest) (\<lambda>adjs. Ok (adj # adjs)))"

lemma derive_minting_diffs:
  "\<forall>(m, y, n) \<in> set totals. fits_i64 (val y - val n) \<Longrightarrow>
     derive_minting_checked totals prices = mint_diffs prices (nonzero_diffs totals)"
proof (induction totals prices rule: derive_minting_checked.induct)
  case (2 m y n rest prices)
  then have s: "sub_i64 y n = Some (of_val (val y - val n))" by (simp add: sub_i64_def i64_of_def)
  have z: "of_val (val y - val n) = 0 \<longleftrightarrow> val y - val n = 0" using 2(3) by (simp add: val_eq_iff)
  have r: "\<forall>(m, y, n) \<in> set rest. fits_i64 (val y - val n)" using 2(3) by simp
  show ?case
    using 2(1) [OF s _ r] 2(2) [OF s _ r] z zero_i64_def
    by (cases "val y - val n = 0") (simp_all add: s nonzero_diffs_def)
qed (simp add: nonzero_diffs_def)

lemma derive_minting_Err:
  "derive_minting_checked totals prices = Err e \<Longrightarrow> \<exists>(m, y, n) \<in> set totals. val y \<noteq> val n"
proof (induction totals prices rule: derive_minting_checked.induct)
  case (2 m y n rest prices)
  show ?case
  proof (cases "val y = val n")
    case True
    then have "sub_i64 y n = Some 0" by (simp add: num)
    with 2 show ?thesis by auto
  qed simp
qed simp

lemma nonzero_diffs_sorted: "sorted_keys totals \<Longrightarrow> sorted_keys (nonzero_diffs totals)"
proof -
  assume s: "sorted_keys totals"
  have "map fst (map (\<lambda>(m, y, n). (m, val y - val n)) totals) = map fst totals" by auto
  then have "sorted_wrt (<) (map fst (map (\<lambda>(m, y, n). (m, val y - val n)) totals))" using s by (simp only:)
  then show ?thesis unfolding nonzero_diffs_def sorted_wrt_map by (simp add: sorted_wrt_filter sorted_wrt_map)
qed

lemma nonzero_diffs_map_of:
  assumes "distinct (map fst totals)" "\<And>m y n. (m, y, n) \<in> set totals \<Longrightarrow> val y - val n = f m"
    and "\<And>m. f m \<noteq> 0 \<Longrightarrow> m \<in> fst ` set totals"
  shows "map_of (nonzero_diffs totals) m = (if f m = 0 then None else Some (f m))"
proof (cases "f m = 0")
  case True
  have "m \<notin> fst ` set (nonzero_diffs totals)"
    using True assms(2) by (fastforce simp: nonzero_diffs_def)
  then show ?thesis using True by (simp add: map_of_eq_None_iff)
next
  case False
  then obtain y n where e: "(m, y, n) \<in> set totals" using assms(3) [of m] by auto
  have "map fst (map (\<lambda>(m, y, n). (m, val y - val n)) totals) = map fst totals" by auto
  then have "distinct (map fst (nonzero_diffs totals))"
    unfolding nonzero_diffs_def using assms(1) by (intro distinct_map_filter) (simp only:)
  moreover have "(m, f m) \<in> set (nonzero_diffs totals)"
    using e False assms(2) [OF e] by (force simp: nonzero_diffs_def)
  ultimately show ?thesis using False by simp
qed

lemma nonzero_diffs_eq:
  assumes "sorted_keys xs" "sorted_keys ys" "\<And>m y n. (m, y, n) \<in> set xs \<or> (m, y, n) \<in> set ys \<Longrightarrow> val y - val n = f m"
    and "\<And>m. f m \<noteq> 0 \<Longrightarrow> m \<in> fst ` set xs \<and> m \<in> fst ` set ys"
  shows "nonzero_diffs xs = nonzero_diffs ys"
proof (rule sorted_keys_ext)
  have d: "distinct (map fst xs)" "distinct (map fst ys)" using assms(1,2) by (simp_all add: strict_sorted_iff)
  show "map_of (nonzero_diffs xs) = map_of (nonzero_diffs ys)"
    using nonzero_diffs_map_of [OF d(1), of f] nonzero_diffs_map_of [OF d(2), of f] assms(3,4) by (simp add: fun_eq_iff)
qed (use assms(1,2) nonzero_diffs_sorted in blast)+

section \<open>The verifier derives the same adjustments\<close>

text \<open>The gross open interest of every market fits in 64 bits, so no order of summation overflows.\<close>

definition small_positions :: "AccountStore \<Rightarrow> bool" where
  "small_positions store \<longleftrightarrow> (\<forall>m. om_sum (\<lambda>i a. \<bar>val (position a m 0)\<bar> + \<bar>val (position a m 1)\<bar>) (sto_accounts store)
     \<le> 9223372036854775807)"

lemma om_sum_mono: "(\<And>k v. lookup m k = Some v \<Longrightarrow> f k v \<le> g k v) \<Longrightarrow> om_sum f m \<le> om_sum g m"
  unfolding om_sum_def by (rule sum_list_mono) auto

lemma sum_abs_fits:
  "\<bar>val s\<bar> + sum_list (map (\<lambda>a. \<bar>val (g a)\<bar>) xs) \<le> 9223372036854775807 \<Longrightarrow>
     \<exists>t. fold_opt (\<lambda>a s. add_i64 s (g a)) xs s = Some t"
proof (induction xs arbitrary: s)
  case (Cons a xs)
  have "0 \<le> sum_list (map (\<lambda>a. \<bar>val (g a)\<bar>) xs)" by (rule sum_list_nonneg) auto
  then have "fits_i64 (val s + val (g a))" using Cons.prems unfolding fits_i64_def by (simp, linarith)
  then obtain t where t: "add_i64 s (g a) = Some t" "val t = val s + val (g a)"
    by (simp add: add_i64_def i64_of_def)
  from t(2) Cons.prems have "\<bar>val t\<bar> + sum_list (map (\<lambda>a. \<bar>val (g a)\<bar>) xs) \<le> 9223372036854775807" by simp
  from Cons.IH [OF this] t(1) show ?case by simp
qed simp

lemma agreeing_sums:
  assumes "store_agrees store accounts"
  shows "om_sum (\<lambda>i a. F (\<lambda>m out. val (position a m out))) (sto_accounts store) = om_sum (\<lambda>i d. F (pos_of d)) accounts"
proof (rule om_sum_eqI)
  fix i show "contrib (\<lambda>i a. F (\<lambda>m out. val (position a m out))) (sto_accounts store) i = contrib (\<lambda>i d. F (pos_of d)) accounts i"
    using assms [unfolded store_agrees_def, rule_format, of i]
    by (cases "lookup (sto_accounts store) i"; cases "lookup accounts i")
       (auto simp: contrib_def account_agrees_def position_def pos_of_def fun_eq_iff intro!: arg_cong [of _ _ F])
qed

lemma small_positions_outcome_total:
  assumes "store_agrees store accounts" "small_positions store" "out = 0 \<or> out = 1"
  shows "\<exists>t. outcome_total accounts m out = Some t \<and> val t = store_pos store m out"
proof -
  have "om_sum (\<lambda>i d. \<bar>pos_of d m out\<bar>) accounts \<le> om_sum (\<lambda>i d. \<bar>pos_of d m 0\<bar> + \<bar>pos_of d m 1\<bar>) accounts"
    using assms(3) by (intro om_sum_mono) auto
  also have "\<dots> = om_sum (\<lambda>i a. \<bar>val (position a m 0)\<bar> + \<bar>val (position a m 1)\<bar>) (sto_accounts store)"
    by (rule agreeing_sums [OF assms(1), of "\<lambda>p. \<bar>p m 0\<bar> + \<bar>p m 1\<bar>", symmetric])
  also have "\<dots> \<le> 9223372036854775807" using assms(2) by (simp add: small_positions_def)
  finally have "sum_list (map (\<lambda>a. \<bar>val (get_or (dv_positions a) (m, out) 0)\<bar>) (om_values accounts)) \<le> 9223372036854775807"
    by (simp add: om_sum_def om_values_def pos_of_def comp_def case_prod_unfold)
  then obtain t where t: "outcome_total accounts m out = Some t"
    using sum_abs_fits [of 0 "\<lambda>a. get_or (dv_positions a) (m, out) 0" "om_values accounts"]
    by (auto simp: outcome_total_def)
  with outcome_total_val store_pos_agrees [OF assms(1)] show ?thesis by metis
qed

lemma verifier_totals:
  assumes "store_agrees store accounts" "small_positions store"
  obtains totals where "map_opt (market_total_for_accounts accounts) (all_markets accounts) = Some totals"
    "sorted_keys totals" "\<And>m y n. (m, y, n) \<in> set totals \<Longrightarrow> val y = store_pos store m 0 \<and> val n = store_pos store m 1"
    "fst ` set totals = set (all_markets accounts)"
proof -
  have ex: "\<exists>y n. market_total_for_accounts accounts m = Some (m, y, n) \<and> val y = store_pos store m 0 \<and> val n = store_pos store m 1" for m
    using small_positions_outcome_total [OF assms, of 0 m] small_positions_outcome_total [OF assms, of 1 m]
    by (auto simp: market_total_for_accounts_def)
  have "\<exists>totals. map_opt (market_total_for_accounts accounts) ms = Some totals \<and> map fst totals = ms \<and>
      (\<forall>(m, y, n) \<in> set totals. val y = store_pos store m 0 \<and> val n = store_pos store m 1)" for ms
  proof (induction ms)
    case (Cons m ms)
    then obtain ts where "map_opt (market_total_for_accounts accounts) ms = Some ts" "map fst ts = ms"
      "\<forall>(m, y, n) \<in> set ts. val y = store_pos store m 0 \<and> val n = store_pos store m 1" by blast
    with ex [of m] show ?case by auto
  qed simp
  then obtain totals where t: "map_opt (market_total_for_accounts accounts) (all_markets accounts) = Some totals"
    "map fst totals = all_markets accounts"
    "\<forall>(m, y, n) \<in> set totals. val y = store_pos store m 0 \<and> val n = store_pos store m 1" by blast
  have "sorted_wrt (<) (all_markets accounts)" by (simp add: all_markets_def strict_sorted_iff)
  moreover have "fst ` set totals = set (all_markets accounts)" using t(2) by (metis list.set_map)
  ultimately show ?thesis using t by (intro that) auto
qed

lemma store_diff_fits: "small_positions store \<Longrightarrow> fits_i64 (store_pos store m 0 - store_pos store m 1)"
proof -
  assume s: "small_positions store"
  let ?A = "om_sum (\<lambda>i a. \<bar>val (position a m 0)\<bar> + \<bar>val (position a m 1)\<bar>) (sto_accounts store)"
  have "store_pos store m 0 - store_pos store m 1 = om_sum (\<lambda>i a. val (position a m 0) - val (position a m 1)) (sto_accounts store)"
    by (simp add: store_pos_def om_sum_def case_prod_unfold sum_list_subtractf)
  moreover have "\<dots> \<le> ?A" by (rule om_sum_mono) simp
  moreover have "om_sum (\<lambda>i a. - (\<bar>val (position a m 0)\<bar> + \<bar>val (position a m 1)\<bar>)) (sto_accounts store) \<le>
      om_sum (\<lambda>i a. val (position a m 0) - val (position a m 1)) (sto_accounts store)" by (rule om_sum_mono) simp
  moreover have "om_sum (\<lambda>i a. - (\<bar>val (position a m 0)\<bar> + \<bar>val (position a m 1)\<bar>)) (sto_accounts store) = - ?A"
    by (simp add: om_sum_def case_prod_unfold uminus_sum_list_map comp_def)
  moreover have "?A \<le> 9223372036854775807" using s by (simp add: small_positions_def)
  ultimately show ?thesis unfolding fits_i64_def by linarith
qed

lemma derive_adjustments_agree:
  assumes agree: "store_agrees store accounts" and small: "small_positions store"
    and tot: "\<And>m. val (fst (totals_for T m)) = store_pos store m 0" "\<And>m. val (snd (totals_for T m)) = store_pos store m 1"
    and ok: "derive_minting_checked (minting_inputs T) prices = Ok adjs"
  shows "derive_adjustments accounts prices = (adjs, [])"
  using agree small
proof (rule verifier_totals)
  let ?f = "\<lambda>m. store_pos store m 0 - store_pos store m 1"
  fix totals
  assume t: "map_opt (market_total_for_accounts accounts) (all_markets accounts) = Some totals" and s: "sorted_keys totals"
    and v: "\<And>m y n. (m, y, n) \<in> set totals \<Longrightarrow> val y = store_pos store m 0 \<and> val n = store_pos store m 1"
    and m: "fst ` set totals = set (all_markets accounts)"
  have e: "val y = store_pos store m 0 \<and> val n = store_pos store m 1" if "(m, y, n) \<in> set (entries T)" for m y n
    using that tot [of m] by (simp add: totals_for_def get_or_def)
  have k: "m \<in> fst ` set (entries T) \<and> m \<in> fst ` set totals" if "?f m \<noteq> 0" for m
  proof
    show "m \<in> fst ` set (entries T)"
    proof (rule ccontr)
      assume "m \<notin> fst ` set (entries T)"
      then have "totals_for T m = (0, 0)" by (simp add: totals_for_def get_or_def lookup_entries map_of_eq_None_iff [symmetric])
      with tot [of m] that show False by simp
    qed
    show "m \<in> fst ` set totals"
      using that pos_total_other [of m accounts 0] pos_total_other [of m accounts 1] store_pos_agrees [OF agree]
      by (cases "m \<in> set (all_markets accounts)") (simp_all add: m)
  qed
  have "nonzero_diffs (entries T) = nonzero_diffs totals"
    by (rule nonzero_diffs_eq [where f = ?f]) (use sorted_entries s e v k in auto)
  moreover have "\<forall>(m, y, n) \<in> set (entries T). fits_i64 (val y - val n)" "\<forall>(m, y, n) \<in> set totals. fits_i64 (val y - val n)"
    using e v store_diff_fits [OF small] by auto
  ultimately have "derive_minting_checked totals prices = Ok adjs"
    using ok by (simp add: derive_minting_diffs minting_inputs_def)
  then show ?thesis by (simp add: derive_adjustments_def t)
qed

section \<open>The verifier mints the same\<close>

lemma minting_step_agrees:
  assumes "minting_step adj mint = Some mint'" "account_agrees mint d"
  shows "\<exists>d'. apply_adjustment adj d = Some (d', []) \<and> account_agrees mint' d'"
  using assms
  by (auto simp: minting_step_def add_position_def apply_adjustment_def account_agrees_def opt Let_def)

lemma minting_steps_agree:
  "fold_opt minting_step adjs mint = Some mint' \<Longrightarrow> account_agrees mint d \<Longrightarrow>
     \<exists>d'. scan apply_adjustment adjs d = Some (d', []) \<and> account_agrees mint' d'"
proof (induction adjs arbitrary: mint d)
  case (Cons adj adjs)
  then obtain m1 where m1: "minting_step adj mint = Some m1" "fold_opt minting_step adjs m1 = Some mint'" by (auto simp: opt)
  from minting_step_agrees [OF m1(1) Cons.prems(2)] obtain d1 where "apply_adjustment adj d = Some (d1, [])" "account_agrees m1 d1"
    by blast
  with Cons.IH [OF m1(2)] show ?case by auto
qed simp

text \<open>The adjustments that credit no cash, as the verifier reports them.\<close>

definition unpriced :: "MintAdjustment list \<Rightarrow> ViolationKind list" where
  "unpriced adjs = concat (map (\<lambda>adj. flag (ma_balance_delta adj = 0) MintingWithoutClearingPrice) adjs)"

lemma set_unpriced: "set (unpriced adjs) = (if \<exists>adj \<in> set adjs. ma_balance_delta adj = 0 then {MintingWithoutClearingPrice} else {})"
  by (auto simp: unpriced_def flag_def split: if_splits)

lemma apply_minting_agrees:
  assumes "adjs \<noteq> []" "get_account store MINT_ID = Some mint" "apply_minting h mint adjs ht = Some mint'"
    and "store_agrees store accounts"
  shows "\<exists>accounts'. derive_mint h ht adjs accounts = Some (accounts', unpriced adjs) \<and>
    store_agrees (set_account MINT_ID mint' store) accounts'"
proof -
  from assms(1,3) obtain m1 where m1: "fold_opt minting_step adjs mint = Some m1"
    "mint' = m1\<lparr> ac_events_digest := update_digest h (ac_events_digest m1) (encode_mint_event adjs ht) \<rparr>"
    by (auto simp: apply_minting_def opt)
  obtain d where d: "lookup accounts MINT_ID = Some d" "account_agrees mint d" using assms(4,2) by (rule store_agrees_get)
  from minting_steps_agree [OF m1(1) d(2)] obtain d' where
    d': "scan apply_adjustment adjs d = Some (d', [])" "account_agrees m1 d'" by blast
  let ?d = "d'\<lparr> dv_events_digest := update_digest h (dv_events_digest d') (encode_mint_event adjs ht) \<rparr>"
  have "derive_mint h ht adjs accounts = Some (om_ins MINT_ID ?d accounts, unpriced adjs)"
    using assms(1) d(1) d'(1) by (simp add: derive_mint_def get_or_def unpriced_def)
  moreover have "account_agrees mint' ?d" using d'(2) m1(2) by (simp add: account_agrees_def)
  ultimately show ?thesis using store_agrees_set [OF assms(4)] by blast
qed

section \<open>The comparison passes\<close>

lemma compare_positions_same: "(\<And>k. get_or d k 0 = get_or c k 0) \<Longrightarrow> compare_positions d c = []"
  by (auto simp: compare_positions_def Let_def flag_def)

lemma compare_accounts_agree:
  assumes "store_wf store" "store_agrees store accounts"
  shows "compare_accounts accounts (snapshot_map (from_accounts store)) = []"
proof -
  have "compare_account (lookup accounts i) (lookup (snapshot_map (from_accounts store)) i) = []" for i
    using assms(2) [unfolded store_agrees_def, rule_format, of i]
    by (cases "lookup (sto_accounts store) i"; cases "lookup accounts i")
       (auto simp: snapshot_map_from_accounts [OF assms(1)] compare_account_def account_agrees_def
         intro!: compare_positions_same)
  then show ?thesis unfolding compare_accounts_def concat_map_Nil by blast
qed

lemma set_account_wf: "store_wf store \<Longrightarrow> get_account store i = Some a \<Longrightarrow> ac_id b = ac_id a \<Longrightarrow> store_wf (set_account i b store)"
  unfolding store_wf_def set_account_def get_account_def by (auto split: if_splits) metis

lemma settle_batch_wf:
  "fold_opt (settle_step h ht om) fills (store, [], ds) = Some (store', [], ds') \<Longrightarrow> store_wf store \<Longrightarrow> store_wf store'"
proof (induction fills arbitrary: store ds)
  case (Cons f fills)
  then obtain store1 fs1 ds1 where s: "settle_step h ht om f (store, [], ds) = Some (store1, fs1, ds1)"
    and r: "fold_opt (settle_step h ht om) fills (store1, fs1, ds1) = Some (store', [], ds')" by (auto simp: opt)
  have "fs1 = []" using settle_batch_failures [OF r] by auto
  note s = s [unfolded this] and r = r [unfolded this]
  have "store_wf store1" using settle_step_clean [OF s] Cons.prems(2) by (elim disjE exE conjE) (auto intro: set_account_wf)
  with Cons.IH [OF r] show ?case by blast
qed simp

lemma minting_ac_id: "fold_opt minting_step adjs mint = Some mint' \<Longrightarrow> ac_id mint' = ac_id mint"
  by (induction adjs arbitrary: mint) (fastforce simp: opt minting_step_def)+

lemma apply_minting_wf:
  assumes "store_wf store" "get_account store MINT_ID = Some mint" "apply_minting h mint adjs ht = Some mint'"
  shows "store_wf (set_account MINT_ID mint' store)"
  by (rule set_account_wf [OF assms(1,2)]) (use assms(3) minting_ac_id in \<open>fastforce simp: apply_minting_def opt\<close>)

lemma negative_balances_agree:
  assumes "store_agrees store accounts"
    and "\<And>i a. lookup (sto_accounts store) i = Some a \<Longrightarrow> i \<noteq> MINT_ID \<Longrightarrow> 0 \<le> val (ac_balance a)"
  shows "negative_balances accounts = []"
proof -
  have "flag (dv_balance d < 0 \<and> i \<noteq> MINT_ID) NegativeBalance = []" if "lookup accounts i = Some d" for i d
    using assms(1) [unfolded store_agrees_def, rule_format, of i] assms(2) [of i] that
    by (cases "i = MINT_ID"; cases "lookup (sto_accounts store) i") (auto simp: account_agrees_def less_i64_def)
  then show ?thesis by (auto simp: negative_balances_def)
qed

text \<open>An account other than MINT that ends with a short position.\<close>

definition short_account :: "AccountStore \<Rightarrow> bool" where
  "short_account store \<longleftrightarrow> (\<exists>i a m out. lookup (sto_accounts store) i = Some a \<and> i \<noteq> MINT_ID \<and> val (position a m out) < 0)"

lemma negative_positions_agree:
  assumes "store_agrees store accounts"
  shows "set (negative_positions accounts) = (if short_account store then {NegativePosition} else {})"
proof -
  have "(\<exists>i d q. lookup accounts i = Some d \<and> i \<noteq> MINT_ID \<and> q \<in> set (om_values (dv_positions d)) \<and> q < 0) \<longleftrightarrow> short_account store"
  proof
    assume "\<exists>i d q. lookup accounts i = Some d \<and> i \<noteq> MINT_ID \<and> q \<in> set (om_values (dv_positions d)) \<and> q < 0"
    then obtain i d m out q where l: "lookup accounts i = Some d" "i \<noteq> MINT_ID" "lookup (dv_positions d) (m, out) = Some q" "q < 0"
      by (auto simp: in_om_values)
    obtain a where a: "lookup (sto_accounts store) i = Some a" "account_agrees a d"
      using assms [unfolded store_agrees_def, rule_format, of i] l(1) by (cases "lookup (sto_accounts store) i") auto
    have "get_or (dv_positions d) (m, out) 0 = q" using l(3) by (simp add: get_or_def)
    then have "position a m out = q" using a(2) by (simp add: account_agrees_def position_def)
    then have "val (position a m out) < 0" using l(4) by (simp add: less_i64_def)
    with a(1) l(2) show "short_account store" unfolding short_account_def by blast
  next
    assume "short_account store"
    then obtain i a m out where a: "lookup (sto_accounts store) i = Some a" "i \<noteq> MINT_ID" "val (position a m out) < 0"
      unfolding short_account_def by blast
    obtain d where d: "lookup accounts i = Some d" "account_agrees a d"
      using assms [unfolded store_agrees_def, rule_format, of i] a(1) by (cases "lookup accounts i") auto
    then have p: "get_or (dv_positions d) (m, out) 0 = position a m out" by (simp add: account_agrees_def position_def)
    with a(3) obtain q where "lookup (dv_positions d) (m, out) = Some q" "q = position a m out"
      by (cases "lookup (dv_positions d) (m, out)") (auto simp: get_or_def)
    then have "q \<in> set (om_values (dv_positions d))" "q < 0" using a(3) by (blast intro: in_om_values [THEN iffD2], simp add: less_i64_def)
    with d(1) a(2) show "\<exists>i d q. lookup accounts i = Some d \<and> i \<noteq> MINT_ID \<and> q \<in> set (om_values (dv_positions d)) \<and> q < 0" by blast
  qed
  moreover have "negative_positions accounts \<noteq> [] \<longleftrightarrow>
      (\<exists>i d q. lookup accounts i = Some d \<and> i \<noteq> MINT_ID \<and> q \<in> set (om_values (dv_positions d)) \<and> q < 0)"
  proof -
    have "negative_positions accounts = [] \<longleftrightarrow> (\<forall>(i, d) \<in> set (entries accounts). i = MINT_ID \<or> (\<forall>q \<in> set (om_values (dv_positions d)). \<not> q < 0))"
      unfolding negative_positions_def concat_map_Nil
      by (rule ball_cong [OF refl]) (auto simp: concat_map_Nil flag_def simp del: concat_eq_Nil_conv split: if_splits)
    then show ?thesis by fastforce
  qed
  moreover have "set (negative_positions accounts) \<subseteq> {NegativePosition}"
    by (auto simp: negative_positions_def flag_def split: if_splits)
  ultimately show ?thesis by (cases "negative_positions accounts") auto
qed

section \<open>The finalize phase\<close>

lemma finalize_parts:
  assumes "finalize_block_state_phase h store fills orders markets prices ht = Some r" "fb_invariant_failures r = []"
  obtains ag store1 ds T fbd post where
    "aggregates_from_accounts store = Some ag"
    "fold_opt (settle_step h ht (order_map_of orders)) fills (store, [], []) = Some (store1, [], ds)"
    "fold_opt totals_step ds (ag_market_position_totals ag) = Some T"
    "fb_mint_adjustments r = derive_minting (minting_inputs T) prices"
    "fill_balance_delta_from_fills orders fills = Some fbd"
    "fb_minting_cost r = minting_cost_from_fill_balance_delta fbd"
    "if fb_mint_adjustments r = [] then fb_accounts r = store1
     else (\<exists>mint mint'. get_account store1 MINT_ID = Some mint \<and>
       apply_minting h mint (fb_mint_adjustments r) ht = Some mint' \<and> fb_accounts r = set_account MINT_ID mint' store1)"
    "aggregates_from_accounts (fb_accounts r) = Some post" "ag_negative_balances post = []"
    "\<And>m. m \<in> set markets \<Longrightarrow> fst (totals_for (ag_market_position_totals post) m) = snd (totals_for (ag_market_position_totals post) m)"
    "fb_post_state r = from_accounts (fb_accounts r)"
proof -
  from assms obtain ag store1 fs ds ag' fbd store2 post mm where
    1: "aggregates_from_accounts store = Some ag"
      "settle_batch_with_position_deltas h store fills orders ht = Some (store1, fs, ds)"
      "apply_position_deltas ds ag = Some ag'" "fill_balance_delta_from_fills orders fills = Some fbd"
    and 2: "(if derive_minting (minting_inputs (ag_market_position_totals ag')) prices = [] then Some store1
        else do {
          mint \<leftarrow> get_account store1 MINT_ID;
          mint' \<leftarrow> apply_minting h mint (derive_minting (minting_inputs (ag_market_position_totals ag')) prices) ht;
          Some (set_account MINT_ID mint' store1) }) = Some store2" "aggregates_from_accounts store2 = Some post"
    and r: "r = \<lparr> fb_accounts = store2, fb_post_state = from_accounts store2,
       fb_minting_cost = minting_cost_from_fill_balance_delta fbd,
       fb_mint_adjustments = derive_minting (minting_inputs (ag_market_position_totals ag')) prices,
       fb_invariant_failures = fs @ mm @ invariant_failures_from_aggregates post markets \<rparr>"
    unfolding finalize_block_state_phase_def Let_def by (auto simp: opt)
  have f: "fs = []" "invariant_failures_from_aggregates post markets = []" using assms(2) r by simp_all
  from f(2) have n: "ag_negative_balances post = []"
    and b: "concat (map (\<lambda>m. let (total_yes, total_no) = totals_for (ag_market_position_totals post) m
        in flag (total_yes \<noteq> total_no) (PositionImbalance m total_yes total_no)) markets) = []"
    unfolding invariant_failures_from_aggregates_def by simp_all
  have b': "fst (totals_for (ag_market_position_totals post) m) = snd (totals_for (ag_market_position_totals post) m)"
    if "m \<in> set markets" for m
    using b that unfolding concat_map_Nil by (fastforce simp: case_prod_beta)
  obtain T where T: "fold_opt totals_step ds (ag_market_position_totals ag) = Some T" "ag_market_position_totals ag' = T"
    using 1(3) by (auto simp: apply_position_deltas_def)
  show ?thesis
    by (rule that [OF 1(1) _ T(1) _ 1(4), of store1 post])
       (use 1(2) 2 r f n b' T(2) in \<open>auto simp: settle_batch_with_position_deltas_def opt split: if_splits\<close>)
qed

text \<open>When the finalize phase reports no failure the adjustments were derived: a failed derivation leaves an
  imbalance in a registered market.\<close>

lemma finalize_minting_Ok:
  assumes T: "\<And>m. val (fst (totals_for T m)) = store_pos store1 m 0" "\<And>m. val (snd (totals_for T m)) = store_pos store1 m 1"
    and reg: "\<And>i a m out. lookup (sto_accounts store1) i = Some a \<Longrightarrow> position a m out \<noteq> 0 \<Longrightarrow> m \<in> set markets"
    and acc: "derive_minting (minting_inputs T) prices = [] \<Longrightarrow> final = store1"
    and post: "aggregates_from_accounts final = Some post"
      "\<And>m. m \<in> set markets \<Longrightarrow> fst (totals_for (ag_market_position_totals post) m) = snd (totals_for (ag_market_position_totals post) m)"
  shows "derive_minting_checked (minting_inputs T) prices = Ok (derive_minting (minting_inputs T) prices)"
proof (cases "derive_minting_checked (minting_inputs T) prices")
  case (Err e)
  from derive_minting_Err [OF Err] obtain m y n where e: "(m, y, n) \<in> set (entries T)" "val y \<noteq> val n"
    by (auto simp: minting_inputs_def)
  then have ne: "store_pos store1 m 0 \<noteq> store_pos store1 m 1"
    using T [of m] by (simp add: totals_for_def get_or_def)
  have "m \<in> set markets"
  proof (rule ccontr)
    assume "m \<notin> set markets"
    then have "val (position a m out) = 0" if "lookup (sto_accounts store1) i = Some a" for i a out
      using reg [OF that] by (metis val_0)
    then have "store_pos store1 m out = 0" for out unfolding store_pos_def by (rule om_sum_zero)
    with ne show False by simp
  qed
  moreover have "final = store1" using acc Err by (simp add: derive_minting_def)
  ultimately show ?thesis
    using post(2) [of m] aggregates_val(1,2) [OF post(1), of m] ne by metis
qed (simp add: derive_minting_def)

lemma negation_exact:
  "fbd \<noteq> of_val (- 9223372036854775808) \<Longrightarrow> derived_minting_cost fbd = (minting_cost_from_fill_balance_delta fbd, [])"
proof -
  assume "fbd \<noteq> of_val (- 9223372036854775808)"
  then have "val fbd \<noteq> - 9223372036854775808" by (metis of_val_val)
  then have "fits_i64 (- val fbd)" using val_bounds [of fbd] by (simp add: fits_i64_def)
  then show ?thesis
    by (simp add: derived_minting_cost_def minting_cost_from_fill_balance_delta_def
        minting_cost_from_fill_balance_delta_checked_def neg_i64_def i64_of_def)
qed

section \<open>Properties\<close>

text \<open>C1: the verifier's settlement layer answers on every block that the sequencer finalizes without reporting a
  failure, and objects to at most two things, which the finalize phase does not check: a minted position that credits
  no cash (its market has no clearing price), and an account other than MINT that ends short.  In particular the block
  passes exactly when neither occurs: replayed from the canonical snapshot of the accounts, the fills and the minting
  give the post-state and the minting cost the sequencer commits.  The fills carry the accounts of their orders at
  prices of at most one dollar, markets with positions are registered, and open interest and the minting cost fit in
  64 bits.\<close>

theorem finalized_block_verifies:
  assumes wf: "store_wf store"
    and fin: "finalize_block_state_phase h store (bw_fills w) (map wo_order (bw_orders w)) markets (bw_clearing_prices w)
       (h_height (bw_header w)) = Some r" "fb_invariant_failures r = []"
    and batch: "\<forall>fill \<in> set (bw_fills w). fill_in_batch (bw_orders w) fill"
    and settled: "settle_batch h store (bw_fills w) (map wo_order (bw_orders w)) (h_height (bw_header w)) = Some (store1, fs)"
    and small: "small_positions store1"
    and reg: "\<And>i a m out. lookup (sto_accounts store1) i = Some a \<Longrightarrow> position a m out \<noteq> 0 \<Longrightarrow> m \<in> set markets"
    and cost: "fill_balance_delta_from_fills (map wo_order (bw_orders w)) (bw_fills w) \<noteq> Some (of_val (- 9223372036854775808))"
    and wit: "bw_post_system_state w = from_accounts store" "bw_post_state w = fb_post_state r" "bw_minting_cost w = fb_minting_cost r"
  shows "\<exists>v. verify_settlement h w = Some v \<and>
     set (vr_violations v) = (if \<exists>adj \<in> set (fb_mint_adjustments r). ma_balance_delta adj = 0 then {MintingWithoutClearingPrice} else {}) \<union>
       (if short_account (fb_accounts r) then {NegativePosition} else {}) \<and>
     (vr_valid v \<longleftrightarrow> (\<forall>adj \<in> set (fb_mint_adjustments r). ma_balance_delta adj \<noteq> 0) \<and> \<not> short_account (fb_accounts r))"
  using fin
proof (rule finalize_parts)
  let ?wos = "bw_orders w" and ?ht = "h_height (bw_header w)" and ?p = "bw_clearing_prices w"
  let ?om = "witness_order_entries ?wos"
  fix ag store1' ds T fbd post
  assume pre: "aggregates_from_accounts store = Some ag"
    and s: "fold_opt (settle_step h ?ht (order_map_of (map wo_order ?wos))) (bw_fills w) (store, [], []) = Some (store1', [], ds)"
    and T: "fold_opt totals_step ds (ag_market_position_totals ag) = Some T"
    and adj: "fb_mint_adjustments r = derive_minting (minting_inputs T) ?p"
    and fbd: "fill_balance_delta_from_fills (map wo_order ?wos) (bw_fills w) = Some fbd"
    and c: "fb_minting_cost r = minting_cost_from_fill_balance_delta fbd"
    and acc: "if fb_mint_adjustments r = [] then fb_accounts r = store1'
     else (\<exists>mint mint'. get_account store1' MINT_ID = Some mint \<and>
       apply_minting h mint (fb_mint_adjustments r) ?ht = Some mint' \<and> fb_accounts r = set_account MINT_ID mint' store1')"
    and post: "aggregates_from_accounts (fb_accounts r) = Some post" "ag_negative_balances post = []"
      "\<And>m. m \<in> set markets \<Longrightarrow> fst (totals_for (ag_market_position_totals post) m) = snd (totals_for (ag_market_position_totals post) m)"
    and ps: "fb_post_state r = from_accounts (fb_accounts r)"
  have [simp]: "store1' = store1" using settled s by (simp add: settle_batch_def settle_batch_with_position_deltas_def)
  from settle_batch_replayed [OF s fbd [unfolded fill_balance_delta_from_fills_eq] batch store_agrees_initial [OF wf]]
  obtain accounts where
    fills: "scan (derive_fill_step h ?ht ?om) (bw_fills w) (initial_accounts (from_accounts store), 0) = Some ((accounts, fbd), [])"
    and agree: "store_agrees store1 accounts"
    and delta: "\<And>m out. delta_at ds m out = pos_total m out accounts - pos_total m out (initial_accounts (from_accounts store))"
    by (auto simp: delta_at_def)
  have tot: "val (fst (totals_for T m)) = store_pos store1 m 0" "val (snd (totals_for T m)) = store_pos store1 m 1" for m
    using totals_fold_val [OF T, of m] aggregates_val(1,2) [OF pre, of m] delta [of m]
      store_pos_agrees [OF store_agrees_initial [OF wf]] store_pos_agrees [OF agree] by simp_all
  have "derive_minting_checked (minting_inputs T) ?p = Ok (fb_mint_adjustments r)"
    unfolding adj by (rule finalize_minting_Ok [OF tot reg _ post(1,3)]) (use acc adj in auto)
  from derive_adjustments_agree [OF agree small tot this] have adjs: "derive_adjustments accounts ?p = (fb_mint_adjustments r, [])" .
  have "\<exists>accounts'. derive_mint h ?ht (fb_mint_adjustments r) accounts = Some (accounts', unpriced (fb_mint_adjustments r)) \<and>
      store_agrees (fb_accounts r) accounts'"
    using acc agree apply_minting_agrees [OF _ _ _ agree] by (cases "fb_mint_adjustments r = []") (auto simp: derive_mint_def unpriced_def)
  then obtain accounts' where mint: "derive_mint h ?ht (fb_mint_adjustments r) accounts = Some (accounts', unpriced (fb_mint_adjustments r))"
    and agree': "store_agrees (fb_accounts r) accounts'" by blast
  have wf': "store_wf (fb_accounts r)"
    using acc settle_batch_wf [OF s wf] apply_minting_wf by (auto split: if_splits)
  have "derived_minting_cost fbd = (fb_minting_cost r, [])" using cost fbd c negation_exact by simp
  then have "\<exists>v. verify_settlement h w = Some v \<and> vr_violations v = unpriced (fb_mint_adjustments r) @ negative_positions accounts' \<and>
      (vr_valid v \<longleftrightarrow> vr_violations v = [])"
    using compare_accounts_agree [OF wf' agree'] negative_balances_agree [OF agree' aggregates_val(3) [OF post(1,2)]]
    by (simp add: verify_settlement_def derive_post_state_def wit fills adjs mint ps)
  then obtain v where v: "verify_settlement h w = Some v" "vr_valid v \<longleftrightarrow> vr_violations v = []"
    "set (vr_violations v) = set (unpriced (fb_mint_adjustments r)) \<union> set (negative_positions accounts')" by auto
  note v(3) [unfolded set_unpriced negative_positions_agree [OF agree']]
  moreover from this v(2) have "vr_valid v \<longleftrightarrow> (\<forall>adj \<in> set (fb_mint_adjustments r). ma_balance_delta adj \<noteq> 0) \<and> \<not> short_account (fb_accounts r)"
    unfolding set_empty [symmetric] by auto
  ultimately show ?thesis using v(1) by blast
qed

section \<open>The sample block, produced by the sequencer\<close>

definition holder :: "AccountId \<Rightarrow> int \<Rightarrow> int \<Rightarrow> Positions \<Rightarrow> Account" where
  "holder i bal dep pos = \<lparr> ac_id = i, ac_balance = of_val bal, ac_positions = pos, ac_total_deposited = of_val dep,
     ac_last_nonce = 0, ac_last_trading_nonce = 0, ac_events_digest = zero_digest, ac_keys_digest = zero_digest,
     ac_profile = profile_default, ac_api_keys = [], ac_next_api_key_id = 0 \<rparr>"

definition three_holders :: "Account \<Rightarrow> Account \<Rightarrow> Account \<Rightarrow> AccountStore" where
  "three_holders a b mint = \<lparr> sto_accounts = om_ins 1 a (om_ins 2 b (om_ins MINT_ID mint om_empty)), sto_next_id = 3 \<rparr>"

definition sample_store :: AccountStore where
  "sample_store = three_holders (holder 1 2000000000 2000000000 om_empty) (holder 2 1000000000 1000000000 om_empty)
     (holder MINT_ID 0 0 om_empty)"

definition sample_adjustment :: MintAdjustment where
  "sample_adjustment = \<lparr> ma_market_id = 0, ma_outcome = 0, ma_position_delta = of_val (- 200), ma_balance_delta = of_val 110000000 \<rparr>"

definition sample_settled_store :: AccountStore where
  "sample_settled_store = three_holders (holder 1 1450000000 2000000000 (om_ins (0, 0) (of_val 1000) om_empty))
     (holder 2 640000000 1000000000 (om_ins (0, 1) (of_val 800) om_empty)) (holder MINT_ID 0 0 om_empty)"

definition sample_final_store :: AccountStore where
  "sample_final_store = three_holders (holder 1 1450000000 2000000000 (om_ins (0, 0) (of_val 1000) om_empty))
     (holder 2 640000000 1000000000 (om_ins (0, 1) (of_val 800) om_empty))
     (holder MINT_ID 110000000 0 (om_ins (0, 0) (of_val (- 200)) om_empty))"

lemma three_holders_lookup [simp]:
  "lookup (sto_accounts (three_holders a b mint)) i =
     (if i = 1 then Some a else if i = 2 then Some b else if i = MINT_ID then Some mint else None)"
  by (simp add: three_holders_def)

lemma three_holders_set:
  "set_account 1 x (three_holders a b m) = three_holders x b m" "set_account 2 x (three_holders a b m) = three_holders a x m"
  "set_account MINT_ID x (three_holders a b m) = three_holders a b x"
  by (simp_all add: set_account_def three_holders_def omap_eq_iff MINT_ID_def u64_max_def)

lemma three_holders_entries: "entries (sto_accounts (three_holders a b m)) = [(1, a), (2, b), (MINT_ID, m)]"
  by (simp add: three_holders_def MINT_ID_def u64_max_def)

lemma sample_settled_batch:
  "settle_batch_with_position_deltas sample_hash sample_store sample_fills (map wo_order sample_orders) 5 =
     Some (sample_settled_store, [], [(0, 0, of_val 1000), (0, 1, of_val 800)])"
proof -
  have l: "lookup (order_map_of (map wo_order sample_orders)) 1 = Some sample_order_1"
    "lookup (order_map_of (map wo_order sample_orders)) 2 = Some sample_order_2"
    by (simp_all add: order_map_of_def sample_orders_def om_of_list_def)
  note e = settle_step_def get_account_def l settle_fill_with_delta_def compute_fill_settlement_def add_i64_def i64_of_def
    fits_i64_def add_position_def update_digest_def sample_hash_def Let_def holder_def
  have 1: "settle_step sample_hash 5 (order_map_of (map wo_order sample_orders)) (sample_fills ! 0) (sample_store, [], []) =
      Some (three_holders (holder 1 1450000000 2000000000 (om_ins (0, 0) (of_val 1000) om_empty))
        (holder 2 1000000000 1000000000 om_empty) (holder MINT_ID 0 0 om_empty), [], [(0, 0, of_val 1000)])"
    by (simp add: e sample_fills_def sample_store_def three_holders_set)
  have 2: "settle_step sample_hash 5 (order_map_of (map wo_order sample_orders)) (sample_fills ! 1)
      (three_holders (holder 1 1450000000 2000000000 (om_ins (0, 0) (of_val 1000) om_empty))
        (holder 2 1000000000 1000000000 om_empty) (holder MINT_ID 0 0 om_empty), [], [(0, 0, of_val 1000)]) =
      Some (sample_settled_store, [], [(0, 0, of_val 1000), (0, 1, of_val 800)])"
    by (simp add: e sample_fills_def sample_settled_store_def three_holders_set)
  show ?thesis using 1 2 by (simp add: settle_batch_with_position_deltas_def sample_fills_def)
qed

lemma sample_aggregates:
  "aggregates_from_accounts sample_store = Some \<lparr> ag_total_balance = of_val 3000000000,
     ag_market_position_totals = om_empty, ag_negative_balances = [] \<rparr>"
  "aggregates_from_accounts sample_final_store = Some \<lparr> ag_total_balance = of_val 2200000000,
     ag_market_position_totals = om_ins 0 (of_val 800, of_val 800) om_empty, ag_negative_balances = [] \<rparr>"
  by (simp_all add: aggregates_from_accounts_def sample_store_def sample_final_store_def three_holders_entries aggregates_default_def
      observe_account_def holder_def add_i64_def i64_of_def fits_i64_def less_i64_def totals_step_def val_eq_iff omap_eq_iff MINT_ID_def u64_max_def)

lemma sample_fill_balance_delta:
  "fill_balance_delta_from_fills (map wo_order sample_orders) sample_fills = Some (of_val (- 910000000))"
  by (simp add: fill_balance_delta_from_fills_def order_map_of_def sample_orders_def om_of_list_def sample_fills_def
      compute_fill_settlement_def add_i64_def i64_of_def fits_i64_def)

lemma sample_finalized:
  "finalize_block_state_phase sample_hash sample_store sample_fills (map wo_order sample_orders) [0] sample_prices 5 =
     Some \<lparr> fb_accounts = sample_final_store, fb_post_state = from_accounts sample_final_store,
       fb_minting_cost = of_val 910000000, fb_mint_adjustments = [sample_adjustment], fb_invariant_failures = [] \<rparr>"
proof -
  let ?T = "om_ins 0 (of_val 1000, of_val 800) om_empty :: MarketTotals"
  have deltas: "apply_position_deltas [(0, 0, of_val 1000), (0, 1, of_val 800)] \<lparr> ag_total_balance = of_val 3000000000,
       ag_market_position_totals = om_empty, ag_negative_balances = [] \<rparr> =
     Some \<lparr> ag_total_balance = of_val 3000000000, ag_market_position_totals = ?T, ag_negative_balances = [] \<rparr>"
    by (simp add: apply_position_deltas_def totals_step_def add_i64_def i64_of_def fits_i64_def omap_eq_iff)
  have adjs: "derive_minting (minting_inputs ?T) sample_prices = [sample_adjustment]"
    by (simp add: derive_minting_def minting_inputs_def sub_i64_def i64_of_def fits_i64_def mint_adjustment_def sample_prices_def
        less_i64_def val_eq_iff price_at_def checked_signed_notional_nanos_eq idx_def sample_adjustment_def)
  have mint: "apply_minting sample_hash (holder MINT_ID 0 0 om_empty) [sample_adjustment] 5 =
      Some (holder MINT_ID 110000000 0 (om_ins (0, 0) (of_val (- 200)) om_empty))"
    by (simp add: apply_minting_def minting_step_def add_position_def sample_adjustment_def holder_def add_i64_def i64_of_def
        fits_i64_def update_digest_def sample_hash_def)
  have cost: "minting_cost_from_fill_balance_delta (of_val (- 910000000)) = of_val 910000000"
    by (simp add: minting_cost_from_fill_balance_delta_def minting_cost_from_fill_balance_delta_checked_def neg_i64_def
        i64_of_def fits_i64_def)
  have get: "get_account sample_settled_store MINT_ID = Some (holder MINT_ID 0 0 om_empty)"
    by (simp add: get_account_def sample_settled_store_def MINT_ID_def u64_max_def)
  have set: "set_account MINT_ID (holder MINT_ID 110000000 0 (om_ins (0, 0) (of_val (- 200)) om_empty)) sample_settled_store = sample_final_store"
    by (simp add: sample_settled_store_def sample_final_store_def three_holders_set)
  have exp: "expected_balance_delta_from_fills sample_fills (order_map_of (map wo_order sample_orders)) [sample_adjustment] =
      Some (of_val (- 800000000))"
    by (simp add: expected_balance_delta_from_fills_def order_map_of_def sample_orders_def om_of_list_def sample_fills_def
      compute_fill_settlement_def add_i64_def i64_of_def fits_i64_def sample_adjustment_def)
  have delta: "sub_i64 (of_val 2200000000) (of_val 3000000000) = Some (of_val (- 800000000))"
    by (simp add: sub_i64_def i64_of_def fits_i64_def)
  show ?thesis
    by (simp add: finalize_block_state_phase_def sample_aggregates sample_settled_batch deltas adjs sample_fill_balance_delta cost
        get mint set delta exp invariant_failures_from_aggregates_def totals_for_def flag_def Let_def)
qed

definition finalized_block :: BlockWitness where
  "finalized_block = sample_block\<lparr> bw_post_system_state := from_accounts sample_store,
     bw_post_state := from_accounts sample_final_store, bw_minting_cost := of_val 910000000 \<rparr>"

definition sample_finalized_state :: FinalizedBlockState where
  "sample_finalized_state = \<lparr> fb_accounts = sample_final_store, fb_post_state = from_accounts sample_final_store,
     fb_minting_cost = of_val 910000000, fb_mint_adjustments = [sample_adjustment], fb_invariant_failures = [] \<rparr>"

theorem finalized_block_verifies_witness: "\<exists>v. verify_settlement sample_hash finalized_block = Some v \<and> vr_valid v"
proof -
  have [simp]: "bw_fills finalized_block = sample_fills" "bw_orders finalized_block = sample_orders"
    "bw_clearing_prices finalized_block = sample_prices" "h_height (bw_header finalized_block) = 5"
    by (simp_all add: finalized_block_def)
  have "\<exists>v. verify_settlement sample_hash finalized_block = Some v \<and>
     set (vr_violations v) = (if \<exists>adj \<in> set (fb_mint_adjustments sample_finalized_state). ma_balance_delta adj = 0 then {MintingWithoutClearingPrice} else {}) \<union>
       (if short_account (fb_accounts sample_finalized_state) then {NegativePosition} else {}) \<and>
     (vr_valid v \<longleftrightarrow> (\<forall>adj \<in> set (fb_mint_adjustments sample_finalized_state). ma_balance_delta adj \<noteq> 0) \<and>
        \<not> short_account (fb_accounts sample_finalized_state))"
  proof (rule finalized_block_verifies [where store = sample_store and ?store1.0 = sample_settled_store and markets = "[0]"])
    show "store_wf sample_store" by (auto simp: store_wf_def sample_store_def holder_def MINT_ID_def u64_max_def three_holders_def split: if_splits)
    show "finalize_block_state_phase sample_hash sample_store (bw_fills finalized_block) (map wo_order (bw_orders finalized_block)) [0]
       (bw_clearing_prices finalized_block) (h_height (bw_header finalized_block)) = Some sample_finalized_state"
      by (simp add: sample_finalized sample_finalized_state_def)
    show "settle_batch sample_hash sample_store (bw_fills finalized_block) (map wo_order (bw_orders finalized_block))
       (h_height (bw_header finalized_block)) = Some (sample_settled_store, [])"
      by (simp add: settle_batch_def sample_settled_batch)
    show "\<forall>fill \<in> set (bw_fills finalized_block). fill_in_batch (bw_orders finalized_block) fill"
      by (simp add: sample_fills_def fill_in_batch_def witness_order_entries_def sample_orders_def om_of_list_def NANOS_PER_DOLLAR_def)
    show "small_positions sample_settled_store"
      by (simp add: small_positions_def om_sum_def sample_settled_store_def three_holders_entries position_def holder_def fits_i64_def)
    show "m \<in> set [0]" if "lookup (sto_accounts sample_settled_store) i = Some a" "position a m out \<noteq> 0" for i a m out
      using that by (auto simp: sample_settled_store_def position_def holder_def split: if_splits)
    show "fill_balance_delta_from_fills (map wo_order (bw_orders finalized_block)) (bw_fills finalized_block) \<noteq> Some (of_val (- 9223372036854775808))"
      by (simp add: sample_fill_balance_delta val_eq_iff fits_i64_def)
  qed (simp_all add: finalized_block_def sample_finalized_state_def)
  moreover have "\<not> short_account sample_final_store"
    by (auto simp: short_account_def sample_final_store_def position_def holder_def fits_i64_def split: if_splits)
  moreover have "ma_balance_delta sample_adjustment \<noteq> 0" by (simp add: sample_adjustment_def val_eq_iff fits_i64_def)
  ultimately show ?thesis by (auto simp: sample_finalized_state_def)
qed

end
