(* ===== verification/Resolution_Refinement.thy ===== *)
theory Resolution_Refinement
  imports Settlement_Refinement
begin

text \<open>
  Resolving a market in the sequencer refines the verifier's replay of the \<open>MarketResolved\<close> event.  The
  sequencer visits every account of the store, pays out both outcomes and names the accounts it touched; the
  verifier visits only the named accounts.  The event digest of a touched account is extended later, when
  the block is produced (\<open>sequencer/production/mod.rs\<close>).
\<close>

text \<open>The branch of the event loop of \<open>produce_block_in_place\<close> for a resolution.\<close>

definition log_resolution :: "hash \<Rightarrow> MarketId \<Rightarrow> Nanos \<Rightarrow> u64 \<Rightarrow> AccountId list \<Rightarrow> AccountStore \<Rightarrow> AccountStore" where
  "log_resolution h market_id payout_nanos height affected_accounts store =
     (let encoded = encode_resolution_event market_id payout_nanos height
      in fold (\<lambda>i st. case get_account st i of
           None \<Rightarrow> st
         | Some account \<Rightarrow> set_account i (account\<lparr> ac_events_digest :=
             update_digest h (ac_events_digest account) encoded \<rparr>) st) affected_accounts store)"

section \<open>One account\<close>

text \<open>Positions for which a payout of one dollar per share fits in 64 signed bits.\<close>

definition MAX_PAYABLE :: int where "MAX_PAYABLE = 9223372036854"

lemma pay_out_val:
  assumes "pay_out p q a = Some a'" "uint p \<le> 1000000000" "\<bar>val q\<bar> \<le> MAX_PAYABLE"
  shows "\<exists>v b. system_signed_notional p q = Some v \<and> add_i64 (ac_balance a) v = Some b \<and> a' = a\<lparr> ac_balance := b \<rparr>"
proof -
  have "uint p * \<bar>val q\<bar> \<le> 1000000000 * 9223372036854"
    using assms(2,3) by (intro mult_mono) (simp_all add: MAX_PAYABLE_def)
  moreover have "0 \<le> uint p * \<bar>val q\<bar>" by simp
  ultimately have b: "0 \<le> uint p * \<bar>val q\<bar> div 1000" "uint p * \<bar>val q\<bar> div 1000 \<le> 9223372036854775807" by linarith+
  then have n: "uint (notional_nanos p (unsigned_abs q)) = uint p * \<bar>val q\<bar> div 1000"
    by (simp add: notional_nanos_def SHARE_SCALE_def fits_u64_def)
  then have i: "i64_of (uint (notional_nanos p (unsigned_abs q))) = Some (I64 (notional_nanos p (unsigned_abs q)))"
    using b by (simp add: i64_of_eq_Some val_I64)
  show ?thesis
  proof (cases "q = 0")
    case True
    then have "system_signed_notional p q = Some 0"
      unfolding system_signed_notional_def i by (simp add: mul_i64_def i64_of_eq_Some flip: zero_i64_def)
    moreover have "add_i64 (ac_balance a) 0 = Some (ac_balance a)" by (simp add: add_i64_def i64_of_eq_Some)
    ultimately show ?thesis using True assms(1) by (simp add: pay_out_def)
  next
    case False
    with assms(1) i show ?thesis by (auto simp: pay_out_def system_signed_notional_def opt)
  qed
qed

definition hit :: "MarketId \<Rightarrow> Account \<Rightarrow> bool" where
  "hit m a \<longleftrightarrow> position a m 0 \<noteq> 0 \<or> position a m 1 \<noteq> 0"

definition payable :: "MarketId \<Rightarrow> Account \<Rightarrow> bool" where
  "payable m a \<longleftrightarrow> \<bar>val (position a m 0)\<bar> \<le> MAX_PAYABLE \<and> \<bar>val (position a m 1)\<bar> \<le> MAX_PAYABLE"

lemma resolve_one_parts:
  assumes "resolve_one m p a = Some (a', touched)" "p \<le> NANOS_PER_DOLLAR" "payable m a"
  obtains v v' b b' where "system_signed_notional p (position a m 0) = Some v"
    "system_signed_notional (saturating_sub_u64 NANOS_PER_DOLLAR p) (position a m 1) = Some v'"
    "add_i64 (ac_balance a) v = Some b" "add_i64 b v' = Some b'"
    "a' = a\<lparr> ac_positions := om_del (m, 1) (om_del (m, 0) (ac_positions a)), ac_balance := b' \<rparr>" "touched = hit m a"
proof -
  let ?del = "a\<lparr> ac_positions := om_del (m, 1) (om_del (m, 0) (ac_positions a)) \<rparr>"
  have p: "uint p \<le> 1000000000" using assms(2) by (simp add: word_le_def uint_NANOS)
  have p': "uint (saturating_sub_u64 NANOS_PER_DOLLAR p) \<le> 1000000000" using p by (simp add: num uint_NANOS)
  from assms(1) obtain a1 where a1: "pay_out p (position a m 0) ?del = Some a1"
    and a2: "pay_out (saturating_sub_u64 NANOS_PER_DOLLAR p) (position a m 1) a1 = Some a'" and t: "touched = hit m a"
    by (auto simp: resolve_one_def opt Let_def position_def hit_def)
  from pay_out_val [OF a1 p] assms(3) obtain v b where v: "system_signed_notional p (position a m 0) = Some v"
    "add_i64 (ac_balance a) v = Some b" "a1 = ?del\<lparr> ac_balance := b \<rparr>" by (auto simp: payable_def)
  from pay_out_val [OF a2 p'] assms(3) v(3) obtain v' b' where
    "system_signed_notional (saturating_sub_u64 NANOS_PER_DOLLAR p) (position a m 1) = Some v'"
    "add_i64 b v' = Some b'" "a' = a1\<lparr> ac_balance := b' \<rparr>" by (auto simp: payable_def)
  with v t show ?thesis by (intro that) auto
qed

lemma resolve_one_missed:
  assumes "resolve_one m p a = Some (a', touched)" "\<not> hit m a"
  shows "a' = a\<lparr> ac_positions := om_del (m, 1) (om_del (m, 0) (ac_positions a)) \<rparr>" "\<not> touched"
  using assms by (auto simp: resolve_one_def opt Let_def position_def hit_def pay_out_def)

text \<open>The verifier's step on the snapshot of the account.\<close>

lemma resolve_account_snapshot:
  assumes "resolve_one m p a = Some (a', touched)" "p \<le> NANOS_PER_DOLLAR" "payable m a"
  shows "\<exists>s. resolve_account h m p ht (snapshot_account a) = (s, True) \<and> as_balance s = ac_balance a' \<and>
    as_total_deposited s = ac_total_deposited a' \<and> as_last_trading_nonce s = ac_last_trading_nonce a' \<and>
    as_events_digest s = update_digest h (ac_events_digest a') (encode_resolution_event m p ht) \<and>
    (\<forall>k. get_or (position_map (as_positions s)) k 0 = get_or (ac_positions a') k 0) \<and>
    set (as_positions s) \<subseteq> set (as_positions (snapshot_account a)) \<and>
    distinct (map (\<lambda>(m, out, q). (m, out)) (as_positions s))"
  using assms
proof (rule resolve_one_parts)
  fix v v' b b'
  assume v: "system_signed_notional p (position a m 0) = Some v"
    "system_signed_notional (saturating_sub_u64 NANOS_PER_DOLLAR p) (position a m 1) = Some v'"
    and b: "add_i64 (ac_balance a) v = Some b" "add_i64 b v' = Some b'"
    and a': "a' = a\<lparr> ac_positions := om_del (m, 1) (om_del (m, 0) (ac_positions a)), ac_balance := b' \<rparr>"
  let ?s = "snapshot_account a"
  obtain s1 yes s2 no where r: "remove_position m 0 ?s = (s1, yes)" "remove_position m 1 s1 = (s2, no)" by (metis surj_pair)
  note r1 = remove_position_pos [OF r(1)] and r2 = remove_position_pos [OF r(2)]
  have q: "yes = position a m 0" "no = position a m 1" using r1(1,2) r2(2) by (simp_all add: position_def)
  have d: "as_events_digest s2 = as_events_digest ?s" using r by (auto simp: remove_position_def)
  have f: "as_positions s2 = filter (\<lambda>(mk, out, q). \<not> (mk = m \<and> (out = 0 \<or> out = 1))) (as_positions ?s)"
    using r by (auto simp: remove_position_def intro!: filter_cong)
  have pos: "get_or (position_map (as_positions s2)) k 0 = get_or (ac_positions a') k 0" for k
    using r1(1) r2(1) by (simp add: a')
  have "resolve_account h m p ht ?s = (log_event h (encode_resolution_event m p ht) (s2\<lparr> as_balance := b' \<rparr>), True)"
    using v b r1(3) r2(3) by (simp add: resolve_account_def r q Let_def)
  then show ?thesis
    using r1 r2 d f pos distinct_map_filter [OF snapshot_distinct] by (auto simp: a' log_event_def)
qed

lemma normalized_exact:
  assumes "distinct (map (\<lambda>(m, out, q). (m, out)) (as_positions s))"
  shows "lookup (normalized_positions s) k =
    (if get_or (position_map (as_positions s)) k 0 = 0 then None else Some (get_or (position_map (as_positions s)) k 0))"
proof -
  let ?f = "\<lambda>(m :: MarketId, out :: u8, q :: i64). ((m, out), q)"
  let ?xs = "map ?f (as_positions s)"
  have "map fst ?xs = map (\<lambda>(m, out, q). (m, out)) (as_positions s)" by auto
  then have d: "distinct (map fst ?xs)" using assms by (simp only:)
  have e: "map ?f (filter (\<lambda>(m, out, q). q \<noteq> 0) (as_positions s)) = filter (\<lambda>(k, q). q \<noteq> 0) ?xs"
    by (simp add: filter_map comp_def case_prod_unfold)
  have "distinct (map fst (filter (\<lambda>(k, q). q \<noteq> 0) ?xs))" using d by (rule distinct_map_filter)
  then have l: "lookup (normalized_positions s) k = map_of (filter (\<lambda>(k, q). q \<noteq> 0) ?xs) k"
    unfolding normalized_positions_def e by (rule lookup_om_of_list_distinct)
  have g: "get_or (position_map (as_positions s)) k 0 = (case map_of ?xs k of Some q \<Rightarrow> q | None \<Rightarrow> 0)"
    by (simp add: position_map_def get_or_def lookup_om_of_list_distinct [OF d])
  have "map_of (filter (\<lambda>(k, q). q \<noteq> 0) xs) k = (case map_of xs k of Some q \<Rightarrow> if q = 0 then None else Some q | None \<Rightarrow> None)"
    if "distinct (map fst xs)" for xs :: "((MarketId \<times> u8) \<times> i64) list"
    using that by (induction xs) (auto simp: map_of_eq_None_iff split: option.splits)
  from this [OF d] show ?thesis unfolding l g by (auto split: option.splits)
qed

section \<open>All accounts\<close>

lemma resolve_fold:
  assumes "fold_opt (\<lambda>i (store, affected). do {
         account \<leftarrow> get_account store i;
         (account', touched) \<leftarrow> resolve_one m p account;
         Some (set_account i account' store, if touched then affected @ [i] else affected) }) ks (store, aff) = Some (store', aff')"
    and "distinct ks" "\<forall>k \<in> set ks. get_account store k \<noteq> None"
  shows "(\<forall>i. i \<notin> set ks \<longrightarrow> get_account store' i = get_account store i) \<and>
    (\<forall>i \<in> set ks. \<exists>a a' t. get_account store i = Some a \<and> resolve_one m p a = Some (a', t) \<and> get_account store' i = Some a') \<and>
    aff' = aff @ filter (\<lambda>i. case get_account store i of Some a \<Rightarrow> hit m a | None \<Rightarrow> False) ks"
  using assms
proof (induction ks arbitrary: store aff)
  case (Cons k ks)
  from Cons.prems obtain a a' t where a: "get_account store k = Some a" "resolve_one m p a = Some (a', t)"
    and r: "fold_opt (\<lambda>i (store, affected). do {
         account \<leftarrow> get_account store i;
         (account', touched) \<leftarrow> resolve_one m p account;
         Some (set_account i account' store, if touched then affected @ [i] else affected) }) ks
       (set_account k a' store, if t then aff @ [k] else aff) = Some (store', aff')"
    by (auto simp: opt)
  have g: "get_account (set_account k a' store) i = (if i = k then Some a' else get_account store i)" for i
    by (simp add: get_account_def set_account_def)
  have t: "t = hit m a" using a(2) by (auto simp: resolve_one_def opt Let_def hit_def position_def)
  have "distinct ks" "\<forall>i \<in> set ks. get_account (set_account k a' store) i \<noteq> None" "k \<notin> set ks" using Cons.prems by (auto simp: g)
  note ih = Cons.IH [OF r this(1,2), unfolded g] and k = this(3)
  have eq: "(if i = k then Some a' else get_account store i) = get_account store i" if "i \<in> set ks" for i using k that by auto
  have "\<exists>a a' t. get_account store i = Some a \<and> resolve_one m p a = Some (a', t) \<and> get_account store' i = Some a'"
    if "i \<in> set ks" for i using ih that by (simp add: eq)
  moreover have "aff' = (if t then aff @ [k] else aff) @
      filter (\<lambda>i. case get_account store i of Some a \<Rightarrow> hit m a | None \<Rightarrow> False) ks"
    using ih by (simp add: eq cong: filter_cong)
  ultimately show ?case using ih a k by (auto simp: t)
qed simp

lemma resolve_market_accounts:
  assumes "resolve_market m p store = Some (store', affected)"
  shows "affected = filter (\<lambda>i. case get_account store i of Some a \<Rightarrow> hit m a | None \<Rightarrow> False) (om_keys (sto_accounts store))"
    "get_account store i = None \<Longrightarrow> get_account store' i = None"
    "get_account store i = Some a \<Longrightarrow> \<exists>a' t. resolve_one m p a = Some (a', t) \<and> get_account store' i = Some a'"
proof -
  have "\<forall>k \<in> set (om_keys (sto_accounts store)). get_account store k \<noteq> None"
    by (auto simp: get_account_def in_om_keys)
  note f = resolve_fold [OF assms [unfolded resolve_market_def] distinct_keys(2) this]
  show "affected = filter (\<lambda>i. case get_account store i of Some a \<Rightarrow> hit m a | None \<Rightarrow> False) (om_keys (sto_accounts store))"
    using f by simp
  show "get_account store i = None \<Longrightarrow> get_account store' i = None"
    using f by (metis get_account_def in_om_keys)
  show "get_account store i = Some a \<Longrightarrow> \<exists>a' t. resolve_one m p a = Some (a', t) \<and> get_account store' i = Some a'"
    using f by (metis get_account_def in_om_keys option.distinct(1) option.inject)
qed

lemma resolve_accounts_succeed:
  assumes "distinct is'" "\<forall>i \<in> set is'. \<exists>a s. lookup accounts i = Some a \<and> resolve_account h m p ht a = (s, True)"
  shows "\<exists>accounts'. resolve_accounts h m p ht is' accounts = (accounts', True) \<and>
    (\<forall>i. lookup accounts' i = (if i \<in> set is' then map_option (\<lambda>a. fst (resolve_account h m p ht a)) (lookup accounts i) else lookup accounts i))"
  using assms
proof (induction is' arbitrary: accounts)
  case (Cons i is')
  then obtain a s where a: "lookup accounts i = Some a" "resolve_account h m p ht a = (s, True)" by auto
  then have w: "with_account i (resolve_account h m p ht) accounts = (om_ins i s accounts, True)" by (simp add: with_account_def)
  have "\<forall>j \<in> set is'. \<exists>a s'. lookup (om_ins i s accounts) j = Some a \<and> resolve_account h m p ht a = (s', True)" using Cons.prems by auto
  with Cons.IH [of "om_ins i s accounts"] Cons.prems(1) w a show ?case by (auto; metis)
qed simp

definition log_one :: "hash \<Rightarrow> MarketId \<Rightarrow> Nanos \<Rightarrow> u64 \<Rightarrow> AccountId \<Rightarrow> AccountStore \<Rightarrow> AccountStore" where
  "log_one h m p ht i st = (case get_account st i of None \<Rightarrow> st | Some account \<Rightarrow> set_account i (account\<lparr> ac_events_digest :=
     update_digest h (ac_events_digest account) (encode_resolution_event m p ht) \<rparr>) st)"

lemma log_resolution_fold: "log_resolution h m p ht is' store = fold (log_one h m p ht) is' store"
  unfolding log_resolution_def Let_def by (intro fold_cong) (auto simp: log_one_def)

lemma log_one_get: "get_account (log_one h m p ht j store) i = (if i = j
     then map_option (\<lambda>a. a\<lparr> ac_events_digest := update_digest h (ac_events_digest a) (encode_resolution_event m p ht) \<rparr>)
        (get_account store i) else get_account store i)"
  by (auto simp: log_one_def get_account_def set_account_def split: option.splits)

lemma log_resolution_get:
  "distinct is' \<Longrightarrow> get_account (log_resolution h m p ht is' store) i =
     (if i \<in> set is' then map_option (\<lambda>a. a\<lparr> ac_events_digest := update_digest h (ac_events_digest a) (encode_resolution_event m p ht) \<rparr>)
        (get_account store i) else get_account store i)"
  unfolding log_resolution_fold by (induction is' arbitrary: store) (auto simp: log_one_get)

lemma log_resolution_wf: "store_wf store \<Longrightarrow> store_wf (log_resolution h m p ht is' store)"
  unfolding log_resolution_fold
  by (induction is' arbitrary: store) (auto simp: log_one_def set_account_wf split: option.splits)

lemma resolve_market_wf:
  assumes "resolve_market m p store = Some (store', affected)" "store_wf store"
  shows "store_wf store'"
proof -
  note r = resolve_market_accounts [OF assms(1)]
  have id: "ac_id a' = ac_id a" if "resolve_one m p a = Some (a', t)" for a a' t
    using that by (auto simp: resolve_one_def opt Let_def pay_out_def split: if_splits)
  have n: "sto_next_id st' = sto_next_id st" if "fold_opt (\<lambda>i (store, affected). do {
         account \<leftarrow> get_account store i;
         (account', touched) \<leftarrow> resolve_one m p account;
         Some (set_account i account' store, if touched then affected @ [i] else affected) }) ks (st, aff) = Some (st', aff')" for ks st aff st' aff'
    using that by (induction ks arbitrary: st aff) (auto simp: opt set_account_def)
  have "ac_id a' = i \<and> (i = MINT_ID \<or> i < sto_next_id store')" if "get_account store' i = Some a'" for i a'
  proof -
    note got = that
    obtain a where a: "get_account store i = Some a" using r(2) [of i] got by (cases "get_account store i") auto
    with r(3) got id assms(2) n [OF assms(1) [unfolded resolve_market_def]] show ?thesis
      by (fastforce simp: store_wf_def get_account_def)
  qed
  moreover have "get_account store' MINT_ID \<noteq> None"
    using assms(2) r(3) by (fastforce simp: store_wf_def get_account_def)
  ultimately show ?thesis by (simp add: store_wf_def get_account_def)
qed

lemma missed_compare:
  assumes "resolve_one m p a = Some (a', t)" "\<not> hit m a"
  shows "compare_system_account (Some (snapshot_account a)) (Some (snapshot_account a')) = []"
proof -
  note a' = resolve_one_missed(1) [OF assms]
  have "get_or (ac_positions a') k 0 = get_or (ac_positions a) k 0" for k
    using assms(2) by (cases k) (auto simp: a' hit_def position_def get_or_def)
  then have "normalized_positions (snapshot_account a) = normalized_positions (snapshot_account a')"
    by (simp add: omap_eq_iff normalized_exact snapshot_distinct snapshot_position)
  then show ?thesis by (simp add: compare_system_account_def a')
qed

lemma touched_compare:
  assumes "resolve_one m p a = Some (a', t)" "p \<le> NANOS_PER_DOLLAR" "payable m a"
  shows "\<exists>s. resolve_account h m p ht (snapshot_account a) = (s, True) \<and>
    compare_system_account (Some s) (Some (snapshot_account
      (a'\<lparr> ac_events_digest := update_digest h (ac_events_digest a') (encode_resolution_event m p ht) \<rparr>))) = []"
proof -
  from resolve_account_snapshot [OF assms, of h ht] obtain s where
    s: "resolve_account h m p ht (snapshot_account a) = (s, True)" "as_balance s = ac_balance a'"
      "as_total_deposited s = ac_total_deposited a'" "as_last_trading_nonce s = ac_last_trading_nonce a'"
      "as_events_digest s = update_digest h (ac_events_digest a') (encode_resolution_event m p ht)"
      "\<And>k. get_or (position_map (as_positions s)) k 0 = get_or (ac_positions a') k 0"
      "distinct (map (\<lambda>(m, out, q). (m, out)) (as_positions s))" by blast
  let ?b = "a'\<lparr> ac_events_digest := update_digest h (ac_events_digest a') (encode_resolution_event m p ht) \<rparr>"
  have "normalized_positions s = normalized_positions (snapshot_account ?b)"
    by (simp add: omap_eq_iff normalized_exact snapshot_distinct snapshot_position s)
  with s show ?thesis by (simp add: compare_system_account_def)
qed

text \<open>C12: the sequencer's resolution of a market passes the verifier's system layer.  Let the store be well formed,
  the payout at most one dollar, every position in the market small enough that its payout fits in 64 signed
  bits, and let \<open>resolve_market\<close> return the new store and the accounts it touched.  Then a block that reports
  exactly that resolution, with the old store as its pre-state and the new one, event logged, as the state
  after system events, is accepted: the touched accounts are all the accounts that held the market.\<close>

theorem resolution_verifies:
  assumes "store_wf store" "payout \<le> NANOS_PER_DOLLAR"
    and "\<forall>a \<in> set (om_values (sto_accounts store)). payable market a"
    and "resolve_market market payout store = Some (store', affected)"
    and "bw_pre_state w = from_accounts store"
    and "bw_system_events w = [MarketResolved market payout affected]"
    and "bw_post_system_state w = from_accounts (log_resolution h market payout (h_height (bw_header w)) affected store')"
  shows "\<exists>v. verify_system_transition h sha w = Some v \<and> vr_valid v"
proof -
  let ?ht = "h_height (bw_header w)" and ?pre = "snapshot_map (bw_pre_state w)" and ?post = "snapshot_map (bw_post_system_state w)"
  note r = resolve_market_accounts [OF assms(4)]
  have wf': "store_wf store'" using resolve_market_wf assms(1,4) by blast
  have dist: "distinct affected" unfolding r(1) by (rule distinct_filter [OF distinct_keys(2)])
  have pay: "payable market a" if "get_account store i = Some a" for i a
    using assms(3) that by (auto simp: get_account_def in_om_values)
  have pre: "lookup ?pre i = map_option snapshot_account (get_account store i)" for i
    using snapshot_map_from_accounts [OF assms(1)] by (simp add: assms(5) get_account_def)
  have post: "lookup ?post i = map_option snapshot_account (get_account (log_resolution h market payout ?ht affected store') i)" for i
    using snapshot_map_from_accounts [OF log_resolution_wf [OF wf']] by (simp add: assms(7) get_account_def)
  have "\<exists>a s. lookup ?pre i = Some a \<and> resolve_account h market payout ?ht a = (s, True)" if "i \<in> set affected" for i
  proof -
    note prem = that
    from prem obtain a where a: "get_account store i = Some a" unfolding r(1) by (auto split: option.splits)
    obtain a' t where "resolve_one market payout a = Some (a', t)" using r(3) [OF a] by blast
    from touched_compare [OF this assms(2) pay [OF a], of h ?ht] a show ?thesis by (auto simp: pre)
  qed
  then obtain accounts where acc: "resolve_accounts h market payout ?ht affected ?pre = (accounts, True)"
    and look: "lookup accounts i = (if i \<in> set affected then map_option (\<lambda>a. fst (resolve_account h market payout ?ht a)) (lookup ?pre i)
      else lookup ?pre i)" for i
    using resolve_accounts_succeed [OF dist, of ?pre h market payout ?ht] by blast
  have "compare_system_account (lookup accounts i) (lookup ?post i) = []" for i
  proof (cases "get_account store i")
    case None
    then show ?thesis using r(2) [OF None] log_resolution_get [OF dist] by (simp add: look pre post compare_system_account_def)
  next
    case (Some a)
    then obtain a' t where one: "resolve_one market payout a = Some (a', t)" and a': "get_account store' i = Some a'" using r(3) by blast
    have mem: "i \<in> set affected \<longleftrightarrow> hit market a" unfolding r(1) using Some by (auto simp: in_om_keys get_account_def)
    show ?thesis
    proof (cases "hit market a")
      case False
      then show ?thesis using missed_compare [OF one] Some a' mem by (simp add: look pre post log_resolution_get [OF dist])
    next
      case True
      from touched_compare [OF one assms(2) pay [OF Some], of h ?ht] Some a' mem True show ?thesis
        by (auto simp: look pre post log_resolution_get [OF dist])
    qed
  qed
  then have "\<forall>i. compare_system_account (lookup accounts i) (lookup ?post i) = []" by blast
  then show ?thesis
    by (simp add: verify_system_transition_def assms(6) system_step_def acc Let_def)
qed

section \<open>A resolution\<close>

definition resolved_store :: AccountStore where
  "resolved_store = three_holders (holder 1 2250000000 2000000000 om_empty) (holder 2 800000000 1000000000 om_empty)
     (holder MINT_ID 0 0 om_empty)"

definition resolved_block :: BlockWitness where
  "resolved_block = sample_block\<lparr> bw_pre_state := from_accounts sample_settled_store,
     bw_system_events := [MarketResolved 0 800000000 [1, 2]],
     bw_post_system_state := from_accounts (log_resolution sample_hash 0 800000000 5 [1, 2] resolved_store) \<rparr>"

lemma sample_resolve_one:
  "resolve_one 0 800000000 (holder 1 1450000000 2000000000 (om_ins (0, 0) (of_val 1000) om_empty)) =
     Some (holder 1 2250000000 2000000000 om_empty, True)"
  "resolve_one 0 800000000 (holder 2 640000000 1000000000 (om_ins (0, 1) (of_val 800) om_empty)) =
     Some (holder 2 800000000 1000000000 om_empty, True)"
  "resolve_one 0 800000000 (holder MINT_ID 0 0 om_empty) = Some (holder MINT_ID 0 0 om_empty, False)"
  by (simp_all add: resolve_one_def pay_out_def holder_def mul_i64_def add_i64_def i64_of_def fits_i64_def val_eq_iff unsigned_abs_def
      notional_nanos_def saturating_sub_u64_def NANOS_PER_DOLLAR_def SHARE_SCALE_def Let_def get_or_def omap_eq_iff fits_u64_def val_I64 sub_u64_def u64_of_def)

theorem resolution_verifies_witness:
  "\<exists>v. verify_system_transition sample_hash sample_hash resolved_block = Some v \<and> vr_valid v"
proof (rule resolution_verifies)
  show "store_wf sample_settled_store"
    by (auto simp: store_wf_def sample_settled_store_def holder_def MINT_ID_def u64_max_def three_holders_def split: if_splits)
  show "800000000 \<le> NANOS_PER_DOLLAR" by (simp add: NANOS_PER_DOLLAR_def)
  show "\<forall>a \<in> set (om_values (sto_accounts sample_settled_store)). payable 0 a"
    by (simp add: om_values_def sample_settled_store_def three_holders_entries payable_def position_def holder_def MAX_PAYABLE_def fits_i64_def)
  have "MINT_ID \<noteq> 1" "MINT_ID \<noteq> 2" by (simp_all add: MINT_ID_def u64_max_def)
  then show "resolve_market 0 800000000 sample_settled_store = Some (resolved_store, [1, 2])"
    using sample_resolve_one
    by (simp add: resolve_market_def om_keys_def sample_settled_store_def three_holders_entries get_account_def
        resolved_store_def three_holders_set)
qed (simp_all add: resolved_block_def sample_block_def)

end
