(* ===== verification/Verifier_Match.thy ===== *)
theory Verifier_Match
  imports Sample_Block
begin

text \<open>
  \<open>crates/sybil-verifier/src/arithmetic.rs\<close> and \<open>match_verifier.rs\<close>, layer 1 of block verification: every
  fill against its order, uniform clearing prices, complementarity, market-maker budgets, welfare.  The
  lemmas turn a clean pass into the facts it establishes about the block.
\<close>

section \<open>Checked arithmetic\<close>

definition checked_price_qty :: "Nanos \<Rightarrow> Qty \<Rightarrow> i64 option" where
  "checked_price_qty price qty = checked_notional_i64 price qty"

definition checked_price_qty_ceil :: "Nanos \<Rightarrow> Qty \<Rightarrow> i64 option" where
  "checked_price_qty_ceil price qty = checked_notional_ceil_i64 price qty"

definition price_qty :: "Nanos \<Rightarrow> Qty \<Rightarrow> i64" where
  "price_qty price qty = I64 (notional_nanos price qty)"

definition checked_welfare :: "Nanos \<Rightarrow> Nanos \<Rightarrow> Qty \<Rightarrow> bool \<Rightarrow> i64 option" where
  "checked_welfare limit_price fill_price fill_qty seller =
     (if fill_qty = 0 then Some 0
      else do {
        surplus_per_unit \<leftarrow>
          (if seller
           then do { a \<leftarrow> i64_of (uint fill_price); b \<leftarrow> i64_of (uint limit_price); sub_i64 a b }
           else do { a \<leftarrow> i64_of (uint limit_price); b \<leftarrow> i64_of (uint fill_price); sub_i64 a b });
        checked_signed_price_delta_notional surplus_per_unit fill_qty })"

definition welfare :: "Nanos \<Rightarrow> Nanos \<Rightarrow> Qty \<Rightarrow> bool \<Rightarrow> i64" where
  "welfare limit_price fill_price fill_qty seller =
     (case checked_welfare limit_price fill_price fill_qty seller of Some w \<Rightarrow> w | None \<Rightarrow> 0)"

definition checked_position_qty :: "i8 \<Rightarrow> Qty \<Rightarrow> i64 option" where
  "checked_position_qty payoff qty = do { q \<leftarrow> i64_of (uint qty); mul_i64 (of_val (sint payoff)) q }"

section \<open>Per-fill checks\<close>

definition witness_order_map :: "WitnessOrder list \<Rightarrow> (u64, Order) omap" where
  "witness_order_map orders = om_of_list (map (\<lambda>wo. (o_id (wo_order wo), wo_order wo)) orders)"

definition price_violated :: "bool \<Rightarrow> Order \<Rightarrow> Fill \<Rightarrow> bool" where
  "price_violated seller ord fill =
     (if seller then f_fill_price fill < o_limit_price ord else o_limit_price ord < f_fill_price fill)"

text \<open>The state of the loop: the order ids filled so far and the accumulated gross welfare.\<close>

definition verify_fill_step ::
  "(u64, Order) omap \<Rightarrow> Fill \<Rightarrow> u64 list \<times> i64 \<Rightarrow> ((u64 list \<times> i64) \<times> ViolationKind list) option"
where
  "verify_fill_step order_map fill st = (case st of (filled_orders, gross) \<Rightarrow>
     (case lookup order_map (f_order_id fill) of
        None \<Rightarrow> Some ((filled_orders, gross), [OrderNotFound])
      | Some ord \<Rightarrow> do {
          seller \<leftarrow> is_seller ord;
          let filled' = f_order_id fill # filled_orders;
          let vs = flag (f_order_id fill \<in> set filled_orders) DuplicateFill
                 @ flag (o_max_fill ord < f_fill_qty fill) QuantityExceedsMax
                 @ flag (f_fill_qty fill = 0) ZeroQuantityFill
                 @ flag (NANOS_PER_DOLLAR < o_limit_price ord) SettlementOverflow
                 @ flag (NANOS_PER_DOLLAR < f_fill_price fill) SettlementOverflow
                 @ flag (price_violated seller ord fill) PriceExceedsLimit;
          Some (case checked_welfare (o_limit_price ord) (f_fill_price fill) (f_fill_qty fill) seller of
              None \<Rightarrow> ((filled', gross), vs @ [SettlementOverflow])
            | Some surplus \<Rightarrow>
                let vs' = vs @ flag (surplus < 0) NegativeWelfare
                in case checked_price_qty (o_limit_price ord) (f_fill_qty fill) of
                     None \<Rightarrow> ((filled', gross), vs' @ [SettlementOverflow])
                   | Some gross_value \<Rightarrow>
                       (case (if seller then neg_i64 gross_value else Some gross_value) of
                          None \<Rightarrow> ((filled', gross), vs' @ [SettlementOverflow])
                        | Some contribution \<Rightarrow>
                            (case add_i64 gross contribution of
                               None \<Rightarrow> ((filled', gross), vs' @ [SettlementOverflow])
                             | Some gross' \<Rightarrow> ((filled', gross'), vs')))) }))"

text \<open>The checks after the loop; the second component is \<open>stats.computed_welfare\<close> when it is set.\<close>

definition verify_welfare_total :: "i64 \<Rightarrow> i64 \<Rightarrow> i64 \<Rightarrow> ViolationKind list \<times> i64 option" where
  "verify_welfare_total gross reported_welfare minting_cost =
     (case sub_i64 gross minting_cost of
        None \<Rightarrow> ([SettlementOverflow], None)
      | Some expected_welfare \<Rightarrow>
          (flag (expected_welfare < 0) NegativeWelfare @
           (case sub_i64 expected_welfare reported_welfare of
              None \<Rightarrow> [SettlementOverflow]
            | Some welfare_delta \<Rightarrow> flag (0 < unsigned_abs welfare_delta) WelfareMismatch),
           Some expected_welfare))"

definition verify_fills ::
  "Fill list \<Rightarrow> (u64, Order) omap \<Rightarrow> i64 \<Rightarrow> i64 \<Rightarrow> VerificationStats \<Rightarrow> (ViolationKind list \<times> VerificationStats) option"
where
  "verify_fills fills order_map reported_welfare minting_cost stats = do {
     ((filled, gross), vs) \<leftarrow> scan (verify_fill_step order_map) fills ([], 0);
     let (ws, computed) = verify_welfare_total gross reported_welfare minting_cost;
     let stats' = stats\<lparr> st_fills_checked := st_fills_checked stats + length fills,
                          st_orders_checked := length (om_keys order_map) \<rparr>;
     Some (vs @ ws, (case computed of None \<Rightarrow> stats' | Some c \<Rightarrow> stats'\<lparr> st_computed_welfare := c \<rparr>)) }"

section \<open>Market-maker budgets\<close>

definition fill_map_of :: "Fill list \<Rightarrow> (u64, Fill) omap" where
  "fill_map_of fills = om_of_list (map (\<lambda>f. (f_order_id f, f)) fills)"

definition mm_fills_of :: "Fill list \<Rightarrow> MmConstraint \<Rightarrow> MmFills" where
  "mm_fills_of fills mm = fold (\<lambda>order_id m. case lookup (fill_map_of fills) order_id of
      None \<Rightarrow> m
    | Some fill \<Rightarrow> if 0 < f_fill_qty fill then om_ins order_id (f_fill_price fill, f_fill_qty fill) m else m)
    (mm_order_ids mm) om_empty"

definition verify_mm_constraint :: "Fill list \<Rightarrow> MmConstraint \<Rightarrow> ViolationKind list" where
  "verify_mm_constraint fills mm =
     (case checked_capital_used mm (mm_fills_of fills mm) of
        None \<Rightarrow> [SettlementOverflow]
      | Some used \<Rightarrow> flag (mm_max_capital mm < used) MmBudgetExceeded)"

definition verify_mm_constraints :: "Fill list \<Rightarrow> MmConstraint list \<Rightarrow> ViolationKind list" where
  "verify_mm_constraints fills mm_constraints = concat (map (verify_mm_constraint fills) mm_constraints)"

section \<open>Market-level checks\<close>

definition verify_order_id_uniqueness :: "BlockWitness \<Rightarrow> ViolationKind list option" where
  "verify_order_id_uniqueness w =
     map_option snd (scan (seen_step (\<lambda>wo. o_id (wo_order wo)) DuplicateOrderId) (bw_orders w) [])"

definition expected_outcome :: "i8 \<Rightarrow> i8 \<Rightarrow> nat option" where
  "expected_outcome yes_payoff no_payoff =
     (if (yes_payoff = 1 \<or> yes_payoff = - 1) \<and> no_payoff = 0 then Some 0
      else if yes_payoff = 0 \<and> (no_payoff = 1 \<or> no_payoff = - 1) then Some 1
      else None)"

definition verify_uniform_price :: "Prices \<Rightarrow> (u64, Order) omap \<Rightarrow> Fill \<Rightarrow> ViolationKind list" where
  "verify_uniform_price clearing_prices order_map fill =
     (if f_fill_qty fill = 0 then []
      else case lookup order_map (f_order_id fill) of
        None \<Rightarrow> []
      | Some ord \<Rightarrow>
          if o_num_markets ord \<noteq> 1 then []
          else if unat (o_num_states ord) \<noteq> 2 then []
          else (case expected_outcome (o_payoffs ord ! 0) (o_payoffs ord ! 1) of
             None \<Rightarrow> []
           | Some outcome \<Rightarrow>
               (case Option.bind (lookup clearing_prices (o_markets ord ! 0)) (\<lambda>prices. idx prices outcome) of
                  None \<Rightarrow> [UniformClearingPriceViolation]
                | Some expected \<Rightarrow> flag (f_fill_price fill \<noteq> expected) UniformClearingPriceViolation)))"

definition verify_uniform_clearing_prices :: "BlockWitness \<Rightarrow> (u64, Order) omap \<Rightarrow> ViolationKind list" where
  "verify_uniform_clearing_prices w order_map =
     concat (map (verify_uniform_price (bw_clearing_prices w) order_map) (bw_fills w))"

definition price_is_in_protocol_range :: "Nanos \<Rightarrow> bool" where
  "price_is_in_protocol_range price \<longleftrightarrow> price \<le> NANOS_PER_DOLLAR"

definition verify_market_prices :: "Nanos list \<Rightarrow> ViolationKind list" where
  "verify_market_prices prices =
     concat (map (\<lambda>p. flag (\<not> price_is_in_protocol_range p) SettlementOverflow) prices) @
     (if length prices = 2
      then (case add_u64 (prices ! 0) (prices ! 1) of
              None \<Rightarrow> [SettlementOverflow]
            | Some s \<Rightarrow> flag (s \<noteq> NANOS_PER_DOLLAR) PriceComplementarityViolation)
      else [])"

definition verify_price_complementarity :: "BlockWitness \<Rightarrow> ViolationKind list" where
  "verify_price_complementarity w = concat (map verify_market_prices (om_values (bw_clearing_prices w)))"

definition verify_resolved_markets :: "BlockWitness \<Rightarrow> (u64, Order) omap \<Rightarrow> ViolationKind list" where
  "verify_resolved_markets w order_map =
     (if bw_resolved_markets w = [] then []
      else concat (map (\<lambda>fill.
        if f_fill_qty fill = 0 then []
        else case lookup order_map (f_order_id fill) of
          None \<Rightarrow> []
        | Some ord \<Rightarrow> concat (map (\<lambda>m. flag (m \<in> set (bw_resolved_markets w)) ResolvedMarketViolation)
                                  (active_markets ord))) (bw_fills w)))"

definition condition_met :: "PriceCondition \<Rightarrow> Nanos \<Rightarrow> bool" where
  "condition_met c yes_price =
     (case pc_direction c of Above \<Rightarrow> pc_threshold c < yes_price | Below \<Rightarrow> yes_price < pc_threshold c)"

definition verify_condition :: "Prices \<Rightarrow> (u64, Order) omap \<Rightarrow> Fill \<Rightarrow> ViolationKind list" where
  "verify_condition clearing_prices order_map fill =
     (if f_fill_qty fill = 0 then []
      else case lookup order_map (f_order_id fill) of
        None \<Rightarrow> []
      | Some ord \<Rightarrow>
          (case o_condition ord of
             None \<Rightarrow> []
           | Some c \<Rightarrow>
               (case lookup clearing_prices (pc_market c) of
                  None \<Rightarrow> [ConditionalActivationViolation]
                | Some prices \<Rightarrow>
                    let yes_price = (case idx prices 0 of Some p \<Rightarrow> p | None \<Rightarrow> 0)
                    in flag (\<not> condition_met c yes_price) ConditionalActivationViolation)))"

definition verify_conditional_activation :: "BlockWitness \<Rightarrow> (u64, Order) omap \<Rightarrow> ViolationKind list" where
  "verify_conditional_activation w order_map =
     concat (map (verify_condition (bw_clearing_prices w) order_map) (bw_fills w))"

definition group_delta :: "Prices \<Rightarrow> MarketGroup \<Rightarrow> u64" where
  "group_delta clearing_prices g =
     (let s = fold (\<lambda>m acc. case Option.bind (lookup clearing_prices m) (\<lambda>ps. idx ps 0) of
                 None \<Rightarrow> acc | Some yes_price \<Rightarrow> saturating_add_u64 acc yes_price) (mg_markets g) 0
      in if NANOS_PER_DOLLAR \<le> s then s - NANOS_PER_DOLLAR else NANOS_PER_DOLLAR - s)"

definition market_group_avg_delta :: "BlockWitness \<Rightarrow> u64" where
  "market_group_avg_delta w =
     fold (\<lambda>g acc. saturating_add_u64 acc (group_delta (bw_clearing_prices w) g)) (bw_market_groups w) 0
       div of_nat (length (bw_market_groups w))"

definition verify_match :: "BlockWitness \<Rightarrow> bool \<Rightarrow> VerificationResult option" where
  "verify_match w diagnostics = do {
     let order_map = witness_order_map (bw_orders w);
     (v1, stats) \<leftarrow> verify_fills (bw_fills w) order_map (bw_total_welfare w) (bw_minting_cost w) stats_default;
     let v2 = verify_mm_constraints (bw_fills w) (bw_mm_constraints w);
     v3 \<leftarrow> verify_order_id_uniqueness w;
     let v4 = verify_price_complementarity w;
     let v5 = verify_resolved_markets w order_map;
     let v6 = verify_conditional_activation w order_map;
     let v7 = verify_uniform_clearing_prices w order_map;
     let vs = v1 @ v2 @ v3 @ v4 @ v5 @ v6 @ v7;
     let stats' = stats\<lparr> st_mm_constraints_checked := length (bw_mm_constraints w),
                          st_reported_welfare := bw_total_welfare w,
                          st_market_group_avg_delta :=
                            (if diagnostics \<and> bw_market_groups w \<noteq> []
                             then Some (market_group_avg_delta w) else None) \<rparr>;
     Some \<lparr> vr_valid = (vs = []), vr_violations = vs, vr_stats = stats' \<rparr> }"

section \<open>What a clean pass establishes\<close>

text \<open>A fill that respects its order.\<close>

definition fill_respects :: "Order \<Rightarrow> Fill \<Rightarrow> bool" where
  "fill_respects ord fill \<longleftrightarrow> 0 < f_fill_qty fill \<and> f_fill_qty fill \<le> o_max_fill ord \<and>
     o_limit_price ord \<le> NANOS_PER_DOLLAR \<and> f_fill_price fill \<le> NANOS_PER_DOLLAR \<and>
     is_satisfied_at_price ord (f_fill_price fill) = Some True"

text \<open>The gross value of a fill at its limit price, signed by the side of the order.\<close>

definition gross_of :: "(u64, Order) omap \<Rightarrow> Fill \<Rightarrow> int" where
  "gross_of order_map fill = (case lookup order_map (f_order_id fill) of
     None \<Rightarrow> 0
   | Some ord \<Rightarrow> (if is_seller ord = Some True then - 1 else 1) * floor_notional (o_limit_price ord) (f_fill_qty fill))"

lemma verify_fill_step_clean:
  assumes "verify_fill_step om fill (filled, g) = Some ((filled', g'), [])"
  obtains ord where "lookup om (f_order_id fill) = Some ord" "fill_respects ord fill"
    "f_order_id fill \<notin> set filled" "filled' = f_order_id fill # filled" "val g' = val g + gross_of om fill"
proof -
  from assms obtain ord where ord: "lookup om (f_order_id fill) = Some ord"
    by (auto simp: verify_fill_step_def split: option.splits)
  from assms ord obtain seller where seller: "is_seller ord = Some seller"
    by (auto simp: verify_fill_step_def opt)
  from assms ord seller show ?thesis
    by (intro that [of ord])
       (auto simp: verify_fill_step_def fill_respects_def price_violated_def is_satisfied_at_price_def
         gross_of_def checked_price_qty_def checked_notional_i64_eq floor_notional_def not_less word_gt_0
         num Let_def split: option.splits if_splits)
qed

interpretation fill_pass: measured_pass "verify_fill_step om" "\<lambda>_. True" "\<lambda>st. val (snd st)" "gross_of om" for om
proof
  fix s t x assume "verify_fill_step om x s = Some (t, [])"
  then show "val (snd t) = val (snd s) + gross_of om x"
    by (cases s, cases t) (auto elim!: verify_fill_step_clean)
qed simp

lemma verify_fills_scan_clean:
  assumes "scan (verify_fill_step om) fills (filled, g) = Some ((filled', g'), [])"
  shows "distinct (map f_order_id fills)" "set (map f_order_id fills) \<inter> set filled = {}"
    "\<And>fill. fill \<in> set fills \<Longrightarrow> \<exists>ord. lookup om (f_order_id fill) = Some ord \<and> fill_respects ord fill"
    "val g' = val g + sum_list (map (gross_of om) fills)"
proof -
  show "val g' = val g + sum_list (map (gross_of om) fills)"
    using fill_pass.run_total [OF _ assms] by simp
  show "\<exists>ord. lookup om (f_order_id fill) = Some ord \<and> fill_respects ord fill" if "fill \<in> set fills" for fill
  proof -
    from assms that obtain t t' where "verify_fill_step om fill t = Some (t', [])" by (rule scan_clean_at)
    then show ?thesis by (cases t, cases t') (auto elim!: verify_fill_step_clean)
  qed
  have "distinct (map f_order_id fills) \<and> set (map f_order_id fills) \<inter> set filled = {}"
    using assms
  proof (induction fills arbitrary: filled g)
    case (Cons x xs)
    then obtain f1 g1 where x: "verify_fill_step om x (filled, g) = Some ((f1, g1), [])"
      and xs: "scan (verify_fill_step om) xs (f1, g1) = Some ((filled', g'), [])"
      by (auto simp: scan_Cons_clean simp del: scan.simps(2))
    from Cons.IH [OF xs] x show ?case by (auto elim!: verify_fill_step_clean)
  qed simp
  then show "distinct (map f_order_id fills)" "set (map f_order_id fills) \<inter> set filled = {}" by auto
qed

lemma verify_match_parts:
  assumes "verify_match w diagnostics = Some r" "vr_valid r"
  obtains filled gross where
    "scan (verify_fill_step (witness_order_map (bw_orders w))) (bw_fills w) ([], 0) = Some ((filled, gross), [])"
    "fst (verify_welfare_total gross (bw_total_welfare w) (bw_minting_cost w)) = []"
    "verify_mm_constraints (bw_fills w) (bw_mm_constraints w) = []"
    "verify_order_id_uniqueness w = Some []" "verify_price_complementarity w = []"
    "verify_resolved_markets w (witness_order_map (bw_orders w)) = []"
    "verify_conditional_activation w (witness_order_map (bw_orders w)) = []"
    "verify_uniform_clearing_prices w (witness_order_map (bw_orders w)) = []"
proof -
  let ?om = "witness_order_map (bw_orders w)"
  obtain v1 stats where v1: "verify_fills (bw_fills w) ?om (bw_total_welfare w) (bw_minting_cost w) stats_default
      = Some (v1, stats)"
    and rest: "v1 = []" "verify_mm_constraints (bw_fills w) (bw_mm_constraints w) = []"
      "verify_order_id_uniqueness w = Some []" "verify_price_complementarity w = []"
      "verify_resolved_markets w ?om = []" "verify_conditional_activation w ?om = []"
      "verify_uniform_clearing_prices w ?om = []"
    using assms by (auto simp: verify_match_def opt Let_def)
  obtain st vs where
    "scan (verify_fill_step ?om) (bw_fills w) ([], 0) = Some (st, vs)"
    "v1 = vs @ fst (verify_welfare_total (snd st) (bw_total_welfare w) (bw_minting_cost w))"
    using v1 by (auto simp: verify_fills_def opt Let_def case_prod_beta)
  with rest show ?thesis by (intro that [of "fst st" "snd st"]) auto
qed

lemma lookup_witness_order_map:
  assumes "lookup (witness_order_map orders) i = Some ord"
  obtains wo where "wo \<in> set orders" "wo_order wo = ord" "o_id ord = i"
  using lookup_om_of_list_in [OF assms [unfolded witness_order_map_def]] by auto

lemma lookup_witness_order_map_distinct:
  assumes "distinct (map (\<lambda>wo. o_id (wo_order wo)) orders)" "wo \<in> set orders"
  shows "lookup (witness_order_map orders) (o_id (wo_order wo)) = Some (wo_order wo)"
proof -
  have "distinct (map fst (map (\<lambda>wo. (o_id (wo_order wo), wo_order wo)) orders))"
    using assms(1) by (simp add: comp_def)
  moreover have "(o_id (wo_order wo), wo_order wo) \<in> set (map (\<lambda>wo. (o_id (wo_order wo), wo_order wo)) orders)"
    using assms(2) by auto
  ultimately show ?thesis
    unfolding witness_order_map_def by (simp add: lookup_om_of_list_distinct)
qed

lemma order_id_uniqueness_clean:
  "verify_order_id_uniqueness w = Some [] \<Longrightarrow> distinct (map (\<lambda>wo. o_id (wo_order wo)) (bw_orders w))"
  using scan_seen_clean [of "\<lambda>wo. o_id (wo_order wo)" DuplicateOrderId "bw_orders w" "[]"]
  by (auto simp: verify_order_id_uniqueness_def)

lemma welfare_total_clean:
  "fst (verify_welfare_total gross reported cost) = [] \<Longrightarrow> val reported = val gross - val cost \<and> 0 \<le> val reported"
  by (auto simp: verify_welfare_total_def num word_gt_0 uint_eq_iff_u64 not_less split: option.splits)

lemma price_complementarity_clean:
  assumes "verify_price_complementarity w = []" "lookup (bw_clearing_prices w) m = Some prices"
  shows "\<forall>p \<in> set prices. p \<le> NANOS_PER_DOLLAR" "prices = [y, n] \<Longrightarrow> uint y + uint n = 1000000000"
proof -
  have "prices \<in> set (om_values (bw_clearing_prices w))" using assms(2) by (auto simp: in_om_values)
  with assms(1) have c: "verify_market_prices prices = []" by (auto simp: verify_price_complementarity_def)
  then show "\<forall>p \<in> set prices. p \<le> NANOS_PER_DOLLAR"
    by (auto simp: verify_market_prices_def price_is_in_protocol_range_def)
  show "uint y + uint n = 1000000000" if "prices = [y, n]"
    using c that by (auto simp: verify_market_prices_def num uint_eq_iff_u64 split: option.splits)
qed

lemma expected_outcome_one_hot:
  "expected_outcome (one_hot d ! 0) (one_hot d ! Suc 0) = Some (unat (direction_outcome d))"
  by (cases d) (simp_all add: expected_outcome_def one_hot_def direction_outcome_def)

lemma uniform_price_clean:
  assumes "verify_uniform_price prices om fill = []" "f_fill_qty fill \<noteq> 0"
    and "lookup om (f_order_id fill) = Some ord" "order_wf ord" "validate_binary_one_hot ord = Ok ()"
    and "take 2 (o_payoffs ord) = one_hot d"
  obtains ps where "lookup prices (o_markets ord ! 0) = Some ps"
    "idx ps (unat (direction_outcome d)) = Some (f_fill_price fill)"
proof -
  have p: "o_payoffs ord ! 0 = one_hot d ! 0" "o_payoffs ord ! Suc 0 = one_hot d ! Suc 0"
    by (simp_all add: assms(6) [symmetric])
  have "\<exists>ps. lookup prices (o_markets ord ! 0) = Some ps \<and>
      idx ps (unat (direction_outcome d)) = Some (f_fill_price fill)"
    using assms(1-3) by (auto simp: verify_uniform_price_def validate_Ok_simps [OF assms(5)] p
        expected_outcome_one_hot opt split: option.splits)
  then show ?thesis using that by blast
qed

lemma mm_fills_of_lookup:
  "lookup (mm_fills_of fills mm) i =
     (if i \<in> set (mm_order_ids mm)
      then (case lookup (fill_map_of fills) i of
              Some fill \<Rightarrow> if 0 < f_fill_qty fill then Some (f_fill_price fill, f_fill_qty fill) else None
            | None \<Rightarrow> None)
      else None)"
proof -
  let ?g = "\<lambda>order_id m. case lookup (fill_map_of fills) order_id of
      None \<Rightarrow> m
    | Some fill \<Rightarrow> if 0 < f_fill_qty fill then om_ins order_id (f_fill_price fill, f_fill_qty fill) m else m"
  let ?v = "case lookup (fill_map_of fills) i of
              Some fill \<Rightarrow> if 0 < f_fill_qty fill then Some (f_fill_price fill, f_fill_qty fill) else None
            | None \<Rightarrow> None"
  have "lookup (fold ?g ids m) i = (if i \<in> set ids \<and> ?v \<noteq> None then ?v else lookup m i)" for ids m
    by (induction ids arbitrary: m) (auto split: option.splits)
  from this [of "mm_order_ids mm" om_empty] show ?thesis
    unfolding mm_fills_of_def by (auto split: option.splits)
qed

text \<open>The capital a constraint charges for the fills of a block.\<close>

definition mm_charge :: "Fill list \<Rightarrow> MmConstraint \<Rightarrow> u64 \<Rightarrow> int" where
  "mm_charge fills mm i = (case (lookup (fill_map_of fills) i, lookup (mm_order_sides mm) i) of
     (Some fill, Some side) \<Rightarrow>
        if 0 < f_fill_qty fill then mm_exposure side (f_fill_price fill) (f_fill_qty fill) else 0
   | _ \<Rightarrow> 0)"

lemma mm_constraint_clean:
  assumes "verify_mm_constraints fills mms = []" "mm \<in> set mms"
  shows "sum_list (map (mm_charge fills mm) (mm_order_ids mm)) \<le> uint (mm_max_capital mm)"
proof -
  have "verify_mm_constraint fills mm = []" using assms by (simp add: verify_mm_constraints_def)
  then obtain c where c: "checked_capital_used mm (mm_fills_of fills mm) = Some c" "c \<le> mm_max_capital mm"
    by (auto simp: verify_mm_constraint_def not_less split: option.splits)
  have eq: "map (\<lambda>i. case (lookup (mm_fills_of fills mm) i, lookup (mm_order_sides mm) i) of
            (Some (price, qty), Some side) \<Rightarrow> mm_exposure side price qty | _ \<Rightarrow> 0) (mm_order_ids mm)
      = map (mm_charge fills mm) (mm_order_ids mm)"
    by (rule map_cong) (auto simp: mm_charge_def mm_fills_of_lookup split: option.splits)
  show ?thesis using checked_capital_used_sum [OF c(1)] c(2) unfolding eq by (simp add: word_le_def)
qed

section \<open>Properties\<close>

lemma sample_match: "\<exists>r. verify_match sample_block False = Some r \<and> vr_valid r"
proof -
  have lk: "lookup (witness_order_map sample_orders) 1 = Some sample_order_1"
    "lookup (witness_order_map sample_orders) 2 = Some sample_order_2"
    by (simp_all add: witness_order_map_def sample_orders_def om_of_list_def)
  note s = NANOS_PER_DOLLAR_def MAX_ORDER_QTY_def SHARE_SCALE_def
  have w: "checked_welfare 600000000 550000000 1000 False = Some (of_val 50000000)"
    "checked_welfare 450000000 450000000 800 False = Some 0"
    by (simp_all add: checked_welfare_def i64_of_def sub_i64_def fits_i64_def
        checked_signed_price_delta_notional_eq checked_signed_notional_nanos_eq zero_i64_def)
  have g: "checked_price_qty 600000000 1000 = Some (of_val 600000000)"
    "checked_price_qty 450000000 800 = Some (of_val 360000000)"
    by (simp_all add: checked_price_qty_def checked_notional_i64_eq i64_of_def fits_i64_def)
  have f: "scan (verify_fill_step (witness_order_map sample_orders)) sample_fills ([], 0) =
      Some (([2, 1], of_val 960000000), [])"
    by (simp add: sample_fills_def verify_fill_step_def lk price_violated_def w g s flag_def add_i64_def i64_of_def
        fits_i64_def less_i64_def)
  have t: "fst (verify_welfare_total (of_val 960000000) (of_val 50000000) (of_val 910000000)) = []"
    by (simp add: verify_welfare_total_def sub_i64_def i64_of_def fits_i64_def less_i64_def unsigned_abs_def)
  have fm: "lookup (fill_map_of sample_fills) 2 =
      Some \<lparr> f_order_id = 2, f_fill_qty = 800, f_fill_price = 450000000, f_account_id = 2 \<rparr>"
    by (simp add: fill_map_of_def sample_fills_def om_of_list_def)
  have mm: "verify_mm_constraints sample_fills (bw_mm_constraints sample_block) = []"
    by (simp add: verify_mm_constraints_def verify_mm_constraint_def checked_capital_used_def mm_fills_of_def fm
        checked_capital_needed_eq mm_sells_def mm_exposure_def u64_of_def fits_u64_def add_u64_def div_ceil_def)
  have p: "verify_price_complementarity sample_block = []"
    by (simp add: verify_price_complementarity_def sample_prices_def om_values_def verify_market_prices_def
        price_is_in_protocol_range_def s add_u64_def u64_of_def fits_u64_def)
  have u: "verify_uniform_clearing_prices sample_block (witness_order_map sample_orders) = []"
    by (simp add: verify_uniform_clearing_prices_def sample_fills_def verify_uniform_price_def lk sample_prices_def
        sample_order_1_def sample_order_2_def one_hot_def expected_outcome_def idx_def)
  have o: "verify_order_id_uniqueness sample_block = Some []"
    by (simp add: verify_order_id_uniqueness_def sample_orders_def seen_step_def)
  have c: "verify_conditional_activation sample_block (witness_order_map sample_orders) = []"
    by (simp add: verify_conditional_activation_def sample_fills_def verify_condition_def lk)
  have r: "verify_resolved_markets sample_block (witness_order_map sample_orders) = []"
    by (simp add: verify_resolved_markets_def)
  obtain ws cw where wt: "verify_welfare_total (of_val 960000000) (of_val 50000000) (of_val 910000000) = (ws, cw)"
    and ws: "ws = []" using t by (metis fst_conv surj_pair)
  show ?thesis
    using mm by (cases cw) (simp_all add: verify_match_def verify_fills_def f wt ws p u o c r Let_def)
qed

text \<open>C28: in a block that passes match verification the order ids are distinct, no order is filled twice, and
  every fill is a positive quantity of an order of the block, within its maximum, at a price of at most
  one dollar that the order's limit accepts.\<close>

theorem match_fills_sound:
  assumes "verify_match w diagnostics = Some r" "vr_valid r"
  shows "distinct (map (\<lambda>wo. o_id (wo_order wo)) (bw_orders w)) \<and> distinct (map f_order_id (bw_fills w)) \<and>
         (\<forall>fill \<in> set (bw_fills w). \<exists>wo \<in> set (bw_orders w).
            o_id (wo_order wo) = f_order_id fill \<and> 0 < f_fill_qty fill \<and> f_fill_qty fill \<le> o_max_fill (wo_order wo) \<and>
            f_fill_price fill \<le> NANOS_PER_DOLLAR \<and> o_limit_price (wo_order wo) \<le> NANOS_PER_DOLLAR \<and>
            is_satisfied_at_price (wo_order wo) (f_fill_price fill) = Some True)"
  using assms
proof (rule verify_match_parts)
  fix filled gross
  assume s: "scan (verify_fill_step (witness_order_map (bw_orders w))) (bw_fills w) ([], 0) = Some ((filled, gross), [])"
    and u: "verify_order_id_uniqueness w = Some []"
  show ?thesis
    using verify_fills_scan_clean [OF s] order_id_uniqueness_clean [OF u]
    by (fastforce simp: fill_respects_def elim: lookup_witness_order_map)
qed

theorem match_fills_sound_witness:
  "\<exists>wo \<in> set sample_orders. o_id (wo_order wo) = f_order_id (sample_fills ! 1) \<and>
     f_fill_qty (sample_fills ! 1) \<le> o_max_fill (wo_order wo)"
proof -
  obtain r where "verify_match sample_block False = Some r" "vr_valid r" using sample_match by blast
  moreover have "sample_fills ! 1 \<in> set (bw_fills sample_block)" by (simp add: sample_fills_def)
  ultimately show ?thesis using match_fills_sound by fastforce
qed

text \<open>C27: in a block that passes match verification, two fills of admitted orders on the same market have the
  same price when they trade the same outcome, and, when the market publishes a YES and a NO price, prices
  that add up to one dollar when they trade opposite outcomes.\<close>

theorem uniform_and_complementary_prices:
  assumes v: "verify_match w diagnostics = Some r" "vr_valid r"
    and f: "f1 \<in> set (bw_fills w)" "f2 \<in> set (bw_fills w)"
    and w1: "wo1 \<in> set (bw_orders w)" "o_id (wo_order wo1) = f_order_id f1" "order_wf (wo_order wo1)"
      "validate_binary_one_hot (wo_order wo1) = Ok ()"
    and w2: "wo2 \<in> set (bw_orders w)" "o_id (wo_order wo2) = f_order_id f2" "order_wf (wo_order wo2)"
      "validate_binary_one_hot (wo_order wo2) = Ok ()"
    and m: "o_markets (wo_order wo1) ! 0 = mk" "o_markets (wo_order wo2) ! 0 = mk"
    and d: "derive_order_direction (wo_order wo1) mk = Some d1" "derive_order_direction (wo_order wo2) mk = Some d2"
  shows "(direction_outcome d1 = direction_outcome d2 \<longrightarrow> f_fill_price f1 = f_fill_price f2) \<and>
         (direction_outcome d1 \<noteq> direction_outcome d2 \<and>
            (\<forall>ps. lookup (bw_clearing_prices w) mk = Some ps \<longrightarrow> length ps = 2) \<longrightarrow>
          uint (f_fill_price f1) + uint (f_fill_price f2) = 1000000000)"
  using v
proof (rule verify_match_parts)
  fix filled gross
  let ?om = "witness_order_map (bw_orders w)"
  assume s: "scan (verify_fill_step ?om) (bw_fills w) ([], 0) = Some ((filled, gross), [])"
    and u: "verify_order_id_uniqueness w = Some []" and c: "verify_price_complementarity w = []"
    and p: "verify_uniform_clearing_prices w ?om = []"
  have price: "\<exists>ps. lookup (bw_clearing_prices w) mk = Some ps \<and> idx ps (unat (direction_outcome d)) = Some (f_fill_price f)"
    if "f \<in> set (bw_fills w)" "wo \<in> set (bw_orders w)" "o_id (wo_order wo) = f_order_id f" "order_wf (wo_order wo)"
      "validate_binary_one_hot (wo_order wo) = Ok ()" "o_markets (wo_order wo) ! 0 = mk"
      "derive_order_direction (wo_order wo) mk = Some d" for f wo d
  proof -
    note prem = that
    obtain d' where d': "take 2 (o_payoffs (wo_order wo)) = one_hot d'" using prem(4,5) by (rule validate_Ok_shape)
    with validated_direction [OF prem(4,5) d'] prem(6,7) have "d' = d" by simp
    have lk: "lookup ?om (f_order_id f) = Some (wo_order wo)"
      using lookup_witness_order_map_distinct [OF order_id_uniqueness_clean [OF u] prem(2)] prem(3) by simp
    have "f_fill_qty f \<noteq> 0" using verify_fills_scan_clean(3) [OF s prem(1)] by (auto simp: fill_respects_def)
    moreover have "verify_uniform_price (bw_clearing_prices w) ?om f = []"
      using p prem(1) by (simp add: verify_uniform_clearing_prices_def)
    ultimately show ?thesis
      using uniform_price_clean [OF _ _ lk prem(4,5) d'] \<open>d' = d\<close> prem(6) by metis
  qed
  obtain ps where ps: "lookup (bw_clearing_prices w) mk = Some ps"
    "idx ps (unat (direction_outcome d1)) = Some (f_fill_price f1)"
    "idx ps (unat (direction_outcome d2)) = Some (f_fill_price f2)"
    using price [OF f(1) w1 m(1) d(1)] price [OF f(2) w2 m(2) d(2)] by auto
  have "uint (f_fill_price f1) + uint (f_fill_price f2) = 1000000000"
    if "direction_outcome d1 \<noteq> direction_outcome d2" "length ps = 2"
  proof -
    note prem = that
    obtain y n where yn: "ps = [y, n]" using prem(2) by (auto simp: numeral_2_eq_2 length_Suc_conv)
    from price_complementarity_clean(2) [OF c ps(1) yn] prem(1) ps(2,3) yn show ?thesis
      by (auto simp: direction_outcome_def add.commute split: if_splits)
  qed
  with ps show ?thesis by auto
qed

theorem uniform_and_complementary_prices_witness:
  "uint (f_fill_price (sample_fills ! 0)) + uint (f_fill_price (sample_fills ! 1)) = 1000000000"
proof -
  obtain r where v: "verify_match sample_block False = Some r" "vr_valid r" using sample_match by blast
  have d: "derive_order_direction sample_order_1 0 = Some BuyYes" "derive_order_direction sample_order_2 0 = Some BuyNo"
    using validated_direction [of sample_order_1 BuyYes] validated_direction [of sample_order_2 BuyNo]
    by (simp_all add: sample_order_1_def sample_order_2_def one_hot_order_valid market_none_def u32_max_def
        NANOS_PER_DOLLAR_def MAX_ORDER_QTY_def SHARE_SCALE_def)
  have m: "o_markets sample_order_1 ! 0 = 0" "o_markets sample_order_2 ! 0 = 0"
    by (simp_all add: sample_order_1_def sample_order_2_def)
  show ?thesis
    using uniform_and_complementary_prices [OF v, of "sample_fills ! 0" "sample_fills ! 1" "sample_orders ! 0"
        "sample_orders ! 1" 0 BuyYes BuyNo] d m
    by (simp add: sample_fills_def sample_orders_def sample_prices_def direction_outcome_def)
qed

text \<open>C29: in a block that passes match verification, every market-maker constraint is respected: the cash
  spent on its purchases and the liability its sales leave uncovered never exceed its maximum capital.\<close>

theorem mm_budget_sound:
  assumes "verify_match w diagnostics = Some r" "vr_valid r" "mm \<in> set (bw_mm_constraints w)"
  shows "sum_list (map (mm_charge (bw_fills w) mm) (mm_order_ids mm)) \<le> uint (mm_max_capital mm)"
  using assms(1,2)
proof (rule verify_match_parts)
  assume "verify_mm_constraints (bw_fills w) (bw_mm_constraints w) = []"
  from mm_constraint_clean [OF this assms(3)] show ?thesis .
qed

theorem mm_budget_sound_witness:
  "\<exists>mm \<in> set (bw_mm_constraints sample_block).
     sum_list (map (mm_charge (bw_fills sample_block) mm) (mm_order_ids mm)) \<le> 400000000"
proof -
  obtain r where "verify_match sample_block False = Some r" "vr_valid r" using sample_match by blast
  from mm_budget_sound [OF this] show ?thesis by fastforce
qed

end
