(* ===== verification/Verifier_Orders.thy ===== *)
theory Verifier_Orders
  imports Verifier_Match Verifier_Settlement
begin

text \<open>
  \<open>crates/sybil-verifier/src/orders.rs\<close>, layer 4 of block verification: accepted orders are covered by the
  post-system state, and rejections state a correct reason.
\<close>

section \<open>Accepted orders\<close>

text \<open>The first entry of the outcome, zero when there is none.\<close>

definition available_position :: "AccountSnapshot \<Rightarrow> MarketId \<Rightarrow> u8 \<Rightarrow> i64" where
  "available_position snap market outcome =
     (case List.find (\<lambda>(m, out, q). m = market \<and> out = outcome) (as_positions snap) of
        Some (m, out, q) \<Rightarrow> q | None \<Rightarrow> 0)"

definition payoff_signs :: "Order \<Rightarrow> (bool \<times> bool) option" where
  "payoff_signs ord = do {
     ps \<leftarrow> slice_to (o_payoffs ord) (unat (o_num_states ord));
     Some (list_ex (\<lambda>p. 0 < sint p) ps, list_ex (\<lambda>p. sint p < 0) ps) }"

type_synonym Reserved = "(u64, i64) omap"

definition check_buy :: "AccountSnapshot \<Rightarrow> WitnessOrder \<Rightarrow> Reserved \<Rightarrow> Reserved \<times> ViolationKind list" where
  "check_buy snap wo reserved_balance = (let ord = wo_order wo in
     case checked_price_qty_ceil (o_limit_price ord) (o_max_fill ord) of
       None \<Rightarrow> (reserved_balance, [SettlementOverflow])
     | Some max_cost \<Rightarrow>
         (let reserved = get_or reserved_balance (wo_account_id wo) 0
          in case sub_i64 (as_balance snap) reserved of
               None \<Rightarrow> (reserved_balance, [SettlementOverflow])
             | Some available \<Rightarrow>
                 (let v = flag (available < max_cost) InsufficientBalance
                  in case add_i64 reserved max_cost of
                       None \<Rightarrow> (om_ins (wo_account_id wo) reserved reserved_balance, v @ [SettlementOverflow])
                     | Some updated \<Rightarrow> (om_ins (wo_account_id wo) updated reserved_balance, v))))"

definition check_sell_state :: "AccountSnapshot \<Rightarrow> Order \<Rightarrow> nat \<Rightarrow> ViolationKind list option" where
  "check_sell_state snap ord s = do {
     market \<leftarrow> idx (o_markets ord) 0;
     payoff \<leftarrow> idx (o_payoffs ord) s;
     if sint payoff < 0
     then Some (case Option.bind (checked_position_qty payoff (o_max_fill ord)) neg_i64 of
         None \<Rightarrow> [SettlementOverflow]
       | Some sell_qty \<Rightarrow> flag (available_position snap market (of_nat s) < sell_qty) InsufficientPosition)
     else Some [] }"

definition check_sell :: "AccountSnapshot \<Rightarrow> Order \<Rightarrow> ViolationKind list option" where
  "check_sell snap ord =
     (if o_num_markets ord = 1 then each (check_sell_state snap ord) [0..<unat (o_num_states ord)] else Some [])"

definition accept_step ::
  "(u64, AccountSnapshot) omap \<Rightarrow> u64 \<Rightarrow> WitnessOrder \<Rightarrow> Reserved \<Rightarrow> (Reserved \<times> ViolationKind list) option"
where
  "accept_step post_system height wo reserved = (let ord = wo_order wo in
     if NANOS_PER_DOLLAR < o_limit_price ord then Some (reserved, [SettlementOverflow])
     else if validate_binary_one_hot ord \<noteq> Ok () then Some (reserved, [InvalidOrder])
     else let v = flag (case o_expires_at_block ord of Some e \<Rightarrow> e < height | None \<Rightarrow> False) OrderExpiryViolation
     in if wo_is_mm wo then Some (reserved, v)
        else case lookup post_system (wo_account_id wo) of
          None \<Rightarrow> Some (reserved, v @ [AcceptedOrderMissingAccount])
        | Some snap \<Rightarrow> do {
            (has_positive, has_negative) \<leftarrow> payoff_signs ord;
            if has_positive \<and> \<not> has_negative
            then let (reserved', vs) = check_buy snap wo reserved in Some (reserved', v @ vs)
            else if has_negative \<and> \<not> has_positive
            then do { vs \<leftarrow> check_sell snap ord; Some (reserved, v @ vs) }
            else Some (reserved, v) })"

section \<open>Rejections\<close>

definition check_atomic_bundle :: "BlockWitness \<Rightarrow> WitnessRejection \<Rightarrow> ViolationKind list" where
  "check_atomic_bundle w rej =
     (case filter (\<lambda>c. o_id (wr_order rej) \<in> set (mm_order_ids c)) (bw_mm_constraints w) of
        [constraint] \<Rightarrow>
          (let all_rejected_together = list_all (\<lambda>order_id.
                 list_ex (\<lambda>candidate. o_id (wr_order candidate) = order_id \<and> wr_account_id candidate = wr_account_id rej \<and>
                   wr_reason candidate = RAtomicBundle) (bw_rejections w)) (mm_order_ids constraint);
               any_accepted = list_ex (\<lambda>candidate. o_id (wo_order candidate) \<in> set (mm_order_ids constraint)) (bw_orders w)
           in flag (\<not> all_rejected_together \<or> any_accepted) IncorrectRejectionReason)
      | _ \<Rightarrow> [IncorrectRejectionReason])"

definition check_insufficient_balance :: "Order \<Rightarrow> i64 \<Rightarrow> ViolationKind list option" where
  "check_insufficient_balance ord required = do {
     (has_positive, has_negative) \<leftarrow> payoff_signs ord;
     Some (if has_positive \<and> \<not> has_negative
       then (case checked_price_qty_ceil (o_limit_price ord) (o_max_fill ord) of
           None \<Rightarrow> [SettlementOverflow]
         | Some max_cost \<Rightarrow> flag (max_cost \<noteq> required) IncorrectRejectionReason)
       else []) }"

definition check_rejection ::
  "BlockWitness \<Rightarrow> (u64, AccountSnapshot) omap \<Rightarrow> WitnessRejection \<Rightarrow> ViolationKind list option"
where
  "check_rejection w post_system rej = (case lookup post_system (wr_account_id rej) of
     None \<Rightarrow> Some (flag (wr_reason rej \<noteq> RAccountNotFound) IncorrectRejectionReason)
   | Some snap \<Rightarrow> (case wr_reason rej of
       RInsufficientBalance required available \<Rightarrow> check_insufficient_balance (wr_order rej) required
     | RInsufficientPosition market outcome required available \<Rightarrow>
         Some (flag (available_position snap market outcome \<noteq> available) IncorrectRejectionReason)
     | RAccountNotFound \<Rightarrow> Some [FalseRejection]
     | RCompleteSetFormation \<Rightarrow> Some []
     | RAtomicBundle \<Rightarrow> Some (check_atomic_bundle w rej)
     | RInvalidOrder reason \<Rightarrow> Some (flag (validate_binary_one_hot (wr_order rej) = Ok ()) FalseRejection)
     | RExpired current_block expires_at_block \<Rightarrow>
         Some (flag (current_block \<le> expires_at_block) IncorrectRejectionReason)))"

definition verify_orders :: "BlockWitness \<Rightarrow> VerificationResult option" where
  "verify_orders w = do {
     let post_system = snapshot_map (bw_post_system_state w);
     (reserved, v1) \<leftarrow> scan (accept_step post_system (h_height (bw_header w))) (bw_orders w) om_empty;
     v2 \<leftarrow> each (check_rejection w post_system) (bw_rejections w);
     Some (from_violations (v1 @ v2)) }"

section \<open>Coverage\<close>

text \<open>The worst-case cost a non-MM buy reserves from an account.\<close>

definition buy_cost_of :: "u64 \<Rightarrow> WitnessOrder \<Rightarrow> int" where
  "buy_cost_of i wo = (if wo_account_id wo = i \<and> \<not> wo_is_mm wo \<and> payoff_signs (wo_order wo) = Some (True, False)
     then div_ceil (uint (o_limit_price (wo_order wo)) * uint (o_max_fill (wo_order wo))) 1000 else 0)"

definition covered :: "(u64, AccountSnapshot) omap \<Rightarrow> Reserved \<Rightarrow> bool" where
  "covered post_system reserved \<longleftrightarrow> (\<forall>i r. lookup reserved i = Some r \<longrightarrow>
     0 \<le> val r \<and> (\<exists>snap. lookup post_system i = Some snap \<and> val r \<le> val (as_balance snap)))"

lemma check_buy_clean:
  assumes "check_buy snap wo s = (t, [])"
  shows "\<exists>c. t = om_ins (wo_account_id wo) c s \<and>
    val c = val (get_or s (wo_account_id wo) 0) +
      div_ceil (uint (o_limit_price (wo_order wo)) * uint (o_max_fill (wo_order wo))) 1000 \<and> val c \<le> val (as_balance snap)"
  using assms
  by (auto simp: check_buy_def Let_def checked_price_qty_ceil_def checked_notional_ceil_i64_eq num not_less
      split: option.splits)

lemma accept_step_valid:
  assumes "accept_step post height wo s = Some (t, [])"
  shows "validate_binary_one_hot (wo_order wo) = Ok ()" "\<not> NANOS_PER_DOLLAR < o_limit_price (wo_order wo)"
  using assms unfolding accept_step_def Let_def by (fastforce split: if_split_asm)+

lemma accept_step_clean:
  assumes "accept_step post height wo s = Some (t, [])"
  shows "o_expires_at_block (wo_order wo) = Some e \<Longrightarrow> height \<le> e"
    "\<not> wo_is_mm wo \<Longrightarrow> \<exists>snap p n. lookup post (wo_account_id wo) = Some snap \<and> payoff_signs (wo_order wo) = Some (p, n) \<and>
       (if p \<and> \<not> n then check_buy snap wo s = (t, [])
        else t = s \<and> (n \<and> \<not> p \<longrightarrow> check_sell snap (wo_order wo) = Some []))"
    "wo_is_mm wo \<Longrightarrow> t = s"
proof -
  define v where "v = flag (case o_expires_at_block (wo_order wo) of Some e \<Rightarrow> e < height | None \<Rightarrow> False) OrderExpiryViolation"
  have *: "(if wo_is_mm wo then Some (s, v)
        else case lookup post (wo_account_id wo) of
          None \<Rightarrow> Some (s, v @ [AcceptedOrderMissingAccount])
        | Some snap \<Rightarrow> do {
            (has_positive, has_negative) \<leftarrow> payoff_signs (wo_order wo);
            if has_positive \<and> \<not> has_negative
            then let (reserved', vs) = check_buy snap wo s in Some (reserved', v @ vs)
            else if has_negative \<and> \<not> has_positive
            then do { vs \<leftarrow> check_sell snap (wo_order wo); Some (s, v @ vs) }
            else Some (s, v) }) = Some (t, [])"
    using assms unfolding accept_step_def Let_def v_def
    by (simp only: accept_step_valid [OF assms] simp_thms if_True if_False)
  have v: "v = []"
    using * by (simp add: opt case_prod_beta split: if_split_asm option.split_asm) (auto split: if_split_asm)
  then show "o_expires_at_block (wo_order wo) = Some e \<Longrightarrow> height \<le> e" by (simp add: v_def not_less)
  show "wo_is_mm wo \<Longrightarrow> t = s" using * by simp
  assume mm: "\<not> wo_is_mm wo"
  with * v obtain snap where snap: "lookup post (wo_account_id wo) = Some snap"
    by (auto split: option.split_asm)
  with * v mm obtain p n where pn: "payoff_signs (wo_order wo) = Some (p, n)" by (auto simp: opt)
  show "\<exists>snap p n. lookup post (wo_account_id wo) = Some snap \<and> payoff_signs (wo_order wo) = Some (p, n) \<and>
       (if p \<and> \<not> n then check_buy snap wo s = (t, [])
        else t = s \<and> (n \<and> \<not> p \<longrightarrow> check_sell snap (wo_order wo) = Some []))"
    using * v mm snap pn by (cases p; cases n) (auto simp: opt case_prod_beta prod_eq_iff)
qed

interpretation reserve_pass: measured_pass "accept_step post height" "covered post" "\<lambda>r. val (get_or r i 0)" "buy_cost_of i"
  for post height i
proof
  fix s x t assume inv: "covered post s" and step: "accept_step post height x s = Some (t, [])"
  have "covered post t \<and> val (get_or t i 0) = val (get_or s i 0) + buy_cost_of i x" for i
  proof (cases "wo_is_mm x")
    case True
    then show ?thesis using accept_step_clean(3) [OF step] inv by (simp add: buy_cost_of_def)
  next
    case False
    from accept_step_clean(2) [OF step False] obtain snap p n where l: "lookup post (wo_account_id x) = Some snap"
      "payoff_signs (wo_order x) = Some (p, n)"
      and c: "if p \<and> \<not> n then check_buy snap x s = (t, []) else t = s" by (auto split: if_splits)
    show ?thesis
    proof (cases "p \<and> \<not> n")
      case True
      with c check_buy_clean obtain c where c: "t = om_ins (wo_account_id x) c s"
        "val c = val (get_or s (wo_account_id x) 0) +
          div_ceil (uint (o_limit_price (wo_order x)) * uint (o_max_fill (wo_order x))) 1000"
        "val c \<le> val (as_balance snap)" by (metis (no_types))
      have "0 \<le> val (get_or s (wo_account_id x) 0)"
        using inv by (auto simp: covered_def get_or_def split: option.splits)
      then have "0 \<le> val c" using c(2) ceil_notional_nonneg by (metis add_nonneg_nonneg)
      then show ?thesis using inv c l True False by (auto simp: covered_def buy_cost_of_def)
    next
      case F: False
      with c l inv False show ?thesis by (auto simp: buy_cost_of_def split: if_splits)
    qed
  qed
  then show "covered post t" "val (get_or t i 0) = val (get_or s i 0) + buy_cost_of i x" for i by blast+
qed

lemma payoff_signs_validated:
  assumes "order_wf ord" "validate_binary_one_hot ord = Ok ()" "take 2 (o_payoffs ord) = one_hot d"
  shows "payoff_signs ord = Some (\<not> is_sell_direction d, is_sell_direction d)"
  using assms(1,3) validate_Ok_simps(2) [OF assms(2)]
  by (cases d) (simp_all add: payoff_signs_def slice_to_def order_wf_def MAX_STATES_def one_hot_def is_sell_direction_def)

lemma max_fill_fits: "validate_binary_one_hot ord = Ok () \<Longrightarrow> uint (o_max_fill ord) \<le> 9223372036854775807"
  using validate_Ok_simps(4) [of ord] by (simp add: word_le_def MAX_ORDER_QTY_def SHARE_SCALE_def)

lemma check_sell_clean:
  assumes "order_wf ord" "validate_binary_one_hot ord = Ok ()" "take 2 (o_payoffs ord) = one_hot d" "is_sell_direction d"
    and "check_sell snap ord = Some []"
  shows "uint (o_max_fill ord) \<le> val (available_position snap (o_markets ord ! 0) (direction_outcome d))"
proof -
  let ?s = "unat (direction_outcome d)"
  have s: "?s < 2" "of_nat ?s = direction_outcome d" by (simp_all add: direction_outcome_def)
  have n: "o_num_markets ord = 1" "unat (o_num_states ord) = 2" using validate_Ok_simps(1,2) [OF assms(2)] by simp_all
  obtain ps where p: "o_payoffs ord = one_hot d @ ps" using one_hot_payoffs [OF assms(1,3)] by blast
  obtain m ms where m: "o_markets ord = m # ms" using order_wf_shape [OF assms(1)] by blast
  have pay: "idx (o_payoffs ord) ?s = Some (- 1)"
    using assms(4) by (auto simp: p is_sell_direction_def one_hot_def direction_outcome_def idx_def)
  have fit: "fits_i64 (uint (o_max_fill ord))" "fits_i64 (- uint (o_max_fill ord))"
    using max_fill_fits [OF assms(2)] uint_bounds [of "o_max_fill ord"] unfolding fits_i64_def by linarith+
  have q: "Option.bind (checked_position_qty (- 1) (o_max_fill ord)) neg_i64 = Some (of_val (uint (o_max_fill ord)))"
    using fit by (simp add: checked_position_qty_def i64_of_def mul_i64_def neg_i64_def fits_i64_def [of "- 1"])
  have "check_sell_state snap ord ?s = Some []"
    using assms(5) s(1) by (simp add: check_sell_def n each_clean del: upt_Suc)
  then have "\<not> available_position snap m (of_nat ?s) < of_val (uint (o_max_fill ord))"
    by (simp add: check_sell_state_def m pay q)
  then show ?thesis using fit by (simp add: less_i64_def m s(2) not_less)
qed

section \<open>Properties\<close>

lemma verify_orders_parts:
  assumes "verify_orders w = Some r" "vr_valid r"
  obtains reserved where
    "scan (accept_step (snapshot_map (bw_post_system_state w)) (h_height (bw_header w))) (bw_orders w) om_empty = Some (reserved, [])"
    "\<forall>rej \<in> set (bw_rejections w). check_rejection w (snapshot_map (bw_post_system_state w)) rej = Some []"
  using assms by (auto simp: verify_orders_def opt Let_def case_prod_beta each_clean [symmetric])

lemma sample_orders_pass: "\<exists>r. verify_orders sample_block = Some r \<and> vr_valid r"
proof -
  have c: "checked_price_qty_ceil 600000000 1000 = Some (of_val 600000000)" "checked_price_qty_ceil 450000000 1000 = Some (of_val 450000000)"
    by (simp_all add: checked_price_qty_ceil_def checked_notional_ceil_i64_eq div_ceil_def i64_of_def fits_i64_def)
  have p: "payoff_signs sample_order_1 = Some (True, False)" "payoff_signs sample_order_2 = Some (True, False)"
    by (simp_all add: payoff_signs_def slice_to_def sample_order_1_def sample_order_2_def one_hot_def)
  have e: "o_expires_at_block sample_order_1 = None" "o_expires_at_block sample_order_2 = None"
    by (simp_all add: sample_order_1_def sample_order_2_def)
  show ?thesis
    by (simp add: verify_orders_def sample_orders_def accept_step_def p c e NANOS_PER_DOLLAR_def snapshot_map_def
        sample_post_system_def om_of_list_def snapshot_def check_buy_def sub_i64_def add_i64_def i64_of_def fits_i64_def
        less_i64_def Let_def)
qed

text \<open>C30: in a block that passes order verification every accepted order has the admitted shape and is not expired; the
  worst-case costs of an account's accepted non-MM buys together fit in its post-system balance; and each
  accepted non-MM sell, taken on its own, is covered by the account's position in the outcome it sells.  (The layer
  does not add up the sells of an account, and market-maker orders are checked by their budgets instead.)\<close>

theorem accepted_orders_covered:
  assumes "verify_orders w = Some r" "vr_valid r"
  shows "(\<forall>wo \<in> set (bw_orders w). validate_binary_one_hot (wo_order wo) = Ok () \<and>
            (\<forall>e. o_expires_at_block (wo_order wo) = Some e \<longrightarrow> h_height (bw_header w) \<le> e)) \<and>
         sum_list (map (buy_cost_of i) (bw_orders w)) \<le> max 0 (claimed_balance (snapshot_map (bw_post_system_state w)) i) \<and>
         (\<forall>wo \<in> set (bw_orders w). \<forall>d. order_wf (wo_order wo) \<and> \<not> wo_is_mm wo \<and> is_sell_direction d \<and>
            take 2 (o_payoffs (wo_order wo)) = one_hot d \<longrightarrow>
            (\<exists>snap. lookup (snapshot_map (bw_post_system_state w)) (wo_account_id wo) = Some snap \<and>
               uint (o_max_fill (wo_order wo)) \<le>
                 val (available_position snap (o_markets (wo_order wo) ! 0) (direction_outcome d))))"
  using assms
proof (rule verify_orders_parts)
  let ?post = "snapshot_map (bw_post_system_state w)"
  fix reserved assume s: "scan (accept_step ?post (h_height (bw_header w))) (bw_orders w) om_empty = Some (reserved, [])"
  have c: "covered ?post om_empty" by (simp add: covered_def)
  have at: "\<exists>s t. accept_step ?post (h_height (bw_header w)) wo s = Some (t, [])" if "wo \<in> set (bw_orders w)" for wo
    using reserve_pass.run_inv_at [OF c s that] by blast
  have "val (get_or reserved i 0) \<le> max 0 (claimed_balance ?post i)"
    using reserve_pass.run_inv [OF c s]
    by (auto simp: covered_def get_or_def claimed_balance_def max_def split: option.splits) fastforce+
  then have "sum_list (map (buy_cost_of i) (bw_orders w)) \<le> max 0 (claimed_balance ?post i)"
    using reserve_pass.run_total [OF c s, of i] by simp
  moreover have "\<exists>snap. lookup ?post (wo_account_id wo) = Some snap \<and> uint (o_max_fill (wo_order wo)) \<le>
      val (available_position snap (o_markets (wo_order wo) ! 0) (direction_outcome d))"
    if "wo \<in> set (bw_orders w)" "order_wf (wo_order wo)" "\<not> wo_is_mm wo" "is_sell_direction d"
      "take 2 (o_payoffs (wo_order wo)) = one_hot d" for wo d
  proof -
    note prem = that
    obtain s t where st: "accept_step ?post (h_height (bw_header w)) wo s = Some (t, [])" using at [OF prem(1)] by blast
    note ok = accept_step_valid(1) [OF st]
    from accept_step_clean(2) [OF st prem(3)] payoff_signs_validated [OF prem(2) ok prem(5)] prem(4)
    obtain snap where "lookup ?post (wo_account_id wo) = Some snap" "check_sell snap (wo_order wo) = Some []" by auto
    with check_sell_clean [OF prem(2) ok prem(5,4)] show ?thesis by blast
  qed
  ultimately show ?thesis using at accept_step_valid(1) accept_step_clean(1) by (metis (no_types, lifting))
qed

theorem accepted_orders_covered_witness:
  "sum_list (map (buy_cost_of 1) sample_orders) \<le> max 0 (claimed_balance (snapshot_map sample_post_system) 1)"
proof -
  obtain r where "verify_orders sample_block = Some r" "vr_valid r" using sample_orders_pass by blast
  from accepted_orders_covered [OF this, of 1] show ?thesis by simp
qed

text \<open>
  A rejection for insufficient balance is accepted whenever it names the order's worst-case cost; that the
  account could not cover it is not checked.
\<close>

definition false_rejection :: WitnessRejection where
  "false_rejection = \<lparr> wr_order = sample_order_1, wr_account_id = 1,
     wr_reason = RInsufficientBalance (of_val 600000000) (of_val 0) \<rparr>"

lemma affordable_order_rejected:
  "check_rejection w (snapshot_map sample_post_system) false_rejection = Some [] \<and>
   600000000 \<le> claimed_balance (snapshot_map sample_post_system) 1"
  by (simp add: check_rejection_def false_rejection_def snapshot_map_def sample_post_system_def om_of_list_def snapshot_def
      check_insufficient_balance_def payoff_signs_def slice_to_def sample_order_1_def one_hot_def checked_price_qty_ceil_def
      checked_notional_ceil_i64_eq div_ceil_def i64_of_def fits_i64_def claimed_balance_def)

end
