(* ===== verification/Sequencer_Validation.thy ===== *)
theory Sequencer_Validation
  imports Sequencer_Account Verifier_Orders Engine_Mm
begin

text \<open>
  \<open>crates/matching-sequencer/src/validation.rs\<close> and the rejection reasons of \<open>error.rs\<close>: which orders the
  sequencer admits against an account and the capital already reserved, and how much capital an order
  reserves.  The reasons that the code states as strings are strings here.
\<close>

type_synonym PositionKey = "MarketId \<times> u8"

datatype SeqRejectionReason =
    SrInsufficientBalance i64 i64 \<comment> \<open>required, available\<close>
  | SrInsufficientPosition MarketId u8 i64 i64 \<comment> \<open>market, outcome, required, available\<close>
  | SrAccountNotFound
  | SrCompleteSetFormation
  | SrAtomicBundle
  | SrInvalidOrder string
  | SrExpired u64 u64 \<comment> \<open>current block, expires at block\<close>

fun shape_error_text :: "ShapeError \<Rightarrow> string" where
  "shape_error_text NotExactlyOneMarket = ''orders must span exactly one market''"
| "shape_error_text NotTwoBinaryStates = ''orders must have exactly two binary states''"
| "shape_error_text NoConcreteMarket = ''orders must reference a concrete market''"
| "shape_error_text InactiveMarketNotNone = ''inactive market entries must be NONE''"
| "shape_error_text LimitPriceTooHigh = ''limit price exceeds NANOS_PER_DOLLAR''"
| "shape_error_text QuantityTooHigh = ''order quantity exceeds MAX_ORDER_QTY''"
| "shape_error_text NotOneNonZeroPayoff = ''orders must have exactly one non-zero payoff''"
| "shape_error_text PayoffNotUnit = ''non-zero payoff must be +1 or -1''"
| "shape_error_text InactivePayoffNotZero = ''inactive payoff entries must be zero''"

definition validate_order_shape :: "Order \<Rightarrow> (SeqRejectionReason, unit) result" where
  "validate_order_shape ord = (case validate_binary_one_hot ord of
     Ok u \<Rightarrow> Ok u
   | Err reason \<Rightarrow> Err (SrInvalidOrder (shape_error_text reason)))"

definition mm_side_for_order :: "Order \<Rightarrow> (SeqRejectionReason, MmSide) result" where
  "mm_side_for_order ord = and_then (validate_order_shape ord) (\<lambda>_.
     let p = o_payoffs ord ! 0; q = o_payoffs ord ! 1
     in if (p, q) = (1, 0) then Ok MmBuyYes
        else if (p, q) = (0, 1) then Ok MmBuyNo
        else if (p, q) = (- 1, 0) then Ok MmSellYes
        else if (p, q) = (0, - 1) then Ok MmSellNo
        else Err (SrInvalidOrder ''MM order payoff does not identify one binary side''))"

definition seq_notional_ceil :: "u64 \<Rightarrow> u64 \<Rightarrow> (SeqRejectionReason, i64) result" where
  "seq_notional_ceil price qty =
     and_then (ok_or (SrInvalidOrder ''price*quantity overflow'') (i128_of (uint price * uint qty))) (\<lambda>numerator.
     and_then (ok_or (SrInvalidOrder ''price*quantity overflow'') (i128_of (numerator + (uint SHARE_SCALE - 1)))) (\<lambda>sum.
     ok_or (SrInvalidOrder ''order notional exceeds i64'') (i64_of (tdiv sum (uint SHARE_SCALE)))))"

text \<open>The decimal digits of \<open>{notional}\<close> in a formatted message.\<close>

fun decimal :: "nat \<Rightarrow> string" where
  "decimal n = (if n < 10 then [char_of (48 + n)] else decimal (n div 10) @ [char_of (48 + n mod 10)])"

declare decimal.simps [simp del]

definition validate_resting_order_shape :: "Order \<Rightarrow> u64 \<Rightarrow> (SeqRejectionReason, unit) result" where
  "validate_resting_order_shape ord min_notional_nanos =
     and_then (validate_order_shape ord) (\<lambda>_.
     if o_max_fill ord = 0 then Err (SrInvalidOrder ''resting order quantity must be greater than zero'')
     else if o_limit_price ord = 0 then Err (SrInvalidOrder ''resting order price must be greater than zero'')
     else and_then (seq_notional_ceil (o_limit_price ord) (o_max_fill ord)) (\<lambda>n.
       let notional = bits64 n
       in if notional < min_notional_nanos
          then Err (SrInvalidOrder (''resting order notional '' @ decimal (unat notional) @ '' is below minimum '' @
            decimal (unat min_notional_nanos) @ '' nanos''))
          else Ok ()))"

definition checked_sell_qty_i64 :: "i8 \<Rightarrow> u64 \<Rightarrow> i64 option" where
  "checked_sell_qty_i64 payoff max_fill =
     (if 0 \<le> sint payoff then None
      else do { qty \<leftarrow> i128_of (- sint payoff * uint max_fill); i64_of qty })"

definition balance_reservation :: "Order \<Rightarrow> (SeqRejectionReason, i64) result option" where
  "balance_reservation ord = do {
     (has_positive, has_negative) \<leftarrow> payoff_signs ord;
     Some (if has_positive \<and> \<not> has_negative then seq_notional_ceil (o_limit_price ord) (o_max_fill ord) else Ok 0) }"

text \<open>The sell branch: the states in order, up to the first one the position does not cover.\<close>

fun cover_sells :: "Order \<Rightarrow> Account \<Rightarrow> (PositionKey, i64) omap \<Rightarrow> nat list \<Rightarrow> (SeqRejectionReason, unit) result option" where
  "cover_sells ord account reserved_positions [] = Some (Ok ())"
| "cover_sells ord account reserved_positions (s # ss) = do {
     payoff \<leftarrow> idx (o_payoffs ord) s;
     if sint payoff < 0 then (
       let market = o_markets ord ! 0; outcome = of_nat s
       in case checked_sell_qty_i64 payoff (o_max_fill ord) of
            None \<Rightarrow> Some (Err (SrInvalidOrder ''sell quantity overflow''))
          | Some sell_qty \<Rightarrow> do {
              let reserved = get_or reserved_positions (market, outcome) 0;
              available \<leftarrow> sub_i64 (position account market outcome) reserved;
              if available < sell_qty then Some (Err (SrInsufficientPosition market outcome sell_qty available))
              else cover_sells ord account reserved_positions ss })
     else cover_sells ord account reserved_positions ss }"

definition validate_order_with_reservation ::
  "Order \<Rightarrow> Account \<Rightarrow> i64 \<Rightarrow> (PositionKey, i64) omap \<Rightarrow> (SeqRejectionReason, i64) result option"
where
  "validate_order_with_reservation ord account reserved_balance reserved_positions =
     (case validate_order_shape ord of
        Err e \<Rightarrow> Some (Err e)
      | Ok _ \<Rightarrow> do {
          (has_positive, has_negative) \<leftarrow> payoff_signs ord;
          if has_positive \<and> \<not> has_negative then do {
            r \<leftarrow> balance_reservation ord;
            case r of
              Err e \<Rightarrow> Some (Err e)
            | Ok max_cost \<Rightarrow> do {
                available \<leftarrow> sub_i64 (ac_balance account) reserved_balance;
                Some (if available < max_cost then Err (SrInsufficientBalance max_cost available) else Ok max_cost) } }
          else if has_negative \<and> \<not> has_positive \<and> o_num_markets ord = 1 then do {
            r \<leftarrow> cover_sells ord account reserved_positions [0..<unat (o_num_states ord)];
            Some (and_then r (\<lambda>_. Ok 0)) }
          else Some (Ok 0) })"

definition validate_order :: "Order \<Rightarrow> Account \<Rightarrow> (PositionKey, i64) omap \<Rightarrow> (SeqRejectionReason, unit) result option" where
  "validate_order ord account reserved_positions = do {
     r \<leftarrow> validate_order_with_reservation ord account 0 reserved_positions;
     Some (and_then r (\<lambda>_. Ok ())) }"

definition sell_reservation_at :: "Order \<Rightarrow> nat \<Rightarrow> (PositionKey \<times> i64) list option" where
  "sell_reservation_at ord s = do {
     payoff \<leftarrow> idx (o_payoffs ord) s;
     Some (if sint payoff < 0
       then (case checked_sell_qty_i64 payoff (o_max_fill ord) of
           Some sell_qty \<Rightarrow> [((o_markets ord ! 0, of_nat s), sell_qty)] | None \<Rightarrow> [])
       else []) }"

definition sell_reservations :: "Order \<Rightarrow> (PositionKey \<times> i64) list option" where
  "sell_reservations ord = do {
     (has_positive, has_negative) \<leftarrow> payoff_signs ord;
     if \<not> has_negative \<or> has_positive \<or> o_num_markets ord \<noteq> 1 then Some []
     else each (sell_reservation_at ord) [0..<unat (o_num_states ord)] }"

text \<open>\<open>sequencer/production/witness.rs\<close>: the reason as the block witness states it.\<close>

fun convert_rejection_reason :: "SeqRejectionReason \<Rightarrow> RejectionReason" where
  "convert_rejection_reason (SrInsufficientBalance required available) = RInsufficientBalance required available"
| "convert_rejection_reason (SrInsufficientPosition market outcome required available) =
     RInsufficientPosition market outcome required available"
| "convert_rejection_reason SrAccountNotFound = RAccountNotFound"
| "convert_rejection_reason SrCompleteSetFormation = RCompleteSetFormation"
| "convert_rejection_reason SrAtomicBundle = RAtomicBundle"
| "convert_rejection_reason (SrInvalidOrder reason) = RInvalidOrder reason"
| "convert_rejection_reason (SrExpired current_block expires_at_block) = RExpired current_block expires_at_block"

section \<open>Admitted orders\<close>

text \<open>For an order of the admitted shape the three routines have closed forms.  \<open>buy_cost\<close> is the worst-case
  cost of a buy.\<close>

definition buy_cost :: "Order \<Rightarrow> int" where
  "buy_cost ord = div_ceil (uint (o_limit_price ord) * uint (o_max_fill ord)) 1000"

lemma validate_order_shape_Ok: "validate_order_shape ord = Ok () \<longleftrightarrow> validate_binary_one_hot ord = Ok ()"
  by (auto simp: validate_order_shape_def split: result.splits)

definition admitted :: "Order \<Rightarrow> OrderDirection \<Rightarrow> bool" where
  "admitted ord d \<longleftrightarrow> order_wf ord \<and> validate_binary_one_hot ord = Ok () \<and> take 2 (o_payoffs ord) = one_hot d"

abbreviation sell_key :: "Order \<Rightarrow> OrderDirection \<Rightarrow> PositionKey" where
  "sell_key ord d \<equiv> (o_markets ord ! 0, direction_outcome d)"

lemma admittedI: "order_wf ord \<Longrightarrow> validate_order_shape ord = Ok u \<Longrightarrow> \<exists>d. admitted ord d"
  using validate_Ok_shape [of ord] by (auto simp: admitted_def validate_order_shape_Ok)

lemma admitted_simps:
  assumes "admitted ord d"
  shows "o_num_markets ord = 1" "o_num_states ord = 2" "validate_order_shape ord = Ok ()"
    "uint (o_limit_price ord) \<le> 1000000000" "uint (o_max_fill ord) \<le> 1000000000" "order_wf ord"
    "validate_binary_one_hot ord = Ok ()"
  using assms validate_Ok_simps [of ord] by (auto simp: admitted_def validate_order_shape_Ok word_le_def num)

lemma admitted_signs: "admitted ord d \<Longrightarrow> payoff_signs ord = Some (\<not> is_sell_direction d, is_sell_direction d)"
  using admitted_simps(2) [of ord d]
  by (cases d) (simp_all add: admitted_def payoff_signs_def slice_to_def order_wf_def MAX_STATES_def one_hot_def is_sell_direction_def)

lemma admitted_idx:
  assumes "admitted ord d"
  shows "idx (o_payoffs ord) 0 = Some (one_hot d ! 0)" "idx (o_payoffs ord) (Suc 0) = Some (one_hot d ! 1)"
proof -
  obtain ps where "o_payoffs ord = one_hot d @ ps" using assms one_hot_payoffs unfolding admitted_def by blast
  then show "idx (o_payoffs ord) 0 = Some (one_hot d ! 0)" "idx (o_payoffs ord) (Suc 0) = Some (one_hot d ! 1)"
    by (cases d; simp add: one_hot_def)+
qed

lemma buy_cost_bounds:
  assumes "admitted ord d"
  shows "0 \<le> buy_cost ord" "buy_cost ord \<le> 1000000000000000"
proof -
  have p: "0 \<le> uint (o_limit_price ord) * uint (o_max_fill ord)"
    "uint (o_limit_price ord) * uint (o_max_fill ord) \<le> 1000000000 * 1000000000"
    using admitted_simps(4,5) [OF assms] by (simp, intro mult_mono) simp_all
  have "0 \<le> 1000 * buy_cost ord" using p(1) div_ceil_bounds(1) [of 1000 "uint (o_limit_price ord) * uint (o_max_fill ord)"]
    unfolding buy_cost_def by linarith
  then show "0 \<le> buy_cost ord" by simp
  show "buy_cost ord \<le> 1000000000000000" unfolding buy_cost_def using p(2) by (simp add: div_ceil_least)
qed

lemma seq_notional_ceil_small:
  assumes "uint p \<le> 1000000000" "uint q \<le> 1000000000"
  shows "seq_notional_ceil p q = Ok (of_val (div_ceil (uint p * uint q) 1000))"
proof -
  have pq: "0 \<le> uint p * uint q" "uint p * uint q \<le> 1000000000 * 1000000000"
    using assms by (simp, intro mult_mono) simp_all
  have "fits_i128 (uint p * uint q)" "fits_i128 (uint p * uint q + 999)" using pq unfolding fits_i128_def by linarith+
  moreover have t: "tdiv (uint p * uint q + 999) 1000 = div_ceil (uint p * uint q) 1000"
    using pq(1) by (simp add: tdiv_nonneg div_ceil_1000)
  moreover have "fits_i64 (div_ceil (uint p * uint q) 1000)"
  proof -
    have "div_ceil (uint p * uint q) 1000 \<le> 1000000000000000" using pq(2) by (simp add: div_ceil_least)
    moreover have "0 \<le> 1000 * div_ceil (uint p * uint q) 1000"
      using pq(1) div_ceil_bounds(1) [of 1000 "uint p * uint q"] by linarith
    ultimately show ?thesis unfolding fits_i64_def by linarith
  qed
  ultimately show ?thesis by (simp add: seq_notional_ceil_def i128_of_def i64_of_def num t [simplified])
qed

lemma admitted_balance_reservation:
  "admitted ord d \<Longrightarrow> balance_reservation ord = Some (Ok (if is_sell_direction d then 0 else of_val (buy_cost ord)))"
  using admitted_simps(4,5) [of ord d] by (simp add: balance_reservation_def admitted_signs seq_notional_ceil_small buy_cost_def)

lemma val_buy_cost [simp]: "admitted ord d \<Longrightarrow> val (of_val (buy_cost ord)) = buy_cost ord"
  using buy_cost_bounds [of ord d] by (simp add: fits_i64_def)

lemma fits_max_fill: "admitted ord d \<Longrightarrow> fits_i64 (uint (o_max_fill ord))"
  using admitted_simps(5) [of ord d] uint_bounds(1) [of "o_max_fill ord"] unfolding fits_i64_def by linarith

lemma val_max_fill [simp]: "admitted ord d \<Longrightarrow> val (of_val (uint (o_max_fill ord))) = uint (o_max_fill ord)"
  by (rule val_of_val) (rule fits_max_fill)

lemma sell_qty:
  assumes "admitted ord d"
  shows "checked_sell_qty_i64 (- 1) (o_max_fill ord) = Some (of_val (uint (o_max_fill ord)))"
proof -
  have "fits_i128 (uint (o_max_fill ord))" "fits_i64 (uint (o_max_fill ord))"
    using admitted_simps(5) [OF assms] uint_bounds(1) [of "o_max_fill ord"] unfolding fits_i128_def fits_i64_def by linarith+
  then show ?thesis by (simp add: checked_sell_qty_i64_def i128_of_def i64_of_def)
qed

lemma two_states: "admitted ord d \<Longrightarrow> [0..<unat (o_num_states ord)] = [0, Suc 0]"
  by (simp add: admitted_simps(2) upt_rec)

lemma admitted_sell_reservations:
  assumes "admitted ord d"
  shows "sell_reservations ord =
    Some (if is_sell_direction d then [(sell_key ord d, of_val (uint (o_max_fill ord)))] else [])"
  using assms
  by (cases d) (simp_all add: sell_reservations_def admitted_signs admitted_simps(1) two_states each_Cons sell_reservation_at_def
      admitted_idx [OF assms] one_hot_def is_sell_direction_def direction_outcome_def sell_qty [OF assms])

lemma admitted_validate:
  assumes "admitted ord d"
  shows "validate_order_with_reservation ord account reserved_balance reserved_positions =
    (if is_sell_direction d then do {
       available \<leftarrow> sub_i64 (position account (o_markets ord ! 0) (direction_outcome d)) (get_or reserved_positions (sell_key ord d) 0);
       let qty = of_val (uint (o_max_fill ord));
       Some (if available < qty then Err (SrInsufficientPosition (o_markets ord ! 0) (direction_outcome d) qty available) else Ok 0) }
     else do {
       available \<leftarrow> sub_i64 (ac_balance account) reserved_balance;
       let cost = of_val (buy_cost ord);
       Some (if available < cost then Err (SrInsufficientBalance cost available) else Ok cost) })"
  using assms
  by (cases d) (auto simp: validate_order_with_reservation_def admitted_simps(1,3) admitted_signs
      admitted_balance_reservation two_states admitted_idx [OF assms] one_hot_def is_sell_direction_def direction_outcome_def
      sell_qty [OF assms] Let_def split: bind_splits)

section \<open>Rejections and the verifier\<close>

lemma available_position_snapshot: "available_position (snapshot_account a) m out = position a m out"
proof -
  let ?ps = "as_positions (snapshot_account a)" and ?f = "\<lambda>(m :: MarketId, out :: u8, q :: i64). ((m, out), q)"
  have find: "map_option (\<lambda>(m, out, q). q) (List.find (\<lambda>(m', out', q). m' = m \<and> out' = out) ps) = map_of (map ?f ps) (m, out)" for ps
    by (induction ps) auto
  have "map fst (map ?f ?ps) = map (\<lambda>(m, out, q). (m, out)) ?ps" by auto
  then have d: "distinct (map fst (map ?f ?ps))" using snapshot_distinct [of a] by (simp only:)
  have "position a m out = get_or (position_map ?ps) (m, out) 0" by (simp add: position_def)
  also have "\<dots> = (case map_of (map ?f ?ps) (m, out) of Some q \<Rightarrow> q | None \<Rightarrow> 0)"
    unfolding position_map_def get_or_def lookup_om_of_list_distinct [OF d] ..
  also have "\<dots> = available_position (snapshot_account a) m out"
    unfolding available_position_def find [symmetric] by (auto split: option.splits)
  finally show ?thesis ..
qed

text \<open>C13: which rejections of the sequencer the verifier accepts.  Let an order be rejected against an account
  whose snapshot is in the state after system events, and let the block report the reason.  The verifier
  accepts the reported reason, unless it is an insufficient position and part of the position is already
  reserved by other orders: the sequencer reports the position left after reservations, the verifier
  compares it with the whole position.\<close>

theorem rejection_verifies_iff:
  assumes "order_wf ord" "validate_order_with_reservation ord account reserved_balance reserved_positions = Some (Err reason)"
    and "lookup post_system (ac_id account) = Some (snapshot_account account)"
  shows "check_rejection w post_system \<lparr> wr_order = ord, wr_account_id = ac_id account, wr_reason = convert_rejection_reason reason \<rparr> = Some [] \<longleftrightarrow>
    (case reason of SrInsufficientPosition market outcome required available \<Rightarrow> get_or reserved_positions (market, outcome) 0 = 0 | _ \<Rightarrow> True)"
proof (cases "validate_order_shape ord")
  case (Err e)
  then obtain t where "e = SrInvalidOrder t" "validate_binary_one_hot ord \<noteq> Ok ()"
    by (auto simp: validate_order_shape_def split: result.splits)
  moreover have "reason = e" using assms(2) Err by (simp add: validate_order_with_reservation_def)
  ultimately show ?thesis using assms(3) by (simp add: check_rejection_def)
next
  case (Ok u)
  then obtain d where d: "admitted ord d" using admittedI assms(1) by blast
  show ?thesis
  proof (cases "is_sell_direction d")
    case True
    then obtain available where a: "sub_i64 (position account (o_markets ord ! 0) (direction_outcome d))
        (get_or reserved_positions (sell_key ord d) 0) = Some available"
      and r: "reason = SrInsufficientPosition (o_markets ord ! 0) (direction_outcome d) (of_val (uint (o_max_fill ord))) available"
      using assms(2) by (auto simp: admitted_validate [OF d] opt Let_def split: if_splits)
    from a have "position account (o_markets ord ! 0) (direction_outcome d) = available \<longleftrightarrow>
        get_or reserved_positions (sell_key ord d) 0 = 0" by (auto simp: num)
    with r assms(3) show ?thesis by (simp add: check_rejection_def available_position_snapshot)
  next
    case False
    then obtain available where r: "reason = SrInsufficientBalance (of_val (buy_cost ord)) available"
      using assms(2) by (auto simp: admitted_validate [OF d] opt Let_def split: if_splits)
    have "checked_price_qty_ceil (o_limit_price ord) (o_max_fill ord) = Some (of_val (buy_cost ord))"
      using d by (simp add: checked_price_qty_ceil_def checked_notional_ceil_i64_eq i64_of_eq_Some) (simp add: buy_cost_def)
    with r False d assms(3) show ?thesis
      by (simp add: check_rejection_def check_insufficient_balance_def admitted_signs)
  qed
qed

text \<open>An account that holds ten shares with four of them reserved offers eight more.\<close>

definition seller_account :: Account where
  "seller_account = (account_new sample_hash 7 (of_val 1000000000))\<lparr> ac_positions := om_ins (0, 0) (of_val 10000) om_empty \<rparr>"

theorem rejection_verifies_iff_witness:
  "\<exists>reason. validate_order_with_reservation (one_hot_order 1 0 SellYes 500000000 8000) seller_account 0
       (om_ins (0, 0) (of_val 4000) om_empty) = Some (Err reason) \<and>
     check_rejection sample_block (om_ins 7 (snapshot_account seller_account) om_empty)
       \<lparr> wr_order = one_hot_order 1 0 SellYes 500000000 8000, wr_account_id = ac_id seller_account,
         wr_reason = convert_rejection_reason reason \<rparr> \<noteq> Some []"
proof -
  let ?ord = "one_hot_order 1 0 SellYes 500000000 8000" and ?res = "om_ins (0, 0) (of_val 4000) om_empty :: (PositionKey, i64) omap"
  have "admitted ?ord SellYes" by (simp add: admitted_def one_hot_order_valid num word_le_def market_none_def u32_max_def)
  then have v: "validate_order_with_reservation ?ord seller_account 0 ?res =
      Some (Err (SrInsufficientPosition 0 0 (of_val 8000) (of_val 6000)))"
    by (simp add: admitted_validate is_sell_direction_def direction_outcome_def position_def seller_account_def sub_i64_def
        i64_of_def fits_i64_def less_i64_def)
  have "ac_id seller_account = 7" by (simp add: seller_account_def account_new_def)
  with rejection_verifies_iff [OF _ v, of "om_ins 7 (snapshot_account seller_account) om_empty" sample_block] v
  show ?thesis by (simp add: val_eq_iff fits_i64_def)
qed

end
