(* ===== verification/Order_Book.thy ===== *)
theory Order_Book
  imports Sequencer_Validation
begin

text \<open>
  \<open>crates/matching-sequencer/src/order_book.rs\<close>: the resting orders of the sequencer and the capital they
  reserve.  The book keeps every order's own reservation and, per account, the totals.  An operation that
  fails on a release leaves the book as the code leaves it: \<open>drain\<close> has emptied the order list and the totals
  released so far stay released.
\<close>

section \<open>Data\<close>

datatype RestingExit = Settled | Expired

datatype RestingRevalidationExit = MarketInactive | AccountGone | AccountInsolvent | Rejected SeqRejectionReason

definition rejection_reason :: "RestingRevalidationExit \<Rightarrow> SeqRejectionReason option" where
  "rejection_reason exit = (case exit of Rejected reason \<Rightarrow> Some reason | _ \<Rightarrow> None)"

record RestingOrder =
  rs_order :: Order
  rs_account_id :: AccountId
  rs_created_at :: u64
  rs_expires_at_block :: u64
  rs_reserved_balance :: i64
  rs_reserved_positions :: "(PositionKey \<times> i64) list"
  rs_has_been_matched :: bool
  rs_original_max_fill :: u64
  rs_created_at_ms :: u64

type_synonym BalanceReservations = "(AccountId, i64) omap"
type_synonym PositionReservations = "(AccountId \<times> PositionKey, i64) omap"
type_synonym Aggregates = "BalanceReservations \<times> PositionReservations"

record OrderBook =
  ob_orders :: "RestingOrder list"
  ob_balance_reservations :: BalanceReservations
  ob_position_reservations :: PositionReservations
  ob_ttl :: u64

record Accepted =
  acc_order :: Order
  acc_account_id :: AccountId
  acc_resting_order :: RestingOrder

datatype ReservationError =
    NegativeReplayReservation AccountId u64 \<comment> \<open>account, order\<close>
  | BalanceOverRelease AccountId i64 i64 \<comment> \<open>account, currently reserved, attempted release\<close>
  | PositionOverRelease AccountId MarketId u8 i64 i64

datatype CancelError = NotFound | WrongOwner | Reservation ReservationError

datatype ReservationRestoreError =
    BalanceMismatch AccountId int int \<comment> \<open>account, stored, recomputed\<close>
  | PositionMismatch AccountId MarketId u8 int int
  | OrderBalanceMismatch AccountId u64 i64 i64 \<comment> \<open>account, order, stored, recomputed\<close>
  | OrderBalanceBelowMinimum AccountId u64 i64 i64
  | OrderBalanceAboveMaximum AccountId u64 i64 i64
  | OrderPositionsMismatch AccountId u64 "(PositionKey \<times> i64) list" "(PositionKey \<times> i64) list"
  | RestoredInvalidOrder AccountId u64 SeqRejectionReason

section \<open>Releasing reservations\<close>

text \<open>The last branch subtracts a positive amount smaller than the entry, which therefore exists; neither the
  \<open>expect\<close> nor the subtraction can abort.\<close>

definition release_balance :: "BalanceReservations \<Rightarrow> AccountId \<Rightarrow> i64 \<Rightarrow> (ReservationError, BalanceReservations) result" where
  "release_balance reservations account_id amount =
     (let currently_reserved = get_or reservations account_id 0
      in if currently_reserved < amount then Err (BalanceOverRelease account_id currently_reserved amount)
         else if amount = currently_reserved then Ok (om_del account_id reservations)
         else if 0 < amount then Ok (om_ins account_id (of_val (val currently_reserved - val amount)) reservations)
         else Ok reservations)"

definition release_position ::
  "PositionReservations \<Rightarrow> AccountId \<Rightarrow> PositionKey \<Rightarrow> i64 \<Rightarrow> (ReservationError, PositionReservations) result"
where
  "release_position reservations account_id key amount =
     (let currently_reserved = get_or reservations (account_id, key) 0
      in if currently_reserved < amount then Err (PositionOverRelease account_id (fst key) (snd key) currently_reserved amount)
         else if amount = currently_reserved then Ok (om_del (account_id, key) reservations)
         else if 0 < amount then Ok (om_ins (account_id, key) (of_val (val currently_reserved - val amount)) reservations)
         else Ok reservations)"

fun release_positions ::
  "AccountId \<Rightarrow> (PositionKey \<times> i64) list \<Rightarrow> PositionReservations \<Rightarrow> PositionReservations \<times> (ReservationError, unit) result"
where
  "release_positions account_id [] reservations = (reservations, Ok ())"
| "release_positions account_id ((key, qty) # xs) reservations =
     (case release_position reservations account_id key qty of
        Err e \<Rightarrow> (reservations, Err e)
      | Ok reservations' \<Rightarrow> release_positions account_id xs reservations')"

definition over_released :: "PositionReservations \<Rightarrow> AccountId \<Rightarrow> (PositionKey \<times> i64) list \<Rightarrow> (PositionKey \<times> i64) option" where
  "over_released reservations account_id xs = List.find (\<lambda>(key, qty). get_or reservations (account_id, key) 0 < qty) xs"

definition release_reservations :: "Aggregates \<Rightarrow> RestingOrder \<Rightarrow> Aggregates \<times> (ReservationError, unit) result" where
  "release_reservations aggs ro =
     (let (balances, positions) = aggs;
          account_id = rs_account_id ro;
          current_balance = get_or balances account_id 0
      in if current_balance < rs_reserved_balance ro
         then (aggs, Err (BalanceOverRelease account_id current_balance (rs_reserved_balance ro)))
         else case over_released positions account_id (rs_reserved_positions ro) of
           Some (key, qty) \<Rightarrow>
             (aggs, Err (PositionOverRelease account_id (fst key) (snd key) (get_or positions (account_id, key) 0) qty))
         | None \<Rightarrow>
             (case (if 0 < rs_reserved_balance ro then release_balance balances account_id (rs_reserved_balance ro) else Ok balances) of
                Err e \<Rightarrow> (aggs, Err e)
              | Ok balances' \<Rightarrow>
                  (let (positions', r) = release_positions account_id (rs_reserved_positions ro) positions
                   in ((balances', positions'), r))))"

section \<open>Operations\<close>

definition aggregates :: "OrderBook \<Rightarrow> Aggregates" where
  "aggregates book = (ob_balance_reservations book, ob_position_reservations book)"

definition with_book :: "OrderBook \<Rightarrow> RestingOrder list \<Rightarrow> Aggregates \<Rightarrow> OrderBook" where
  "with_book book orders aggs = book\<lparr> ob_orders := orders, ob_balance_reservations := fst aggs, ob_position_reservations := snd aggs \<rparr>"

definition book_new :: "u64 \<Rightarrow> OrderBook" where
  "book_new ttl = \<lparr> ob_orders = [], ob_balance_reservations = om_empty, ob_position_reservations = om_empty, ob_ttl = ttl \<rparr>"

definition book_snapshot :: "OrderBook \<Rightarrow> RestingOrder list" where
  "book_snapshot book = ob_orders book"

fun index_of :: "('a \<Rightarrow> bool) \<Rightarrow> 'a list \<Rightarrow> nat option" where
  "index_of P [] = None"
| "index_of P (x # xs) = (if P x then Some 0 else map_option Suc (index_of P xs))"

definition cancel_index :: "OrderBook \<Rightarrow> AccountId \<Rightarrow> u64 \<Rightarrow> (CancelError, nat) result" where
  "cancel_index book account_id order_id =
     (case index_of (\<lambda>ro. o_id (rs_order ro) = order_id) (ob_orders book) of
        None \<Rightarrow> Err NotFound
      | Some index \<Rightarrow> if rs_account_id (ob_orders book ! index) \<noteq> account_id then Err WrongOwner else Ok index)"

definition can_cancel :: "OrderBook \<Rightarrow> AccountId \<Rightarrow> u64 \<Rightarrow> (CancelError, unit) result" where
  "can_cancel book account_id order_id = and_then (cancel_index book account_id order_id) (\<lambda>_. Ok ())"

text \<open>\<open>*map.entry(k).or_insert(0) += n\<close>\<close>

definition add_to :: "'k::linorder \<Rightarrow> i64 \<Rightarrow> ('k, i64) omap \<Rightarrow> ('k, i64) omap option" where
  "add_to k n m = map_option (\<lambda>v. om_ins k v m) (add_i64 (get_or m k 0) n)"

definition reserve_positions :: "AccountId \<Rightarrow> (PositionKey \<times> i64) list \<Rightarrow> PositionReservations \<Rightarrow> PositionReservations option" where
  "reserve_positions account_id xs = fold_opt (\<lambda>(key, qty). add_to (account_id, key) qty) xs"

definition reserve_order :: "RestingOrder \<Rightarrow> Aggregates \<Rightarrow> Aggregates option" where
  "reserve_order ro aggs = do {
     balances \<leftarrow> (if 0 < rs_reserved_balance ro then add_to (rs_account_id ro) (rs_reserved_balance ro) (fst aggs) else Some (fst aggs));
     positions \<leftarrow> reserve_positions (rs_account_id ro) (rs_reserved_positions ro) (snd aggs);
     Some (balances, positions) }"

definition negative_reservation :: "RestingOrder \<Rightarrow> bool" where
  "negative_reservation ro \<longleftrightarrow> rs_reserved_balance ro < 0 \<or> list_ex (\<lambda>(key, qty). qty < 0) (rs_reserved_positions ro)"

definition restore :: "RestingOrder list \<Rightarrow> u64 \<Rightarrow> OrderBook option" where
  "restore orders ttl = do {
     let valid_orders = filter (\<lambda>ro. \<not> negative_reservation ro) orders;
     aggs \<leftarrow> fold_opt reserve_order valid_orders (om_empty, om_empty);
     Some (with_book (book_new ttl) valid_orders aggs) }"

definition reinsert_for_replay :: "OrderBook \<Rightarrow> RestingOrder \<Rightarrow> (OrderBook \<times> (ReservationError, unit) result) option" where
  "reinsert_for_replay book resting =
     (if negative_reservation resting
      then Some (book, Err (NegativeReplayReservation (rs_account_id resting) (o_id (rs_order resting))))
      else do {
        aggs \<leftarrow> reserve_order resting (aggregates book);
        Some (with_book book (ob_orders book @ [resting]) aggs, Ok ()) })"

definition reserved_balance :: "OrderBook \<Rightarrow> AccountId \<Rightarrow> i64" where
  "reserved_balance book account_id = get_or (ob_balance_reservations book) account_id 0"

definition acct_position_reservations :: "OrderBook \<Rightarrow> AccountId \<Rightarrow> (PositionKey, i64) omap" where
  "acct_position_reservations book account_id =
     om_of_list (map (\<lambda>((aid, key), qty). (key, qty))
       (filter (\<lambda>((aid, key), qty). aid = account_id) (entries (ob_position_reservations book))))"

definition accept ::
  "OrderBook \<Rightarrow> Order \<Rightarrow> AccountId \<Rightarrow> Account \<Rightarrow> u64 \<Rightarrow> u64 \<Rightarrow> (OrderBook \<times> (SeqRejectionReason, Accepted) result) option"
where
  "accept book ord account_id account current_height created_at_ms = do {
     let reserved = reserved_balance book account_id;
     let acct_positions = acct_position_reservations book account_id;
     r \<leftarrow> validate_order_with_reservation ord account reserved acct_positions;
     case r of
       Err reason \<Rightarrow> Some (book, Err reason)
     | Ok cost \<Rightarrow> do {
         pos_reservations \<leftarrow> sell_reservations ord;
         let resting = \<lparr> rs_order = ord, rs_account_id = account_id, rs_created_at = current_height,
           rs_expires_at_block = effective_expires_at_block ord current_height (ob_ttl book),
           rs_reserved_balance = cost, rs_reserved_positions = pos_reservations, rs_has_been_matched = False,
           rs_original_max_fill = o_max_fill ord, rs_created_at_ms = created_at_ms \<rparr>;
         aggs \<leftarrow> reserve_order resting (aggregates book);
         Some (with_book book (ob_orders book @ [resting]) aggs,
           Ok \<lparr> acc_order = ord, acc_account_id = account_id, acc_resting_order = resting \<rparr>) } }"

text \<open>The loop of \<open>expire_where\<close>: the removed and the kept orders.\<close>

fun expire_loop ::
  "(RestingOrder \<Rightarrow> bool) \<Rightarrow> RestingOrder list \<Rightarrow> Aggregates \<Rightarrow>
     Aggregates \<times> (ReservationError, RestingOrder list \<times> RestingOrder list) result"
where
  "expire_loop should_expire [] aggs = (aggs, Ok ([], []))"
| "expire_loop should_expire (ro # ros) aggs =
     (if should_expire ro
      then (case release_reservations aggs ro of
          (aggs', Err e) \<Rightarrow> (aggs', Err e)
        | (aggs', Ok _) \<Rightarrow> (let (aggs'', r) = expire_loop should_expire ros aggs'
            in (aggs'', and_then r (\<lambda>(removed, kept). Ok (ro # removed, kept)))))
      else (let (aggs', r) = expire_loop should_expire ros aggs
            in (aggs', and_then r (\<lambda>(removed, kept). Ok (removed, ro # kept)))))"

definition expire_where :: "(RestingOrder \<Rightarrow> bool) \<Rightarrow> OrderBook \<Rightarrow> OrderBook \<times> (ReservationError, RestingOrder list) result" where
  "expire_where should_expire book =
     (case expire_loop should_expire (ob_orders book) (aggregates book) of
        (aggs, Err e) \<Rightarrow> (with_book book [] aggs, Err e)
      | (aggs, Ok (removed, kept)) \<Rightarrow> (with_book book kept aggs, Ok removed))"

definition expire :: "u64 \<Rightarrow> OrderBook \<Rightarrow> OrderBook \<times> (ReservationError, RestingOrder list) result" where
  "expire current_height = expire_where (\<lambda>ro. rs_expires_at_block ro < current_height)"

definition expire_committed_through :: "u64 \<Rightarrow> OrderBook \<Rightarrow> OrderBook \<times> (ReservationError, RestingOrder list) result" where
  "expire_committed_through current_height = expire_where (\<lambda>ro. rs_expires_at_block ro \<le> current_height)"

text \<open>\<open>revalidate\<close>: the reason for which an order is removed, if any, with the reservations of the other orders.\<close>

definition without_self :: "(PositionKey, i64) omap \<Rightarrow> (PositionKey \<times> i64) list \<Rightarrow> (PositionKey, i64) omap option" where
  "without_self positions xs =
     fold_opt (\<lambda>(key, qty) m. case lookup m key of None \<Rightarrow> Some m | Some v \<Rightarrow> map_option (\<lambda>v'. om_ins key v' m) (sub_i64 v qty)) xs positions"

definition revalidation_exit ::
  "OrderBook \<Rightarrow> AccountStore \<Rightarrow> MarketId set \<Rightarrow> RestingOrder \<Rightarrow> RestingRevalidationExit option option"
where
  "revalidation_exit book accounts active ro =
     (if \<not> list_all (\<lambda>m. m \<in> active) (active_markets (rs_order ro)) then Some (Some MarketInactive)
      else case get_account accounts (rs_account_id ro) of
        None \<Rightarrow> Some (Some AccountGone)
      | Some account \<Rightarrow>
          if ac_balance account \<le> 0 then Some (Some AccountInsolvent)
          else do {
            reserved_without_self \<leftarrow> sub_i64 (reserved_balance book (rs_account_id ro)) (rs_reserved_balance ro);
            positions_without_self \<leftarrow> without_self (acct_position_reservations book (rs_account_id ro)) (rs_reserved_positions ro);
            r \<leftarrow> validate_order_with_reservation (rs_order ro) account reserved_without_self positions_without_self;
            Some (case r of Err reason \<Rightarrow> Some (Rejected reason) | Ok _ \<Rightarrow> None) })"

definition to_remove :: "OrderBook \<Rightarrow> AccountStore \<Rightarrow> MarketId set \<Rightarrow> (nat \<times> RestingRevalidationExit) list option" where
  "to_remove book accounts active =
     map_option (\<lambda>exits. concat (map (\<lambda>(i, exit). case exit of None \<Rightarrow> [] | Some reason \<Rightarrow> [(i, reason)]) (enumerate 0 exits)))
       (map_opt (revalidation_exit book accounts active) (ob_orders book))"

text \<open>\<open>Vec::remove\<close>, which aborts when the index is out of range.\<close>

definition remove_at :: "nat \<Rightarrow> 'a list \<Rightarrow> 'a list option" where
  "remove_at i xs = (if i < length xs then Some (take i xs @ drop (Suc i) xs) else None)"

fun remove_loop ::
  "(nat \<times> RestingRevalidationExit) list \<Rightarrow> RestingOrder list \<Rightarrow> Aggregates \<Rightarrow>
     (RestingOrder list \<times> Aggregates \<times> (ReservationError, (RestingOrder \<times> RestingRevalidationExit) list) result) option"
where
  "remove_loop [] orders aggs = Some (orders, aggs, Ok [])"
| "remove_loop ((i, reason) # xs) orders aggs = do {
     ro \<leftarrow> idx orders i;
     orders \<leftarrow> remove_at i orders;
     case release_reservations aggs ro of
       (aggs, Err e) \<Rightarrow> Some (orders, aggs, Err e)
     | (aggs, Ok _) \<Rightarrow> do {
         (orders, aggs, r) \<leftarrow> remove_loop xs orders aggs;
         Some (orders, aggs, and_then r (\<lambda>removed. Ok ((ro, reason) # removed))) } }"

definition revalidate ::
  "AccountStore \<Rightarrow> MarketId set \<Rightarrow> OrderBook \<Rightarrow>
     (OrderBook \<times> (ReservationError, (RestingOrder \<times> RestingRevalidationExit) list) result) option"
where
  "revalidate accounts active book = do {
     exits \<leftarrow> to_remove book accounts active;
     (orders, aggs, r) \<leftarrow> remove_loop (rev exits) (ob_orders book) (aggregates book);
     Some (with_book book orders aggs, r) }"

definition orders_for_account :: "OrderBook \<Rightarrow> AccountId \<Rightarrow> nat" where
  "orders_for_account book account_id = length (filter (\<lambda>ro. rs_account_id ro = account_id) (ob_orders book))"

definition cancel :: "AccountId \<Rightarrow> u64 \<Rightarrow> OrderBook \<Rightarrow> OrderBook \<times> (CancelError, RestingOrder) result" where
  "cancel account_id order_id book = (case cancel_index book account_id order_id of
     Err e \<Rightarrow> (book, Err e)
   | Ok index \<Rightarrow>
       (let ro = ob_orders book ! index
        in case release_reservations (aggregates book) ro of
             (aggs, Err e) \<Rightarrow> (with_book book (ob_orders book) aggs, Err (Reservation e))
           | (aggs, Ok _) \<Rightarrow> (with_book book (take index (ob_orders book) @ drop (Suc index) (ob_orders book)) aggs, Ok ro)))"

definition cancel_accepted :: "Accepted \<Rightarrow> OrderBook \<Rightarrow> OrderBook \<times> (CancelError, RestingOrder) result" where
  "cancel_accepted accepted = cancel (acc_account_id accepted) (o_id (acc_order accepted))"

text \<open>\<open>settle\<close>: the filled quantity of every order of the batch, and the fate of one resting order.\<close>

definition filled_quantities :: "Fill list \<Rightarrow> (u64, u64) omap option" where
  "filled_quantities fills = fold_opt (\<lambda>f m.
     if 0 < f_fill_qty f
     then map_option (\<lambda>v. om_ins (f_order_id f) v m) (add_u64 (get_or m (f_order_id f) 0) (f_fill_qty f))
     else Some m) fills om_empty"

fun scale_positions ::
  "AccountId \<Rightarrow> u64 \<Rightarrow> u64 \<Rightarrow> (PositionKey \<times> i64) list \<Rightarrow> PositionReservations \<Rightarrow>
     (PositionReservations \<times> (ReservationError, (PositionKey \<times> i64) list) result) option"
where
  "scale_positions account_id remaining max_fill [] reservations = Some (reservations, Ok [])"
| "scale_positions account_id remaining max_fill ((key, qty) # xs) reservations = do {
     new_qty \<leftarrow> map_option I64 (ceil_mul_ratio (bits64 qty) remaining max_fill);
     released \<leftarrow> sub_i64 qty new_qty;
     case (if 0 < released then release_position reservations account_id key released else Ok reservations) of
       Err e \<Rightarrow> Some (reservations, Err e)
     | Ok reservations \<Rightarrow> do {
         (reservations, r) \<leftarrow> scale_positions account_id remaining max_fill xs reservations;
         Some (reservations, and_then r (\<lambda>new. Ok ((key, new_qty) # new))) } }"

datatype Fate = Removed RestingOrder RestingExit | Kept RestingOrder

definition release_as :: "Aggregates \<Rightarrow> RestingOrder \<Rightarrow> RestingExit \<Rightarrow> Aggregates \<times> (ReservationError, Fate) result" where
  "release_as aggs ro exit = (let (aggs', r) = release_reservations aggs ro in (aggs', and_then r (\<lambda>_. Ok (Removed ro exit))))"

definition partial_fill :: "Aggregates \<Rightarrow> RestingOrder \<Rightarrow> u64 \<Rightarrow> (Aggregates \<times> (ReservationError, Fate) result) option" where
  "partial_fill aggs ro filled = do {
     let max_fill = o_max_fill (rs_order ro);
     remaining \<leftarrow> sub_u64 max_fill filled;
     let old_cost = rs_reserved_balance ro;
     new_cost \<leftarrow> map_option I64 (ceil_mul_ratio (bits64 old_cost) remaining max_fill);
     released_balance \<leftarrow> sub_i64 old_cost new_cost;
     case (if 0 < released_balance then release_balance (fst aggs) (rs_account_id ro) released_balance else Ok (fst aggs)) of
       Err e \<Rightarrow> Some (aggs, Err e)
     | Ok balances \<Rightarrow> do {
         (positions, r) \<leftarrow> scale_positions (rs_account_id ro) remaining max_fill (rs_reserved_positions ro) (snd aggs);
         Some ((balances, positions), and_then r (\<lambda>new_pos_reservations.
           Ok (Kept (ro\<lparr> rs_order := (rs_order ro)\<lparr> o_max_fill := remaining \<rparr>, rs_reserved_balance := new_cost,
             rs_reserved_positions := new_pos_reservations, rs_has_been_matched := True \<rparr>)))) } }"

definition settle_order ::
  "(u64, u64) omap \<Rightarrow> u64 set \<Rightarrow> u64 \<Rightarrow> RestingOrder \<Rightarrow> Aggregates \<Rightarrow> (Aggregates \<times> (ReservationError, Fate) result) option"
where
  "settle_order filled_qty mm_ids current_height ro aggs =
     (if o_id (rs_order ro) \<in> mm_ids then Some (release_as aggs ro Settled)
      else let filled = get_or filled_qty (o_id (rs_order ro)) 0;
               ro = (if 0 < filled then ro\<lparr> rs_has_been_matched := True \<rparr> else ro)
           in if o_max_fill (rs_order ro) \<le> filled then Some (release_as aggs ro Settled)
              else if rs_expires_at_block ro \<le> current_height then Some (release_as aggs ro Expired)
              else if 0 < filled then partial_fill aggs ro filled
              else Some (aggs, Ok (Kept ro)))"

fun settle_loop ::
  "(u64, u64) omap \<Rightarrow> u64 set \<Rightarrow> u64 \<Rightarrow> RestingOrder list \<Rightarrow> Aggregates \<Rightarrow>
     (Aggregates \<times> (ReservationError, RestingOrder list \<times> (RestingOrder \<times> RestingExit) list) result) option"
where
  "settle_loop filled_qty mm height [] aggs = Some (aggs, Ok ([], []))"
| "settle_loop filled_qty mm height (ro # ros) aggs = do {
     (aggs, r) \<leftarrow> settle_order filled_qty mm height ro aggs;
     case r of
       Err e \<Rightarrow> Some (aggs, Err e)
     | Ok fate \<Rightarrow> do {
         (aggs, r) \<leftarrow> settle_loop filled_qty mm height ros aggs;
         Some (aggs, and_then r (\<lambda>(new_orders, removed).
           Ok (case fate of Removed ro' exit \<Rightarrow> (new_orders, (ro', exit) # removed) | Kept ro' \<Rightarrow> (ro' # new_orders, removed)))) } }"

definition book_settle ::
  "Fill list \<Rightarrow> u64 set \<Rightarrow> u64 \<Rightarrow> OrderBook \<Rightarrow> (OrderBook \<times> (ReservationError, (RestingOrder \<times> RestingExit) list) result) option"
where
  "book_settle fills mm_ids current_height book = do {
     filled_qty \<leftarrow> filled_quantities fills;
     (aggs, r) \<leftarrow> settle_loop filled_qty mm_ids current_height (ob_orders book) (aggregates book);
     Some (case r of
         Err e \<Rightarrow> (with_book book [] aggs, Err e)
       | Ok (new_orders, removed) \<Rightarrow> (with_book book new_orders aggs, Ok removed)) }"

section \<open>Restoring\<close>

definition restored_order_error :: "RestingOrder \<Rightarrow> (ReservationRestoreError, unit) result option" where
  "restored_order_error resting = (let ord = rs_order resting; a = rs_account_id resting; i = o_id ord; stored = rs_reserved_balance resting in
     case validate_order_shape ord of
       Err reason \<Rightarrow> Some (Err (RestoredInvalidOrder a i reason))
     | Ok _ \<Rightarrow> do {
         m \<leftarrow> balance_reservation ord;
         case m of
           Err reason \<Rightarrow> Some (Err (RestoredInvalidOrder a i reason))
         | Ok minimum \<Rightarrow> do {
             recomputed_positions \<leftarrow> sell_reservations ord;
             if rs_reserved_positions resting \<noteq> recomputed_positions
             then Some (Err (OrderPositionsMismatch a i (rs_reserved_positions resting) recomputed_positions))
             else if \<not> rs_has_been_matched resting
             then Some (if stored \<noteq> minimum then Err (OrderBalanceMismatch a i stored minimum) else Ok ())
             else if stored < minimum then Some (Err (OrderBalanceBelowMinimum a i stored minimum))
             else if o_max_fill ord < rs_original_max_fill resting
             then (let original = ord\<lparr> o_max_fill := rs_original_max_fill resting \<rparr>
               in case validate_order_shape original of
                    Err reason \<Rightarrow> Some (Err (RestoredInvalidOrder a i reason))
                  | Ok _ \<Rightarrow> do {
                      m \<leftarrow> balance_reservation original;
                      Some (case m of
                          Err reason \<Rightarrow> Err (RestoredInvalidOrder a i reason)
                        | Ok maximum \<Rightarrow> if maximum < stored then Err (OrderBalanceAboveMaximum a i stored maximum) else Ok ()) })
             else Some (Ok ()) } })"

fun validate_restored_reservations :: "RestingOrder list \<Rightarrow> (ReservationRestoreError, unit) result option" where
  "validate_restored_reservations [] = Some (Ok ())"
| "validate_restored_reservations (resting # rest) = do {
     r \<leftarrow> restored_order_error resting;
     case r of Err e \<Rightarrow> Some (Err e) | Ok _ \<Rightarrow> validate_restored_reservations rest }"

text \<open>The account totals are kept in \<open>i128\<close>, wide enough for the sum of any list of 64-bit reservations.\<close>

definition bump_stored :: "'k::linorder \<Rightarrow> int \<Rightarrow> ('k, int \<times> int) omap \<Rightarrow> ('k, int \<times> int) omap" where
  "bump_stored k n m = (let (stored, recomputed) = get_or m k (0, 0) in om_ins k (stored + n, recomputed) m)"

definition bump_recomputed :: "'k::linorder \<Rightarrow> int \<Rightarrow> ('k, int \<times> int) omap \<Rightarrow> ('k, int \<times> int) omap" where
  "bump_recomputed k n m = (let (stored, recomputed) = get_or m k (0, 0) in om_ins k (stored, recomputed + n) m)"

definition restored_balance_totals :: "RestingOrder list \<Rightarrow> AccountReservationSnapshot list \<Rightarrow> (u64, int \<times> int) omap" where
  "restored_balance_totals orders persisted =
     fold (\<lambda>ro. bump_recomputed (rs_account_id ro) (val (rs_reserved_balance ro))) orders
       (fold (\<lambda>snapshot. bump_stored (ar_account_id snapshot) (val (ar_reserved_balance snapshot))) persisted om_empty)"

definition restored_position_totals ::
  "RestingOrder list \<Rightarrow> AccountReservationSnapshot list \<Rightarrow> (u64 \<times> MarketId \<times> u8, int \<times> int) omap"
where
  "restored_position_totals orders persisted =
     fold (\<lambda>ro. fold (\<lambda>((market, outcome), qty). bump_recomputed (rs_account_id ro, market, outcome) (val qty)) (rs_reserved_positions ro)) orders
       (fold (\<lambda>snapshot. fold (\<lambda>(market, outcome, qty). bump_stored (ar_account_id snapshot, market, outcome) (val qty))
          (ar_reserved_positions snapshot)) persisted om_empty)"

definition validate_restored_account_reservations ::
  "RestingOrder list \<Rightarrow> AccountReservationSnapshot list \<Rightarrow> (ReservationRestoreError, unit) result"
where
  "validate_restored_account_reservations orders persisted =
     (case List.find (\<lambda>(account_id, stored, recomputed). stored \<noteq> recomputed) (entries (restored_balance_totals orders persisted)) of
        Some (account_id, stored, recomputed) \<Rightarrow> Err (BalanceMismatch account_id stored recomputed)
      | None \<Rightarrow>
          (case List.find (\<lambda>((account_id, market, outcome), stored, recomputed). stored \<noteq> recomputed)
               (entries (restored_position_totals orders persisted)) of
             Some ((account_id, market, outcome), stored, recomputed) \<Rightarrow>
               Err (PositionMismatch account_id market outcome stored recomputed)
           | None \<Rightarrow> Ok ()))"

section \<open>State-root leaves\<close>

definition resting_order_snapshot :: "RestingOrder \<Rightarrow> RestingOrderSnapshot" where
  "resting_order_snapshot resting = \<lparr> ro_order = rs_order resting, ro_account_id = rs_account_id resting,
     ro_created_at = rs_created_at resting, ro_expires_at_block = rs_expires_at_block resting,
     ro_reserved_balance = rs_reserved_balance resting,
     ro_reserved_positions = sort_key (\<lambda>(market, outcome, qty). (market, outcome))
       (map (\<lambda>((market, outcome), qty). (market, outcome, qty)) (rs_reserved_positions resting)) \<rparr>"

definition resting_order_snapshots :: "RestingOrder list \<Rightarrow> RestingOrderSnapshot list" where
  "resting_order_snapshots orders = sort_key (\<lambda>snapshot. o_id (ro_order snapshot)) (map resting_order_snapshot orders)"

definition leaf_or_default :: "u64 \<Rightarrow> (u64, AccountReservationSnapshot) omap \<Rightarrow> AccountReservationSnapshot" where
  "leaf_or_default account_id by_account =
     get_or by_account account_id \<lparr> ar_account_id = account_id, ar_reserved_balance = 0, ar_reserved_positions = [] \<rparr>"

text \<open>Each account has one balance entry, which is added to zero, so the addition cannot overflow.\<close>

definition leaf_step_balance :: "u64 \<times> i64 \<Rightarrow> (u64, AccountReservationSnapshot) omap \<Rightarrow> (u64, AccountReservationSnapshot) omap" where
  "leaf_step_balance = (\<lambda>(account_id, reserved) m. if reserved = 0 then m
     else let leaf = leaf_or_default account_id m
          in om_ins account_id (leaf\<lparr> ar_reserved_balance := of_val (val (ar_reserved_balance leaf) + val reserved) \<rparr>) m)"

definition leaf_step_position ::
  "(u64 \<times> MarketId \<times> u8) \<times> i64 \<Rightarrow> (u64, AccountReservationSnapshot) omap \<Rightarrow> (u64, AccountReservationSnapshot) omap"
where
  "leaf_step_position = (\<lambda>((account_id, market, outcome), qty) m. if qty = 0 then m
     else let leaf = leaf_or_default account_id m
          in om_ins account_id (leaf\<lparr> ar_reserved_positions := ar_reserved_positions leaf @ [(market, outcome, qty)] \<rparr>) m)"

definition reservation_snapshots_from_aggregates :: "BalanceReservations \<Rightarrow> PositionReservations \<Rightarrow> AccountReservationSnapshot list" where
  "reservation_snapshots_from_aggregates balances positions =
     (let by_account = fold leaf_step_position (entries positions) (fold leaf_step_balance (entries balances) om_empty)
      in map (\<lambda>leaf. leaf\<lparr> ar_reserved_positions := sort_key (\<lambda>(market, outcome, qty). (market, outcome)) (ar_reserved_positions leaf) \<rparr>)
           (om_values by_account))"

definition reservation_snapshots_from_resting_orders :: "RestingOrder list \<Rightarrow> AccountReservationSnapshot list option" where
  "reservation_snapshots_from_resting_orders orders = do {
     aggs \<leftarrow> fold_opt (\<lambda>resting aggs. do {
         balances \<leftarrow> (if 0 < rs_reserved_balance resting
           then add_to (rs_account_id resting) (rs_reserved_balance resting) (fst aggs) else Some (fst aggs));
         positions \<leftarrow> reserve_positions (rs_account_id resting) (filter (\<lambda>(key, qty). qty \<noteq> 0) (rs_reserved_positions resting)) (snd aggs);
         Some (balances, positions) }) orders (om_empty, om_empty);
     Some (reservation_snapshots_from_aggregates (fst aggs) (snd aggs)) }"

definition state_root_orders :: "OrderBook \<Rightarrow> RestingOrderSnapshot list" where
  "state_root_orders book = resting_order_snapshots (ob_orders book)"

definition state_root_reservations :: "OrderBook \<Rightarrow> AccountReservationSnapshot list" where
  "state_root_reservations book = reservation_snapshots_from_aggregates (ob_balance_reservations book) (ob_position_reservations book)"

section \<open>The totals are the sums of the reservations\<close>

definition held :: "AccountId \<Rightarrow> RestingOrder list \<Rightarrow> int" where
  "held a ros = sum_list (map (\<lambda>ro. if rs_account_id ro = a then val (rs_reserved_balance ro) else 0) ros)"

definition qty_of :: "PositionKey \<Rightarrow> (PositionKey \<times> i64) list \<Rightarrow> int" where
  "qty_of k xs = sum_list (map (\<lambda>(key, qty). if key = k then val qty else 0) xs)"

definition held_position :: "AccountId \<Rightarrow> PositionKey \<Rightarrow> RestingOrder list \<Rightarrow> int" where
  "held_position a k ros = sum_list (map (\<lambda>ro. if rs_account_id ro = a then qty_of k (rs_reserved_positions ro) else 0) ros)"

definition total_for :: "Aggregates \<Rightarrow> RestingOrder list \<Rightarrow> bool" where
  "total_for aggs ros \<longleftrightarrow> (\<forall>a. val (get_or (fst aggs) a 0) = held a ros) \<and>
     (\<forall>a k. val (get_or (snd aggs) (a, k) 0) = held_position a k ros)"

definition nonneg :: "RestingOrder \<Rightarrow> bool" where
  "nonneg ro \<longleftrightarrow> 0 \<le> val (rs_reserved_balance ro) \<and> (\<forall>(key, qty) \<in> set (rs_reserved_positions ro). 0 \<le> val qty)"

lemma held_simps [simp]:
  "held a [] = 0" "held a (ro # ros) = (if rs_account_id ro = a then val (rs_reserved_balance ro) else 0) + held a ros"
  "held a (xs @ ys) = held a xs + held a ys"
  by (simp_all add: held_def)

lemma qty_of_simps [simp]:
  "qty_of k [] = 0" "qty_of k ((key, qty) # xs) = (if key = k then val qty else 0) + qty_of k xs"
  by (simp_all add: qty_of_def)

lemma held_position_simps [simp]:
  "held_position a k [] = 0"
  "held_position a k (ro # ros) = (if rs_account_id ro = a then qty_of k (rs_reserved_positions ro) else 0) + held_position a k ros"
  "held_position a k (xs @ ys) = held_position a k xs + held_position a k ys"
  by (simp_all add: held_position_def)

lemma qty_of_nonneg: "\<forall>(key, qty) \<in> set xs. 0 \<le> val qty \<Longrightarrow> 0 \<le> qty_of k xs"
  by (induction xs) auto

lemma qty_of_ge: "\<forall>(key, qty) \<in> set xs. 0 \<le> val qty \<Longrightarrow> (k, q) \<in> set xs \<Longrightarrow> val q \<le> qty_of k xs"
  by (induction xs) (force simp: qty_of_nonneg)+

lemma held_nonneg: "\<forall>ro \<in> set ros. nonneg ro \<Longrightarrow> 0 \<le> held a ros"
  by (induction ros) (auto simp: nonneg_def)

lemma held_position_nonneg: "\<forall>ro \<in> set ros. nonneg ro \<Longrightarrow> 0 \<le> held_position a k ros"
  by (induction ros) (auto simp: nonneg_def qty_of_nonneg)

lemma nonneg_iff: "nonneg ro \<longleftrightarrow> \<not> negative_reservation ro"
  by (auto simp: nonneg_def negative_reservation_def num list_ex_iff)

end
