(* ===== verification/Order_Book_Invariant.thy ===== *)
theory Order_Book_Invariant
  imports Order_Book
begin

text \<open>
  The invariant of the order book: the totals are the sums of the reservations of the resting orders, and every
  resting order reserves what its remaining quantity needs.  Every operation keeps it, so a release never finds
  less reserved than it releases.
\<close>

section \<open>Releases succeed\<close>

lemma release_balance_ok:
  assumes "0 \<le> val amount" "val amount \<le> val (get_or m a 0)"
  shows "\<exists>m'. release_balance m a amount = Ok m' \<and>
    (\<forall>b. val (get_or m' b 0) = val (get_or m b 0) - (if b = a then val amount else 0))"
proof -
  have "fits_i64 (val (get_or m a 0) - val amount)" using assms val_bounds(2) [of "get_or m a 0"] by (simp add: fits_i64_def)
  then show ?thesis using assms by (auto simp: release_balance_def Let_def num)
qed

lemma release_position_ok:
  assumes "0 \<le> val amount" "val amount \<le> val (get_or m (a, k) 0)"
  shows "\<exists>m'. release_position m a k amount = Ok m' \<and>
    (\<forall>b. val (get_or m' b 0) = val (get_or m b 0) - (if b = (a, k) then val amount else 0))"
proof -
  have "fits_i64 (val (get_or m (a, k) 0) - val amount)" using assms val_bounds(2) [of "get_or m (a, k) 0"] by (simp add: fits_i64_def)
  then show ?thesis using assms by (auto simp: release_position_def Let_def num)
qed

lemma release_positions_ok:
  assumes "\<forall>(key, qty) \<in> set xs. 0 \<le> val qty" "\<And>k. qty_of k xs \<le> val (get_or m (a, k) 0)"
  shows "\<exists>m'. release_positions a xs m = (m', Ok ()) \<and>
    (\<forall>b k. val (get_or m' (b, k) 0) = val (get_or m (b, k) 0) - (if b = a then qty_of k xs else 0))"
  using assms
proof (induction xs arbitrary: m)
  case (Cons x xs)
  obtain key qty where x: "x = (key, qty)" by fastforce
  have nn: "\<forall>(key, qty) \<in> set xs. 0 \<le> val qty" "0 \<le> val qty" using Cons.prems(1) x by auto
  have "val qty \<le> val (get_or m (a, key) 0)" using Cons.prems(2) [of key] qty_of_nonneg [OF nn(1), of key] x by simp
  from release_position_ok [OF nn(2) this] obtain m' where m': "release_position m a key qty = Ok m'"
    and all: "\<forall>b. val (get_or m' b 0) = val (get_or m b 0) - (if b = (a, key) then val qty else 0)" by blast
  have g: "val (get_or m' (b, k) 0) = val (get_or m (b, k) 0) - (if b = a \<and> k = key then val qty else 0)" for b k
    using all [rule_format, of "(b, k)"] by simp
  have "qty_of k xs \<le> val (get_or m' (a, k) 0)" for k using Cons.prems(2) [of k] g [of a k] x by (auto split: if_splits)
  from Cons.IH [OF nn(1) this] m' x show ?case by (auto simp: g)
qed simp

lemma release_reservations_ok:
  assumes "nonneg ro" "val (rs_reserved_balance ro) \<le> val (get_or (fst aggs) (rs_account_id ro) 0)"
    and "\<And>k. qty_of k (rs_reserved_positions ro) \<le> val (get_or (snd aggs) (rs_account_id ro, k) 0)"
  shows "\<exists>aggs'. release_reservations aggs ro = (aggs', Ok ()) \<and>
    (\<forall>b. val (get_or (fst aggs') b 0) = val (get_or (fst aggs) b 0) - (if b = rs_account_id ro then val (rs_reserved_balance ro) else 0)) \<and>
    (\<forall>b k. val (get_or (snd aggs') (b, k) 0) =
       val (get_or (snd aggs) (b, k) 0) - (if b = rs_account_id ro then qty_of k (rs_reserved_positions ro) else 0))"
proof -
  obtain balances positions where ag: "aggs = (balances, positions)" by fastforce
  let ?a = "rs_account_id ro"
  have nn: "\<forall>(key, qty) \<in> set (rs_reserved_positions ro). 0 \<le> val qty" "0 \<le> val (rs_reserved_balance ro)"
    using assms(1) by (auto simp: nonneg_def)
  have "val q \<le> val (get_or positions (?a, k) 0)" if "(k, q) \<in> set (rs_reserved_positions ro)" for k q
    using qty_of_ge [OF nn(1) that] assms(3) [of k] by (simp add: ag)
  then have "over_released positions ?a (rs_reserved_positions ro) = None"
    unfolding over_released_def find_None_iff less_i64_def by (metis (mono_tags, lifting) case_prodE not_less)
  moreover obtain b' where b': "(if 0 < rs_reserved_balance ro then release_balance balances ?a (rs_reserved_balance ro) else Ok balances) = Ok b'"
    "\<forall>b. val (get_or b' b 0) = val (get_or balances b 0) - (if b = ?a then val (rs_reserved_balance ro) else 0)"
  proof (cases "0 < rs_reserved_balance ro")
    case True
    with release_balance_ok [OF nn(2), of balances ?a] assms(2) that show ?thesis by (auto simp: ag)
  next
    case False
    with nn(2) that show ?thesis by (auto simp: num)
  qed
  moreover obtain p' where "release_positions ?a (rs_reserved_positions ro) positions = (p', Ok ())"
    "\<forall>b k. val (get_or p' (b, k) 0) = val (get_or positions (b, k) 0) - (if b = ?a then qty_of k (rs_reserved_positions ro) else 0)"
    using release_positions_ok [OF nn(1), of positions ?a] assms(3) by (auto simp: ag)
  ultimately show ?thesis using assms(2)
    by (simp add: release_reservations_def ag num not_less)
qed

lemma total_forD:
  "total_for aggs ros \<Longrightarrow> val (get_or (fst aggs) a 0) = held a ros"
  "total_for aggs ros \<Longrightarrow> val (get_or (snd aggs) (a, k) 0) = held_position a k ros"
  unfolding total_for_def by blast+

lemma total_forI:
  "(\<And>a. val (get_or (fst aggs) a 0) = held a ros) \<Longrightarrow> (\<And>a k. val (get_or (snd aggs) (a, k) 0) = held_position a k ros) \<Longrightarrow>
     total_for aggs ros"
  unfolding total_for_def by blast

text \<open>Releasing one of the orders the totals stand for leaves the totals of the others.\<close>

lemma release_total:
  assumes "total_for aggs (xs @ ro # ys)" "\<forall>r \<in> set (xs @ ro # ys). nonneg r"
  shows "\<exists>aggs'. release_reservations aggs ro = (aggs', Ok ()) \<and> total_for aggs' (xs @ ys)"
proof -
  have n: "nonneg ro" "0 \<le> held (rs_account_id ro) (xs @ ys)" "\<And>k. 0 \<le> held_position (rs_account_id ro) k (xs @ ys)"
    using assms(2) by (auto intro!: held_nonneg held_position_nonneg simp del: held_simps held_position_simps)
  have "val (rs_reserved_balance ro) \<le> val (get_or (fst aggs) (rs_account_id ro) 0)"
    "\<And>k. qty_of k (rs_reserved_positions ro) \<le> val (get_or (snd aggs) (rs_account_id ro, k) 0)"
    using n(2,3) by (simp_all add: total_forD [OF assms(1)])
  from release_reservations_ok [OF n(1) this] obtain aggs' where r: "release_reservations aggs ro = (aggs', Ok ())"
    "\<And>b. val (get_or (fst aggs') b 0) = val (get_or (fst aggs) b 0) - (if b = rs_account_id ro then val (rs_reserved_balance ro) else 0)"
    "\<And>b k. val (get_or (snd aggs') (b, k) 0) =
       val (get_or (snd aggs) (b, k) 0) - (if b = rs_account_id ro then qty_of k (rs_reserved_positions ro) else 0)" by blast
  have "total_for aggs' (xs @ ys)" by (rule total_forI) (simp_all add: r(2,3) total_forD [OF assms(1)])
  with r(1) show ?thesis by blast
qed

lemma add_to_ok:
  "fits_i64 (val (get_or m k 0) + val n) \<Longrightarrow> \<exists>m'. add_to k n m = Some m' \<and>
     (\<forall>j. val (get_or m' j 0) = val (get_or m j 0) + (if j = k then val n else 0))"
  by (auto simp: add_to_def add_i64_def i64_of_def)

lemma add_to_val:
  "add_to k n m = Some m' \<Longrightarrow> val (get_or m' j 0) = val (get_or m j 0) + (if j = k then val n else 0)"
  by (auto simp: add_to_def num)

lemma reserve_positions_val:
  "reserve_positions a xs m = Some m' \<Longrightarrow>
     val (get_or m' (b, k) 0) = val (get_or m (b, k) 0) + (if b = a then qty_of k xs else 0)"
proof (induction xs arbitrary: m)
  case (Cons x xs)
  obtain key qty where x: "x = (key, qty)" by fastforce
  with Cons.prems obtain m1 where m1: "add_to (a, key) qty m = Some m1" "reserve_positions a xs m1 = Some m'"
    by (auto simp: reserve_positions_def opt)
  from Cons.IH [OF m1(2)] add_to_val [OF m1(1), of "(b, k)"] x show ?case by auto
qed (simp add: reserve_positions_def)

lemma reserve_order_total:
  assumes "reserve_order ro aggs = Some aggs'" "total_for aggs ros" "nonneg ro"
  shows "total_for aggs' (ros @ [ro])"
proof -
  let ?a = "rs_account_id ro"
  from assms(1) obtain b p where b: "(if 0 < rs_reserved_balance ro then add_to ?a (rs_reserved_balance ro) (fst aggs) else Some (fst aggs)) = Some b"
    and p: "reserve_positions ?a (rs_reserved_positions ro) (snd aggs) = Some p" and e: "aggs' = (b, p)"
    by (auto simp: reserve_order_def opt)
  have "val (get_or b j 0) = val (get_or (fst aggs) j 0) + (if j = ?a then val (rs_reserved_balance ro) else 0)" for j
    using b assms(3) add_to_val [of ?a "rs_reserved_balance ro" "fst aggs" b j] by (auto simp: nonneg_def num split: if_splits)
  with reserve_positions_val [OF p] e show ?thesis by (intro total_forI) (simp_all add: total_forD [OF assms(2)])
qed

section \<open>The loops\<close>

lemma expire_loop_ok:
  assumes "total_for aggs (pre @ ros)" "\<forall>r \<in> set (pre @ ros). nonneg r"
  shows "\<exists>aggs'. expire_loop P ros aggs = (aggs', Ok (filter P ros, filter (\<lambda>r. \<not> P r) ros)) \<and>
    total_for aggs' (pre @ filter (\<lambda>r. \<not> P r) ros)"
  using assms
proof (induction ros arbitrary: pre aggs)
  case (Cons ro ros)
  show ?case
  proof (cases "P ro")
    case True
    from release_total [OF Cons.prems] obtain aggs' where a: "release_reservations aggs ro = (aggs', Ok ())" "total_for aggs' (pre @ ros)" by blast
    with Cons.IH [OF a(2)] Cons.prems(2) True show ?thesis by auto
  next
    case False
    with Cons.IH [of aggs "pre @ [ro]"] Cons.prems show ?thesis by auto
  qed
qed simp

lemma expire_where_ok:
  assumes "total_for (aggregates book) (ob_orders book)" "\<forall>r \<in> set (ob_orders book). nonneg r"
  shows "\<exists>aggs'. expire_where P book = (with_book book (filter (\<lambda>r. \<not> P r) (ob_orders book)) aggs', Ok (filter P (ob_orders book))) \<and>
    total_for aggs' (filter (\<lambda>r. \<not> P r) (ob_orders book))"
proof -
  from expire_loop_ok [of "aggregates book" "[]" "ob_orders book" P] assms obtain aggs' where
    "expire_loop P (ob_orders book) (aggregates book) = (aggs', Ok (filter P (ob_orders book), filter (\<lambda>r. \<not> P r) (ob_orders book)))"
    "total_for aggs' (filter (\<lambda>r. \<not> P r) (ob_orders book))" by fastforce
  then show ?thesis by (intro exI [of _ aggs']) (simp add: expire_where_def)
qed

lemma remove_loop_ok:
  assumes "total_for aggs ros" "\<forall>r \<in> set ros. nonneg r" "sorted_wrt (>) (map fst xs)" "\<forall>x \<in> set xs. fst x < length ros"
  shows "\<exists>aggs' ros' removed. remove_loop xs ros aggs = Some (ros', aggs', Ok removed) \<and> total_for aggs' ros' \<and>
    (\<forall>r \<in> set ros'. \<exists>j < length ros. j \<notin> fst ` set xs \<and> ros ! j = r) \<and>
    (\<forall>a. held a ros' \<le> held a ros) \<and> (\<forall>a k. held_position a k ros' \<le> held_position a k ros)"
  using assms
proof (induction xs arbitrary: ros aggs)
  case Nil
  then show ?case by (auto simp: in_set_conv_nth)
next
  case (Cons x xs)
  obtain i reason where x: "x = (i, reason)" by fastforce
  let ?ros = "take i ros @ drop (Suc i) ros"
  have i: "i < length ros" using Cons.prems(4) x by simp
  then have split: "ros = take i ros @ ros ! i # drop (Suc i) ros" by (simp add: id_take_nth_drop)
  obtain aggs1 where r: "release_reservations aggs (ros ! i) = (aggs1, Ok ())" "total_for aggs1 ?ros"
    using release_total [of aggs "take i ros" "ros ! i" "drop (Suc i) ros"] Cons.prems(1,2) split by metis
  have nn: "\<forall>r \<in> set ?ros. nonneg r" using Cons.prems(2) by (auto dest: in_set_takeD in_set_dropD)
  have nni: "nonneg (ros ! i)" using Cons.prems(2) i by simp
  have dec: "\<forall>y \<in> set xs. fst y < i" "sorted_wrt (>) (map fst xs)" using Cons.prems(3) x by auto
  then have bnd: "\<forall>y \<in> set xs. fst y < length ?ros" using i by auto
  obtain aggs' ros' removed where ih: "remove_loop xs ?ros aggs1 = Some (ros', aggs', Ok removed)" "total_for aggs' ros'"
    "\<forall>r \<in> set ros'. \<exists>j < length ?ros. j \<notin> fst ` set xs \<and> ?ros ! j = r"
    "\<And>a. held a ros' \<le> held a ?ros" "\<And>a k. held_position a k ros' \<le> held_position a k ?ros"
    using Cons.IH [OF r(2) nn dec(2) bnd] by blast
  have "\<exists>j < length ros. j \<notin> fst ` set (x # xs) \<and> ros ! j = r" if "r \<in> set ros'" for r
  proof -
    from ih(3) that obtain j where j: "j < length ?ros" "j \<notin> fst ` set xs" "?ros ! j = r" by blast
    show ?thesis
    proof (cases "j < i")
      case True
      then show ?thesis using j i x by (intro exI [of _ j]) (auto simp: nth_append)
    next
      case False
      then have "Suc j \<notin> fst ` set xs" using dec(1) by auto
      then show ?thesis using j i x False by (intro exI [of _ "Suc j"]) (auto simp: nth_append min_def)
    qed
  qed
  moreover have "held a ros' \<le> held a ros" for a
    using ih(4) [of a] nni arg_cong [OF split, of "held a"] by (simp add: nonneg_def)
  moreover have "held_position a k ros' \<le> held_position a k ros" for a k
    using ih(5) [of a k] nni arg_cong [OF split, of "held_position a k"] qty_of_nonneg [of "rs_reserved_positions (ros ! i)" k]
    by (auto simp: nonneg_def)
  ultimately show ?case using ih(1,2) r i x by (auto simp: idx_def remove_at_def)
qed

lemma to_remove_shape:
  assumes "to_remove book accounts active = Some xs"
  shows "sorted_wrt (<) (map fst xs)" "\<forall>x \<in> set xs. fst x < length (ob_orders book)"
    "j < length (ob_orders book) \<Longrightarrow> j \<notin> fst ` set xs \<Longrightarrow> revalidation_exit book accounts active (ob_orders book ! j) = Some None"
proof -
  from assms obtain exits where e: "map_opt (revalidation_exit book accounts active) (ob_orders book) = Some exits"
    and xs: "xs = concat (map (\<lambda>(i, exit). case exit of None \<Rightarrow> [] | Some reason \<Rightarrow> [(i, reason)]) (enumerate 0 exits))"
    by (auto simp: to_remove_def)
  have l: "length exits = length (ob_orders book)" and
    n: "\<And>j. j < length exits \<Longrightarrow> revalidation_exit book accounts active (ob_orders book ! j) = Some (exits ! j)"
    using e unfolding map_opt_eq_Some by (auto dest: list_all2_lengthD list_all2_nthD2)
  let ?f = "\<lambda>(i :: nat, exit :: RestingRevalidationExit option). case exit of None \<Rightarrow> [] | Some reason \<Rightarrow> [(i, reason)]"
  have mem: "i \<in> fst ` set (concat (map ?f (enumerate m ys))) \<longleftrightarrow> m \<le> i \<and> i < m + length ys \<and> ys ! (i - m) \<noteq> None" for m ys i
  proof -
    have "i \<in> fst ` set (concat (map ?f zs)) \<longleftrightarrow> (\<exists>r. (i, Some r) \<in> set zs)" for zs
      by (induction zs) (auto split: option.splits)
    then show ?thesis by (auto simp: in_set_enumerate_eq add.commute)
  qed
  have sorted: "sorted_wrt (<) (map fst (concat (map ?f (enumerate m ys))))" for m ys
  proof (induction ys arbitrary: m)
    case (Cons y ys)
    have "\<forall>i \<in> set (map fst (concat (map ?f (enumerate (Suc m) ys)))). m < i" using mem [of _ "Suc m" ys] by simp
    with Cons.IH [of "Suc m"] show ?case by (cases y) auto
  qed simp
  show "sorted_wrt (<) (map fst xs)" unfolding xs by (rule sorted)
  show "\<forall>x \<in> set xs. fst x < length (ob_orders book)"
  proof
    fix x assume "x \<in> set xs"
    then have "fst x \<in> fst ` set (concat (map ?f (enumerate 0 exits)))" unfolding xs by (rule imageI)
    then show "fst x < length (ob_orders book)" unfolding mem l by simp
  qed
  show "revalidation_exit book accounts active (ob_orders book ! j) = Some None"
    if "j < length (ob_orders book)" "j \<notin> fst ` set xs"
    using that(2) n [of j] that(1) unfolding xs mem by (simp add: l)
qed

section \<open>What a resting order reserves\<close>

text \<open>A resting buy reserves at least the worst-case cost of its remaining quantity and at most the cost it was
  admitted with; a resting sell reserves exactly its remaining quantity.\<close>

definition resting_for :: "OrderDirection \<Rightarrow> RestingOrder \<Rightarrow> bool" where
  "resting_for d ro \<longleftrightarrow> (let ord = rs_order ro in
     admitted ord d \<and> o_max_fill ord \<le> rs_original_max_fill ro \<and> rs_original_max_fill ro \<le> MAX_ORDER_QTY \<and>
     rs_reserved_positions ro = (if is_sell_direction d then [(sell_key ord d, of_val (uint (o_max_fill ord)))] else []) \<and>
     (if is_sell_direction d then rs_reserved_balance ro = 0
      else buy_cost ord \<le> val (rs_reserved_balance ro) \<and>
        val (rs_reserved_balance ro) \<le> buy_cost (ord\<lparr> o_max_fill := rs_original_max_fill ro \<rparr>)) \<and>
     (rs_has_been_matched ro \<or> rs_original_max_fill ro = o_max_fill ord))"

definition resting_ok :: "RestingOrder \<Rightarrow> bool" where
  "resting_ok ro \<longleftrightarrow> (\<exists>d. resting_for d ro)"

lemma admitted_max_fill:
  assumes "admitted ord d" "q \<le> MAX_ORDER_QTY"
  shows "admitted (ord\<lparr> o_max_fill := q \<rparr>) d"
  using assms unfolding admitted_def order_wf_def validate_binary_one_hot_def
  by (auto simp: Let_def not_less split: if_splits)

lemma resting_ok_nonneg: "resting_ok ro \<Longrightarrow> nonneg ro"
proof -
  assume "resting_ok ro"
  then obtain d where d: "resting_for d ro" by (auto simp: resting_ok_def)
  then have "admitted (rs_order ro) d" by (simp add: resting_for_def Let_def)
  with d buy_cost_bounds(1) [OF this] show ?thesis
    by (auto simp: resting_for_def Let_def nonneg_def split: if_splits)
qed

lemma bits64_nonneg: "0 \<le> val x \<Longrightarrow> uint (bits64 x) = val x"
proof (cases x)
  case (I64 w)
  assume "0 \<le> val x"
  with I64 uint_bounds(2) [of w] show ?thesis unfolding I64 val_I64 i64.sel by (simp split: if_splits)
qed

lemma scaled:
  assumes "0 \<le> val x" "d \<noteq> 0" "n \<le> d"
  shows "\<exists>y. map_option I64 (ceil_mul_ratio (bits64 x) n d) = Some y \<and> val y = div_ceil (val x * uint n) (uint d) \<and>
    0 \<le> val y \<and> val y \<le> val x"
proof -
  obtain r where r: "ceil_mul_ratio (bits64 x) n d = Some r" using assms(2) by (auto simp: ceil_mul_ratio_eq)
  then have u: "uint r = div_ceil (val x * uint n) (uint d)" using ceil_mul_ratio_uint [OF assms(2,3)] bits64_nonneg [OF assms(1)] by simp
  have le: "uint r \<le> val x" using u div_ceil_ratio_le [OF assms(2,3), of "bits64 x"] bits64_nonneg [OF assms(1)] by simp
  then have "val (I64 r) = uint r" using val_bounds(2) [of x] by (simp add: val_I64)
  with r u le uint_bounds(1) [of r] show ?thesis by simp
qed

text \<open>The proportional remainder still covers the worst-case cost of what remains.\<close>

lemma remainder_cost:
  assumes "buy_cost ord \<le> c" "remaining \<le> o_max_fill ord" "o_max_fill ord \<noteq> 0"
  shows "buy_cost (ord\<lparr> o_max_fill := remaining \<rparr>) \<le> div_ceil (c * uint remaining) (uint (o_max_fill ord))"
proof -
  let ?p = "uint (o_limit_price ord)" and ?m = "uint (o_max_fill ord)" and ?r = "uint remaining"
  let ?k = "div_ceil (c * ?r) ?m"
  have m: "0 < ?m" using assms(3) by (rule uint_pos)
  have c: "?p * ?m \<le> 1000 * c" using assms(1) by (simp add: buy_cost_def div_ceil_least)
  have "?m * (?p * ?r) = (?p * ?m) * ?r" by simp
  also have "\<dots> \<le> (1000 * c) * ?r" using c by (rule mult_right_mono) simp
  also have "\<dots> = 1000 * (c * ?r)" by simp
  also have "\<dots> \<le> 1000 * (?m * ?k)" using div_ceil_bounds(1) [OF m, of "c * ?r"] by simp
  finally have "?m * (?p * ?r) \<le> ?m * (1000 * ?k)" by (simp add: mult.left_commute)
  then have "?p * ?r \<le> 1000 * ?k" using m by simp
  then show ?thesis by (simp add: buy_cost_def div_ceil_least)
qed

lemma release_part:
  assumes "0 \<le> val x" "val y \<le> val x" "0 \<le> val y" "val x \<le> val (get_or m a 0)"
  shows "\<exists>z m'. sub_i64 x y = Some z \<and> (if 0 < z then release_balance m a z else Ok m) = Ok m' \<and>
    (\<forall>b. val (get_or m' b 0) = val (get_or m b 0) - (if b = a then val x - val y else 0))"
proof -
  have "fits_i64 (val x - val y)" using assms val_bounds [of x] by (simp add: fits_i64_def)
  then obtain z where z: "sub_i64 x y = Some z" "val z = val x - val y" by (auto simp: sub_i64_def i64_of_def)
  then have "0 \<le> val z" "val z \<le> val (get_or m a 0)" using assms by auto
  from release_balance_ok [OF this] z assms(2) show ?thesis
    by (cases "0 < z") (auto simp: less_i64_def)
qed

lemma release_position_part:
  assumes "0 \<le> val x" "val y \<le> val x" "0 \<le> val y" "val x \<le> val (get_or m (a, k) 0)"
  shows "\<exists>z m'. sub_i64 x y = Some z \<and> (if 0 < z then release_position m a k z else Ok m) = Ok m' \<and>
    (\<forall>b j. val (get_or m' (b, j) 0) = val (get_or m (b, j) 0) - (if b = a \<and> j = k then val x - val y else 0))"
proof -
  have "fits_i64 (val x - val y)" using assms val_bounds [of x] by (simp add: fits_i64_def)
  then obtain z where z: "sub_i64 x y = Some z" "val z = val x - val y" by (auto simp: sub_i64_def i64_of_def)
  then have "0 \<le> val z" "val z \<le> val (get_or m (a, k) 0)" using assms by auto
  from release_position_ok [OF this] obtain m' where m': "release_position m a k z = Ok m'"
    "\<forall>b. val (get_or m' b 0) = val (get_or m b 0) - (if b = (a, k) then val z else 0)" by blast
  have "val (get_or m' (b, j) 0) = val (get_or m (b, j) 0) - (if b = a \<and> j = k then val x - val y else 0)" for b j
    using m'(2) [rule_format, of "(b, j)"] z(2) by simp
  with z m'(1) assms(2) show ?thesis by (cases "0 < z") (auto simp: less_i64_def)
qed

lemma scale_positions_sell:
  assumes "admitted ord d" "rem \<le> o_max_fill ord" "o_max_fill ord \<noteq> 0" "uint (o_max_fill ord) \<le> val (get_or m (a, k) 0)"
  shows "\<exists>m'. scale_positions a rem (o_max_fill ord) [(k, of_val (uint (o_max_fill ord)))] m = Some (m', Ok [(k, of_val (uint rem))]) \<and>
    (\<forall>b j. val (get_or m' (b, j) 0) = val (get_or m (b, j) 0) - (if b = a \<and> j = k then uint (o_max_fill ord) - uint rem else 0))"
proof -
  let ?q = "of_val (uint (o_max_fill ord))"
  have q: "val ?q = uint (o_max_fill ord)" using assms(1) by simp
  have mp: "0 < uint (o_max_fill ord)" using assms(3) by (rule uint_pos)
  from scaled [of ?q, OF _ assms(3,2)] mp obtain y where y: "map_option I64 (ceil_mul_ratio (bits64 ?q) rem (o_max_fill ord)) = Some y"
    "val y = div_ceil (uint (o_max_fill ord) * uint rem) (uint (o_max_fill ord))" "0 \<le> val y" "val y \<le> val ?q" unfolding q by auto
  have "val y = uint rem" using y(2) mp by (simp add: div_ceil_def)
  moreover have "val (of_val (uint rem)) = uint rem"
  proof (rule val_of_val)
    show "fits_i64 (uint rem)" using fits_val [of y] \<open>val y = uint rem\<close> by simp
  qed
  ultimately have ye: "y = of_val (uint rem)" by (simp add: val_eq_iff)
  from release_position_part [of ?q y m a k] y(3,4) q assms(4) mp obtain z m' where z: "sub_i64 ?q y = Some z"
    "(if 0 < z then release_position m a k z else Ok m) = Ok m'"
    "\<And>b j. val (get_or m' (b, j) 0) = val (get_or m (b, j) 0) - (if b = a \<and> j = k then uint (o_max_fill ord) - uint rem else 0)"
    using \<open>val y = uint rem\<close> by auto
  have "scale_positions a rem (o_max_fill ord) [(k, ?q)] m = Some (m', Ok [(k, y)])"
    by (simp add: y(1) z(1,2))
  with z(3) ye show ?thesis by auto
qed

definition remainder_of :: "OrderDirection \<Rightarrow> RestingOrder \<Rightarrow> u64 \<Rightarrow> i64 \<Rightarrow> RestingOrder" where
  "remainder_of d ro rem c = ro\<lparr> rs_order := (rs_order ro)\<lparr> o_max_fill := rem \<rparr>, rs_reserved_balance := c,
     rs_reserved_positions := (if is_sell_direction d then [(sell_key (rs_order ro) d, of_val (uint rem))] else []),
     rs_has_been_matched := True \<rparr>"

lemma remainder_ok:
  assumes d: "resting_for d ro" and rem: "rem \<le> o_max_fill (rs_order ro)" "o_max_fill (rs_order ro) \<noteq> 0"
    and c: "val c = div_ceil (val (rs_reserved_balance ro) * uint rem) (uint (o_max_fill (rs_order ro)))" "val c \<le> val (rs_reserved_balance ro)"
  shows "resting_for d (remainder_of d ro rem c)"
proof -
  let ?ord = "rs_order ro"
  have adm: "admitted ?ord d" using d by (simp add: resting_for_def Let_def)
  have "o_max_fill ?ord \<le> MAX_ORDER_QTY" using admitted_simps(7) [OF adm] validate_Ok_simps(4) by blast
  with rem(1) have adm': "admitted (?ord\<lparr> o_max_fill := rem \<rparr>) d" using admitted_max_fill [OF adm] by (meson order_trans)
  show ?thesis
  proof (cases "is_sell_direction d")
    case True
    then have "val c = 0" using d c(1) by (simp add: resting_for_def Let_def div_ceil_def)
    with d adm' True rem show ?thesis by (auto simp: resting_for_def Let_def remainder_of_def val_eq_iff)
  next
    case False
    then have "buy_cost ?ord \<le> val (rs_reserved_balance ro)" using d by (simp add: resting_for_def Let_def)
    from remainder_cost [OF this rem] c(1) have "buy_cost (?ord\<lparr> o_max_fill := rem \<rparr>) \<le> val c" by simp
    with d adm' False rem c(2) show ?thesis by (auto simp: resting_for_def Let_def remainder_of_def)
  qed
qed

lemma partial_fill_ok:
  assumes t: "total_for aggs (pre @ ro # post)" and nn: "\<forall>r \<in> set (pre @ ro # post). nonneg r"
    and d: "resting_for d ro" and f: "filled < o_max_fill (rs_order ro)"
  shows "\<exists>aggs' c. let ro' = remainder_of d ro (o_max_fill (rs_order ro) - filled) c in
    partial_fill aggs ro filled = Some (aggs', Ok (Kept ro')) \<and> total_for aggs' (pre @ ro' # post) \<and> resting_for d ro' \<and>
    ceil_mul_ratio (bits64 (rs_reserved_balance ro)) (o_max_fill (rs_order ro) - filled) (o_max_fill (rs_order ro)) = Some (bits64 c)"
proof -
  let ?ord = "rs_order ro" and ?a = "rs_account_id ro" and ?b = "rs_reserved_balance ro"
  let ?m = "o_max_fill ?ord"
  define rem where "rem = ?m - filled"
  have rem: "sub_u64 ?m filled = Some rem" "rem \<le> ?m" "?m \<noteq> 0" "uint ?m - uint rem = uint filled"
    using f unfolding rem_def word_less_def word_le_def by (auto simp: num uint_sub_if')
  have adm: "admitted ?ord d" using d by (simp add: resting_for_def Let_def)
  have b0: "0 \<le> val ?b" using nn by (simp add: nonneg_def)
  have others: "0 \<le> held a (pre @ post)" "0 \<le> held_position a k (pre @ post)" for a k
    using nn by (auto intro!: held_nonneg held_position_nonneg simp del: held_simps held_position_simps)
  from scaled [OF b0 rem(3,2)] obtain c where c: "map_option I64 (ceil_mul_ratio (bits64 ?b) rem ?m) = Some c"
    "val c = div_ceil (val ?b * uint rem) (uint ?m)" "0 \<le> val c" "val c \<le> val ?b" by blast
  have "val ?b \<le> val (get_or (fst aggs) ?a 0)" using others(1) [of ?a] by (simp add: total_forD [OF t])
  from release_part [OF b0 c(4,3) this] obtain z bs where z: "sub_i64 ?b c = Some z"
    "(if 0 < z then release_balance (fst aggs) ?a z else Ok (fst aggs)) = Ok bs"
    "\<And>b. val (get_or bs b 0) = val (get_or (fst aggs) b 0) - (if b = ?a then val ?b - val c else 0)" by blast
  obtain ps where ps: "scale_positions ?a rem ?m (rs_reserved_positions ro) (snd aggs) =
      Some (ps, Ok (rs_reserved_positions (remainder_of d ro rem c)))"
    "\<And>b k. val (get_or ps (b, k) 0) = val (get_or (snd aggs) (b, k) 0) - (if b = ?a then qty_of k (rs_reserved_positions ro) -
       qty_of k (rs_reserved_positions (remainder_of d ro rem c)) else 0)"
  proof (cases "is_sell_direction d")
    case True
    then have xs: "rs_reserved_positions ro = [(sell_key ?ord d, of_val (uint ?m))]" using d by (simp add: resting_for_def Let_def)
    have "uint ?m \<le> val (get_or (snd aggs) (?a, sell_key ?ord d) 0)"
      using others(2) [of ?a "sell_key ?ord d"] adm by (simp add: total_forD [OF t] xs)
    from scale_positions_sell [OF adm rem(2,3) this] obtain ps where ps: "scale_positions ?a rem ?m [(sell_key ?ord d, of_val (uint ?m))] (snd aggs) =
        Some (ps, Ok [(sell_key ?ord d, of_val (uint rem))])"
      "\<And>b j. val (get_or ps (b, j) 0) = val (get_or (snd aggs) (b, j) 0) - (if b = ?a \<and> j = sell_key ?ord d then uint ?m - uint rem else 0)" by blast
    have "admitted (?ord\<lparr> o_max_fill := rem \<rparr>) d"
      using remainder_ok [OF d rem(2,3) c(2,4)] by (simp add: resting_for_def Let_def remainder_of_def)
    from val_max_fill [OF this] have "val (of_val (uint rem)) = uint rem" by simp
    then show ?thesis using ps True adm by (intro that [of ps]) (auto simp: xs remainder_of_def)
  next
    case False
    then have "rs_reserved_positions ro = []" using d by (simp add: resting_for_def Let_def)
    with False that [of "snd aggs"] show ?thesis by (simp add: remainder_of_def)
  qed
  have "partial_fill aggs ro filled = Some ((bs, ps), Ok (Kept (remainder_of d ro rem c)))"
    using ps(1) by (simp add: partial_fill_def rem(1) c(1) z Let_def remainder_of_def)
  moreover have "total_for (bs, ps) (pre @ remainder_of d ro rem c # post)"
    by (rule total_forI) (simp_all add: z(3) ps(2) total_forD [OF t], simp_all add: remainder_of_def)
  moreover have "ceil_mul_ratio (bits64 ?b) rem ?m = Some (bits64 c)" using c(1) by auto
  ultimately show ?thesis using remainder_ok [OF d rem(2,3) c(2,4)] unfolding rem_def Let_def by blast
qed

section \<open>Settlement of the book\<close>

text \<open>The fate of one resting order, as a function of the order alone.\<close>

definition scale :: "i64 \<Rightarrow> u64 \<Rightarrow> u64 \<Rightarrow> i64" where
  "scale x n d = I64 (word_of_int (div_ceil (uint (bits64 x) * uint n) (uint d)))"

definition remainder :: "RestingOrder \<Rightarrow> u64 \<Rightarrow> RestingOrder" where
  "remainder ro filled = (let max_fill = o_max_fill (rs_order ro); rem = max_fill - filled in
     ro\<lparr> rs_order := (rs_order ro)\<lparr> o_max_fill := rem \<rparr>, rs_reserved_balance := scale (rs_reserved_balance ro) rem max_fill,
       rs_reserved_positions := map (\<lambda>(key, qty). (key, scale qty rem max_fill)) (rs_reserved_positions ro),
       rs_has_been_matched := True \<rparr>)"

definition fate :: "(u64, u64) omap \<Rightarrow> u64 set \<Rightarrow> u64 \<Rightarrow> RestingOrder \<Rightarrow> Fate" where
  "fate filled_qty mm_ids current_height ro =
     (if o_id (rs_order ro) \<in> mm_ids then Removed ro Settled
      else let filled = get_or filled_qty (o_id (rs_order ro)) 0;
               ro = (if 0 < filled then ro\<lparr> rs_has_been_matched := True \<rparr> else ro)
           in if o_max_fill (rs_order ro) \<le> filled then Removed ro Settled
              else if rs_expires_at_block ro \<le> current_height then Removed ro Expired
              else if 0 < filled then Kept (remainder ro filled)
              else Kept ro)"

fun kept :: "Fate \<Rightarrow> RestingOrder list" where
  "kept (Kept ro) = [ro]" | "kept (Removed ro exit) = []"

fun gone :: "Fate \<Rightarrow> (RestingOrder \<times> RestingExit) list" where
  "gone (Kept ro) = []" | "gone (Removed ro exit) = [(ro, exit)]"

lemma remainder_of_remainder:
  assumes d: "resting_for d ro" and m: "o_max_fill (rs_order ro) \<noteq> 0"
    and c: "ceil_mul_ratio (bits64 (rs_reserved_balance ro)) (o_max_fill (rs_order ro) - filled) (o_max_fill (rs_order ro)) = Some (bits64 c)"
  shows "remainder_of d ro (o_max_fill (rs_order ro) - filled) c = remainder ro filled"
proof -
  have "c = scale (rs_reserved_balance ro) (o_max_fill (rs_order ro) - filled) (o_max_fill (rs_order ro))"
    using c m by (cases c) (simp add: ceil_mul_ratio_eq scale_def)
  moreover have "map (\<lambda>(key, qty). (key, scale qty rem (o_max_fill (rs_order ro)))) (rs_reserved_positions ro) =
      (if is_sell_direction d then [(sell_key (rs_order ro) d, of_val (uint rem))] else [])" for rem
    using d uint_pos [OF m] by (auto simp: resting_for_def Let_def scale_def of_val_def div_ceil_def)
  ultimately show ?thesis by (simp add: remainder_of_def remainder_def Let_def)
qed

lemma release_matched [simp]: "release_reservations aggs (ro\<lparr> rs_has_been_matched := b \<rparr>) = release_reservations aggs ro"
proof -
  have "rs_account_id (ro\<lparr> rs_has_been_matched := b \<rparr>) = rs_account_id ro"
    "rs_reserved_balance (ro\<lparr> rs_has_been_matched := b \<rparr>) = rs_reserved_balance ro"
    "rs_reserved_positions (ro\<lparr> rs_has_been_matched := b \<rparr>) = rs_reserved_positions ro" by simp_all
  then show ?thesis unfolding release_reservations_def by (simp only:)
qed

lemma resting_for_matched: "resting_for d ro \<Longrightarrow> resting_for d (ro\<lparr> rs_has_been_matched := True \<rparr>)"
  by (simp add: resting_for_def Let_def)

lemma total_for_matched: "total_for aggs (pre @ ro\<lparr> rs_has_been_matched := b \<rparr> # post) = total_for aggs (pre @ ro # post)"
  by (simp add: total_for_def)

lemma settle_order_ok:
  assumes t: "total_for aggs (pre @ ro # post)" and nn: "\<forall>r \<in> set (pre @ post). nonneg r" and ok: "resting_ok ro"
  shows "\<exists>aggs'. settle_order filled_qty mm height ro aggs = Some (aggs', Ok (fate filled_qty mm height ro)) \<and>
    total_for aggs' (pre @ kept (fate filled_qty mm height ro) @ post) \<and> (\<forall>r \<in> set (kept (fate filled_qty mm height ro)). resting_ok r)"
proof -
  obtain d where d: "resting_for d ro" using ok by (auto simp: resting_ok_def)
  have nn': "\<forall>r \<in> set (pre @ ro # post). nonneg r" using nn resting_ok_nonneg [OF ok] by auto
  obtain aggs1 where rel: "release_reservations aggs ro = (aggs1, Ok ())" "total_for aggs1 (pre @ post)"
    using release_total [OF t nn'] by blast
  define filled where "filled = get_or filled_qty (o_id (rs_order ro)) 0"
  define ro1 where "ro1 = (if 0 < filled then ro\<lparr> rs_has_been_matched := True \<rparr> else ro)"
  note defs = settle_order_def fate_def Let_def filled_def [symmetric] release_as_def
  have ro1: "rs_order ro1 = rs_order ro" "release_reservations aggs ro1 = (aggs1, Ok ())" "rs_expires_at_block ro1 = rs_expires_at_block ro"
    using rel(1) by (simp_all add: ro1_def)
  consider (mm) "o_id (rs_order ro) \<in> mm" | (full) "o_id (rs_order ro) \<notin> mm" "o_max_fill (rs_order ro) \<le> filled"
    | (exp) "o_id (rs_order ro) \<notin> mm" "\<not> o_max_fill (rs_order ro) \<le> filled" "rs_expires_at_block ro \<le> height"
    | (part) "o_id (rs_order ro) \<notin> mm" "\<not> o_max_fill (rs_order ro) \<le> filled" "\<not> rs_expires_at_block ro \<le> height" "0 < filled"
    | (keep) "o_id (rs_order ro) \<notin> mm" "\<not> o_max_fill (rs_order ro) \<le> filled" "\<not> rs_expires_at_block ro \<le> height" "\<not> 0 < filled"
    by blast
  then show ?thesis
  proof cases
    case part
    then have r1: "ro1 = ro\<lparr> rs_has_been_matched := True \<rparr>" by (simp add: ro1_def)
    have f: "filled < o_max_fill (rs_order ro1)" "o_max_fill (rs_order ro1) \<noteq> 0" using part(2,4) ro1(1) by (auto simp: not_le)
    have nn1: "\<forall>r \<in> set (pre @ ro1 # post). nonneg r" using nn' by (auto simp: r1 nonneg_def)
    have d1: "resting_for d ro1" unfolding r1 using d by (rule resting_for_matched)
    have t1: "total_for aggs (pre @ ro1 # post)" unfolding r1 total_for_matched by (rule t)
    from partial_fill_ok [OF t1 nn1 d1 f(1)] remainder_of_remainder [OF d1 f(2)] obtain aggs' where
      "partial_fill aggs ro1 filled = Some (aggs', Ok (Kept (remainder ro1 filled)))"
      "total_for aggs' (pre @ remainder ro1 filled # post)" "resting_for d (remainder ro1 filled)"
      unfolding Let_def by metis
    with part ro1 show ?thesis unfolding r1 by (intro exI [of _ aggs']) (auto simp: settle_order_def fate_def filled_def [symmetric] resting_ok_def)
  next
    case keep
    then have "settle_order filled_qty mm height ro aggs = Some (aggs, Ok (fate filled_qty mm height ro))" "fate filled_qty mm height ro = Kept ro"
      by (simp_all add: settle_order_def fate_def filled_def [symmetric])
    with t ok show ?thesis by auto
  qed (rule exI [of _ aggs1]; simp add: defs rel)+
qed

lemma settle_loop_ok:
  assumes "total_for aggs (pre @ ros)" "\<forall>r \<in> set pre. nonneg r" "\<forall>r \<in> set ros. resting_ok r"
  shows "\<exists>aggs'. let fates = map (fate filled_qty mm height) ros in
    settle_loop filled_qty mm height ros aggs = Some (aggs', Ok (concat (map kept fates), concat (map gone fates))) \<and>
    total_for aggs' (pre @ concat (map kept fates)) \<and> (\<forall>r \<in> set (concat (map kept fates)). resting_ok r)"
  using assms
proof (induction ros arbitrary: pre aggs)
  case (Cons ro ros)
  let ?F = "fate filled_qty mm height"
  have "\<forall>r \<in> set (pre @ ros). nonneg r" "resting_ok ro" using Cons.prems resting_ok_nonneg by auto
  from settle_order_ok [OF Cons.prems(1) this, of filled_qty mm height] obtain aggs1 where
    s: "settle_order filled_qty mm height ro aggs = Some (aggs1, Ok (?F ro))"
    and t: "total_for aggs1 ((pre @ kept (?F ro)) @ ros)" and k: "\<forall>r \<in> set (kept (?F ro)). resting_ok r" by auto
  have "\<forall>r \<in> set (pre @ kept (?F ro)). nonneg r" using Cons.prems(2) k resting_ok_nonneg by auto
  with Cons.IH [OF t] Cons.prems(3) obtain aggs' where
    "settle_loop filled_qty mm height ros aggs1 = Some (aggs', Ok (concat (map kept (map ?F ros)), concat (map gone (map ?F ros))))"
    "total_for aggs' (pre @ kept (?F ro) @ concat (map kept (map ?F ros)))" "\<forall>r \<in> set (concat (map kept (map ?F ros))). resting_ok r"
    unfolding Let_def append_assoc by fastforce
  with s k show ?case by (intro exI [of _ aggs']) (cases "?F ro"; auto simp: Let_def)
qed simp

end
