(* ===== verification/Order_Book_Reach.thy ===== *)
theory Order_Book_Reach
  imports Order_Book_Invariant
begin

text \<open>
  The books the sequencer can reach: from an empty book, by any sequence of the operations of the order book.
  Every reachable book satisfies the invariant, so no operation on it trips over a release, and it survives a
  restart.
\<close>

definition book_ok :: "OrderBook \<Rightarrow> bool" where
  "book_ok book \<longleftrightarrow> total_for (aggregates book) (ob_orders book) \<and>
     (\<forall>ro \<in> set (ob_orders book). resting_ok ro \<and> rs_expires_at_block ro \<le> saturating_add_u64 (rs_created_at ro) (ob_ttl book))"

lemma with_book_simps [simp]:
  "ob_orders (with_book book ros aggs) = ros" "aggregates (with_book book ros aggs) = aggs" "ob_ttl (with_book book ros aggs) = ob_ttl book"
  "ob_balance_reservations (with_book book ros aggs) = fst aggs" "ob_position_reservations (with_book book ros aggs) = snd aggs"
  by (simp_all add: with_book_def aggregates_def)

lemma book_okD:
  assumes "book_ok book"
  shows "total_for (aggregates book) (ob_orders book)" "\<forall>ro \<in> set (ob_orders book). resting_ok ro" "\<forall>ro \<in> set (ob_orders book). nonneg ro"
    "\<forall>ro \<in> set (ob_orders book). rs_expires_at_block ro \<le> saturating_add_u64 (rs_created_at ro) (ob_ttl book)"
  using assms resting_ok_nonneg by (auto simp: book_ok_def)

text \<open>A book that keeps some of the orders, with their totals.\<close>

lemma book_ok_subset:
  "book_ok book \<Longrightarrow> total_for aggs ros \<Longrightarrow> set ros \<subseteq> set (ob_orders book) \<Longrightarrow> book_ok (with_book book ros aggs)"
  by (auto simp: book_ok_def)

section \<open>The operations keep the invariant\<close>

lemma expire_where_keeps:
  assumes "book_ok book"
  shows "\<exists>removed. snd (expire_where P book) = Ok removed" "book_ok (fst (expire_where P book))"
    "ob_orders (fst (expire_where P book)) = filter (\<lambda>ro. \<not> P ro) (ob_orders book)"
  using expire_where_ok [OF book_okD(1,3) [OF assms], of P] book_ok_subset [OF assms] by auto

lemma index_of_Some: "index_of P xs = Some i \<Longrightarrow> i < length xs \<and> P (xs ! i)"
  by (induction xs arbitrary: i) (auto split: if_splits)

lemma cancel_keeps:
  assumes "book_ok book"
  shows "snd (cancel a i book) \<noteq> Err (Reservation e)" "book_ok (fst (cancel a i book))"
proof -
  have "snd (cancel a i book) \<noteq> Err (Reservation e) \<and> book_ok (fst (cancel a i book))"
  proof (cases "cancel_index book a i")
    case (Ok j)
    let ?ros = "ob_orders book"
    have j: "j < length ?ros" using Ok index_of_Some by (fastforce simp: cancel_index_def split: option.splits if_splits)
    then have split: "?ros = take j ?ros @ ?ros ! j # drop (Suc j) ?ros" by (simp add: id_take_nth_drop)
    obtain aggs where r: "release_reservations (aggregates book) (?ros ! j) = (aggs, Ok ())" "total_for aggs (take j ?ros @ drop (Suc j) ?ros)"
      using release_total [of "aggregates book" "take j ?ros" "?ros ! j" "drop (Suc j) ?ros"] book_okD(1,3) [OF assms] split by metis
    have "book_ok (with_book book (take j ?ros @ drop (Suc j) ?ros) aggs)"
      using assms r(2) by (rule book_ok_subset) (auto dest: in_set_takeD in_set_dropD)
    with Ok r(1) show ?thesis by (simp add: cancel_def)
  next
    case (Err e')
    then have "e' \<noteq> Reservation e" by (auto simp: cancel_index_def split: option.splits if_splits)
    with Err assms show ?thesis by (simp add: cancel_def)
  qed
  then show "snd (cancel a i book) \<noteq> Err (Reservation e)" "book_ok (fst (cancel a i book))" by auto
qed

lemma revalidate_parts:
  assumes "book_ok book" "revalidate accounts active book = Some (book', r)"
  shows "\<exists>removed. r = Ok removed" "book_ok book'"
    "\<And>ro. ro \<in> set (ob_orders book') \<Longrightarrow> ro \<in> set (ob_orders book) \<and> revalidation_exit book accounts active ro = Some None"
    "\<And>a. held a (ob_orders book') \<le> held a (ob_orders book)" "\<And>a k. held_position a k (ob_orders book') \<le> held_position a k (ob_orders book)"
proof -
  from assms(2) obtain exits where e: "to_remove book accounts active = Some exits" by (auto simp: revalidate_def opt)
  note sh = to_remove_shape [OF e]
  have "sorted_wrt (>) (map fst (rev exits))" using sh(1) by (simp add: rev_map [symmetric] sorted_wrt_rev)
  from remove_loop_ok [OF book_okD(1,3) [OF assms(1)] this] sh(2) obtain aggs ros removed where
    l: "remove_loop (rev exits) (ob_orders book) (aggregates book) = Some (ros, aggs, Ok removed)" "total_for aggs ros"
      "\<forall>ro \<in> set ros. \<exists>j < length (ob_orders book). j \<notin> fst ` set (rev exits) \<and> ob_orders book ! j = ro"
      "\<And>a. held a ros \<le> held a (ob_orders book)" "\<And>a k. held_position a k ros \<le> held_position a k (ob_orders book)"
    by (metis set_rev)
  have eq: "book' = with_book book ros aggs" "r = Ok removed" using assms(2) e l(1) by (simp_all add: revalidate_def)
  have sub: "ro \<in> set (ob_orders book) \<and> revalidation_exit book accounts active ro = Some None" if "ro \<in> set ros" for ro
    using l(3) that sh(3) by fastforce
  then show "\<exists>removed. r = Ok removed" "book_ok book'"
    "\<And>ro. ro \<in> set (ob_orders book') \<Longrightarrow> ro \<in> set (ob_orders book) \<and> revalidation_exit book accounts active ro = Some None"
    using eq book_ok_subset [OF assms(1) l(2)] by auto
  show "\<And>a. held a (ob_orders book') \<le> held a (ob_orders book)" "\<And>a k. held_position a k (ob_orders book') \<le> held_position a k (ob_orders book)"
    using l(4,5) by (simp_all add: eq(1))
qed

lemma fate_created:
  assumes "ro' \<in> set (kept (fate fq mm h ro))"
  shows "rs_created_at ro' = rs_created_at ro" "rs_expires_at_block ro' = rs_expires_at_block ro" "h < rs_expires_at_block ro'"
  using assms by (auto simp: fate_def remainder_def Let_def not_le split: if_splits)

lemma settle_parts:
  assumes "book_ok book" "filled_quantities fills = Some fq"
  shows "\<exists>book'. book_settle fills mm h book = Some (book', Ok (concat (map (\<lambda>ro. gone (fate fq mm h ro)) (ob_orders book)))) \<and>
    ob_orders book' = concat (map (\<lambda>ro. kept (fate fq mm h ro)) (ob_orders book)) \<and> book_ok book' \<and> ob_ttl book' = ob_ttl book"
proof -
  from settle_loop_ok [of "aggregates book" "[]" "ob_orders book" fq mm h] book_okD(1,2) [OF assms(1)] obtain aggs where
    s: "settle_loop fq mm h (ob_orders book) (aggregates book) = Some (aggs,
        Ok (concat (map (\<lambda>ro. kept (fate fq mm h ro)) (ob_orders book)), concat (map (\<lambda>ro. gone (fate fq mm h ro)) (ob_orders book))))"
      "total_for aggs (concat (map (\<lambda>ro. kept (fate fq mm h ro)) (ob_orders book)))"
      "\<forall>r \<in> set (concat (map (\<lambda>ro. kept (fate fq mm h ro)) (ob_orders book))). resting_ok r"
    unfolding Let_def map_map comp_def append_Nil by auto
  let ?b = "with_book book (concat (map (\<lambda>ro. kept (fate fq mm h ro)) (ob_orders book))) aggs"
  have "rs_expires_at_block ro' \<le> saturating_add_u64 (rs_created_at ro') (ob_ttl book)"
    if "ro \<in> set (ob_orders book)" "ro' \<in> set (kept (fate fq mm h ro))" for ro ro'
    using book_okD(4) [OF assms(1)] that fate_created [OF that(2)] by auto
  with s(2,3) have "book_ok ?b" by (auto simp: book_ok_def)
  with s(1) assms(2) show ?thesis by (intro exI [of _ ?b]) (simp add: book_settle_def)
qed

lemma acct_positions [simp]: "get_or (acct_position_reservations book a) k 0 = get_or (ob_position_reservations book) (a, k) 0"
proof -
  let ?g = "\<lambda>xs. map (\<lambda>((aid :: AccountId, key :: PositionKey), qty :: i64). (key, qty)) (filter (\<lambda>((aid, key), qty). aid = a) xs)"
  have d: "distinct (map fst xs) \<Longrightarrow> distinct (map fst (?g xs))" for xs
    by (induction xs) (auto simp: image_iff)
  have m: "map_of (?g xs) k = map_of xs (a, k)" for xs by (induction xs) auto
  have "lookup (acct_position_reservations book a) k = lookup (ob_position_reservations book) (a, k)"
    unfolding acct_position_reservations_def lookup_om_of_list_distinct [OF d [OF distinct_keys(1)]] m
    by (simp add: lookup_entries)
  then show ?thesis by (simp add: get_or_def)
qed

lemma effective_expiry_le: "effective_expires_at_block ord created ttl \<le> saturating_add_u64 created ttl"
  by (simp add: effective_expires_at_block_def Let_def)

lemma accept_parts:
  assumes "book_ok book" "order_wf ord" "accept book ord a account h ms = Some (book', Ok acc)"
  obtains d ro where "admitted ord d" "resting_for d ro" "rs_order ro = ord" "rs_account_id ro = a" "acc_resting_order acc = ro"
    "ob_orders book' = ob_orders book @ [ro]" "ob_ttl book' = ob_ttl book" "total_for (aggregates book') (ob_orders book')"
    "rs_expires_at_block ro = effective_expires_at_block ord h (ob_ttl book)" "rs_created_at ro = h" "\<not> rs_has_been_matched ro"
    "validate_order_with_reservation ord account (reserved_balance book a) (acct_position_reservations book a) = Some (Ok (rs_reserved_balance ro))"
proof -
  from assms(3) obtain r where r: "validate_order_with_reservation ord account (reserved_balance book a) (acct_position_reservations book a) = Some r"
    by (auto simp: accept_def opt)
  with assms(3) obtain cost where "r = Ok cost" by (cases r) (auto simp: accept_def)
  with r have v: "validate_order_with_reservation ord account (reserved_balance book a) (acct_position_reservations book a) = Some (Ok cost)" by simp
  with assms(3) obtain xs where s: "sell_reservations ord = Some xs" by (auto simp: accept_def opt)
  define ro where "ro = \<lparr> rs_order = ord, rs_account_id = a, rs_created_at = h, rs_expires_at_block = effective_expires_at_block ord h (ob_ttl book),
    rs_reserved_balance = cost, rs_reserved_positions = xs, rs_has_been_matched = False, rs_original_max_fill = o_max_fill ord, rs_created_at_ms = ms \<rparr>"
  from assms(3) v s obtain aggs where r: "reserve_order ro (aggregates book) = Some aggs"
    and b: "book' = with_book book (ob_orders book @ [ro]) aggs" "acc_resting_order acc = ro"
    by (auto simp: accept_def opt Let_def ro_def [symmetric])
  from v have "validate_order_shape ord = Ok ()" by (auto simp: validate_order_with_reservation_def split: result.splits)
  then obtain d where d: "admitted ord d" using admittedI assms(2) by blast
  have "cost = (if is_sell_direction d then 0 else of_val (buy_cost ord))" "ac_balance account = ac_balance account"
    using v by (auto simp: admitted_validate [OF d] opt Let_def split: if_splits)
  moreover have "xs = (if is_sell_direction d then [(sell_key ord d, of_val (uint (o_max_fill ord)))] else [])"
    using s by (simp add: admitted_sell_reservations [OF d])
  moreover have "o_max_fill ord \<le> MAX_ORDER_QTY" using admitted_simps(7) [OF d] validate_Ok_simps(4) by blast
  ultimately have ro: "resting_for d ro" using d by (simp add: resting_for_def ro_def Let_def)
  then have "nonneg ro" using resting_ok_nonneg resting_ok_def by blast
  from reserve_order_total [OF r book_okD(1) [OF assms(1)] this] d ro v b show ?thesis
    by (intro that [of d ro]) (simp_all add: ro_def)
qed

lemma accept_rejects: "accept book ord a account h ms = Some (book', Err e) \<Longrightarrow> book' = book"
proof -
  assume acc: "accept book ord a account h ms = Some (book', Err e)"
  then obtain r where "validate_order_with_reservation ord account (reserved_balance book a) (acct_position_reservations book a) = Some r"
    by (auto simp: accept_def opt)
  with acc show ?thesis by (cases r) (auto simp: accept_def opt Let_def)
qed

lemma accept_keeps:
  assumes "book_ok book" "order_wf ord" "accept book ord a account h ms = Some (book', r)"
  shows "book_ok book'" "ob_ttl book' = ob_ttl book"
proof -
  have "book_ok book' \<and> ob_ttl book' = ob_ttl book"
  proof (cases r)
    case (Ok acc)
    from accept_parts [OF assms(1,2) assms(3) [unfolded Ok]] obtain d ro where
      "resting_for d ro" "ob_orders book' = ob_orders book @ [ro]" "ob_ttl book' = ob_ttl book" "total_for (aggregates book') (ob_orders book')"
      "rs_expires_at_block ro = effective_expires_at_block ord h (ob_ttl book)" "rs_created_at ro = h" by metis
    with assms(1) show ?thesis by (auto simp: book_ok_def resting_ok_def effective_expiry_le)
  next
    case (Err e)
    with accept_rejects assms(1,3) show ?thesis by blast
  qed
  then show "book_ok book'" "ob_ttl book' = ob_ttl book" by auto
qed

lemma reserve_positions_ok:
  assumes "\<forall>(key, qty) \<in> set xs. 0 \<le> val qty" "\<And>k. 0 \<le> val (get_or m (a, k) 0)"
    and "\<And>k. val (get_or m (a, k) 0) + qty_of k xs \<le> 9223372036854775807"
  shows "\<exists>m'. reserve_positions a xs m = Some m'"
  using assms
proof (induction xs arbitrary: m)
  case (Cons x xs)
  obtain key qty where x: "x = (key, qty)" by fastforce
  have nn: "\<forall>(key, qty) \<in> set xs. 0 \<le> val qty" "0 \<le> val qty" using Cons.prems(1) x by auto
  have "val (get_or m (a, key) 0) + val qty \<le> 9223372036854775807"
    using Cons.prems(3) [of key] qty_of_nonneg [OF nn(1), of key] x by simp
  then have "fits_i64 (val (get_or m (a, key) 0) + val qty)" using Cons.prems(2) [of key] nn(2) unfolding fits_i64_def by linarith
  then obtain m1 where m1: "add_to (a, key) qty m = Some m1" using add_to_ok by blast
  note g = add_to_val [OF m1]
  have "0 \<le> val (get_or m1 (a, k) 0)" "val (get_or m1 (a, k) 0) + qty_of k xs \<le> 9223372036854775807" for k
    using Cons.prems(2,3) [of k] nn(2) x by (auto simp: g)
  from Cons.IH [OF nn(1) this] m1 x show ?case by (auto simp: reserve_positions_def)
qed (simp add: reserve_positions_def)

lemma reserve_order_ok:
  assumes "total_for aggs ros" "\<forall>r \<in> set (ros @ [ro]). nonneg r"
    and "\<And>a. held a (ros @ [ro]) \<le> 9223372036854775807" "\<And>a k. held_position a k (ros @ [ro]) \<le> 9223372036854775807"
  shows "\<exists>aggs'. reserve_order ro aggs = Some aggs' \<and> total_for aggs' (ros @ [ro])"
proof -
  let ?a = "rs_account_id ro"
  have nn: "\<forall>r \<in> set ros. nonneg r" "nonneg ro" using assms(2) by auto
  have "fits_i64 (val (get_or (fst aggs) ?a 0) + val (rs_reserved_balance ro))"
    using assms(3) [of ?a] held_nonneg [OF nn(1), of ?a] nn(2) by (simp add: total_forD [OF assms(1)] fits_i64_def nonneg_def)
  then obtain b where b: "(if 0 < rs_reserved_balance ro then add_to ?a (rs_reserved_balance ro) (fst aggs) else Some (fst aggs)) = Some b"
    using add_to_ok [of "fst aggs" ?a "rs_reserved_balance ro"] by (cases "0 < rs_reserved_balance ro") auto
  obtain p where "reserve_positions ?a (rs_reserved_positions ro) (snd aggs) = Some p"
    using reserve_positions_ok [of "rs_reserved_positions ro" "snd aggs" ?a] assms(4) [of ?a] held_position_nonneg [OF nn(1)] nn(2)
    by (auto simp: total_forD [OF assms(1)] nonneg_def)
  with b have "reserve_order ro aggs = Some (b, p)" by (simp add: reserve_order_def)
  with reserve_order_total [OF this assms(1) nn(2)] show ?thesis by blast
qed

lemma reserve_all_ok:
  assumes "total_for aggs pre" "\<forall>r \<in> set (pre @ ros). nonneg r"
    and "\<And>a. held a (pre @ ros) \<le> 9223372036854775807" "\<And>a k. held_position a k (pre @ ros) \<le> 9223372036854775807"
  shows "\<exists>aggs'. fold_opt reserve_order ros aggs = Some aggs' \<and> total_for aggs' (pre @ ros)"
  using assms
proof (induction ros arbitrary: pre aggs)
  case (Cons ro ros)
  have rest: "0 \<le> held a ros" "0 \<le> held_position a k ros" for a k
    using Cons.prems(2) by (auto intro: held_nonneg held_position_nonneg)
  have "held a (pre @ [ro]) \<le> 9223372036854775807" "held_position a k (pre @ [ro]) \<le> 9223372036854775807" for a k
    using Cons.prems(3) [of a] Cons.prems(4) [of a k] rest(1) [of a] rest(2) [of a k] by simp_all
  with reserve_order_ok [OF Cons.prems(1), of ro] Cons.prems(2) obtain aggs1 where
    a1: "reserve_order ro aggs = Some aggs1" "total_for aggs1 (pre @ [ro])" by auto
  from Cons.IH [OF a1(2)] Cons.prems(2-4) a1(1) show ?case by simp
qed simp

lemma restore_ok:
  assumes "book_ok book"
  shows "\<exists>aggs. restore (ob_orders book) ttl = Some (with_book (book_new ttl) (ob_orders book) aggs) \<and> total_for aggs (ob_orders book)"
proof -
  have "total_for (om_empty, om_empty) []" by (simp add: total_for_def)
  moreover have "held a (ob_orders book) \<le> 9223372036854775807" "held_position a k (ob_orders book) \<le> 9223372036854775807" for a k
    using total_forD [OF book_okD(1) [OF assms], symmetric] val_bounds(2) by simp_all
  ultimately obtain aggs where "fold_opt reserve_order (ob_orders book) (om_empty, om_empty) = Some aggs" "total_for aggs (ob_orders book)"
    using reserve_all_ok [of "(om_empty, om_empty)" "[]" "ob_orders book"] book_okD(3) [OF assms] by auto
  moreover have "filter (\<lambda>ro. \<not> negative_reservation ro) (ob_orders book) = ob_orders book"
    using book_okD(3) [OF assms] by (simp add: filter_id_conv nonneg_iff)
  ultimately show ?thesis by (intro exI [of _ aggs]) (simp add: restore_def)
qed

lemma restore_keeps: "book_ok book \<Longrightarrow> restore (ob_orders book) (ob_ttl book) = Some book' \<Longrightarrow> book_ok book'"
  using restore_ok [of book "ob_ttl book"] by (auto simp: book_ok_def book_new_def)

lemma reinsert_keeps:
  assumes "book_ok book" "reinsert_for_replay book ro = Some (book', r)" "resting_ok ro"
    "rs_expires_at_block ro \<le> saturating_add_u64 (rs_created_at ro) (ob_ttl book)"
  shows "book_ok book'" "r = Ok ()"
proof -
  have nn: "nonneg ro" using assms(3) by (rule resting_ok_nonneg)
  with assms(2) obtain aggs where a: "reserve_order ro (aggregates book) = Some aggs" "book' = with_book book (ob_orders book @ [ro]) aggs" "r = Ok ()"
    by (auto simp: reinsert_for_replay_def nonneg_iff opt)
  from reserve_order_total [OF a(1) book_okD(1) [OF assms(1)] nn] a assms show "book_ok book'" "r = Ok ()"
    by (auto simp: book_ok_def)
qed

section \<open>Reachable books\<close>

text \<open>The contract of an operation of the book: it keeps the invariant and does not trip over a release.\<close>

locale book_operation =
  fixes op :: "OrderBook \<Rightarrow> (OrderBook \<times> ('e, 'a) result) option" and tripped :: "'e \<Rightarrow> bool"
  assumes keeps: "book_ok book \<Longrightarrow> op book = Some (book', r) \<Longrightarrow> book_ok book'"
    and no_trip: "book_ok book \<Longrightarrow> op book = Some (book', Err e) \<Longrightarrow> \<not> tripped e"
begin

lemma runs_keep:
  "book_ok book \<Longrightarrow> fold_opt (\<lambda>_ b. map_option fst (op b)) xs book = Some book' \<Longrightarrow> book_ok book'"
  by (induction xs arbitrary: book) (auto simp: opt dest: keeps)

end

definition is_reservation :: "CancelError \<Rightarrow> bool" where
  "is_reservation e \<longleftrightarrow> (\<exists>r. e = Reservation r)"

interpretation op_accept: book_operation "\<lambda>book. if order_wf ord then accept book ord a account h ms else None" "\<lambda>e. False" for ord a account h ms
  by unfold_locales (auto split: if_splits dest: accept_keeps)

interpretation op_expire: book_operation "\<lambda>book. Some (expire h book)" "\<lambda>e. True" for h
  by unfold_locales (metis expire_where_keeps(2) expire_def fst_conv option.inject,
      metis expire_where_keeps(1) expire_def snd_conv option.inject result.distinct(1))

interpretation op_expire_committed: book_operation "\<lambda>book. Some (expire_committed_through h book)" "\<lambda>e. True" for h
  by unfold_locales (metis expire_where_keeps(2) expire_committed_through_def fst_conv option.inject,
      metis expire_where_keeps(1) expire_committed_through_def snd_conv option.inject result.distinct(1))

interpretation op_revalidate: book_operation "revalidate accounts active" "\<lambda>e. True" for accounts active
  by unfold_locales (auto dest: revalidate_parts)

interpretation op_cancel: book_operation "\<lambda>book. Some (cancel a i book)" is_reservation for a i
  by unfold_locales (metis cancel_keeps(2) fst_conv option.inject, metis cancel_keeps(1) is_reservation_def snd_conv option.inject)

interpretation op_settle: book_operation "book_settle fills mm h" "\<lambda>e. True" for fills mm h
proof
  fix book book' :: OrderBook and r e
  assume ok: "book_ok book"
  show "book_ok book'" if s: "book_settle fills mm h book = Some (book', r)"
  proof -
    from s obtain fq where "filled_quantities fills = Some fq" by (auto simp: book_settle_def opt)
    from settle_parts [OF ok this, of mm h] s show ?thesis by auto
  qed
  show "\<not> True" if s: "book_settle fills mm h book = Some (book', Err e)"
  proof -
    from s obtain fq where "filled_quantities fills = Some fq" by (auto simp: book_settle_def opt)
    from settle_parts [OF ok this, of mm h] s show ?thesis by auto
  qed
qed

inductive reachable :: "u64 \<Rightarrow> OrderBook \<Rightarrow> bool" for ttl where
  new: "reachable ttl (book_new ttl)"
| accept: "reachable ttl book \<Longrightarrow> order_wf ord \<Longrightarrow> accept book ord a account h ms = Some (book', r) \<Longrightarrow> reachable ttl book'"
| expire: "reachable ttl book \<Longrightarrow> expire h book = (book', r) \<Longrightarrow> reachable ttl book'"
| expire_committed: "reachable ttl book \<Longrightarrow> expire_committed_through h book = (book', r) \<Longrightarrow> reachable ttl book'"
| revalidate: "reachable ttl book \<Longrightarrow> revalidate accounts active book = Some (book', r) \<Longrightarrow> reachable ttl book'"
| cancel: "reachable ttl book \<Longrightarrow> cancel a i book = (book', c) \<Longrightarrow> reachable ttl book'"
| settle: "reachable ttl book \<Longrightarrow> book_settle fills mm h book = Some (book', s) \<Longrightarrow> reachable ttl book'"
| replay: "reachable ttl book \<Longrightarrow> reachable ttl other \<Longrightarrow> ro \<in> set (ob_orders other) \<Longrightarrow>
    reinsert_for_replay book ro = Some (book', s') \<Longrightarrow> reachable ttl book'"
| restart: "reachable ttl book \<Longrightarrow> restore (book_snapshot book) ttl = Some book' \<Longrightarrow> reachable ttl book'"

lemma ttl_kept:
  "expire_where P book = (book', r) \<Longrightarrow> ob_ttl book' = ob_ttl book"
  "revalidate accounts active book = Some (book', r') \<Longrightarrow> ob_ttl book' = ob_ttl book"
  "cancel a i book = (book', c) \<Longrightarrow> ob_ttl book' = ob_ttl book"
  "book_settle fills mm h book = Some (book', s) \<Longrightarrow> ob_ttl book' = ob_ttl book"
proof -
  show "ob_ttl book' = ob_ttl book" if s: "book_settle fills mm h book = Some (book', s)"
  proof -
    from s obtain aggs r where "(case r of Err e \<Rightarrow> (with_book book [] aggs, Err e)
        | Ok (new_orders, removed) \<Rightarrow> (with_book book new_orders aggs, Ok removed)) = (book', s)" by (auto simp: book_settle_def opt)
    then show ?thesis by (auto split: result.splits prod.splits)
  qed
qed (auto simp: expire_where_def revalidate_def cancel_def Let_def opt split: prod.splits result.splits)

lemma reachable_ok: "reachable ttl book \<Longrightarrow> book_ok book \<and> ob_ttl book = ttl"
proof (induction rule: reachable.induct)
  case new
  show ?case by (simp add: book_ok_def book_new_def aggregates_def total_for_def)
next
  case (accept book ord a account h ms book' r)
  then show ?case using accept_keeps by blast
next
  case (expire book h book' r)
  then show ?case using op_expire.keeps ttl_kept(1) by (metis expire_def)
next
  case (expire_committed book h book' r)
  then show ?case using op_expire_committed.keeps ttl_kept(1) by (metis expire_committed_through_def)
next
  case (revalidate book accounts active book' r)
  then show ?case using op_revalidate.keeps ttl_kept(2) by blast
next
  case (cancel book a i book' c)
  then show ?case using op_cancel.keeps ttl_kept(3) by metis
next
  case (settle book fills mm h book' s)
  then show ?case using op_settle.keeps ttl_kept(4) by blast
next
  case (replay book other ro book' s')
  then have "resting_ok ro" "rs_expires_at_block ro \<le> saturating_add_u64 (rs_created_at ro) (ob_ttl book)"
    using book_okD(2,4) [of other] by auto
  with replay show ?case using reinsert_keeps(1) [of book ro book' s'] by (auto simp: reinsert_for_replay_def opt split: if_splits)
next
  case (restart book book')
  then show ?case using restore_keeps [of book book'] by (auto simp: book_snapshot_def restore_def opt Let_def book_new_def)
qed

section \<open>Admission\<close>

lemma accept_admits:
  assumes ok: "book_ok book" and d: "admitted ord d"
    and v: "validate_order_with_reservation ord account (reserved_balance book a) (acct_position_reservations book a) = Some (Ok cost)"
  shows "\<exists>book' acc. accept book ord a account h ms = Some (book', Ok acc)"
proof -
  define xs where "xs = (if is_sell_direction d then [(sell_key ord d, of_val (uint (o_max_fill ord)))] else [])"
  define ro where "ro = \<lparr> rs_order = ord, rs_account_id = a, rs_created_at = h, rs_expires_at_block = effective_expires_at_block ord h (ob_ttl book),
    rs_reserved_balance = cost, rs_reserved_positions = xs, rs_has_been_matched = False, rs_original_max_fill = o_max_fill ord, rs_created_at_ms = ms \<rparr>"
  note t = total_forD [OF book_okD(1) [OF ok], symmetric]
  have cost: "cost = (if is_sell_direction d then 0 else of_val (buy_cost ord))"
    using v by (auto simp: admitted_validate [OF d] opt Let_def split: if_splits)
  then have "nonneg ro" using d buy_cost_bounds(1) [OF d] by (simp add: nonneg_def ro_def xs_def)
  moreover have "held b (ob_orders book @ [ro]) \<le> 9223372036854775807" for b
  proof (cases "is_sell_direction d \<or> b \<noteq> a")
    case True
    then show ?thesis using val_bounds(2) by (auto simp: t ro_def cost)
  next
    case False
    then have "held b (ob_orders book @ [ro]) \<le> val (ac_balance account)"
      using v d by (auto simp: admitted_validate [OF d] opt Let_def t reserved_balance_def aggregates_def ro_def cost num not_less split: if_splits)
    then show ?thesis using val_bounds(2) [of "ac_balance account"] by linarith
  qed
  moreover have "held_position b k (ob_orders book @ [ro]) \<le> 9223372036854775807" for b k
  proof (cases "\<not> is_sell_direction d \<or> b \<noteq> a \<or> k \<noteq> sell_key ord d")
    case True
    then have "qty_of k xs = 0 \<or> b \<noteq> a" by (auto simp: xs_def)
    then show ?thesis using val_bounds(2) by (auto simp: t ro_def)
  next
    case False
    then have "held_position b k (ob_orders book @ [ro]) \<le> val (position account (o_markets ord ! 0) (direction_outcome d))"
      using v d by (auto simp: admitted_validate [OF d] opt Let_def t aggregates_def ro_def xs_def num not_less split: if_splits)
    then show ?thesis using val_bounds(2) [of "position account (o_markets ord ! 0) (direction_outcome d)"] by linarith
  qed
  ultimately obtain aggs where "reserve_order ro (aggregates book) = Some aggs"
    using reserve_order_ok [OF book_okD(1) [OF ok], of ro] book_okD(3) [OF ok] by auto
  then show ?thesis using v by (simp add: accept_def admitted_sell_reservations [OF d] xs_def [symmetric] Let_def ro_def [symmetric])
qed

lemma accept_returns:
  assumes ok: "book_ok book" and wf: "order_wf ord" and bal: "0 \<le> val (ac_balance account)" and pos: "\<forall>m out. 0 \<le> val (position account m out)"
  shows "\<exists>book' r. accept book ord a account h ms = Some (book', r)"
proof (cases "validate_order_shape ord")
  case (Err e)
  then show ?thesis by (auto simp: accept_def validate_order_with_reservation_def)
next
  case (Ok u)
  then obtain d where d: "admitted ord d" using admittedI wf by blast
  note t = total_forD [OF book_okD(1) [OF ok], unfolded aggregates_def fst_conv snd_conv]
  let ?b = "reserved_balance book a" and ?p = "\<lambda>k. get_or (ob_position_reservations book) (a, k) 0"
  have nn: "0 \<le> val ?b" "0 \<le> val (?p k)" for k
    using held_nonneg [OF book_okD(3) [OF ok], of a] held_position_nonneg [OF book_okD(3) [OF ok], of a k]
    by (simp_all add: reserved_balance_def t)
  have "fits_i64 (val (ac_balance account) - val ?b)" "fits_i64 (val (position account m out) - val (?p k))" for m out k
    using nn(1) nn(2) [of k] bal pos [rule_format, of m out] val_bounds [of "ac_balance account"] val_bounds [of "position account m out"]
      val_bounds [of ?b] val_bounds [of "?p k"] unfolding fits_i64_def by linarith+
  then have "\<exists>r. validate_order_with_reservation ord account ?b (acct_position_reservations book a) = Some r"
    by (simp add: admitted_validate [OF d] sub_i64_def i64_of_def Let_def)
  then obtain r where r: "validate_order_with_reservation ord account ?b (acct_position_reservations book a) = Some r" ..
  show ?thesis
  proof (cases r)
    case (Err e)
    with r show ?thesis by (simp add: accept_def)
  next
    case (Ok cost)
    with accept_admits [OF ok d] r show ?thesis by blast
  qed
qed

section \<open>A reachable book\<close>

definition sample_sell :: RestingOrder where
  "sample_sell = \<lparr> rs_order = one_hot_order 1 0 SellYes 500000000 4000, rs_account_id = 7, rs_created_at = 3, rs_expires_at_block = 13,
     rs_reserved_balance = 0, rs_reserved_positions = [((0, 0), of_val 4000)], rs_has_been_matched = False,
     rs_original_max_fill = 4000, rs_created_at_ms = 0 \<rparr>"

definition sample_buy :: RestingOrder where
  "sample_buy = \<lparr> rs_order = one_hot_order 2 0 BuyYes 600000000 1000, rs_account_id = 7, rs_created_at = 4, rs_expires_at_block = 14,
     rs_reserved_balance = of_val 600000000, rs_reserved_positions = [], rs_has_been_matched = False,
     rs_original_max_fill = 1000, rs_created_at_ms = 0 \<rparr>"

definition sample_book :: OrderBook where
  "sample_book = \<lparr> ob_orders = [sample_sell, sample_buy], ob_balance_reservations = om_ins 7 (of_val 600000000) om_empty,
     ob_position_reservations = om_ins (7, (0, 0)) (of_val 4000) om_empty, ob_ttl = 10 \<rparr>"

lemma one_hot_admitted:
  "admitted (one_hot_order i m d lim qty) d \<longleftrightarrow> m \<noteq> market_none \<and> lim \<le> NANOS_PER_DOLLAR \<and> qty \<le> MAX_ORDER_QTY"
  by (auto simp: admitted_def one_hot_order_valid)

lemma sample_admitted:
  "admitted (one_hot_order 1 0 SellYes 500000000 4000) SellYes" "admitted (one_hot_order 2 0 BuyYes 600000000 1000) BuyYes"
  by (simp_all add: one_hot_admitted num word_le_def market_none_def u32_max_def)

lemmas sample_admission = sample_admitted [THEN admitted_validate] sample_admitted [THEN admitted_sell_reservations]

lemma sample_account [simp]:
  "ac_balance seller_account = of_val 1000000000" "position seller_account 0 0 = of_val 10000" "ac_id seller_account = 7"
  by (simp_all add: seller_account_def account_new_def position_def)

lemma sample_accepts:
  "\<exists>acc. accept (book_new 10) (one_hot_order 1 0 SellYes 500000000 4000) 7 seller_account 3 0 =
     Some (sample_book\<lparr> ob_orders := [sample_sell], ob_balance_reservations := om_empty \<rparr>, Ok acc)"
  "\<exists>acc. accept (sample_book\<lparr> ob_orders := [sample_sell], ob_balance_reservations := om_empty \<rparr>)
     (one_hot_order 2 0 BuyYes 600000000 1000) 7 seller_account 4 0 = Some (sample_book, Ok acc)"
  by (simp_all add: accept_def sample_admission is_sell_direction_def direction_outcome_def book_new_def reserved_balance_def sub_i64_def i64_of_def
      fits_i64_def less_i64_def reserve_order_def reserve_positions_def aggregates_def with_book_def add_to_def add_i64_def buy_cost_def
      div_ceil_def effective_expires_at_block_def saturating_add_u64_def add_u64_def u64_of_def fits_u64_def
      sample_book_def sample_sell_def sample_buy_def Let_def)

lemma sample_book_reachable: "reachable 10 sample_book"
  using sample_accepts reachable.accept reachable.new one_hot_order_wf by metis

section \<open>Properties\<close>

text \<open>C2: in every reachable book the totals are exactly the sums of the reservations of the resting orders, per
  account and per account and outcome; every resting buy reserves at least the worst-case cost of its remaining
  quantity and at most the cost it was admitted with, and every resting sell exactly its remaining quantity.\<close>

theorem reachable_totals_exact:
  assumes "reachable ttl book"
  shows "(\<forall>a. val (reserved_balance book a) =
      sum_list (map (\<lambda>ro. val (rs_reserved_balance ro)) (filter (\<lambda>ro. rs_account_id ro = a) (ob_orders book)))) \<and>
    (\<forall>a k. val (get_or (ob_position_reservations book) (a, k) 0) =
      sum_list (map (\<lambda>ro. qty_of k (rs_reserved_positions ro)) (filter (\<lambda>ro. rs_account_id ro = a) (ob_orders book)))) \<and>
    (\<forall>ro \<in> set (ob_orders book). \<exists>d. admitted (rs_order ro) d \<and>
      (if is_sell_direction d
       then rs_reserved_balance ro = 0 \<and> rs_reserved_positions ro = [(sell_key (rs_order ro) d, of_val (uint (o_max_fill (rs_order ro))))]
       else rs_reserved_positions ro = [] \<and> buy_cost (rs_order ro) \<le> val (rs_reserved_balance ro) \<and>
         val (rs_reserved_balance ro) \<le> buy_cost ((rs_order ro)\<lparr> o_max_fill := rs_original_max_fill ro \<rparr>)))"
proof -
  have ok: "book_ok book" using reachable_ok assms by blast
  have f: "sum_list (map (\<lambda>ro. if rs_account_id ro = a then g ro else 0) ros) = sum_list (map g (filter (\<lambda>ro. rs_account_id ro = a) ros))"
    for g :: "RestingOrder \<Rightarrow> int" and ros a by (induction ros) auto
  note t = total_forD [OF book_okD(1) [OF ok], unfolded aggregates_def fst_conv snd_conv]
  have "\<exists>d. admitted (rs_order ro) d \<and>
      (if is_sell_direction d
       then rs_reserved_balance ro = 0 \<and> rs_reserved_positions ro = [(sell_key (rs_order ro) d, of_val (uint (o_max_fill (rs_order ro))))]
       else rs_reserved_positions ro = [] \<and> buy_cost (rs_order ro) \<le> val (rs_reserved_balance ro) \<and>
         val (rs_reserved_balance ro) \<le> buy_cost ((rs_order ro)\<lparr> o_max_fill := rs_original_max_fill ro \<rparr>))"
    if "ro \<in> set (ob_orders book)" for ro
  proof -
    from that obtain d where "resting_for d ro" using book_okD(2) [OF ok] by (auto simp: resting_ok_def)
    then show ?thesis by (intro exI [of _ d]) (simp add: resting_for_def Let_def split: if_splits)
  qed
  then show ?thesis by (simp add: reserved_balance_def t held_def held_position_def f)
qed

theorem reachable_totals_exact_witness:
  "val (reserved_balance sample_book 7) = 600000000 \<and>
   sum_list (map (\<lambda>ro. val (rs_reserved_balance ro)) (filter (\<lambda>ro. rs_account_id ro = 7) (ob_orders sample_book))) = 600000000"
proof -
  have "val (reserved_balance sample_book 7) =
      sum_list (map (\<lambda>ro. val (rs_reserved_balance ro)) (filter (\<lambda>ro. rs_account_id ro = 7) (ob_orders sample_book)))"
    using reachable_totals_exact [OF sample_book_reachable] by blast
  moreover have "val (reserved_balance sample_book 7) = 600000000" by (simp add: reserved_balance_def sample_book_def fits_i64_def)
  ultimately show ?thesis by simp
qed

text \<open>C8: the release tripwires never fire.  On a reachable book the two expiry sweeps return, a cancellation
  fails only because the order is missing or belongs to someone else, and revalidation and settlement report no
  reservation error.\<close>

theorem releases_never_trip:
  assumes "reachable ttl book"
  shows "(\<exists>removed. snd (expire h book) = Ok removed) \<and> (\<exists>removed. snd (expire_committed_through h book) = Ok removed) \<and>
    (\<forall>e. snd (cancel a i book) \<noteq> Err (Reservation e)) \<and>
    (\<forall>book' r. revalidate accounts active book = Some (book', r) \<longrightarrow> (\<exists>removed. r = Ok removed)) \<and>
    (\<forall>book' r. book_settle fills mm h book = Some (book', r) \<longrightarrow> (\<exists>removed. r = Ok removed))"
proof -
  have ok: "book_ok book" using reachable_ok assms by blast
  have "\<exists>removed. r = Ok removed" if "book_settle fills mm h book = Some (book', r)" for book' r
    using op_settle.no_trip [OF ok] that by (cases r) auto
  with ok show ?thesis
    unfolding expire_def expire_committed_through_def using expire_where_keeps(1) cancel_keeps(1) revalidate_parts(1) by blast
qed

theorem releases_never_trip_witness: "\<exists>removed. snd (expire 20 sample_book) = Ok removed"
  using releases_never_trip [OF sample_book_reachable] by blast

text \<open>C3: admission never over-commits.  On a reachable book, for an account with non-negative balance and
  positions, \<open>accept\<close> returns without an overflow; a rejection leaves the book unchanged, and when the order is
  admitted the account's reserved balance stays within its balance (for a buy) and the reserved quantity of the
  outcome within its position (for a sell).\<close>

theorem accept_never_overcommits:
  assumes "reachable ttl book" "order_wf ord" "0 \<le> val (ac_balance account)" "\<forall>m out. 0 \<le> val (position account m out)"
  shows "\<exists>book' r. accept book ord a account h ms = Some (book', r) \<and>
    (case r of
       Err reason \<Rightarrow> book' = book
     | Ok acc \<Rightarrow> ob_orders book' = ob_orders book @ [acc_resting_order acc] \<and>
         (rs_reserved_positions (acc_resting_order acc) = [] \<longrightarrow> val (reserved_balance book' a) \<le> val (ac_balance account)) \<and>
         (\<forall>(key, qty) \<in> set (rs_reserved_positions (acc_resting_order acc)).
            val (get_or (ob_position_reservations book') (a, key) 0) \<le> val (position account (fst key) (snd key))))"
proof -
  have ok: "book_ok book" using reachable_ok assms(1) by blast
  obtain book' r where acc: "accept book ord a account h ms = Some (book', r)" using accept_returns [OF ok assms(2-4)] by blast
  show ?thesis
  proof (cases r)
    case (Err e)
    with acc show ?thesis using accept_rejects by (intro exI [of _ book'] exI [of _ r]) simp
  next
    case (Ok ac)
    from accept_parts [OF ok assms(2) acc [unfolded Ok]] obtain d ro where
      d: "admitted ord d" "resting_for d ro" "rs_order ro = ord" "rs_account_id ro = a" "acc_resting_order ac = ro"
      and b: "ob_orders book' = ob_orders book @ [ro]" "total_for (aggregates book') (ob_orders book')"
      and v: "validate_order_with_reservation ord account (reserved_balance book a) (acct_position_reservations book a) = Some (Ok (rs_reserved_balance ro))"
      by metis
    note t = total_forD [OF book_okD(1) [OF ok], symmetric] total_forD [OF b(2)]
    have "val (reserved_balance book' a) \<le> val (ac_balance account)" if "\<not> is_sell_direction d"
      using v that d by (auto simp: admitted_validate [OF d(1)] opt Let_def reserved_balance_def t [unfolded aggregates_def fst_conv]
          b(1) num not_less split: if_splits)
    moreover have "val (get_or (ob_position_reservations book') (a, key) 0) \<le> val (position account (fst key) (snd key))"
      if "is_sell_direction d" "key = sell_key ord d" for key
      using v that d by (auto simp: admitted_validate [OF d(1)] opt Let_def t [unfolded aggregates_def snd_conv] resting_for_def
          b(1) num not_less split: if_splits)
    ultimately show ?thesis using acc Ok b(1) d
      by (intro exI [of _ book'] exI [of _ r]) (auto simp: resting_for_def Let_def)
  qed
qed

theorem accept_never_overcommits_witness:
  "\<exists>book' r. accept sample_book (one_hot_order 3 0 BuyYes 400000000 1000) 7 seller_account 5 0 = Some (book', r) \<and>
     (case r of Err reason \<Rightarrow> book' = sample_book
      | Ok acc \<Rightarrow> ob_orders book' = [sample_sell, sample_buy, acc_resting_order acc])"
proof -
  have p: "\<forall>m out. 0 \<le> val (position seller_account m out)"
    by (simp add: position_def seller_account_def account_new_def fits_i64_def)
  have b: "0 \<le> val (ac_balance seller_account)" by (simp add: fits_i64_def)
  have w: "order_wf (one_hot_order 3 0 BuyYes 400000000 1000)" by simp
  have o: "ob_orders sample_book = [sample_sell, sample_buy]" by (simp add: sample_book_def)
  show ?thesis
  proof (rule exE [OF accept_never_overcommits [OF sample_book_reachable w b p, where a = 7 and h = 5 and ms = 0]], elim exE conjE)
    fix book' r assume a: "accept sample_book (one_hot_order 3 0 BuyYes 400000000 1000) 7 seller_account 5 0 = Some (book', r)"
      and "case r of Err reason \<Rightarrow> book' = sample_book
        | Ok acc \<Rightarrow> ob_orders book' = ob_orders sample_book @ [acc_resting_order acc] \<and>
         (rs_reserved_positions (acc_resting_order acc) = [] \<longrightarrow> val (reserved_balance book' 7) \<le> val (ac_balance seller_account)) \<and>
         (\<forall>(key, qty) \<in> set (rs_reserved_positions (acc_resting_order acc)).
            val (get_or (ob_position_reservations book') (7, key) 0) \<le> val (position seller_account (fst key) (snd key)))"
    then show ?thesis by (intro exI [of _ book'] exI [of _ r]) (cases r; simp add: o)
  qed
qed

definition filled_of :: "Fill list \<Rightarrow> u64 \<Rightarrow> int" where
  "filled_of fills i = sum_list (map (\<lambda>f. if f_order_id f = i then uint (f_fill_qty f) else 0) fills)"

lemma filled_of_le: "filled_of fills i \<le> sum_list (map (\<lambda>f. uint (f_fill_qty f)) fills)"
  unfolding filled_of_def by (rule sum_list_mono) auto

lemma filled_quantities_fold:
  assumes "\<And>i. uint (get_or m i 0) + filled_of fills i \<le> 18446744073709551615"
  shows "\<exists>fq. fold_opt (\<lambda>f m.
     if 0 < f_fill_qty f
     then map_option (\<lambda>v. om_ins (f_order_id f) v m) (add_u64 (get_or m (f_order_id f) 0) (f_fill_qty f))
     else Some m) fills m = Some fq \<and> (\<forall>i. uint (get_or fq i 0) = uint (get_or m i 0) + filled_of fills i)"
  using assms
proof (induction fills arbitrary: m)
  case (Cons f fills)
  let ?i = "f_order_id f" and ?q = "f_fill_qty f"
  have rest: "0 \<le> filled_of fills i" for i unfolding filled_of_def by (rule sum_list_nonneg) auto
  have fof: "filled_of (f # fills) i = (if i = ?i then uint ?q else 0) + filled_of fills i" for i by (simp add: filled_of_def)
  show ?case
  proof (cases "0 < ?q")
    case True
    have "uint (get_or m ?i 0) + uint ?q \<le> 18446744073709551615" using Cons.prems [of ?i] rest [of ?i] by (simp add: fof)
    then have "fits_u64 (uint (get_or m ?i 0) + uint ?q)" using uint_bounds(1) [of "get_or m ?i 0"] uint_bounds(1) [of ?q]
      unfolding fits_u64_def by linarith
    then obtain v where v0: "add_u64 (get_or m ?i 0) ?q = Some v" by (auto simp: add_u64_def u64_of_def)
    then have v: "add_u64 (get_or m ?i 0) ?q = Some v" "uint v = uint (get_or m ?i 0) + uint ?q"
      by (simp_all add: add_u64_def u64_of_eq_Some)
    have "uint (get_or (om_ins ?i v m) i 0) + filled_of fills i \<le> 18446744073709551615" for i
      using Cons.prems [of i] by (auto simp: fof v(2))
    from Cons.IH [OF this] v True show ?thesis by (auto simp: fof)
  next
    case False
    then have "?q = 0" by (simp add: word_neq_0_conv [symmetric])
    then have "filled_of (f # fills) i = filled_of fills i" for i by (simp add: fof)
    with Cons.IH [of m] Cons.prems False show ?thesis by simp
  qed
qed (simp add: filled_of_def)

text \<open>C9: settlement of the book returns and every order leaves the book.  On a reachable book, for fills whose
  total quantity fits in 64 bits, \<open>settle\<close> returns without abort or error; an order stays exactly when it is not a
  market-maker order, is not fully filled and has not reached its expiry block, with the filled quantity taken off
  and its reservations scaled; so no order rests at or beyond the block \<open>created + ttl\<close>.\<close>

theorem settle_expires_everything:
  assumes "reachable ttl book" "sum_list (map (\<lambda>f. uint (f_fill_qty f)) fills) \<le> 18446744073709551615"
  shows "\<exists>book' fq removed. book_settle fills mm h book = Some (book', Ok removed) \<and>
    (\<forall>i. uint (get_or fq i 0) = filled_of fills i) \<and>
    ob_orders book' = concat (map (\<lambda>ro. kept (fate fq mm h ro)) (ob_orders book)) \<and>
    removed = concat (map (\<lambda>ro. gone (fate fq mm h ro)) (ob_orders book)) \<and>
    (\<forall>ro \<in> set (ob_orders book'). h < rs_expires_at_block ro \<and> uint h < uint (rs_created_at ro) + uint ttl)"
proof -
  have ok: "book_ok book" "ob_ttl book = ttl" using reachable_ok assms(1) by auto
  have "uint (get_or om_empty i 0 :: u64) + filled_of fills i \<le> 18446744073709551615" for i
    using filled_of_le [of fills i] assms(2) by simp
  from filled_quantities_fold [OF this] obtain fq where fq: "filled_quantities fills = Some fq" "\<forall>i. uint (get_or fq i 0) = filled_of fills i"
    by (auto simp: filled_quantities_def)
  from settle_parts [OF ok(1) fq(1), of mm h] obtain book' where s:
    "book_settle fills mm h book = Some (book', Ok (concat (map (\<lambda>ro. gone (fate fq mm h ro)) (ob_orders book))))"
    "ob_orders book' = concat (map (\<lambda>ro. kept (fate fq mm h ro)) (ob_orders book))" "book_ok book'" "ob_ttl book' = ob_ttl book" by blast
  have "h < rs_expires_at_block ro \<and> uint h < uint (rs_created_at ro) + uint ttl" if "ro \<in> set (ob_orders book')" for ro
  proof -
    have h: "h < rs_expires_at_block ro" using that fate_created(3) unfolding s(2) by auto
    have "rs_expires_at_block ro \<le> saturating_add_u64 (rs_created_at ro) ttl" using book_okD(4) [OF s(3)] that s(4) ok(2) by simp
    then have "uint (rs_expires_at_block ro) \<le> uint (rs_created_at ro) + uint ttl" by (simp add: word_le_def uint_saturating_add)
    with h show ?thesis by (simp add: word_less_def)
  qed
  with s fq(2) show ?thesis by (intro exI [of _ book'] exI [of _ fq] exI) simp
qed

theorem settle_expires_everything_witness:
  "\<exists>book' removed. book_settle [fill_new 2 400 550000000] {} 5 sample_book = Some (book', Ok removed)"
  using settle_expires_everything [OF sample_book_reachable, of "[fill_new 2 400 550000000]" "{}" 5] by (simp add: fill_new_def; blast)

lemma without_self_single:
  assumes "without_self m [(k, q)] = Some m'" "val q \<le> val (get_or m k 0)" "0 \<le> val q"
  shows "val (get_or m' k 0) = val (get_or m k 0) - val q"
  using assms by (auto simp: without_self_def get_or_def num opt split: option.splits)

lemma revalidation_exit_None:
  assumes "revalidation_exit book accounts active ro = Some None"
  obtains account x m c where "list_all (\<lambda>m. m \<in> active) (active_markets (rs_order ro))"
    "get_account accounts (rs_account_id ro) = Some account" "\<not> ac_balance account \<le> 0"
    "sub_i64 (reserved_balance book (rs_account_id ro)) (rs_reserved_balance ro) = Some x"
    "without_self (acct_position_reservations book (rs_account_id ro)) (rs_reserved_positions ro) = Some m"
    "validate_order_with_reservation (rs_order ro) account x m = Some (Ok c)"
proof -
  from assms have act: "list_all (\<lambda>m. m \<in> active) (active_markets (rs_order ro))" by (auto simp: revalidation_exit_def split: if_splits)
  with assms obtain account where account: "get_account accounts (rs_account_id ro) = Some account" "\<not> ac_balance account \<le> 0"
    by (auto simp: revalidation_exit_def split: option.splits if_splits)
  with assms act obtain x m r where x: "sub_i64 (reserved_balance book (rs_account_id ro)) (rs_reserved_balance ro) = Some x"
    "without_self (acct_position_reservations book (rs_account_id ro)) (rs_reserved_positions ro) = Some m"
    and r: "validate_order_with_reservation (rs_order ro) account x m = Some r"
      "(case r of Err reason \<Rightarrow> Some (Rejected reason) | Ok _ \<Rightarrow> None) = None"
    by (auto simp: revalidation_exit_def opt)
  from r(2) obtain c where "r = Ok c" by (cases r) auto
  with r(1) x act account show ?thesis by (intro that) auto
qed

lemma held_position_ge:
  assumes "\<forall>r \<in> set ros. nonneg r" "ro \<in> set ros"
  shows "qty_of k (rs_reserved_positions ro) \<le> held_position (rs_account_id ro) k ros"
proof -
  from assms(2) obtain ys zs where "ros = ys @ ro # zs" by (meson split_list)
  then show ?thesis using held_position_nonneg [of ys _ k] held_position_nonneg [of zs _ k] assms(1) by (simp add: add_increasing)
qed

text \<open>C10: after revalidation every resting order can be paid for.  Its markets are active, its account exists and has a
  positive balance; for a buy, the worst-case cost of the order fits in the balance beside everything the account has
  reserved for its other orders, and if the order was never matched all reservations of the account together fit in the
  balance; for a sell, everything the account has reserved on that outcome is within its position.  (A partially
  filled buy may keep more reserved than its worst-case cost, because each partial fill rounds its share up; that
  excess is not covered by the check and is not claimed to be.)\<close>

theorem revalidated_orders_covered:
  assumes "reachable ttl book" "revalidate accounts active book = Some (book', r)" "ro \<in> set (ob_orders book')"
  shows "\<exists>account. get_account accounts (rs_account_id ro) = Some account \<and> 0 < val (ac_balance account) \<and>
    set (active_markets (rs_order ro)) \<subseteq> active \<and>
    (rs_reserved_positions ro = [] \<longrightarrow>
       (val (reserved_balance book' (rs_account_id ro)) - val (rs_reserved_balance ro)) + buy_cost (rs_order ro) \<le> val (ac_balance account)) \<and>
    (rs_reserved_positions ro = [] \<and> \<not> rs_has_been_matched ro \<longrightarrow>
       val (reserved_balance book' (rs_account_id ro)) \<le> val (ac_balance account)) \<and>
    (\<forall>(key, qty) \<in> set (rs_reserved_positions ro).
       val (get_or (ob_position_reservations book') (rs_account_id ro, key) 0) \<le> val (position account (fst key) (snd key)))"
proof -
  have ok: "book_ok book" using reachable_ok assms(1) by blast
  note p = revalidate_parts [OF ok assms(2)]
  let ?a = "rs_account_id ro" and ?ord = "rs_order ro"
  have in_book: "ro \<in> set (ob_orders book)" and ex: "revalidation_exit book accounts active ro = Some None" using p(3) [OF assms(3)] by auto
  from revalidation_exit_None [OF ex] obtain account x m c where act: "list_all (\<lambda>m. m \<in> active) (active_markets ?ord)"
    and account: "get_account accounts ?a = Some account" "\<not> ac_balance account \<le> 0"
    and x: "sub_i64 (reserved_balance book ?a) (rs_reserved_balance ro) = Some x"
    and m: "without_self (acct_position_reservations book ?a) (rs_reserved_positions ro) = Some m"
    and v: "validate_order_with_reservation ?ord account x m = Some (Ok c)" .
  obtain d where d: "resting_for d ro" using book_okD(2) [OF ok] in_book by (auto simp: resting_ok_def)
  then have adm: "admitted ?ord d" by (simp add: resting_for_def Let_def)
  note t = total_forD [OF book_okD(1) [OF ok], unfolded aggregates_def fst_conv snd_conv]
    total_forD [OF book_okD(1) [OF p(2)], unfolded aggregates_def fst_conv snd_conv]
  have "(val (reserved_balance book' ?a) - val (rs_reserved_balance ro)) + buy_cost ?ord \<le> val (ac_balance account)" if "\<not> is_sell_direction d"
  proof -
    from v that have "buy_cost ?ord \<le> val (ac_balance account) - val x" using adm
      by (auto simp: admitted_validate [OF adm] opt Let_def num not_less split: if_splits)
    moreover have "val x = val (reserved_balance book ?a) - val (rs_reserved_balance ro)" using x by (simp add: num)
    moreover have "val (reserved_balance book' ?a) \<le> val (reserved_balance book ?a)" using p(4) by (simp add: reserved_balance_def t)
    ultimately show ?thesis by linarith
  qed
  moreover have "val (get_or (ob_position_reservations book') (?a, sell_key ?ord d) 0) \<le> val (position account (o_markets ?ord ! 0) (direction_outcome d))"
    if "is_sell_direction d"
  proof -
    let ?k = "sell_key ?ord d" and ?q = "of_val (uint (o_max_fill ?ord))"
    have xs: "rs_reserved_positions ro = [(?k, ?q)]" using d that by (simp add: resting_for_def Let_def)
    have q: "val ?q = uint (o_max_fill ?ord)" using adm by simp
    from held_position_ge [OF book_okD(3) [OF ok] in_book, of ?k] have "val ?q \<le> val (get_or (acct_position_reservations book ?a) ?k 0)" by (simp add: xs t)
    from without_self_single [OF m [unfolded xs] this] q uint_bounds(1) [of "o_max_fill ?ord"]
    have "val (get_or m ?k 0) = val (get_or (ob_position_reservations book) (?a, ?k) 0) - uint (o_max_fill ?ord)" by simp
    moreover have "uint (o_max_fill ?ord) \<le> val (position account (o_markets ?ord ! 0) (direction_outcome d)) - val (get_or m ?k 0)"
      using v that adm by (auto simp: admitted_validate [OF adm] opt Let_def num not_less split: if_splits)
    moreover have "val (get_or (ob_position_reservations book') (?a, ?k) 0) \<le> val (get_or (ob_position_reservations book) (?a, ?k) 0)"
      using p(5) by (simp add: t)
    ultimately show ?thesis by linarith
  qed
  ultimately show ?thesis using account act d
    by (intro exI [of _ account]) (auto simp: resting_for_def Let_def list_all_iff num not_le split: if_splits)
qed

definition sample_accounts :: AccountStore where
  "sample_accounts = \<lparr> sto_accounts = om_ins 7 seller_account om_empty, sto_next_id = 8 \<rparr>"

lemma sample_revalidate: "revalidate sample_accounts {0} sample_book = Some (sample_book, Ok [])"
proof -
  have "get_or (acct_position_reservations sample_book 7) (0, 0) 0 = of_val 4000"
    unfolding acct_positions by (simp add: sample_book_def)
  moreover have "lookup (acct_position_reservations sample_book 7) (0, 0) \<noteq> None"
    by (simp add: acct_position_reservations_def sample_book_def om_of_list_def)
  ultimately have "lookup (acct_position_reservations sample_book 7) (0, 0) = Some (of_val 4000)"
    by (auto simp: get_or_def)
  then have "revalidation_exit sample_book sample_accounts {0} sample_sell = Some None"
    by (simp add: revalidation_exit_def sample_sell_def sample_accounts_def get_account_def active_markets_def less_eq_i64_def fits_i64_def
        reserved_balance_def sample_book_def sub_i64_def i64_of_def without_self_def sample_admission is_sell_direction_def
        direction_outcome_def less_i64_def)
  moreover have "revalidation_exit sample_book sample_accounts {0} sample_buy = Some None"
    by (simp add: revalidation_exit_def sample_buy_def sample_accounts_def get_account_def active_markets_def less_eq_i64_def fits_i64_def
        reserved_balance_def sample_book_def sub_i64_def i64_of_def without_self_def sample_admission is_sell_direction_def
        less_i64_def buy_cost_def div_ceil_def)
  ultimately have "to_remove sample_book sample_accounts {0} = Some []"
    by (simp add: to_remove_def sample_book_def)
  then show ?thesis by (simp add: revalidate_def with_book_def aggregates_def)
qed

theorem revalidated_orders_covered_witness: "val (reserved_balance sample_book 7) \<le> val (ac_balance seller_account)"
proof -
  have "sample_buy \<in> set (ob_orders sample_book)" by (simp add: sample_book_def)
  from revalidated_orders_covered [OF sample_book_reachable sample_revalidate this]
  show ?thesis by (simp add: sample_buy_def sample_accounts_def get_account_def buy_cost_def div_ceil_def fits_i64_def)
qed

end
