(* ===== verification/Order_Book_Restore.thy ===== *)
theory Order_Book_Restore
  imports Order_Book_Reach
begin

text \<open>
  A restart of the sequencer: every reachable book passes the integrity checks on its snapshot and its
  account leaves, and the book restored from the snapshot has the same orders, the same totals and the same
  state-root leaves.
\<close>

section \<open>The per-order check\<close>

lemma restored_order_ok: "resting_ok ro \<Longrightarrow> restored_order_error ro = Some (Ok ())"
proof -
  assume "resting_ok ro"
  then obtain d where d: "resting_for d ro" by (auto simp: resting_ok_def)
  let ?ord = "rs_order ro"
  have adm: "admitted ?ord d" and mq: "rs_original_max_fill ro \<le> MAX_ORDER_QTY" using d by (simp_all add: resting_for_def Let_def)
  note adm' = admitted_max_fill [OF adm mq]
  have same: "?ord\<lparr> o_max_fill := o_max_fill ?ord \<rparr> = ?ord" by simp
  show ?thesis
    using d adm' unfolding restored_order_error_def Let_def
    by (auto simp: admitted_simps(3) [OF adm] admitted_simps(3) [OF adm'] admitted_balance_reservation [OF adm]
        admitted_balance_reservation [OF adm'] admitted_sell_reservations [OF adm] resting_for_def Let_def num val_buy_cost [OF adm] val_buy_cost [OF adm'] split: if_splits)
qed

lemma validate_restored_ok: "\<forall>ro \<in> set ros. resting_ok ro \<Longrightarrow> validate_restored_reservations ros = Some (Ok ())"
  by (induction ros) (auto simp: restored_order_ok)

section \<open>The account leaves\<close>

text \<open>The leaves read only the entries of the totals that are not zero.\<close>

definition nonzero :: "('k::linorder, i64) omap \<Rightarrow> ('k \<times> i64) list" where
  "nonzero m = filter (\<lambda>(k, v). v \<noteq> 0) (entries m)"

lemma map_of_nonzero: "map_of (nonzero m) k = (if get_or m k 0 = 0 then None else Some (get_or m k 0))"
proof -
  have "distinct (map fst xs) \<Longrightarrow> map_of (filter (\<lambda>(k, v). v \<noteq> 0) xs) k = (case map_of xs k of Some v \<Rightarrow> if v = 0 then None else Some v | None \<Rightarrow> None)"
    for xs :: "('a \<times> i64) list" by (induction xs) (auto simp: map_of_eq_None_iff split: option.splits)
  from this [OF distinct_keys(1) [of m]] show ?thesis
    by (auto simp: nonzero_def get_or_def lookup_entries split: option.splits)
qed

lemma nonzero_cong: "(\<And>k. get_or m k 0 = get_or m' k 0) \<Longrightarrow> nonzero m = nonzero m'"
proof (rule sorted_keys_ext)
  have s: "sorted_keys xs \<Longrightarrow> sorted_keys (filter P xs)" for xs :: "('a \<times> i64) list" and P by (induction xs) auto
  show "sorted_keys (nonzero m)" "sorted_keys (nonzero m')" by (simp_all add: nonzero_def s sorted_entries)
  assume "\<And>k. get_or m k 0 = get_or m' k 0"
  then show "map_of (nonzero m) = map_of (nonzero m')" by (simp add: fun_eq_iff map_of_nonzero)
qed

definition leaves_by_account :: "BalanceReservations \<Rightarrow> PositionReservations \<Rightarrow> (u64, AccountReservationSnapshot) omap" where
  "leaves_by_account balances positions = fold leaf_step_position (nonzero positions) (fold leaf_step_balance (nonzero balances) om_empty)"

lemma leaves_nonzero:
  "reservation_snapshots_from_aggregates balances positions =
     map (\<lambda>leaf. leaf\<lparr> ar_reserved_positions := sort_key (\<lambda>(market, outcome, qty). (market, outcome)) (ar_reserved_positions leaf) \<rparr>)
       (om_values (leaves_by_account balances positions))"
proof -
  have skip: "fold leaf_step_balance xs m = fold leaf_step_balance (filter (\<lambda>(k, v). v \<noteq> 0) xs) m" for xs m
    by (induction xs arbitrary: m) (auto simp: leaf_step_balance_def)
  have skip': "fold leaf_step_position xs m = fold leaf_step_position (filter (\<lambda>(k, v). v \<noteq> 0) xs) m" for xs m
    by (induction xs arbitrary: m) (auto simp: leaf_step_position_def)
  show ?thesis unfolding reservation_snapshots_from_aggregates_def leaves_by_account_def Let_def nonzero_def
    skip [of "entries balances"] skip' [of "entries positions"] ..
qed

lemma leaves_cong:
  assumes "\<And>a. get_or b a 0 = get_or b' a 0" "\<And>k. get_or p k 0 = get_or p' k 0"
  shows "reservation_snapshots_from_aggregates b p = reservation_snapshots_from_aggregates b' p'"
  using assms by (simp add: leaves_nonzero leaves_by_account_def nonzero_cong [of b b'] nonzero_cong [of p p'])

lemma leaf_balances:
  assumes "distinct (map fst xs)" "\<forall>(a, r) \<in> set xs. r \<noteq> 0 \<and> lookup m a = None"
  shows "lookup (fold leaf_step_balance xs m) a =
    (case map_of xs a of Some r \<Rightarrow> Some \<lparr> ar_account_id = a, ar_reserved_balance = r, ar_reserved_positions = [] \<rparr> | None \<Rightarrow> lookup m a)"
  using assms
proof (induction xs arbitrary: m)
  case (Cons x xs)
  obtain b r where x: "x = (b, r)" by fastforce
  let ?m = "om_ins b \<lparr> ar_account_id = b, ar_reserved_balance = r, ar_reserved_positions = [] \<rparr> m"
  have step: "leaf_step_balance x m = ?m" using Cons.prems(2) x by (simp add: leaf_step_balance_def leaf_or_default_def get_or_def Let_def)
  have "b \<noteq> a" if "(a, r) \<in> set xs" for a r using Cons.prems(1) x that by (force simp: image_iff)
  moreover have "r \<noteq> 0 \<and> lookup m a = None" if "(a, r) \<in> set xs" for a r using Cons.prems(2) that by auto
  ultimately have "\<forall>(a, r) \<in> set xs. r \<noteq> 0 \<and> lookup ?m a = None" by fastforce
  with Cons.IH [of ?m] Cons.prems(1) have "lookup (fold leaf_step_balance xs ?m) a =
    (case map_of xs a of Some r \<Rightarrow> Some \<lparr> ar_account_id = a, ar_reserved_balance = r, ar_reserved_positions = [] \<rparr> | None \<Rightarrow> lookup ?m a)" by simp
  moreover have "map_of xs b = None" using Cons.prems(1) x by (simp add: map_of_eq_None_iff)
  ultimately show ?case using step x by (auto split: option.splits)
qed simp

definition account_positions :: "u64 \<Rightarrow> ((u64 \<times> MarketId \<times> u8) \<times> i64) list \<Rightarrow> PositionDelta list" where
  "account_positions a xs = map (\<lambda>((b, m, out), q). (m, out, q)) (filter (\<lambda>((b, m, out), q). b = a) xs)"

lemma leaf_positions:
  assumes "\<forall>(k, r) \<in> set xs. r \<noteq> 0"
  shows "lookup (fold leaf_step_position xs m) a =
    (if account_positions a xs = [] then lookup m a
     else Some ((leaf_or_default a m)\<lparr> ar_reserved_positions := ar_reserved_positions (leaf_or_default a m) @ account_positions a xs \<rparr>))"
  using assms
proof (induction xs arbitrary: m)
  case (Cons x xs)
  obtain b mk out q where x: "x = ((b, mk, out), q)" by (metis surj_pair)
  let ?leaf = "leaf_or_default b m"
  let ?m = "om_ins b (?leaf\<lparr> ar_reserved_positions := ar_reserved_positions ?leaf @ [(mk, out, q)] \<rparr>) m"
  have step: "leaf_step_position x m = ?m" using Cons.prems x by (simp add: leaf_step_position_def Let_def)
  have l: "leaf_or_default a ?m = (if a = b then ?leaf\<lparr> ar_reserved_positions := ar_reserved_positions ?leaf @ [(mk, out, q)] \<rparr> else leaf_or_default a m)"
    by (simp add: leaf_or_default_def)
  show ?case using Cons.IH [of ?m] Cons.prems step x by (auto simp: l account_positions_def)
qed (simp add: account_positions_def)

lemma nonzero_nonzero: "\<forall>(k, r) \<in> set (nonzero m). r \<noteq> 0"
  by (auto simp: nonzero_def)

lemma distinct_nonzero: "distinct (map fst (nonzero m))"
  unfolding nonzero_def by (rule distinct_map_filter) (rule distinct_keys(1))

lemma leaves_lookup:
  "lookup (leaves_by_account b p) a =
     (if get_or b a 0 = 0 \<and> account_positions a (nonzero p) = [] then None
      else Some \<lparr> ar_account_id = a, ar_reserved_balance = get_or b a 0, ar_reserved_positions = account_positions a (nonzero p) \<rparr>)"
proof -
  have l: "lookup (fold leaf_step_balance (nonzero b) om_empty) a =
      (if get_or b a 0 = 0 then None else Some \<lparr> ar_account_id = a, ar_reserved_balance = get_or b a 0, ar_reserved_positions = [] \<rparr>)"
    using leaf_balances [OF distinct_nonzero, of b om_empty a] nonzero_nonzero [of b] by (auto simp: map_of_nonzero)
  show ?thesis unfolding leaves_by_account_def leaf_positions [OF nonzero_nonzero] l
    by (auto simp: leaf_or_default_def get_or_def l)
qed

lemma sum_leaves:
  assumes "\<And>a leaf. lookup m a = Some leaf \<Longrightarrow> ar_account_id leaf = a"
  shows "sum_list (map (\<lambda>leaf. if ar_account_id leaf = a then f leaf else 0) (om_values m)) =
    (case lookup m a of Some leaf \<Rightarrow> f leaf | None \<Rightarrow> (0 :: int))"
proof -
  have "map (\<lambda>leaf. if ar_account_id leaf = a then f leaf else 0) (om_values m) =
      map (\<lambda>(k, leaf). if k = a then f leaf else 0) (entries m)"
    using assms by (auto simp: om_values_def)
  then have "sum_list (map (\<lambda>leaf. if ar_account_id leaf = a then f leaf else 0) (om_values m)) = om_sum (\<lambda>k leaf. if k = a then f leaf else 0) m"
    by (simp only: om_sum_def)
  also have "\<dots> = (case lookup m a of Some leaf \<Rightarrow> f leaf | None \<Rightarrow> 0)"
  proof -
    let ?K = "insert a (set (om_keys m))" and ?g = "\<lambda>k leaf. if k = a then f leaf else 0"
    have "om_sum ?g m = sum (contrib ?g m) ?K" by (rule om_sum_contrib) auto
    also have "\<dots> = contrib ?g m a + sum (contrib ?g m) (?K - {a})" by (rule sum.remove) auto
    also have "sum (contrib ?g m) (?K - {a}) = 0" by (rule sum.neutral) (auto simp: contrib_def split: option.splits)
    finally show ?thesis by (simp add: contrib_def cong: option.case_cong)
  qed
  finally show ?thesis .
qed

lemma account_positions_sum:
  "sum_list (map (\<lambda>(m, out, q). if (m, out) = k then val q else 0) (account_positions a (nonzero p))) = val (get_or p (a, k) 0)"
proof -
  have "distinct (map fst xs) \<Longrightarrow> sum_list (map (\<lambda>(m, out, q). if (m, out) = k then val q else 0) (account_positions a xs)) =
      (case map_of xs (a, k) of Some q \<Rightarrow> val q | None \<Rightarrow> 0)" for xs
  proof (induction xs)
    case (Cons x xs)
    obtain b m out q where x: "x = ((b, m, out), q)" by (metis surj_pair)
    have "map_of xs (b, m, out) = None" using Cons.prems x by (simp add: map_of_eq_None_iff)
    with Cons x show ?case by (auto simp: account_positions_def)
  qed (simp add: account_positions_def)
  from this [OF distinct_nonzero] show ?thesis by (simp add: map_of_nonzero)
qed

lemma sum_list_sort_key: "sum_list (map f (sort_key g xs)) = sum_list (map (f :: 'a \<Rightarrow> int) xs)"
proof -
  have "sum_list (map f (insort_key g x ys)) = f x + sum_list (map f ys)" for x ys by (induction ys) auto
  then show ?thesis by (induction xs) simp_all
qed

text \<open>What the leaves of an account add up to.\<close>

lemma leaf_totals:
  fixes b p defines "leaves \<equiv> reservation_snapshots_from_aggregates b p"
  shows "sum_list (map (\<lambda>leaf. if ar_account_id leaf = a then val (ar_reserved_balance leaf) else 0) leaves) = val (get_or b a 0)"
    "sum_list (map (\<lambda>leaf. if ar_account_id leaf = a
       then sum_list (map (\<lambda>(m, out, q). if (m, out) = k then val q else 0) (ar_reserved_positions leaf)) else 0) leaves) = val (get_or p (a, k) 0)"
proof -
  let ?m = "leaves_by_account b p"
  let ?sort = "\<lambda>leaf. leaf\<lparr> ar_reserved_positions := sort_key (\<lambda>(market, outcome, qty). (market, outcome)) (ar_reserved_positions leaf) \<rparr>"
  have id: "lookup ?m a = Some leaf \<Longrightarrow> ar_account_id leaf = a" for a leaf by (auto simp: leaves_lookup split: if_splits)
  have perm: "sum_list (map f (sort_key g xs)) = sum_list (map f xs)" for f :: "PositionDelta \<Rightarrow> int" and g :: "PositionDelta \<Rightarrow> MarketId \<times> u8" and xs
    by (rule sum_list_sort_key)
  show "sum_list (map (\<lambda>leaf. if ar_account_id leaf = a then val (ar_reserved_balance leaf) else 0) leaves) = val (get_or b a 0)"
    unfolding leaves_def leaves_nonzero map_map comp_def
    using sum_leaves [where m = ?m and a = a and f = "\<lambda>leaf. val (ar_reserved_balance leaf)", OF id] by (simp add: leaves_lookup cong: if_cong)
  have "sum_list (map (\<lambda>leaf. if ar_account_id leaf = a
       then sum_list (map (\<lambda>(m, out, q). if (m, out) = k then val q else 0) (ar_reserved_positions leaf)) else 0) leaves) =
     (case lookup ?m a of Some leaf \<Rightarrow> sum_list (map (\<lambda>(m, out, q). if (m, out) = k then val q else 0) (ar_reserved_positions leaf)) | None \<Rightarrow> 0)"
    unfolding leaves_def leaves_nonzero map_map comp_def
    using sum_leaves [where m = ?m and a = a and f = "\<lambda>leaf. sum_list (map (\<lambda>(m, out, q). if (m, out) = k then val q else 0) (ar_reserved_positions leaf))", OF id]
    by (simp add: perm cong: if_cong)
  also have "\<dots> = val (get_or p (a, k) 0)"
    using account_positions_sum [of k a p] by (auto simp: leaves_lookup)
  finally show "sum_list (map (\<lambda>leaf. if ar_account_id leaf = a
       then sum_list (map (\<lambda>(m, out, q). if (m, out) = k then val q else 0) (ar_reserved_positions leaf)) else 0) leaves) = val (get_or p (a, k) 0)" .
qed

section \<open>The account check\<close>

lemma bump_get [simp]:
  "get_or (bump_stored k n m) j (0, 0) = (fst (get_or m j (0, 0)) + (if j = k then n else 0), snd (get_or m j (0, 0)))"
  "get_or (bump_recomputed k n m) j (0, 0) = (fst (get_or m j (0, 0)), snd (get_or m j (0, 0)) + (if j = k then n else 0))"
  by (auto simp: bump_stored_def bump_recomputed_def case_prod_beta Let_def)

lemma fold_bump:
  "get_or (fold (\<lambda>x. bump_stored (f x) (g x)) xs m) j (0, 0) =
     (fst (get_or m j (0, 0)) + sum_list (map (\<lambda>x. if f x = j then g x else 0) xs), snd (get_or m j (0, 0)))"
  "get_or (fold (\<lambda>x. bump_recomputed (f x) (g x)) xs m) j (0, 0) =
     (fst (get_or m j (0, 0)), snd (get_or m j (0, 0)) + sum_list (map (\<lambda>x. if f x = j then g x else 0) xs))"
  by (induction xs arbitrary: m) auto

lemma fold_fold_bump:
  "get_or (fold (\<lambda>x. fold (\<lambda>y. bump_stored (f x y) (g y)) (h x)) xs m) j (0, 0) =
     (fst (get_or m j (0, 0)) + sum_list (map (\<lambda>x. sum_list (map (\<lambda>y. if f x y = j then g y else 0) (h x))) xs), snd (get_or m j (0, 0)))"
  "get_or (fold (\<lambda>x. fold (\<lambda>y. bump_recomputed (f x y) (g y)) (h x)) xs m) j (0, 0) =
     (fst (get_or m j (0, 0)), snd (get_or m j (0, 0)) + sum_list (map (\<lambda>x. sum_list (map (\<lambda>y. if f x y = j then g y else 0) (h x))) xs))"
  by (induction xs arbitrary: m) (auto simp: fold_bump)

lemma account_check_ok:
  assumes "total_for (b, p) ros"
  shows "validate_restored_account_reservations ros (reservation_snapshots_from_aggregates b p) = Ok ()"
proof -
  let ?L = "reservation_snapshots_from_aggregates b p"
  note t = total_forD [OF assms, unfolded fst_conv snd_conv]
  have bal: "get_or (restored_balance_totals ros ?L) a (0, 0) = (held a ros, held a ros)" for a
    using leaf_totals(1) [where a = a and b = b and p = p] unfolding restored_balance_totals_def fold_bump by (simp add: held_def [symmetric] t)
  have inner: "sum_list (map (\<lambda>y. if (acct, fst (fst y), snd (fst y)) = (a, k) then val (snd y) else 0) xs) = (if acct = a then qty_of k xs else 0)"
    for acct a :: u64 and k and xs :: "(PositionKey \<times> i64) list" by (induction xs) (auto simp: prod_eq_iff)
  have inner': "sum_list (map (\<lambda>y. if (acct, fst y, fst (snd y)) = (a, k) then val (snd (snd y)) else 0) xs) =
      (if acct = a then sum_list (map (\<lambda>(m, out, q). if (m, out) = k then val q else 0) xs) else 0)"
    for acct a :: u64 and k and xs :: "PositionDelta list" by (induction xs) (auto simp: prod_eq_iff)
  have pos: "get_or (restored_position_totals ros ?L) (a, k) (0, 0) = (held_position a k ros, held_position a k ros)" for a k
    using leaf_totals(2) [where a = a and k = k and b = b and p = p]
    unfolding restored_position_totals_def case_prod_unfold fold_fold_bump inner inner' by (simp add: held_position_def [symmetric] t case_prod_unfold)
  have "stored = recomputed" if "lookup (restored_balance_totals ros ?L) a = Some (stored, recomputed)" for a stored recomputed
    using bal [of a] that by (simp add: get_or_def)
  then have f1: "List.find (\<lambda>(account_id, stored, recomputed). stored \<noteq> recomputed) (entries (restored_balance_totals ros ?L)) = None"
    by (auto simp: find_None_iff)
  have "stored = recomputed" if "lookup (restored_position_totals ros ?L) (a, k) = Some (stored, recomputed)" for a k stored recomputed
    using pos [of a k] that by (simp add: get_or_def)
  then have "List.find (\<lambda>((account_id, market, outcome), stored, recomputed). stored \<noteq> recomputed) (entries (restored_position_totals ros ?L)) = None"
    by (auto simp: find_None_iff)
  with f1 show ?thesis by (simp add: validate_restored_account_reservations_def)
qed

section \<open>Round trip\<close>

text \<open>C11: a restart restores the book.  The snapshot of a reachable book passes the per-order integrity check, its
  state-root account leaves pass the account check against it, and restoring the snapshot returns a book with the
  same orders, the same reserved balances and positions and the same state-root leaves.\<close>

theorem restart_roundtrip:
  assumes "reachable ttl book"
  shows "validate_restored_reservations (book_snapshot book) = Some (Ok ()) \<and>
    validate_restored_account_reservations (book_snapshot book) (state_root_reservations book) = Ok () \<and>
    (\<exists>book'. restore (book_snapshot book) ttl = Some book' \<and> book_snapshot book' = book_snapshot book \<and> ob_ttl book' = ob_ttl book \<and>
       reserved_balance book' = reserved_balance book \<and>
       (\<forall>a k. get_or (ob_position_reservations book') (a, k) 0 = get_or (ob_position_reservations book) (a, k) 0) \<and>
       state_root_orders book' = state_root_orders book \<and> state_root_reservations book' = state_root_reservations book)"
proof -
  have ok: "book_ok book" "ob_ttl book = ttl" using reachable_ok assms by auto
  obtain aggs where r: "restore (ob_orders book) ttl = Some (with_book (book_new ttl) (ob_orders book) aggs)" "total_for aggs (ob_orders book)"
    using restore_ok [OF ok(1)] by blast
  note t = total_forD [OF r(2)] total_forD [OF book_okD(1) [OF ok(1)], unfolded aggregates_def fst_conv snd_conv]
  have b: "get_or (fst aggs) a 0 = get_or (ob_balance_reservations book) a 0" for a by (simp add: val_eq_iff t)
  have p: "get_or (snd aggs) (a, k) 0 = get_or (ob_position_reservations book) (a, k) 0" for a k by (simp add: val_eq_iff t)
  have "get_or (snd aggs) k 0 = get_or (ob_position_reservations book) k 0" for k using p by (cases k) auto
  with b have "state_root_reservations (with_book (book_new ttl) (ob_orders book) aggs) = state_root_reservations book"
    unfolding state_root_reservations_def with_book_simps by (intro leaves_cong)
  moreover have "validate_restored_account_reservations (ob_orders book) (state_root_reservations book) = Ok ()"
    unfolding state_root_reservations_def using account_check_ok book_okD(1) [OF ok(1)] by (simp add: aggregates_def)
  ultimately show ?thesis using r(1) b p validate_restored_ok book_okD(2) [OF ok(1)] ok(2)
    by (simp add: book_snapshot_def reserved_balance_def fun_eq_iff state_root_orders_def book_new_def)
qed

theorem restart_roundtrip_witness:
  "validate_restored_reservations [sample_sell, sample_buy] = Some (Ok ()) \<and>
   (\<exists>book'. restore [sample_sell, sample_buy] 10 = Some book' \<and> reserved_balance book' 7 = of_val 600000000)"
proof -
  have s: "book_snapshot sample_book = [sample_sell, sample_buy]" "reserved_balance sample_book 7 = of_val 600000000"
    by (simp_all add: book_snapshot_def sample_book_def reserved_balance_def)
  from restart_roundtrip [OF sample_book_reachable, unfolded s] s(2) show ?thesis by metis
qed

end
