(* ===== verification/Verifier_Quarantine.thy ===== *)
theory Verifier_Quarantine
  imports Account_Keys Sample_Block
begin

text \<open>
  \<open>crates/sybil-verifier/src/quarantine.rs\<close>: deposits to unknown account keys are parked in a ledger until the
  account with that key claims them.  The replay is a pass over the system events; blake3 (the account
  key) is the parameter \<open>h\<close>, sha256 (the ledger digest) the parameter \<open>sha\<close>.
\<close>

type_synonym QuarantineLedger = "(bytes, i64) omap"

definition QUARANTINE_LEDGER_DIGEST_DOMAIN :: bytes where
  "QUARANTINE_LEDGER_DIGEST_DOMAIN = ascii ''sybil/state/deposit-quarantine-digest/v1''"

definition quarantine_preimage :: "QuarantineEntrySnapshot list \<Rightarrow> bytes" where
  "quarantine_preimage es =
     (let es = sort_key qe_sybil_account_key es
      in QUARANTINE_LEDGER_DIGEST_DOMAIN @ le64 (of_nat (length es)) @
         concat (map (\<lambda>e. qe_sybil_account_key e @ le_i64 (qe_amount e)) es))"

definition quarantine_ledger_digest :: "hash \<Rightarrow> QuarantineEntrySnapshot list \<Rightarrow> bytes" where
  "quarantine_ledger_digest sha es = sha (quarantine_preimage es)"

definition bridge_account_key :: "hash \<Rightarrow> u64 \<Rightarrow> bytes" where
  "bridge_account_key h account_id = h (ascii ''sybil/bridge/account-key/v1'' @ le64 account_id)"

definition ledger_map :: "QuarantineEntrySnapshot list \<Rightarrow> QuarantineLedger option" where
  "ledger_map es = fold_opt (\<lambda>e ledger.
     if qe_amount e \<le> 0 then None
     else if lookup ledger (qe_sybil_account_key e) \<noteq> None then None
     else Some (om_ins (qe_sybil_account_key e) (qe_amount e) ledger)) es om_empty"

text \<open>\<open>entry(key).or_default()\<close> has created the entry when the addition overflows.\<close>

definition quarantine :: "bytes \<Rightarrow> i64 \<Rightarrow> QuarantineLedger \<Rightarrow> QuarantineLedger \<times> bool" where
  "quarantine key amount ledger =
     (if amount \<le> 0 then (ledger, False)
      else let entry = get_or ledger key 0
           in case add_i64 entry amount of
                None \<Rightarrow> (om_ins key entry ledger, False)
              | Some s \<Rightarrow> (om_ins key s ledger, True))"

definition claim :: "hash \<Rightarrow> u64 \<Rightarrow> bytes \<Rightarrow> i64 \<Rightarrow> QuarantineLedger \<Rightarrow> QuarantineLedger \<times> bool" where
  "claim h account_id key amount ledger =
     (if bridge_account_key h account_id \<noteq> key then (ledger, False)
      else case lookup ledger key of
             None \<Rightarrow> (ledger, False)
           | Some parked \<Rightarrow> (om_del key ledger, parked = amount))"

fun quarantine_event :: "hash \<Rightarrow> SystemEventWitness \<Rightarrow> QuarantineLedger \<Rightarrow> QuarantineLedger \<times> bool" where
  "quarantine_event h (DepositQuarantined amount deposit_id deposit_root key) ledger = quarantine key amount ledger"
| "quarantine_event h (QuarantineClaimed account_id amount key) ledger = claim h account_id key amount ledger"
| "quarantine_event h _ ledger = (ledger, True)"

definition quarantine_step ::
  "hash \<Rightarrow> SystemEventWitness \<Rightarrow> QuarantineLedger \<Rightarrow> (QuarantineLedger \<times> ViolationKind list) option"
where
  "quarantine_step h event ledger =
     (let (ledger', ok) = quarantine_event h event ledger
      in Some (ledger', flag (\<not> ok) SidecarDepositCursorMismatch))"

definition verify_quarantine_transition :: "hash \<Rightarrow> BlockWitness \<Rightarrow> VerificationResult option" where
  "verify_quarantine_transition h w = do {
     let (pre, v1) = (case ledger_map (br_quarantine (sc_bridge (bw_pre_state_sidecar w))) of
           Some l \<Rightarrow> (l, []) | None \<Rightarrow> (om_empty, [SidecarDepositCursorMismatch]));
     let v2 = flag (bw_previous_header w = None \<and> pre \<noteq> om_empty) SidecarDepositCursorMismatch;
     (ledger, v3) \<leftarrow> scan (quarantine_step h) (bw_system_events w) pre;
     let v4 = (case ledger_map (br_quarantine (sc_bridge (bw_state_sidecar w))) of
           Some claimed \<Rightarrow> flag (claimed \<noteq> ledger) SidecarDepositCursorMismatch
         | None \<Rightarrow> [SidecarDepositCursorMismatch]);
     Some (from_violations (v1 @ v2 @ v3 @ v4)) }"

section \<open>What the events mean\<close>

text \<open>The amount parked under a key, and what an event adds to it.\<close>

definition parked :: "QuarantineEntrySnapshot list \<Rightarrow> bytes \<Rightarrow> int" where
  "parked es key = sum_list (map (\<lambda>e. if qe_sybil_account_key e = key then val (qe_amount e) else 0) es)"

fun parks :: "bytes \<Rightarrow> SystemEventWitness \<Rightarrow> int" where
  "parks key (DepositQuarantined amount d r k) = (if k = key then val amount else 0)"
| "parks key (QuarantineClaimed i amount k) = (if k = key then - val amount else 0)"
| "parks key _ = 0"

definition all_positive :: "QuarantineLedger \<Rightarrow> bool" where
  "all_positive ledger \<longleftrightarrow> (\<forall>k v. lookup ledger k = Some v \<longrightarrow> 0 < val v)"

lemma quarantine_step_ok:
  "quarantine_step h e s = Some (t, []) \<longleftrightarrow> quarantine_event h e s = (t, True)"
  by (auto simp: quarantine_step_def Let_def split: prod.splits)

interpretation quarantine_pass: measured_pass "quarantine_step h" all_positive "\<lambda>l. val (get_or l k 0)" "parks k"
  for h k
proof
  fix s x t assume inv: "all_positive s" and step: "quarantine_step h x s = Some (t, [])"
  then have ok: "quarantine_event h x s = (t, True)" by (simp add: quarantine_step_ok)
  show "all_positive t"
  proof (cases x)
    case (DepositQuarantined a d r key)
    have "0 \<le> val (get_or s key 0)" using inv by (auto simp: all_positive_def get_or_def less_imp_le split: option.splits)
    with DepositQuarantined ok inv show ?thesis
      by (auto simp: quarantine_def all_positive_def Let_def num split: if_splits option.splits)
  qed (use ok inv in \<open>auto simp: claim_def all_positive_def split: if_splits option.splits\<close>)
  show "val (get_or t k 0) = val (get_or s k 0) + parks k x"
    using ok
    by (cases x) (auto simp: quarantine_def claim_def Let_def num get_or_def [of s] split: if_splits option.splits)
qed

lemma ledger_map_parked:
  assumes "ledger_map es = Some l"
  shows "all_positive l \<and> val (get_or l k 0) = parked es k"
proof -
  have "fold_opt (\<lambda>e ledger. if qe_amount e \<le> 0 then None
     else if lookup ledger (qe_sybil_account_key e) \<noteq> None then None
     else Some (om_ins (qe_sybil_account_key e) (qe_amount e) ledger)) es s = Some l \<Longrightarrow> all_positive s \<Longrightarrow>
     all_positive l \<and> val (get_or l k 0) = val (get_or s k 0) + parked es k" for es s
  proof (induction es arbitrary: s)
    case (Cons e es)
    from Cons.prems(1) have n: "0 < val (qe_amount e)" "lookup s (qe_sybil_account_key e) = None"
      and r: "fold_opt (\<lambda>e ledger. if qe_amount e \<le> 0 then None
         else if lookup ledger (qe_sybil_account_key e) \<noteq> None then None
         else Some (om_ins (qe_sybil_account_key e) (qe_amount e) ledger)) es
         (om_ins (qe_sybil_account_key e) (qe_amount e) s) = Some l"
      by (auto simp: opt less_eq_i64_def split: if_splits)
    have "all_positive (om_ins (qe_sybil_account_key e) (qe_amount e) s)"
      using Cons.prems(2) n by (auto simp: all_positive_def)
    from Cons.IH [OF r this] n show ?case by (auto simp: parked_def get_or_def [of s])
  qed (simp add: parked_def)
  from this [OF assms [unfolded ledger_map_def]] show ?thesis by (simp add: all_positive_def)
qed

lemma verify_quarantine_parts:
  assumes "verify_quarantine_transition h w = Some r" "vr_valid r"
  obtains pre post where "ledger_map (br_quarantine (sc_bridge (bw_pre_state_sidecar w))) = Some pre"
    "ledger_map (br_quarantine (sc_bridge (bw_state_sidecar w))) = Some post"
    "scan (quarantine_step h) (bw_system_events w) pre = Some (post, [])"
    "bw_previous_header w = None \<longrightarrow> pre = om_empty"
  using assms
  by (auto simp: verify_quarantine_transition_def opt Let_def case_prod_beta split: option.splits)

text \<open>C34: in a block that passes quarantine verification, what is parked under each key after the block is what was
  parked before, plus the deposits quarantined to it, minus the amounts claimed from it, and no parked
  amount is negative.\<close>

theorem quarantine_conserved_per_key:
  assumes "verify_quarantine_transition h w = Some r" "vr_valid r"
  shows "parked (br_quarantine (sc_bridge (bw_state_sidecar w))) key =
           parked (br_quarantine (sc_bridge (bw_pre_state_sidecar w))) key + sum_list (map (parks key) (bw_system_events w)) \<and>
         0 \<le> parked (br_quarantine (sc_bridge (bw_state_sidecar w))) key"
  using assms
proof (rule verify_quarantine_parts)
  fix pre post
  assume l: "ledger_map (br_quarantine (sc_bridge (bw_pre_state_sidecar w))) = Some pre"
    "ledger_map (br_quarantine (sc_bridge (bw_state_sidecar w))) = Some post"
    and s: "scan (quarantine_step h) (bw_system_events w) pre = Some (post, [])"
  have "0 \<le> val (get_or post key 0)"
    using conjunct1 [OF ledger_map_parked [OF l(2)]]
    by (auto simp: all_positive_def get_or_def less_imp_le split: option.splits)
  with quarantine_pass.run_total [OF _ s, of key] ledger_map_parked [OF l(1)] ledger_map_parked [OF l(2)]
  show ?thesis by auto
qed

definition quarantine_block :: BlockWitness where
  "quarantine_block = sample_block\<lparr>
     bw_system_events := [DepositQuarantined (of_val 30) 4 zero_digest zero_digest, QuarantineClaimed 7 (of_val 50) zero_digest,
       DepositQuarantined (of_val 8) 5 zero_digest (replicate 32 1)],
     bw_previous_header := Some sample_header,
     bw_pre_state_sidecar := sample_sidecar\<lparr> sc_bridge := sample_bridge\<lparr> br_quarantine :=
       [\<lparr> qe_sybil_account_key = zero_digest, qe_amount = of_val 20 \<rparr>] \<rparr>\<rparr>,
     bw_state_sidecar := sample_sidecar\<lparr> sc_bridge := sample_bridge\<lparr> br_quarantine :=
       [\<lparr> qe_sybil_account_key = replicate 32 1, qe_amount = of_val 8 \<rparr>] \<rparr>\<rparr> \<rparr>"

lemma quarantine_block_passes: "\<exists>r. verify_quarantine_transition sample_hash quarantine_block = Some r \<and> vr_valid r"
proof -
  have "zero_digest \<noteq> replicate 32 (1 :: byte)" by (simp add: zero_digest_def replicate_eq_replicate)
  then show ?thesis
    by (simp add: verify_quarantine_transition_def quarantine_block_def ledger_map_def quarantine_step_def quarantine_def
        claim_def bridge_account_key_def sample_hash_def add_i64_def i64_of_def fits_i64_def less_eq_i64_def omap_eq_iff)
qed

theorem quarantine_conserved_per_key_witness:
  "parked (br_quarantine (sc_bridge (bw_state_sidecar quarantine_block))) zero_digest =
     parked (br_quarantine (sc_bridge (bw_pre_state_sidecar quarantine_block))) zero_digest +
     sum_list (map (parks zero_digest) (bw_system_events quarantine_block))"
proof -
  obtain r where "verify_quarantine_transition sample_hash quarantine_block = Some r" "vr_valid r"
    using quarantine_block_passes by blast
  from quarantine_conserved_per_key [OF this] show ?thesis by blast
qed

text \<open>C33: a claim in a block that passes quarantine verification is made under the claiming account's own bridge key
  and takes everything parked under it at that point, a positive amount; so a second claim needs a new
  quarantined deposit first.\<close>

theorem claim_takes_everything:
  assumes "verify_quarantine_transition h w = Some r" "vr_valid r"
    and "bw_system_events w = xs @ QuarantineClaimed i amount key # ys"
  shows "key = bridge_account_key h i \<and> 0 < val amount \<and>
         val amount = parked (br_quarantine (sc_bridge (bw_pre_state_sidecar w))) key + sum_list (map (parks key) xs)"
  using assms(1,2)
proof (rule verify_quarantine_parts)
  fix pre post
  assume l: "ledger_map (br_quarantine (sc_bridge (bw_pre_state_sidecar w))) = Some pre"
    and s: "scan (quarantine_step h) (bw_system_events w) pre = Some (post, [])"
  from s obtain t u where t: "scan (quarantine_step h) xs pre = Some (t, [])"
    and u: "quarantine_step h (QuarantineClaimed i amount key) t = Some (u, [])"
    unfolding assms(3) scan_append_clean scan_Cons_clean by blast
  have p: "all_positive pre" using ledger_map_parked [OF l] by blast
  from u have c: "key = bridge_account_key h i" "lookup t key = Some amount"
    by (auto simp: quarantine_step_ok claim_def split: if_splits option.splits)
  moreover have "0 < val amount" using quarantine_pass.run_inv [OF p t] c(2) by (auto simp: all_positive_def)
  moreover have "val amount = val (get_or pre key 0) + sum_list (map (parks key) xs)"
    using quarantine_pass.run_total [OF p t, of key] c(2) by (simp add: get_or_def)
  ultimately show ?thesis using ledger_map_parked [OF l, of key] by simp
qed

theorem claim_takes_everything_witness:
  "(50 :: int) = parked (br_quarantine (sc_bridge (bw_pre_state_sidecar quarantine_block))) zero_digest +
     sum_list (map (parks zero_digest) [DepositQuarantined (of_val 30) 4 zero_digest zero_digest])"
proof -
  obtain r where "verify_quarantine_transition sample_hash quarantine_block = Some r" "vr_valid r"
    using quarantine_block_passes by blast
  from claim_takes_everything [OF this, of "[DepositQuarantined (of_val 30) 4 zero_digest zero_digest]" 7 "of_val 50" zero_digest]
  show ?thesis by (simp add: quarantine_block_def fits_i64_def)
qed

end
