(* ===== verification/L1_Protocol.thy ===== *)
theory L1_Protocol
  imports Account_Keys
begin

text \<open>
  \<open>crates/sybil-l1-protocol/src/lib.rs\<close>: the Solidity ABI boundary.  Words are 32-byte lists, addresses 20-byte
  lists; keccak256 is the parameter \<open>k\<close>.  The parsers accept exactly the canonical encodings, and the
  pre-images of deposit leaves and withdrawal nullifiers are injective.
\<close>

definition DEPOSIT_DOMAIN :: bytes where "DEPOSIT_DOMAIN = ascii ''sybil/l1-deposit/v1''"

definition WITHDRAWAL_NULLIFIER_DOMAIN :: bytes where
  "WITHDRAWAL_NULLIFIER_DOMAIN = ascii ''sybil/withdrawal-nullifier/v1''"

definition DEPOSIT_RECEIVED_SIGNATURE :: bytes where
  "DEPOSIT_RECEIVED_SIGNATURE = ascii ''DepositReceived(uint64,address,bytes32,address,uint256,bytes32)''"

definition WITHDRAWAL_QUEUED_SIGNATURE :: bytes where
  "WITHDRAWAL_QUEUED_SIGNATURE =
     ascii ''WithdrawalQueued(bytes32,address,address,uint256,bytes32,uint64,uint64,uint64)''"

definition WITHDRAWAL_FINALIZED_SIGNATURE :: bytes where
  "WITHDRAWAL_FINALIZED_SIGNATURE = ascii ''WithdrawalFinalized(bytes32,address,uint256,uint64,uint64)''"

definition WITHDRAWAL_CANCELLED_SIGNATURE :: bytes where
  "WITHDRAWAL_CANCELLED_SIGNATURE = ascii ''WithdrawalCancelled(bytes32,address,uint256,uint64,uint64,string)''"

definition DEPOSIT_ROOT_BY_COUNT_SIGNATURE :: bytes where
  "DEPOSIT_ROOT_BY_COUNT_SIGNATURE = ascii ''depositRootByCount(uint64)''"

datatype L1ProtocolError =
    UnexpectedTopicCount nat
  | UnexpectedTopic0
  | UnexpectedDataLength nat
  | UnexpectedEventTopicCount string nat nat
  | UnexpectedVaultEventTopic0
  | UnexpectedEventDataLength string nat nat
  | UnexpectedDynamicOffset string string u64 u64
  | DynamicLengthOverflow string string
  | NonZeroDynamicPadding string string
  | NonZeroHighBytes string

record L1Log =
  log_address :: bytes
  log_topics :: "bytes list"
  log_data :: bytes

record DepositReceived =
  dr_deposit_id :: u64
  dr_sender :: bytes
  dr_sybil_account_key :: bytes
  dr_token_address :: bytes
  dr_amount_token_units :: u64
  dr_deposit_root :: bytes

record DepositLeaf =
  dl_chain_id :: u64
  dl_vault_address :: bytes
  dl_deposit_id :: u64
  dl_token_address :: bytes
  dl_sender :: bytes
  dl_sybil_account_key :: bytes
  dl_amount_token_units :: u64

record WithdrawalQueued =
  wq_nullifier :: bytes
  wq_recipient :: bytes
  wq_token_address :: bytes
  wq_amount_token_units :: u64
  wq_state_root :: bytes
  wq_height :: u64
  wq_requested_at_unix :: u64
  wq_executable_at_unix :: u64

record WithdrawalFinalizedLog =
  wf_nullifier :: bytes
  wf_recipient :: bytes
  wf_amount_token_units :: u64
  wf_finalized_at_unix :: u64
  wf_executable_at_unix :: u64

record WithdrawalCancelledLog =
  wc_nullifier :: bytes
  wc_recipient :: bytes
  wc_amount_token_units :: u64
  wc_cancelled_at_unix :: u64
  wc_executable_at_unix :: u64

datatype WithdrawalEvent =
    Queued WithdrawalQueued
  | Finalized WithdrawalFinalizedLog
  | Cancelled WithdrawalCancelledLog

definition into_deposit_leaf :: "DepositReceived \<Rightarrow> u64 \<Rightarrow> bytes \<Rightarrow> DepositLeaf" where
  "into_deposit_leaf d chain_id vault_address = \<lparr> dl_chain_id = chain_id, dl_vault_address = vault_address,
     dl_deposit_id = dr_deposit_id d, dl_token_address = dr_token_address d, dl_sender = dr_sender d,
     dl_sybil_account_key = dr_sybil_account_key d, dl_amount_token_units = dr_amount_token_units d \<rparr>"

section \<open>ABI words\<close>

definition be64 :: "u64 \<Rightarrow> bytes" where "be64 w = rev (le64 w)"

definition from_be :: "bytes \<Rightarrow> u64" where
  "from_be bs = foldl (\<lambda>acc b. push_bit 8 acc OR ucast b) 0 bs"

definition abi_u64_word :: "u64 \<Rightarrow> bytes" where
  "abi_u64_word v = replicate 24 0 @ be64 v"

definition abi_usize_word :: "nat \<Rightarrow> bytes" where
  "abi_usize_word n = replicate 24 0 @ be64 (of_nat n)"

definition abi_address_word :: "bytes \<Rightarrow> bytes" where
  "abi_address_word a = replicate 12 0 @ a"

datatype AbiWord = AwUint u64 | AwAddress bytes | AwBytes32 bytes

fun abi_word :: "AbiWord \<Rightarrow> bytes" where
  "abi_word (AwUint v) = abi_u64_word v"
| "abi_word (AwAddress a) = abi_address_word a"
| "abi_word (AwBytes32 b) = b"

definition padded_len :: "nat \<Rightarrow> nat" where "padded_len n = (n + 31) div 32 * 32"

definition abi_encode_domain_and_words :: "bytes \<Rightarrow> AbiWord list \<Rightarrow> bytes" where
  "abi_encode_domain_and_words domain words =
     (let head_words = 1 + length words
      in abi_usize_word (head_words * 32) @ concat (map abi_word words) @ abi_usize_word (length domain) @ domain @
         replicate (padded_len (length domain) - length domain) 0)"

definition abi_keccak256_domain_and_words :: "hash \<Rightarrow> bytes \<Rightarrow> AbiWord list \<Rightarrow> bytes" where
  "abi_keccak256_domain_and_words k domain words = k (abi_encode_domain_and_words domain words)"

definition decode_u64_word :: "bytes \<Rightarrow> string \<Rightarrow> (L1ProtocolError, u64) result" where
  "decode_u64_word word field =
     (if list_ex (\<lambda>b. b \<noteq> 0) (take 24 word) then Err (NonZeroHighBytes field) else Ok (from_be (drop 24 word)))"

definition decode_address_word :: "bytes \<Rightarrow> string \<Rightarrow> (L1ProtocolError, bytes) result" where
  "decode_address_word word field =
     (if list_ex (\<lambda>b. b \<noteq> 0) (take 12 word) then Err (NonZeroHighBytes field) else Ok (drop 12 word))"

text \<open>Every caller has checked the length of \<open>data\<close>.\<close>

definition data_word :: "bytes \<Rightarrow> nat \<Rightarrow> bytes" where
  "data_word data i = take 32 (drop (i * 32) data)"

definition deposit_received_topic0 :: "hash \<Rightarrow> bytes" where
  "deposit_received_topic0 k = k DEPOSIT_RECEIVED_SIGNATURE"

definition withdrawal_queued_topic0 :: "hash \<Rightarrow> bytes" where
  "withdrawal_queued_topic0 k = k WITHDRAWAL_QUEUED_SIGNATURE"

definition withdrawal_finalized_topic0 :: "hash \<Rightarrow> bytes" where
  "withdrawal_finalized_topic0 k = k WITHDRAWAL_FINALIZED_SIGNATURE"

definition withdrawal_cancelled_topic0 :: "hash \<Rightarrow> bytes" where
  "withdrawal_cancelled_topic0 k = k WITHDRAWAL_CANCELLED_SIGNATURE"

definition deposit_root_by_count_calldata :: "hash \<Rightarrow> u64 \<Rightarrow> bytes" where
  "deposit_root_by_count_calldata k n = take 4 (k DEPOSIT_ROOT_BY_COUNT_SIGNATURE) @ abi_u64_word n"

section \<open>Logs\<close>

definition parse_deposit_received :: "hash \<Rightarrow> bytes list \<Rightarrow> bytes \<Rightarrow> (L1ProtocolError, DepositReceived) result" where
  "parse_deposit_received k topics data =
     (if length topics \<noteq> 4 then Err (UnexpectedTopicCount (length topics))
      else if topics ! 0 \<noteq> deposit_received_topic0 k then Err UnexpectedTopic0
      else if length data \<noteq> 96 then Err (UnexpectedDataLength (length data))
      else and_then (decode_u64_word (topics ! 1) ''depositId'') (\<lambda>deposit_id.
           and_then (decode_address_word (topics ! 2) ''sender'') (\<lambda>sender.
           and_then (decode_address_word (data_word data 0) ''token'') (\<lambda>token.
           and_then (decode_u64_word (data_word data 1) ''amount'') (\<lambda>amount.
           Ok \<lparr> dr_deposit_id = deposit_id, dr_sender = sender, dr_sybil_account_key = topics ! 3,
                dr_token_address = token, dr_amount_token_units = amount, dr_deposit_root = data_word data 2 \<rparr>)))))"

definition parse_deposit_received_log :: "hash \<Rightarrow> L1Log \<Rightarrow> (L1ProtocolError, DepositReceived) result" where
  "parse_deposit_received_log k log = parse_deposit_received k (log_topics log) (log_data log)"

definition ensure_event_header :: "string \<Rightarrow> bytes list \<Rightarrow> bytes \<Rightarrow> nat \<Rightarrow> (L1ProtocolError, unit) result" where
  "ensure_event_header event topics topic0 expected_topics =
     (if length topics \<noteq> expected_topics then Err (UnexpectedEventTopicCount event expected_topics (length topics))
      else if topics ! 0 \<noteq> topic0 then Err UnexpectedVaultEventTopic0 else Ok ())"

definition ensure_event_shape ::
  "string \<Rightarrow> bytes list \<Rightarrow> bytes \<Rightarrow> bytes \<Rightarrow> nat \<Rightarrow> nat \<Rightarrow> (L1ProtocolError, unit) result"
where
  "ensure_event_shape event topics data topic0 expected_topics expected_data_len =
     and_then (ensure_event_header event topics topic0 expected_topics) (\<lambda>_.
       if length data \<noteq> expected_data_len
       then Err (UnexpectedEventDataLength event expected_data_len (length data)) else Ok ())"

text \<open>\<open>usize\<close> has 64 bits; the additions are checked.\<close>

definition ensure_canonical_string_tail :: "string \<Rightarrow> bytes \<Rightarrow> nat \<Rightarrow> string \<Rightarrow> (L1ProtocolError, unit) result" where
  "ensure_canonical_string_tail event data static_words_before_offset field =
     (let offset_word = static_words_before_offset;
          offset = (offset_word + 1) * 32;
          tail_header_end = offset + 32
      in if length data < tail_header_end then Err (UnexpectedEventDataLength event tail_header_end (length data))
         else and_then (decode_u64_word (data_word data offset_word) field) (\<lambda>actual_offset.
           if actual_offset \<noteq> of_nat offset
           then Err (UnexpectedDynamicOffset event field (of_nat offset) actual_offset)
           else and_then (decode_u64_word (data_word data (offset div 32)) field) (\<lambda>dynamic_len.
             and_then (ok_or (DynamicLengthOverflow event field) (add_u64 dynamic_len 31)) (\<lambda>padded.
             let padded_dynamic_len = padded div 32 * 32 in
             and_then (ok_or (DynamicLengthOverflow event field) (add_u64 (of_nat tail_header_end) padded_dynamic_len))
               (\<lambda>expected_data_len.
                 if length data \<noteq> unat expected_data_len
                 then Err (UnexpectedEventDataLength event (unat expected_data_len) (length data))
                 else if list_ex (\<lambda>b. b \<noteq> 0) (drop (tail_header_end + unat dynamic_len) data)
                 then Err (NonZeroDynamicPadding event field)
                 else Ok ())))))"

definition parse_withdrawal_queued :: "hash \<Rightarrow> bytes list \<Rightarrow> bytes \<Rightarrow> (L1ProtocolError, WithdrawalQueued) result" where
  "parse_withdrawal_queued k topics data =
     and_then (ensure_event_shape ''WithdrawalQueued'' topics data (withdrawal_queued_topic0 k) 3 192) (\<lambda>_.
     and_then (decode_address_word (topics ! 2) ''recipient'') (\<lambda>recipient.
     and_then (decode_address_word (data_word data 0) ''token'') (\<lambda>token.
     and_then (decode_u64_word (data_word data 1) ''amount'') (\<lambda>amount.
     and_then (decode_u64_word (data_word data 3) ''height'') (\<lambda>height.
     and_then (decode_u64_word (data_word data 4) ''requestedAt'') (\<lambda>requested.
     and_then (decode_u64_word (data_word data 5) ''executableAt'') (\<lambda>executable.
     Ok \<lparr> wq_nullifier = topics ! 1, wq_recipient = recipient, wq_token_address = token, wq_amount_token_units = amount,
          wq_state_root = data_word data 2, wq_height = height, wq_requested_at_unix = requested,
          wq_executable_at_unix = executable \<rparr>)))))))"

definition parse_withdrawal_finalized ::
  "hash \<Rightarrow> bytes list \<Rightarrow> bytes \<Rightarrow> (L1ProtocolError, WithdrawalFinalizedLog) result"
where
  "parse_withdrawal_finalized k topics data =
     and_then (ensure_event_shape ''WithdrawalFinalized'' topics data (withdrawal_finalized_topic0 k) 3 96) (\<lambda>_.
     and_then (decode_address_word (topics ! 2) ''recipient'') (\<lambda>recipient.
     and_then (decode_u64_word (data_word data 0) ''amount'') (\<lambda>amount.
     and_then (decode_u64_word (data_word data 1) ''finalizedAt'') (\<lambda>finalized.
     and_then (decode_u64_word (data_word data 2) ''executableAt'') (\<lambda>executable.
     Ok \<lparr> wf_nullifier = topics ! 1, wf_recipient = recipient, wf_amount_token_units = amount,
          wf_finalized_at_unix = finalized, wf_executable_at_unix = executable \<rparr>)))))"

definition parse_withdrawal_cancelled ::
  "hash \<Rightarrow> bytes list \<Rightarrow> bytes \<Rightarrow> (L1ProtocolError, WithdrawalCancelledLog) result"
where
  "parse_withdrawal_cancelled k topics data =
     and_then (ensure_event_header ''WithdrawalCancelled'' topics (withdrawal_cancelled_topic0 k) 3) (\<lambda>_.
     and_then (ensure_canonical_string_tail ''WithdrawalCancelled'' data 3 ''reason'') (\<lambda>_.
     and_then (decode_address_word (topics ! 2) ''recipient'') (\<lambda>recipient.
     and_then (decode_u64_word (data_word data 0) ''amount'') (\<lambda>amount.
     and_then (decode_u64_word (data_word data 1) ''cancelledAt'') (\<lambda>cancelled.
     and_then (decode_u64_word (data_word data 2) ''executableAt'') (\<lambda>executable.
     Ok \<lparr> wc_nullifier = topics ! 1, wc_recipient = recipient, wc_amount_token_units = amount,
          wc_cancelled_at_unix = cancelled, wc_executable_at_unix = executable \<rparr>))))))"

definition result_map :: "('a \<Rightarrow> 'b) \<Rightarrow> ('e, 'a) result \<Rightarrow> ('e, 'b) result" where
  "result_map f r = and_then r (\<lambda>x. Ok (f x))"

definition parse_withdrawal_event_log :: "hash \<Rightarrow> L1Log \<Rightarrow> (L1ProtocolError, WithdrawalEvent) result" where
  "parse_withdrawal_event_log k log = (case log_topics log of
     [] \<Rightarrow> Err UnexpectedVaultEventTopic0
   | topic0 # _ \<Rightarrow>
       if topic0 = withdrawal_queued_topic0 k
       then result_map Queued (parse_withdrawal_queued k (log_topics log) (log_data log))
       else if topic0 = withdrawal_finalized_topic0 k
       then result_map Finalized (parse_withdrawal_finalized k (log_topics log) (log_data log))
       else if topic0 = withdrawal_cancelled_topic0 k
       then result_map Cancelled (parse_withdrawal_cancelled k (log_topics log) (log_data log))
       else Err UnexpectedVaultEventTopic0)"

section \<open>Statement hashes\<close>

definition deposit_words :: "DepositLeaf \<Rightarrow> AbiWord list" where
  "deposit_words d = [AwUint (dl_chain_id d), AwAddress (dl_vault_address d), AwUint (dl_deposit_id d),
     AwAddress (dl_token_address d), AwAddress (dl_sender d), AwBytes32 (dl_sybil_account_key d),
     AwUint (dl_amount_token_units d)]"

definition deposit_leaf :: "hash \<Rightarrow> DepositLeaf \<Rightarrow> bytes" where
  "deposit_leaf k d = k (abi_encode_domain_and_words DEPOSIT_DOMAIN (deposit_words d))"

definition nullifier_words :: "u64 \<Rightarrow> bytes \<Rightarrow> u64 \<Rightarrow> u64 \<Rightarrow> bytes \<Rightarrow> bytes \<Rightarrow> u64 \<Rightarrow> AbiWord list" where
  "nullifier_words chain_id vault_address withdrawal_id account_id recipient token_address amount_token_units =
     [AwUint chain_id, AwAddress vault_address, AwUint withdrawal_id, AwUint account_id, AwAddress recipient,
      AwAddress token_address, AwUint amount_token_units]"

definition withdrawal_nullifier :: "hash \<Rightarrow> u64 \<Rightarrow> bytes \<Rightarrow> u64 \<Rightarrow> u64 \<Rightarrow> bytes \<Rightarrow> bytes \<Rightarrow> u64 \<Rightarrow> bytes" where
  "withdrawal_nullifier k chain_id vault_address withdrawal_id account_id recipient token_address amount_token_units =
     k (abi_encode_domain_and_words WITHDRAWAL_NULLIFIER_DOMAIN
         (nullifier_words chain_id vault_address withdrawal_id account_id recipient token_address amount_token_units))"

section \<open>Words round-trip\<close>

lemma bit_from_be: "bit (from_be (rev bs)) n \<longleftrightarrow> n < 64 \<and> n div 8 < length bs \<and> bit (bs ! (n div 8)) (n mod 8)"
proof (induction bs arbitrary: n)
  case (Cons b bs)
  have r: "from_be (rev (b # bs)) = push_bit 8 (from_be (rev bs)) OR ucast b" by (simp add: from_be_def)
  show ?case
  proof (cases "n < 8")
    case True
    then show ?thesis unfolding r by (simp add: bit_or_iff bit_push_bit_iff bit_ucast_iff)
  next
    case False
    then obtain m where m: "n = m + 8" by (metis add.commute le_add_diff_inverse not_less)
    have d: "(m + 8) div 8 = Suc (m div 8)" "(m + 8) mod 8 = m mod 8" by simp_all
    have "\<not> bit b n" using False bit_imp_le_length [of b n] by auto
    then show ?thesis unfolding r
      using Cons.IH [of m] by (auto simp: m d bit_or_iff bit_push_bit_iff bit_ucast_iff)
  qed
qed (simp add: from_be_def)

lemma bit_le64: "i < 8 \<Longrightarrow> j < 8 \<Longrightarrow> bit (le64 w ! i) j \<longleftrightarrow> bit w (8 * i + j)"
  by (simp add: le64_def le_bytes_def bit_ucast_iff bit_drop_bit_eq)

lemma from_be_be64 [simp]: "from_be (be64 w) = w"
proof (rule bit_word_eqI)
  fix n assume "n < LENGTH(64)"
  then show "bit (from_be (be64 w)) n = bit w n"
    by (simp add: be64_def bit_from_be bit_le64 less_mult_imp_div_less)
qed

lemma be64_from_be [simp]: assumes "length bs = 8" shows "be64 (from_be bs) = bs"
proof -
  have l: "from_be bs = from_be (rev (rev bs))" by simp
  have "le64 (from_be bs) = rev bs"
  proof (rule nth_equalityI)
    fix i assume i: "i < length (le64 (from_be bs))"
    show "le64 (from_be bs) ! i = rev bs ! i"
    proof (rule bit_word_eqI)
      fix j assume "j < LENGTH(8)"
      then show "bit (le64 (from_be bs) ! i) j = bit (rev bs ! i) j"
        using i assms unfolding l bit_le64 [OF i [simplified] \<open>j < LENGTH(8)\<close> [simplified]] bit_from_be by simp
    qed
  qed (use assms in simp)
  then show ?thesis by (simp add: be64_def)
qed

lemma length_be64 [simp]: "length (be64 w) = 8"
  by (simp add: be64_def)

lemma length_abi_words [simp]:
  "length (abi_u64_word v) = 32" "length (abi_usize_word n) = 32" "length (abi_address_word a) = 12 + length a"
  by (simp_all add: abi_u64_word_def abi_usize_word_def abi_address_word_def)

lemma zero_prefix: "length w = n + m \<Longrightarrow> \<not> list_ex (\<lambda>b. b \<noteq> 0) (take n w) \<longleftrightarrow> w = replicate n 0 @ drop n w"
proof
  assume "length w = n + m" "\<not> list_ex (\<lambda>b. b \<noteq> 0) (take n w)"
  then have "take n w = replicate n 0"
    by (intro replicate_eqI) (auto simp: list_ex_iff)
  then show "w = replicate n 0 @ drop n w" by (metis append_take_drop_id)
next
  assume "length w = n + m" "w = replicate n 0 @ drop n w"
  then have "take n w = replicate n 0" by (metis append_eq_conv_conj length_replicate)
  then show "\<not> list_ex (\<lambda>b. b \<noteq> 0) (take n w)" by (simp add: list_ex_iff)
qed

lemma decode_u64_word_Ok:
  assumes "length w = 32" shows "decode_u64_word w f = Ok v \<longleftrightarrow> w = abi_u64_word v"
proof
  assume "decode_u64_word w f = Ok v"
  then have "w = replicate 24 0 @ drop 24 w" "v = from_be (drop 24 w)"
    using zero_prefix [of w 24 8] assms by (auto simp: decode_u64_word_def split: if_splits)
  moreover have "length (drop 24 w) = 8" using assms by simp
  ultimately show "w = abi_u64_word v" by (simp add: abi_u64_word_def)
qed (simp add: decode_u64_word_def abi_u64_word_def list_ex_iff)

lemma decode_address_word_Ok:
  assumes "length w = 32" shows "decode_address_word w f = Ok a \<longleftrightarrow> w = abi_address_word a \<and> length a = 20"
proof
  assume "decode_address_word w f = Ok a"
  then show "w = abi_address_word a \<and> length a = 20"
    using zero_prefix [of w 12 20] assms by (auto simp: decode_address_word_def abi_address_word_def split: if_splits)
qed (simp add: decode_address_word_def abi_address_word_def list_ex_iff)

section \<open>Parsers accept exactly the canonical encodings\<close>

text \<open>The log the vault emits for a deposit.\<close>

definition deposit_log :: "hash \<Rightarrow> DepositReceived \<Rightarrow> bytes list \<times> bytes" where
  "deposit_log k d = ([deposit_received_topic0 k, abi_u64_word (dr_deposit_id d), abi_address_word (dr_sender d),
       dr_sybil_account_key d],
     abi_address_word (dr_token_address d) @ abi_u64_word (dr_amount_token_units d) @ dr_deposit_root d)"

definition deposit_wf :: "DepositReceived \<Rightarrow> bool" where
  "deposit_wf d \<longleftrightarrow> length (dr_sender d) = 20 \<and> length (dr_token_address d) = 20 \<and>
     length (dr_sybil_account_key d) = 32 \<and> length (dr_deposit_root d) = 32"

lemma data_words_3:
  assumes "length data = 96"
  shows "data = data_word data 0 @ data_word data 1 @ data_word data 2"
    "length (data_word data 0) = 32" "length (data_word data 1) = 32" "length (data_word data 2) = 32"
proof -
  have "data = take 32 data @ take 32 (drop 32 data) @ drop 64 data"
    by (metis append_take_drop_id drop_drop numeral_Bit0)
  moreover have "take 32 (drop 64 data) = drop 64 data" using assms by simp
  ultimately show "data = data_word data 0 @ data_word data 1 @ data_word data 2" by (simp add: data_word_def)
qed (use assms in \<open>simp_all add: data_word_def\<close>)

text \<open>C36: the parser of deposit logs accepts exactly the canonical ABI encodings: it returns a deposit if and only if
  the topics and the data are that deposit's encoding.\<close>

theorem parse_deposit_received_canonical:
  assumes "\<forall>t \<in> set topics. length t = 32"
  shows "parse_deposit_received k topics data = Ok d \<longleftrightarrow>
         length (deposit_received_topic0 k) = 32 \<and> deposit_wf d \<and> (topics, data) = deposit_log k d"
proof
  assume "parse_deposit_received k topics data = Ok d"
  then have l: "length topics = 4" "length data = 96" and t0: "topics ! 0 = deposit_received_topic0 k"
    and p: "decode_u64_word (topics ! 1) ''depositId'' = Ok (dr_deposit_id d)"
      "decode_address_word (topics ! 2) ''sender'' = Ok (dr_sender d)"
      "decode_address_word (data_word data 0) ''token'' = Ok (dr_token_address d)"
      "decode_u64_word (data_word data 1) ''amount'' = Ok (dr_amount_token_units d)"
      "dr_sybil_account_key d = topics ! 3" "dr_deposit_root d = data_word data 2"
    by (auto simp: parse_deposit_received_def opt split: if_splits)
  obtain a b c e where t: "topics = [a, b, c, e]"
    using l(1) by (auto simp: eval_nat_numeral length_Suc_conv)
  show "length (deposit_received_topic0 k) = 32 \<and> deposit_wf d \<and> (topics, data) = deposit_log k d"
    using p t0 assms data_words_3 [OF l(2)]
    by (simp add: t decode_u64_word_Ok decode_address_word_Ok deposit_wf_def deposit_log_def)
next
  assume "length (deposit_received_topic0 k) = 32 \<and> deposit_wf d \<and> (topics, data) = deposit_log k d"
  then have d: "deposit_wf d" "topics = fst (deposit_log k d)" "data = snd (deposit_log k d)" by (metis fst_conv snd_conv)+
  have w: "data_word data 0 = abi_address_word (dr_token_address d)" "data_word data 1 = abi_u64_word (dr_amount_token_units d)"
    "data_word data 2 = dr_deposit_root d" "length data = 96"
    using d(1) by (simp_all add: d(3) deposit_log_def data_word_def deposit_wf_def)
  have "decode_u64_word (abi_u64_word v) f = Ok v" for v f by (simp add: decode_u64_word_Ok)
  moreover have "decode_address_word (abi_address_word a) f = Ok a" if "length a = 20" for a f
    using that by (simp add: decode_address_word_Ok)
  ultimately show "parse_deposit_received k topics data = Ok d"
    using d(1) by (simp add: parse_deposit_received_def w w(2) [simplified]) (simp add: d(2) deposit_log_def deposit_wf_def)
qed

definition sample_deposit :: DepositReceived where
  "sample_deposit = \<lparr> dr_deposit_id = 9, dr_sender = replicate 20 1, dr_sybil_account_key = replicate 32 2,
     dr_token_address = replicate 20 3, dr_amount_token_units = 5000000, dr_deposit_root = replicate 32 4 \<rparr>"

theorem parse_deposit_received_canonical_witness:
  "parse_deposit_received (\<lambda>_. zero_digest) (fst (deposit_log (\<lambda>_. zero_digest) sample_deposit))
     (snd (deposit_log (\<lambda>_. zero_digest) sample_deposit)) = Ok sample_deposit"
  by (subst parse_deposit_received_canonical)
     (simp_all add: deposit_log_def deposit_received_topic0_def zero_digest_def sample_deposit_def deposit_wf_def)

section \<open>Statement pre-images are injective\<close>

fun abi_word_wf :: "AbiWord \<Rightarrow> bool" where
  "abi_word_wf (AwUint v) \<longleftrightarrow> True"
| "abi_word_wf (AwAddress a) \<longleftrightarrow> length a = 20"
| "abi_word_wf (AwBytes32 b) \<longleftrightarrow> length b = 32"

lemma length_abi_word: "abi_word_wf w \<Longrightarrow> length (abi_word w) = 32"
  by (cases w) simp_all

lemma abi_u64_word_inj [simp]: "abi_u64_word v = abi_u64_word w \<longleftrightarrow> v = w"
  by (metis abi_u64_word_def append_same_eq from_be_be64 same_append_eq)

lemma abi_address_word_inj [simp]: "abi_address_word a = abi_address_word b \<longleftrightarrow> a = b"
  by (simp add: abi_address_word_def)

lemma abi_words_prefix:
  "length xs = length ys \<Longrightarrow> \<forall>w \<in> set xs \<union> set ys. abi_word_wf w \<Longrightarrow>
     concat (map abi_word xs) @ r = concat (map abi_word ys) @ r' \<Longrightarrow> map abi_word xs = map abi_word ys \<and> r = r'"
proof (induction rule: list_induct2)
  case (Cons x xs y ys)
  then show ?case using length_abi_word [of x] length_abi_word [of y] by (auto simp: append_eq_append_conv)
qed simp

lemma abi_encode_inj:
  assumes "abi_encode_domain_and_words d xs = abi_encode_domain_and_words d' ys" "length xs = length ys"
    "\<forall>w \<in> set xs \<union> set ys. abi_word_wf w"
  shows "map abi_word xs = map abi_word ys \<and>
    abi_usize_word (length d) @ d @ replicate (padded_len (length d) - length d) 0 =
    abi_usize_word (length d') @ d' @ replicate (padded_len (length d') - length d') 0"
  using assms abi_words_prefix [OF assms(2,3)] by (simp add: abi_encode_domain_and_words_def Let_def)

definition leaf_wf :: "DepositLeaf \<Rightarrow> bool" where
  "leaf_wf d \<longleftrightarrow> length (dl_vault_address d) = 20 \<and> length (dl_token_address d) = 20 \<and> length (dl_sender d) = 20 \<and>
     length (dl_sybil_account_key d) = 32"

text \<open>C37: the hashed pre-image of a deposit leaf determines the deposit, the pre-image of a withdrawal nullifier
  determines chain, vault, withdrawal, account, recipient, token and amount, and no deposit has the
  pre-image of a nullifier.\<close>

theorem statement_preimages_injective:
  assumes "leaf_wf d" "leaf_wf d'"
    and "length v = 20" "length r = 20" "length t = 20" "length v' = 20" "length r' = 20" "length t' = 20"
  shows "(abi_encode_domain_and_words DEPOSIT_DOMAIN (deposit_words d) =
            abi_encode_domain_and_words DEPOSIT_DOMAIN (deposit_words d') \<longleftrightarrow> d = d') \<and>
         (abi_encode_domain_and_words WITHDRAWAL_NULLIFIER_DOMAIN (nullifier_words c v i a r t n) =
            abi_encode_domain_and_words WITHDRAWAL_NULLIFIER_DOMAIN (nullifier_words c' v' i' a' r' t' n') \<longleftrightarrow>
          c = c' \<and> v = v' \<and> i = i' \<and> a = a' \<and> r = r' \<and> t = t' \<and> n = n') \<and>
         abi_encode_domain_and_words DEPOSIT_DOMAIN (deposit_words d) \<noteq>
           abi_encode_domain_and_words WITHDRAWAL_NULLIFIER_DOMAIN (nullifier_words c v i a r t n)"
proof (intro conjI)
  have wd: "\<forall>w \<in> set (deposit_words e). abi_word_wf w" if "leaf_wf e" for e
    using that by (simp add: deposit_words_def leaf_wf_def)
  have wn: "\<forall>w \<in> set (nullifier_words c v i a r t n). abi_word_wf w" if "length v = 20" "length r = 20" "length t = 20"
    for c v i a r t n using that by (simp add: nullifier_words_def)
  have len: "length (deposit_words e) = 7" "length (nullifier_words c v i a r t n) = 7" for e c v i a r t n
    by (simp_all add: deposit_words_def nullifier_words_def)
  show "abi_encode_domain_and_words DEPOSIT_DOMAIN (deposit_words d) =
      abi_encode_domain_and_words DEPOSIT_DOMAIN (deposit_words d') \<longleftrightarrow> d = d'"
  proof
    assume "abi_encode_domain_and_words DEPOSIT_DOMAIN (deposit_words d) =
      abi_encode_domain_and_words DEPOSIT_DOMAIN (deposit_words d')"
    from abi_encode_inj [OF this] wd [OF assms(1)] wd [OF assms(2)]
    have "map abi_word (deposit_words d) = map abi_word (deposit_words d')" by (simp add: len ball_Un)
    then show "d = d'" by (simp add: deposit_words_def)
  qed simp
  show "abi_encode_domain_and_words WITHDRAWAL_NULLIFIER_DOMAIN (nullifier_words c v i a r t n) =
      abi_encode_domain_and_words WITHDRAWAL_NULLIFIER_DOMAIN (nullifier_words c' v' i' a' r' t' n') \<longleftrightarrow>
      c = c' \<and> v = v' \<and> i = i' \<and> a = a' \<and> r = r' \<and> t = t' \<and> n = n'"
  proof
    assume "abi_encode_domain_and_words WITHDRAWAL_NULLIFIER_DOMAIN (nullifier_words c v i a r t n) =
      abi_encode_domain_and_words WITHDRAWAL_NULLIFIER_DOMAIN (nullifier_words c' v' i' a' r' t' n')"
    from abi_encode_inj [OF this] wn [OF assms(3-5)] wn [OF assms(6-8)]
    have "map abi_word (nullifier_words c v i a r t n) = map abi_word (nullifier_words c' v' i' a' r' t' n')"
      by (simp add: len ball_Un)
    then show "c = c' \<and> v = v' \<and> i = i' \<and> a = a' \<and> r = r' \<and> t = t' \<and> n = n'" by (simp add: nullifier_words_def)
  qed simp
  show "abi_encode_domain_and_words DEPOSIT_DOMAIN (deposit_words d) \<noteq>
      abi_encode_domain_and_words WITHDRAWAL_NULLIFIER_DOMAIN (nullifier_words c v i a r t n)"
  proof
    assume "abi_encode_domain_and_words DEPOSIT_DOMAIN (deposit_words d) =
      abi_encode_domain_and_words WITHDRAWAL_NULLIFIER_DOMAIN (nullifier_words c v i a r t n)"
    from abi_encode_inj [OF this] wd [OF assms(1)] wn [OF assms(3-5)]
    have "abi_usize_word (length DEPOSIT_DOMAIN) = abi_usize_word (length WITHDRAWAL_NULLIFIER_DOMAIN)"
      by (simp add: len ball_Un)
    moreover have "length DEPOSIT_DOMAIN = 19" "length WITHDRAWAL_NULLIFIER_DOMAIN = 29"
      by (simp_all add: DEPOSIT_DOMAIN_def WITHDRAWAL_NULLIFIER_DOMAIN_def ascii_def)
    ultimately have "abi_u64_word 19 = abi_u64_word 29" by (simp add: abi_usize_word_def abi_u64_word_def)
    then show False by simp
  qed
qed

theorem statement_preimages_injective_witness:
  "abi_encode_domain_and_words WITHDRAWAL_NULLIFIER_DOMAIN
     (nullifier_words 1 (replicate 20 1) 5 7 (replicate 20 2) (replicate 20 3) 900) \<noteq>
   abi_encode_domain_and_words WITHDRAWAL_NULLIFIER_DOMAIN
     (nullifier_words 1 (replicate 20 1) 6 7 (replicate 20 2) (replicate 20 3) 900)"
  using statement_preimages_injective [of "into_deposit_leaf sample_deposit 1 (replicate 20 1)"
      "into_deposit_leaf sample_deposit 1 (replicate 20 1)" "replicate 20 1" "replicate 20 2" "replicate 20 3"
      "replicate 20 1" "replicate 20 2" "replicate 20 3" 1 5 7 900 1 6 7 900]
  by (simp add: leaf_wf_def into_deposit_leaf_def sample_deposit_def)

end
