(* ===== verification/Deposit_Tree.thy ===== *)
theory Deposit_Tree
  imports L1_Protocol
begin

text \<open>
  The incremental deposit Merkle tree of \<open>crates/sybil-l1-protocol/src/lib.rs\<close>.  A frontier of 32 nodes and a
  count stand for the whole list of leaves: the root they give and the roots after each append are the
  roots of the complete binary tree over the leaves, padded with zero leaves.  Keccak256 is the parameter \<open>k\<close>.
\<close>

definition DEPOSIT_TREE_DEPTH :: nat where "DEPOSIT_TREE_DEPTH = 32"

definition deposit_tree_capacity :: u64 where "deposit_tree_capacity = push_bit DEPOSIT_TREE_DEPTH 1"

definition hash_node :: "hash \<Rightarrow> bytes \<Rightarrow> bytes \<Rightarrow> bytes" where
  "hash_node k left right = k ([0x01] @ left @ right)"

definition deposit_tree_leaf :: "hash \<Rightarrow> DepositLeaf \<Rightarrow> bytes" where
  "deposit_tree_leaf k d = k ([0x00] @ deposit_leaf k d)"

text \<open>\<open>deposit_zero_hashes\<close>, as the function of the level that its loop tabulates.\<close>

fun zero_hash :: "hash \<Rightarrow> nat \<Rightarrow> bytes" where
  "zero_hash k 0 = zero_digest"
| "zero_hash k (Suc level) = hash_node k (zero_hash k level) (zero_hash k level)"

definition deposit_zero_hashes :: "hash \<Rightarrow> bytes list" where
  "deposit_zero_hashes k = map (zero_hash k) [0..<DEPOSIT_TREE_DEPTH + 1]"

definition empty_deposit_root :: "hash \<Rightarrow> bytes" where
  "empty_deposit_root k = deposit_zero_hashes k ! DEPOSIT_TREE_DEPTH"

definition empty_deposit_frontier :: "bytes list" where
  "empty_deposit_frontier = replicate DEPOSIT_TREE_DEPTH zero_digest"

definition root_level :: "hash \<Rightarrow> bytes list \<Rightarrow> u64 \<Rightarrow> nat \<Rightarrow> bytes \<Rightarrow> bytes" where
  "root_level k frontier n level root =
     (if drop_bit level n AND 1 = 1 then hash_node k (frontier ! level) root
      else hash_node k root (zero_hash k level))"

definition deposit_root_from_frontier :: "hash \<Rightarrow> bytes list \<Rightarrow> u64 \<Rightarrow> bytes option" where
  "deposit_root_from_frontier k frontier n =
     (if deposit_tree_capacity < n then None
      else Some (fold (root_level k frontier n) [0..<DEPOSIT_TREE_DEPTH] (zero_hash k 0)))"

text \<open>One iteration of the append loop on the index, the running root and the frontier.\<close>

definition append_level :: "hash \<Rightarrow> nat \<Rightarrow> u64 \<times> bytes \<times> bytes list \<Rightarrow> u64 \<times> bytes \<times> bytes list" where
  "append_level k level = (\<lambda>(index, root, frontier).
     if index AND 1 = 0
     then (drop_bit 1 index, hash_node k root (zero_hash k level), frontier[level := root])
     else (drop_bit 1 index, hash_node k (frontier ! level) root, frontier))"

definition append_deposit_frontier :: "hash \<Rightarrow> bytes list \<Rightarrow> u64 \<Rightarrow> DepositLeaf \<Rightarrow> (bytes list \<times> bytes) option" where
  "append_deposit_frontier k frontier pre_count deposit =
     (if deposit_tree_capacity \<le> pre_count then None
      else let (index, root, frontier') =
             fold (append_level k) [0..<DEPOSIT_TREE_DEPTH] (pre_count, deposit_tree_leaf k deposit, frontier)
           in Some (frontier', root))"

fun append_deposits :: "hash \<Rightarrow> bytes list \<Rightarrow> u64 \<Rightarrow> DepositLeaf list \<Rightarrow> (bytes list \<times> bytes list) option" where
  "append_deposits k frontier n [] = Some (frontier, [])"
| "append_deposits k frontier n (d # ds) = do {
     (frontier', root) \<leftarrow> append_deposit_frontier k frontier n d;
     (frontier'', roots) \<leftarrow> append_deposits k frontier' (n + 1) ds;
     Some (frontier'', root # roots) }"

definition deposit_frontier_prefix_roots :: "hash \<Rightarrow> bytes list \<Rightarrow> u64 \<Rightarrow> DepositLeaf list \<Rightarrow> bytes list option" where
  "deposit_frontier_prefix_roots k pre_frontier pre_count deposits = do {
     post_count \<leftarrow> add_u64 pre_count (of_nat (length deposits));
     if deposit_tree_capacity < post_count then None
     else map_option snd (append_deposits k pre_frontier pre_count deposits) }"

definition deposit_frontier_after_prefix :: "hash \<Rightarrow> bytes list \<Rightarrow> u64 \<Rightarrow> DepositLeaf list \<Rightarrow> bytes list option" where
  "deposit_frontier_after_prefix k pre_frontier pre_count deposits = do {
     post_count \<leftarrow> add_u64 pre_count (of_nat (length deposits));
     if deposit_tree_capacity < post_count then None
     else map_option fst (append_deposits k pre_frontier pre_count deposits) }"

text \<open>The \<open>expect\<close> aborts on more deposits than the tree holds.\<close>

definition deposit_prefix_roots :: "hash \<Rightarrow> DepositLeaf list \<Rightarrow> bytes list option" where
  "deposit_prefix_roots k deposits = deposit_frontier_prefix_roots k empty_deposit_frontier 0 deposits"

definition deposit_root_from_prefix :: "hash \<Rightarrow> DepositLeaf list \<Rightarrow> bytes option" where
  "deposit_root_from_prefix k deposits =
     map_option (\<lambda>roots. if roots = [] then empty_deposit_root k else last roots) (deposit_prefix_roots k deposits)"

section \<open>The complete binary tree\<close>

text \<open>The root of the complete tree of a depth over a list of leaves, padded with zero leaves.\<close>

fun tree_root :: "hash \<Rightarrow> nat \<Rightarrow> bytes list \<Rightarrow> bytes" where
  "tree_root k 0 xs = (case xs of [] \<Rightarrow> zero_digest | x # _ \<Rightarrow> x)"
| "tree_root k (Suc d) xs = hash_node k (tree_root k d (take (2 ^ d) xs)) (tree_root k d (drop (2 ^ d) xs))"

text \<open>The node at a level and an index of that level.\<close>

definition node :: "hash \<Rightarrow> bytes list \<Rightarrow> nat \<Rightarrow> nat \<Rightarrow> bytes" where
  "node k xs level j = tree_root k level (take (2 ^ level) (drop (j * 2 ^ level) xs))"

definition represents :: "hash \<Rightarrow> bytes list \<Rightarrow> bytes list \<Rightarrow> bool" where
  "represents k frontier xs \<longleftrightarrow> length frontier = DEPOSIT_TREE_DEPTH \<and>
     (\<forall>level < DEPOSIT_TREE_DEPTH. odd (length xs div 2 ^ level) \<longrightarrow>
        frontier ! level = node k xs level (length xs div 2 ^ level - 1))"

lemma tree_root_Nil: "tree_root k d [] = zero_hash k d"
  by (induction d) simp_all

lemma node_Suc: "node k xs (Suc l) j = hash_node k (node k xs l (2 * j)) (node k xs l (2 * j + 1))"
proof -
  have "take (2 ^ l) (take (2 ^ Suc l) (drop (j * 2 ^ Suc l) xs)) = take (2 ^ l) (drop (2 * j * 2 ^ l) xs)"
    by (simp add: min_def algebra_simps)
  moreover have "drop (2 ^ l) (take (2 ^ Suc l) (drop (j * 2 ^ Suc l) xs)) = take (2 ^ l) (drop ((2 * j + 1) * 2 ^ l) xs)"
    by (simp add: drop_take algebra_simps)
  ultimately show ?thesis by (simp add: node_def del: power_Suc)
qed

lemma node_beyond: "length xs \<le> j * 2 ^ l \<Longrightarrow> node k xs l j = zero_hash k l"
  by (simp add: node_def tree_root_Nil)

lemma node_complete: "(j + 1) * 2 ^ l \<le> length xs \<Longrightarrow> node k (xs @ ys) l j = node k xs l j"
  by (simp add: node_def algebra_simps)

lemma node_root: "length xs \<le> 2 ^ l \<Longrightarrow> node k xs l 0 = tree_root k l xs"
  by (simp add: node_def)

lemma div_pow_Suc: "n div 2 ^ Suc l = n div 2 ^ l div (2 :: nat)"
  by (simp add: div_mult2_eq [symmetric] mult.commute)

lemma below_next: "(n :: nat) \<le> (n div 2 ^ l + 1) * 2 ^ l"
proof -
  have "n div 2 ^ l * 2 ^ l + n mod 2 ^ l = n" by (rule div_mult_mod_eq)
  moreover have "n mod 2 ^ l < 2 ^ l" by simp
  ultimately show ?thesis unfolding distrib_right mult_1 by linarith
qed

text \<open>The node on the path to the next free leaf, from the frontier.\<close>

lemma root_loop:
  assumes "\<forall>l < d. odd (length xs div 2 ^ l) \<longrightarrow> frontier ! l = node k xs l (length xs div 2 ^ l - 1)"
    and "\<forall>l < d. (drop_bit l n AND 1 = 1) \<longleftrightarrow> odd (length xs div 2 ^ l)"
  shows "fold (root_level k frontier n) [0..<d] (zero_hash k 0) = node k xs d (length xs div 2 ^ d)"
  using assms
proof (induction d)
  case 0
  then show ?case using node_beyond [of xs "length xs" 0 k] by simp
next
  case (Suc d)
  let ?j = "length xs div 2 ^ d"
  have IH: "fold (root_level k frontier n) [0..<d] (zero_hash k 0) = node k xs d ?j" using Suc by simp
  show ?case
  proof (cases "odd ?j")
    case True
    then have "2 * (?j div 2) = ?j - 1" "2 * (?j div 2) + 1 = ?j"
      by (simp_all add: odd_two_times_div_two_nat)
    moreover have "frontier ! d = node k xs d (?j - 1)" "drop_bit d n AND 1 = 1" using Suc.prems True by simp_all
    ultimately show ?thesis
      using IH by (simp add: root_level_def [of k frontier n d] div_pow_Suc node_Suc del: power_Suc)
  next
    case False
    then have "2 * (?j div 2) = ?j" by simp
    moreover have "node k xs d (?j + 1) = zero_hash k d" by (intro node_beyond below_next)
    moreover have "drop_bit d n AND 1 \<noteq> 1" using Suc.prems False by simp
    ultimately show ?thesis
      using IH by (simp add: root_level_def [of k frontier n d] div_pow_Suc node_Suc del: power_Suc)
  qed
qed

lemma word_bit_parity:
  "(drop_bit l (n :: u64) AND 1 = 1) \<longleftrightarrow> odd (unat n div 2 ^ l)"
  "(drop_bit l (n :: u64) AND 1 = 0) \<longleftrightarrow> even (unat n div 2 ^ l)"
proof -
  have "odd (drop_bit l n) \<longleftrightarrow> bit n l" by (simp add: bit_drop_bit_eq flip: bit_0)
  also have "\<dots> \<longleftrightarrow> bit (unat n) l" by (simp add: bit_unsigned_iff)
  finally have o: "odd (drop_bit l n) \<longleftrightarrow> odd (unat n div 2 ^ l)" by (simp add: bit_iff_odd)
  show "(drop_bit l n AND 1 = 1) \<longleftrightarrow> odd (unat n div 2 ^ l)"
    using o unfolding and_one_eq odd_iff_mod_2_eq_one [symmetric] .
  show "(drop_bit l n AND 1 = 0) \<longleftrightarrow> even (unat n div 2 ^ l)"
    using o unfolding and_one_eq even_iff_mod_2_eq_zero [symmetric] by blast
qed

lemma capacity: "unat deposit_tree_capacity = 2 ^ 32" "n < deposit_tree_capacity \<longleftrightarrow> unat n < 2 ^ 32"
  by (simp_all add: deposit_tree_capacity_def DEPOSIT_TREE_DEPTH_def word_less_nat_alt)

lemma append_loop:
  fixes n :: u64
  assumes "length xs = unat n" "length frontier \<ge> d"
    and "\<forall>l < d. odd (length xs div 2 ^ l) \<longrightarrow> frontier ! l = node k xs l (length xs div 2 ^ l - 1)"
  shows "\<exists>frontier'. fold (append_level k) [0..<d] (n, x, frontier) =
      (drop_bit d n, node k (xs @ [x]) d (length xs div 2 ^ d), frontier') \<and> length frontier' = length frontier \<and>
    (\<forall>l < length frontier. frontier' ! l = (if l < d \<and> even (length xs div 2 ^ l)
        then node k (xs @ [x]) l (length xs div 2 ^ l) else frontier ! l))"
  using assms(2,3)
proof (induction d)
  case 0
  then show ?case by (simp add: node_def)
next
  case (Suc d)
  let ?j = "length xs div 2 ^ d" and ?ys = "xs @ [x]"
  from Suc obtain f where f: "fold (append_level k) [0..<d] (n, x, frontier) = (drop_bit d n, node k ?ys d ?j, f)"
    "length f = length frontier"
    "\<forall>l < length frontier. f ! l = (if l < d \<and> even (length xs div 2 ^ l) then node k ?ys l (length xs div 2 ^ l) else frontier ! l)"
    by auto
  have b: "(drop_bit d n AND 1 = 0) \<longleftrightarrow> even ?j"
    using word_bit_parity(2) [of d n] assms(1) by simp
  show ?case
  proof (cases "even ?j")
    case True
    then have "2 * (?j div 2) = ?j" by simp
    moreover have "length ?ys \<le> (?j + 1) * 2 ^ d"
    proof -
      have "?j * 2 ^ d + length xs mod 2 ^ d = length xs" by (rule div_mult_mod_eq)
      moreover have "length xs mod 2 ^ d < 2 ^ d" by simp
      ultimately show ?thesis unfolding distrib_right mult_1 length_append list.size by linarith
    qed
    then have "node k ?ys d (?j + 1) = zero_hash k d" by (rule node_beyond)
    ultimately have "node k ?ys (Suc d) (length xs div 2 ^ Suc d) = hash_node k (node k ?ys d ?j) (zero_hash k d)"
      unfolding div_pow_Suc node_Suc by simp
    moreover have "fold (append_level k) [0..<Suc d] (n, x, frontier) =
        (drop_bit (Suc d) n, hash_node k (node k ?ys d ?j) (zero_hash k d), f[d := node k ?ys d ?j])"
      using f(1) True b by (simp add: append_level_def [of k d] drop_bit_drop_bit del: drop_bit_Suc)
    ultimately show ?thesis
      using f(2,3) True Suc.prems(1)
      by (intro exI [of _ "f[d := node k ?ys d ?j]"]) (simp add: nth_list_update less_Suc_eq del: power_Suc)
  next
    case False
    then have j: "2 * (?j div 2) = ?j - 1" "2 * (?j div 2) + 1 = ?j" by (simp_all add: odd_two_times_div_two_nat)
    have "f ! d = node k xs d (?j - 1)" using f(3) Suc.prems False by simp
    moreover have "(?j - 1 + 1) * 2 ^ d \<le> length xs"
      using False by (simp add: odd_pos)
    then have "node k ?ys d (?j - 1) = node k xs d (?j - 1)" by (rule node_complete)
    ultimately have "node k ?ys (Suc d) (length xs div 2 ^ Suc d) = hash_node k (f ! d) (node k ?ys d ?j)"
      unfolding div_pow_Suc node_Suc using j by simp
    moreover have "fold (append_level k) [0..<Suc d] (n, x, frontier) =
        (drop_bit (Suc d) n, hash_node k (f ! d) (node k ?ys d ?j), f)"
      using f(1) False b by (simp add: append_level_def [of k d] drop_bit_drop_bit del: drop_bit_Suc)
    ultimately show ?thesis
      using f(2,3) False by (intro exI [of _ f]) (auto simp: less_Suc_eq simp del: power_Suc)
  qed
qed

section \<open>The frontier stands for the tree\<close>

lemma succ_div: "(Suc n) div 2 ^ l = n div 2 ^ l \<or> (Suc n) div 2 ^ l = Suc (n div (2 :: nat) ^ l)"
  by (simp add: div_Suc)

lemma frontier_root:
  assumes "represents k f xs" "length xs = unat n" "n < deposit_tree_capacity"
  shows "deposit_root_from_frontier k f n = Some (tree_root k DEPOSIT_TREE_DEPTH xs)"
proof -
  have "fold (root_level k f n) [0..<DEPOSIT_TREE_DEPTH] (zero_hash k 0) =
      node k xs DEPOSIT_TREE_DEPTH (length xs div 2 ^ DEPOSIT_TREE_DEPTH)"
    using assms(1,2) by (intro root_loop) (simp_all add: represents_def word_bit_parity)
  moreover have "length xs < 2 ^ DEPOSIT_TREE_DEPTH" using assms(2,3) by (simp add: capacity DEPOSIT_TREE_DEPTH_def)
  ultimately show ?thesis
    using assms(3) by (simp add: deposit_root_from_frontier_def node_root less_imp_le)
qed

lemma frontier_append:
  assumes "represents k f xs" "length xs = unat n" "n < deposit_tree_capacity"
  shows "\<exists>f'. append_deposit_frontier k f n d =
      Some (f', tree_root k DEPOSIT_TREE_DEPTH (xs @ [deposit_tree_leaf k d])) \<and> represents k f' (xs @ [deposit_tree_leaf k d])"
proof -
  let ?x = "deposit_tree_leaf k d"
  let ?ys = "xs @ [?x]"
  have lf: "length f = DEPOSIT_TREE_DEPTH" using assms(1) by (simp add: represents_def)
  from append_loop [OF assms(2), of DEPOSIT_TREE_DEPTH f k ?x] assms(1)
  obtain f' where f': "fold (append_level k) [0..<DEPOSIT_TREE_DEPTH] (n, ?x, f) =
      (drop_bit DEPOSIT_TREE_DEPTH n, node k ?ys DEPOSIT_TREE_DEPTH (length xs div 2 ^ DEPOSIT_TREE_DEPTH), f')"
    "length f' = DEPOSIT_TREE_DEPTH"
    "\<forall>l < DEPOSIT_TREE_DEPTH. f' ! l = (if even (length xs div 2 ^ l) then node k ?ys l (length xs div 2 ^ l) else f ! l)"
    unfolding represents_def lf by auto
  have len: "length xs < 2 ^ DEPOSIT_TREE_DEPTH" using assms(2,3) by (simp add: capacity DEPOSIT_TREE_DEPTH_def)
  have "f' ! l = node k ?ys l (length ?ys div 2 ^ l - 1)" if "l < DEPOSIT_TREE_DEPTH" "odd (length ?ys div 2 ^ l)" for l
  proof (cases "even (length xs div 2 ^ l)")
    case True
    then have "length ?ys div 2 ^ l = Suc (length xs div 2 ^ l)" using succ_div [of "length xs" l] that(2) by auto
    then show ?thesis using f'(3) that(1) True by simp
  next
    case False
    then have e: "length ?ys div 2 ^ l = length xs div 2 ^ l" using succ_div [of "length xs" l] that(2) by auto
    have "(length xs div 2 ^ l - 1 + 1) * 2 ^ l \<le> length xs" using False by (simp add: odd_pos)
    from node_complete [OF this] show ?thesis
      unfolding e using f'(3) that(1) False assms(1) by (simp add: represents_def)
  qed
  then have "represents k f' ?ys" using f'(2) by (simp add: represents_def)
  moreover have "append_deposit_frontier k f n d = Some (f', tree_root k DEPOSIT_TREE_DEPTH ?ys)"
    using assms(3) len f'(1) by (simp add: append_deposit_frontier_def node_root not_le)
  ultimately show ?thesis by blast
qed

lemma empty_represents: "represents k empty_deposit_frontier []"
  by (simp add: represents_def empty_deposit_frontier_def)

lemma append_deposits_represents:
  "represents k f xs \<Longrightarrow> length xs = unat n \<Longrightarrow> unat n + length ds \<le> 2 ^ 32 \<Longrightarrow>
     \<exists>f'. append_deposits k f n ds =
       Some (f', map (\<lambda>i. tree_root k DEPOSIT_TREE_DEPTH (xs @ map (deposit_tree_leaf k) (take (Suc i) ds))) [0..<length ds]) \<and>
       represents k f' (xs @ map (deposit_tree_leaf k) ds)"
proof (induction ds arbitrary: f xs n)
  case (Cons d ds)
  let ?x = "deposit_tree_leaf k d"
  have n: "n < deposit_tree_capacity" using Cons.prems(3) by (simp add: capacity)
  have s: "unat (n + 1) = Suc (unat n)" using n by (simp add: unat_word_ariths capacity)
  from frontier_append [OF Cons.prems(1,2) n, of d] obtain g where
    g: "append_deposit_frontier k f n d = Some (g, tree_root k DEPOSIT_TREE_DEPTH (xs @ [?x]))" "represents k g (xs @ [?x])" by blast
  from Cons.IH [OF g(2), of "n + 1"] s Cons.prems(2,3) obtain f' where
    "append_deposits k g (n + 1) ds = Some (f', map (\<lambda>i. tree_root k DEPOSIT_TREE_DEPTH
       ((xs @ [?x]) @ map (deposit_tree_leaf k) (take (Suc i) ds))) [0..<length ds])"
    "represents k f' ((xs @ [?x]) @ map (deposit_tree_leaf k) ds)" by auto
  with g(1) show ?case
    by (simp add: map_upt_Suc del: upt_Suc)
qed simp

lemma add_count: "unat n + length ds \<le> 2 ^ 32 \<Longrightarrow> \<exists>m. add_u64 n (of_nat (length ds)) = Some m \<and> m \<le> deposit_tree_capacity"
proof -
  assume a: "unat n + length ds \<le> 2 ^ 32"
  have l: "uint (of_nat (length ds) :: u64) = int (length ds)" using a by (simp add: uint_nat unat_of_nat)
  have "uint n + int (length ds) = int (unat n + length ds)" by simp
  also have "\<dots> \<le> int (2 ^ 32)" using a by (simp only: of_nat_le_iff)
  finally have le: "uint n + int (length ds) \<le> 4294967296" by simp
  then have "fits_u64 (uint n + int (length ds))" "uint n + int (length ds) \<le> 2 ^ 32"
    using uint_bounds(1) [of n] unfolding fits_u64_def by simp_all
  moreover from this(1) obtain m where "u64_of (uint n + int (length ds)) = Some m" by (auto simp: u64_of_def)
  moreover from this have "uint m = uint n + int (length ds)" by (simp add: num)
  ultimately show ?thesis
    by (simp add: add_u64_def l word_le_def deposit_tree_capacity_def DEPOSIT_TREE_DEPTH_def)
qed

section \<open>Properties\<close>

text \<open>C35: a frontier that stands for a list of leaves gives their Merkle root, and appending a deposit gives the
  Merkle root of the longer list together with a frontier that stands for it, as long as the tree is not full.\<close>

theorem frontier_is_deposit_tree:
  assumes "represents k f xs" "length xs = unat n" "n < deposit_tree_capacity"
  shows "deposit_root_from_frontier k f n = Some (tree_root k DEPOSIT_TREE_DEPTH xs) \<and>
         (\<exists>f'. append_deposit_frontier k f n d =
             Some (f', tree_root k DEPOSIT_TREE_DEPTH (xs @ [deposit_tree_leaf k d])) \<and>
           represents k f' (xs @ [deposit_tree_leaf k d]))"
  using frontier_root [OF assms] frontier_append [OF assms] by blast

theorem frontier_is_deposit_tree_witness:
  "deposit_root_from_frontier id empty_deposit_frontier 0 = Some (tree_root id DEPOSIT_TREE_DEPTH [])"
  using frontier_is_deposit_tree [OF empty_represents, of 0 id] by (simp add: capacity)

text \<open>The prefix roots are the Merkle roots of the prefixes: starting from any frontier that stands for the leaves
  so far, the i-th root is the root of those leaves followed by the first i new deposits, and the final
  frontier stands for all of them.\<close>

theorem prefix_roots_are_tree_roots:
  assumes "represents k f xs" "length xs = unat n" "unat n + length ds \<le> 2 ^ 32"
  shows "deposit_frontier_prefix_roots k f n ds =
           Some (map (\<lambda>i. tree_root k DEPOSIT_TREE_DEPTH (xs @ map (deposit_tree_leaf k) (take (Suc i) ds))) [0..<length ds]) \<and>
         (\<exists>f'. deposit_frontier_after_prefix k f n ds = Some f' \<and> represents k f' (xs @ map (deposit_tree_leaf k) ds))"
  using append_deposits_represents [OF assms] add_count [OF assms(3)]
  by (auto simp: deposit_frontier_prefix_roots_def deposit_frontier_after_prefix_def not_less)

theorem prefix_roots_are_tree_roots_witness:
  "deposit_prefix_roots id [into_deposit_leaf sample_deposit 1 (replicate 20 1)] =
     Some [tree_root id DEPOSIT_TREE_DEPTH [deposit_tree_leaf id (into_deposit_leaf sample_deposit 1 (replicate 20 1))]]"
  using prefix_roots_are_tree_roots [OF empty_represents, of 0 "[into_deposit_leaf sample_deposit 1 (replicate 20 1)]" id]
  by (simp add: deposit_prefix_roots_def)

text \<open>C40: a frontier has no slot for the root of a full tree: at exactly \<open>2 ^ 32\<close> deposits, a count that the capacity
  check accepts, the root of the empty tree is returned, whatever the frontier.\<close>

theorem full_tree_gives_empty_root:
  "deposit_root_from_frontier k f deposit_tree_capacity = Some (empty_deposit_root k)"
proof -
  have "fold (root_level k f deposit_tree_capacity) [0..<d] (zero_hash k 0) = zero_hash k d" if "d \<le> 32" for d
    using that
  proof (induction d)
    case (Suc d)
    have "2 ^ 32 div 2 ^ d = (2 :: nat) ^ (32 - d)" using Suc.prems by (simp add: power_diff)
    then have "even (unat deposit_tree_capacity div 2 ^ d)" using Suc.prems unfolding capacity by simp
    then have "drop_bit d deposit_tree_capacity AND 1 \<noteq> 1" using word_bit_parity(1) by blast
    then show ?case using Suc by (simp add: root_level_def [of k f deposit_tree_capacity d])
  qed simp
  from this [of 32] show ?thesis
    by (simp add: deposit_root_from_frontier_def empty_deposit_root_def deposit_zero_hashes_def DEPOSIT_TREE_DEPTH_def del: upt_Suc)
qed

end
