(* ===== verification/Verifier_Sidecar.thy ===== *)
theory Verifier_Sidecar
  imports Verifier_Quarantine Deposit_Tree Verifier_Match Verifier_Settlement
begin

text \<open>
  \<open>crates/sybil-verifier/src/sidecar.rs\<close>, layer 5 of block verification: the part of the state that is not
  in the accounts.  Reservations are the rollup of the resting orders; resting orders, withdrawals, the
  deposit accumulator, markets and market groups change only as the events, fills and height of the block
  explain.  Blake3 is the parameter \<open>h\<close>, keccak256 the parameter \<open>k\<close>.
\<close>

section \<open>Reservation rollup\<close>

record ReservationTotals =
  rt_reserved_balance :: i64
  rt_reserved_positions :: "(MarketId \<times> u8, i64) omap"

definition totals_default :: ReservationTotals where
  "totals_default = \<lparr> rt_reserved_balance = 0, rt_reserved_positions = om_empty \<rparr>"

definition rt_add_balance :: "i64 \<Rightarrow> ReservationTotals \<Rightarrow> ReservationTotals option" where
  "rt_add_balance delta t = map_option (\<lambda>b. t\<lparr> rt_reserved_balance := b \<rparr>) (add_i64 (rt_reserved_balance t) delta)"

definition rt_add_position :: "MarketId \<Rightarrow> u8 \<Rightarrow> i64 \<Rightarrow> ReservationTotals \<Rightarrow> ReservationTotals option" where
  "rt_add_position market outcome delta t =
     (if delta = 0 then Some t
      else do {
        entry \<leftarrow> add_i64 (get_or (rt_reserved_positions t) (market, outcome) 0) delta;
        Some (t\<lparr> rt_reserved_positions :=
          (if entry = 0 then om_del (market, outcome) (rt_reserved_positions t)
           else om_ins (market, outcome) entry (rt_reserved_positions t)) \<rparr>) })"

definition rt_is_zero :: "ReservationTotals \<Rightarrow> bool" where
  "rt_is_zero t \<longleftrightarrow> rt_reserved_balance t = 0 \<and> rt_reserved_positions t = om_empty"

definition rt_add_positions :: "PositionDelta list \<Rightarrow> ReservationTotals \<Rightarrow> ReservationTotals option" where
  "rt_add_positions = fold_opt (\<lambda>(market, outcome, qty). rt_add_position market outcome qty)"

type_synonym Rollup = "(u64, ReservationTotals) omap"

text \<open>An error string of the code is \<open>None\<close>.\<close>

definition rollup_step :: "RestingOrderSnapshot \<Rightarrow> Rollup \<times> u64 list \<Rightarrow> (Rollup \<times> u64 list) option" where
  "rollup_step resting = (\<lambda>(by_account, seen). do {
     assert_opt (o_id (ro_order resting) \<notin> set seen);
     let totals = get_or by_account (ro_account_id resting) totals_default;
     totals \<leftarrow> rt_add_balance (ro_reserved_balance resting) totals;
     totals \<leftarrow> rt_add_positions (ro_reserved_positions resting) totals;
     Some (om_ins (ro_account_id resting) totals by_account, o_id (ro_order resting) # seen) })"

definition om_retain :: "('v \<Rightarrow> bool) \<Rightarrow> ('k::linorder, 'v) omap \<Rightarrow> ('k, 'v) omap" where
  "om_retain P m = om_of_list (filter (\<lambda>(key, v). P v) (entries m))"

definition reservations_from_resting_orders :: "RestingOrderSnapshot list \<Rightarrow> Rollup option" where
  "reservations_from_resting_orders resting_orders = do {
     (by_account, seen) \<leftarrow> fold_opt rollup_step resting_orders (om_empty, []);
     Some (om_retain (\<lambda>totals. \<not> rt_is_zero totals) by_account) }"

fun claimed_rollup :: "AccountReservationSnapshot list \<Rightarrow> Rollup \<Rightarrow> (ViolationKind, Rollup) result" where
  "claimed_rollup [] by_account = Ok by_account"
| "claimed_rollup (reservation # rest) by_account =
     (if lookup by_account (ar_account_id reservation) \<noteq> None then Err SidecarReservationMismatch
      else case rt_add_positions (ar_reserved_positions reservation)
          \<lparr> rt_reserved_balance = ar_reserved_balance reservation, rt_reserved_positions = om_empty \<rparr> of
        None \<Rightarrow> Err SettlementOverflow
      | Some totals \<Rightarrow> claimed_rollup rest
          (if rt_is_zero totals then by_account else om_ins (ar_account_id reservation) totals by_account))"

definition reservations_from_account_snapshots :: "AccountReservationSnapshot list \<Rightarrow> (ViolationKind, Rollup) result" where
  "reservations_from_account_snapshots reservations = claimed_rollup reservations om_empty"

definition verify_resting_order_reservations ::
  "RestingOrderSnapshot list \<Rightarrow> AccountReservationSnapshot list \<Rightarrow> ViolationKind list"
where
  "verify_resting_order_reservations resting_orders reservations =
     (case reservations_from_resting_orders resting_orders of
        None \<Rightarrow> [SettlementOverflow]
      | Some expected \<Rightarrow>
          (case reservations_from_account_snapshots reservations of
             Err violation \<Rightarrow> [violation]
           | Ok claimed \<Rightarrow> flag (expected \<noteq> claimed) SidecarReservationMismatch))"

section \<open>Keyed views and events\<close>

text \<open>A map by identifier in which a later element replaces an earlier one, with a violation for each replacement.\<close>

definition keyed_step :: "('a \<Rightarrow> 'k::linorder) \<Rightarrow> ViolationKind \<Rightarrow> 'a \<Rightarrow> ('k, 'a) omap \<times> ViolationKind list \<Rightarrow> ('k, 'a) omap \<times> ViolationKind list" where
  "keyed_step key kind x = (\<lambda>(out, vs). (om_ins (key x) x out, vs @ flag (lookup out (key x) \<noteq> None) kind))"

definition keyed :: "('a \<Rightarrow> 'k::linorder) \<Rightarrow> ViolationKind \<Rightarrow> 'a list \<Rightarrow> ('k, 'a) omap \<times> ViolationKind list" where
  "keyed key kind xs = fold (keyed_step key kind) xs (om_empty, [])"

definition keyed_resting_orders :: "RestingOrderSnapshot list \<Rightarrow> (u64, RestingOrderSnapshot) omap \<times> ViolationKind list" where
  "keyed_resting_orders = keyed (\<lambda>resting. o_id (ro_order resting)) SidecarRestingOrderMismatch"

definition keyed_withdrawals :: "WithdrawalSnapshot list \<Rightarrow> (u64, WithdrawalSnapshot) omap \<times> ViolationKind list" where
  "keyed_withdrawals = keyed ws_withdrawal_id SidecarWithdrawalMismatch"

definition keyed_markets :: "MarketSnapshot list \<Rightarrow> (MarketId, MarketSnapshot) omap \<times> ViolationKind list" where
  "keyed_markets markets = fold (\<lambda>market (out, vs).
     let price_count = length (mks_last_clearing_prices market)
     in (om_ins (mks_market_id market) market out,
         vs @ flag (price_count \<noteq> 0 \<and> price_count \<noteq> unat (mks_num_outcomes market)) SidecarMarketStatusMismatch @
         concat (map (\<lambda>price. flag (\<not> price_is_in_protocol_range price) SidecarMarketStatusMismatch) (mks_last_clearing_prices market)) @
         flag (lookup out (mks_market_id market) \<noteq> None) SidecarMarketStatusMismatch)) markets (om_empty, [])"

definition keyed_market_groups :: "MarketGroupSnapshot list \<Rightarrow> (u64, MarketGroupSnapshot) omap \<times> ViolationKind list" where
  "keyed_market_groups groups = (let (out, creation_keys, vs) = fold (\<lambda>group (out, creation_keys, vs).
       let (creation_keys', v) = (case mgs_creation_key group of
             None \<Rightarrow> (creation_keys, [])
           | Some key \<Rightarrow>
               if \<not> operator_creation_key_is_valid key then (creation_keys, [SidecarMarketGroupMismatch])
               else (key # creation_keys, flag (key \<in> set creation_keys) SidecarMarketGroupMismatch))
       in (om_ins (mgs_group_id group) group out, creation_keys',
           vs @ v @ flag (lookup out (mgs_group_id group) \<noteq> None) SidecarMarketGroupMismatch)) groups (om_empty, [], [])
     in (out, vs))"

text \<open>On overflow the entry keeps its value.\<close>

definition fill_qty_by_order :: "Fill list \<Rightarrow> (u64, u64) omap \<times> ViolationKind list" where
  "fill_qty_by_order fills = fold (\<lambda>fill (out, vs).
     let entry = get_or out (f_order_id fill) 0
     in case add_u64 entry (f_fill_qty fill) of
          Some qty \<Rightarrow> (om_ins (f_order_id fill) qty out, vs)
        | None \<Rightarrow> (om_ins (f_order_id fill) entry out, vs @ [SettlementOverflow])) fills (om_empty, [])"

fun cancelled_order :: "SystemEventWitness \<Rightarrow> u64 list" where
  "cancelled_order (OrderCancelled account_id order_id market_ids side remaining) = [order_id]"
| "cancelled_order _ = []"

fun resolved_market :: "SystemEventWitness \<Rightarrow> MarketId list" where
  "resolved_market (MarketResolved market_id payout_nanos affected) = [market_id]"
| "resolved_market _ = []"

definition resolved_market_events :: "BlockWitness \<Rightarrow> MarketId list" where
  "resolved_market_events w = concat (map resolved_market (bw_system_events w))"

definition resolution_step ::
  "SystemEventWitness \<Rightarrow> (MarketId, Nanos) omap \<times> ViolationKind list \<Rightarrow> (MarketId, Nanos) omap \<times> ViolationKind list"
where
  "resolution_step event = (\<lambda>(resolved, vs). case event of
     MarketResolved market_id payout_nanos affected \<Rightarrow>
       if NANOS_PER_DOLLAR < payout_nanos then (resolved, vs @ [SettlementOverflow])
       else (om_ins market_id payout_nanos resolved, vs @ flag (lookup resolved market_id \<noteq> None) SidecarMarketStatusMismatch)
   | _ \<Rightarrow> (resolved, vs))"

definition market_resolution_events :: "BlockWitness \<Rightarrow> (MarketId, Nanos) omap \<times> ViolationKind list" where
  "market_resolution_events w = fold resolution_step (bw_system_events w) (om_empty, [])"

section \<open>Resting orders\<close>

definition order_shape_matches_except_qty :: "Order \<Rightarrow> Order \<Rightarrow> bool" where
  "order_shape_matches_except_qty left right \<longleftrightarrow> o_id left = o_id right \<and> o_markets left = o_markets right \<and>
     o_num_markets left = o_num_markets right \<and> o_payoffs left = o_payoffs right \<and> o_num_states left = o_num_states right \<and>
     o_limit_price left = o_limit_price right \<and> o_condition left = o_condition right \<and>
     o_expires_at_block left = o_expires_at_block right"

definition orders_equal :: "Order \<Rightarrow> Order \<Rightarrow> bool" where
  "orders_equal left right \<longleftrightarrow> order_shape_matches_except_qty left right \<and> o_max_fill left = o_max_fill right"

definition resting_orders_equal :: "RestingOrderSnapshot \<Rightarrow> RestingOrderSnapshot \<Rightarrow> bool" where
  "resting_orders_equal left right \<longleftrightarrow> ro_account_id left = ro_account_id right \<and> ro_created_at left = ro_created_at right \<and>
     ro_expires_at_block left = ro_expires_at_block right \<and> ro_reserved_balance left = ro_reserved_balance right \<and>
     ro_reserved_positions left = ro_reserved_positions right \<and> orders_equal (ro_order left) (ro_order right)"

text \<open>The first branch has excluded \<open>max_fill = 0\<close>, the only case in which \<open>ceil_mul_ratio\<close> aborts; \<open>ratio\<close> is its value.\<close>

definition ratio :: "i64 \<Rightarrow> u64 \<Rightarrow> u64 \<Rightarrow> i64" where
  "ratio x numer denom = (case ceil_mul_ratio (bits64 x) numer denom of Some r \<Rightarrow> I64 r | None \<Rightarrow> 0)"

definition expected_post_resting :: "RestingOrderSnapshot \<Rightarrow> u64 \<Rightarrow> u64 \<Rightarrow> RestingOrderSnapshot option" where
  "expected_post_resting pre filled height =
     (if o_max_fill (ro_order pre) \<le> filled \<or> ro_expires_at_block pre \<le> height then None
      else if filled = 0 then Some pre
      else let max_fill = o_max_fill (ro_order pre); remaining = max_fill - filled
           in Some (pre\<lparr> ro_order := (ro_order pre)\<lparr> o_max_fill := remaining \<rparr>,
                ro_reserved_balance := ratio (ro_reserved_balance pre) remaining max_fill,
                ro_reserved_positions := map (\<lambda>(market, outcome, qty). (market, outcome, ratio qty remaining max_fill))
                  (ro_reserved_positions pre) \<rparr>))"

definition check_pre_order ::
  "u64 \<Rightarrow> (u64, RestingOrderSnapshot) omap \<Rightarrow> (u64, u64) omap \<Rightarrow> u64 list \<Rightarrow> MarketId list \<Rightarrow> u64 \<times> RestingOrderSnapshot \<Rightarrow> ViolationKind list"
where
  "check_pre_order height post_orders fill_qty cancelled resolved = (\<lambda>(order_id, pre).
     let filled = get_or fill_qty order_id 0
     in case lookup post_orders order_id of
          Some post \<Rightarrow>
            (case expected_post_resting pre filled height of
               Some expected \<Rightarrow> flag (\<not> resting_orders_equal expected post) SidecarRestingOrderMismatch
             | None \<Rightarrow> [SidecarRestingOrderMismatch])
        | None \<Rightarrow>
            (let explained = (order_id \<in> set cancelled \<or> o_max_fill (ro_order pre) \<le> filled \<or> ro_expires_at_block pre \<le> height \<or>
                   list_ex (\<lambda>market. market \<in> set resolved) (active_markets (ro_order pre)))
             in flag (\<not> explained) SidecarRestingOrderMismatch))"

definition check_post_order ::
  "(u64, RestingOrderSnapshot) omap \<Rightarrow> (u64, WitnessOrder) omap \<Rightarrow> u64 \<times> RestingOrderSnapshot \<Rightarrow> ViolationKind list"
where
  "check_post_order pre_orders accepted_orders = (\<lambda>(order_id, post).
     if lookup pre_orders order_id \<noteq> None then []
     else case lookup accepted_orders order_id of
       None \<Rightarrow> [SidecarRestingOrderMismatch]
     | Some accepted \<Rightarrow> flag (wo_is_mm accepted) SidecarRestingOrderMismatch @
         flag (ro_account_id post \<noteq> wo_account_id accepted \<or> \<not> order_shape_matches_except_qty (ro_order post) (wo_order accepted))
           SidecarRestingOrderMismatch)"

definition verify_resting_order_transition :: "BlockWitness \<Rightarrow> ViolationKind list" where
  "verify_resting_order_transition w =
     (if bw_previous_header w = None then []
      else let (pre_orders, v1) = keyed_resting_orders (sc_resting_orders (bw_pre_state_sidecar w));
               (post_orders, v2) = keyed_resting_orders (sc_resting_orders (bw_state_sidecar w));
               accepted_orders = om_of_list (map (\<lambda>wo. (o_id (wo_order wo), wo)) (bw_orders w));
               (fill_qty, v3) = fill_qty_by_order (bw_fills w);
               cancelled = concat (map cancelled_order (bw_system_events w));
               resolved = resolved_market_events w
           in v1 @ v2 @ v3 @
              concat (map (check_pre_order (h_height (bw_header w)) post_orders fill_qty cancelled resolved) (entries pre_orders)) @
              concat (map (check_post_order pre_orders accepted_orders) (entries post_orders)))"

section \<open>Withdrawals\<close>

type_synonym EventIndex = "(u64, SystemEventWitness) omap"

text \<open>The events of the block by withdrawal: created, terminal, and the L1 heights observed.\<close>

definition index_withdrawal ::
  "SystemEventWitness \<Rightarrow> (EventIndex \<times> EventIndex \<times> u64 list) \<times> ViolationKind list
     \<Rightarrow> (EventIndex \<times> EventIndex \<times> u64 list) \<times> ViolationKind list"
where
  "index_withdrawal event = (\<lambda>((created, terminal, observed_heights), vs). case event of
     WithdrawalCreated account_id amount withdrawal_id recipient token units expiry nullifier \<Rightarrow>
       ((om_ins withdrawal_id event created, terminal, observed_heights),
        vs @ flag (lookup created withdrawal_id \<noteq> None) SidecarWithdrawalMismatch)
   | WithdrawalRefunded account_id withdrawal_id amount reason \<Rightarrow>
       ((created, om_ins withdrawal_id event terminal, observed_heights),
        vs @ flag (lookup terminal withdrawal_id \<noteq> None) SidecarWithdrawalMismatch)
   | WithdrawalFinalized account_id withdrawal_id amount \<Rightarrow>
       ((created, om_ins withdrawal_id event terminal, observed_heights),
        vs @ flag (lookup terminal withdrawal_id \<noteq> None) SidecarWithdrawalMismatch)
   | L1BlockObserved height \<Rightarrow>
       ((created, terminal, height # observed_heights), vs @ flag (height \<in> set observed_heights) SidecarWithdrawalMismatch)
   | _ \<Rightarrow> ((created, terminal, observed_heights), vs))"

definition observe_height :: "SystemEventWitness \<Rightarrow> u64 \<times> ViolationKind list \<Rightarrow> u64 \<times> ViolationKind list" where
  "observe_height event = (\<lambda>(expected, vs). case event of
     L1BlockObserved height \<Rightarrow>
       if height \<le> expected then (expected, vs @ [SidecarWithdrawalMismatch]) else (height, vs)
   | _ \<Rightarrow> (expected, vs))"

definition check_pre_withdrawal ::
  "EventIndex \<Rightarrow> (u64, WithdrawalSnapshot) omap \<Rightarrow> u64 \<times> WithdrawalSnapshot \<Rightarrow> ViolationKind list"
where
  "check_pre_withdrawal terminal post = (\<lambda>(withdrawal_id, pre_leaf).
     case (lookup terminal withdrawal_id \<noteq> None, lookup post withdrawal_id) of
       (True, None) \<Rightarrow> []
     | (True, Some _) \<Rightarrow> [SidecarWithdrawalMismatch]
     | (False, Some post_leaf) \<Rightarrow> flag (post_leaf \<noteq> pre_leaf) SidecarWithdrawalMismatch
     | (False, None) \<Rightarrow> [SidecarWithdrawalMismatch])"

text \<open>\<open>unreachable!()\<close> aborts.\<close>

definition check_created ::
  "EventIndex \<Rightarrow> (u64, WithdrawalSnapshot) omap \<Rightarrow> u64 \<times> SystemEventWitness \<Rightarrow> ViolationKind list option"
where
  "check_created terminal post = (\<lambda>(withdrawal_id, event). case event of
     WithdrawalCreated account_id amount _ recipient token amount_token_units expiry_height nullifier \<Rightarrow>
       Some (case u64_of (val amount) of
         None \<Rightarrow> [SidecarWithdrawalMismatch]
       | Some amount_nanos \<Rightarrow>
           if lookup terminal withdrawal_id \<noteq> None then flag (lookup post withdrawal_id \<noteq> None) SidecarWithdrawalMismatch
           else case lookup post withdrawal_id of
             None \<Rightarrow> [SidecarWithdrawalMismatch]
           | Some withdrawal \<Rightarrow>
               flag (ws_account_id withdrawal \<noteq> account_id \<or> ws_recipient withdrawal \<noteq> recipient \<or> ws_token withdrawal \<noteq> token \<or>
                 ws_amount_token_units withdrawal \<noteq> amount_token_units \<or> ws_amount_nanos withdrawal \<noteq> amount_nanos \<or>
                 ws_expiry_height withdrawal \<noteq> expiry_height \<or> ws_nullifier withdrawal \<noteq> nullifier) SidecarWithdrawalMismatch)
   | _ \<Rightarrow> None)"

text \<open>Owner, amount and expiry of the withdrawal a terminal event closes: from the pre leaf, else the post
  leaf, else the creation in the same block.\<close>

definition terminal_source ::
  "(u64, WithdrawalSnapshot) omap \<Rightarrow> (u64, WithdrawalSnapshot) omap \<Rightarrow> EventIndex \<Rightarrow> u64 \<Rightarrow> (u64 \<times> u64 \<times> u64) option"
where
  "terminal_source pre post created withdrawal_id =
     (case (case lookup pre withdrawal_id of Some leaf \<Rightarrow> Some leaf | None \<Rightarrow> lookup post withdrawal_id) of
        Some leaf \<Rightarrow> Some (ws_account_id leaf, ws_amount_nanos leaf, ws_expiry_height leaf)
      | None \<Rightarrow>
          (case lookup created withdrawal_id of
             Some (WithdrawalCreated account_id amount _ _ _ _ expiry_height _) \<Rightarrow>
               Some (account_id, unsigned_abs amount, expiry_height)
           | _ \<Rightarrow> None))"

definition check_terminal ::
  "(u64, WithdrawalSnapshot) omap \<Rightarrow> (u64, WithdrawalSnapshot) omap \<Rightarrow> EventIndex \<Rightarrow> u64 list \<Rightarrow> u64 \<times> SystemEventWitness
     \<Rightarrow> ViolationKind list option"
where
  "check_terminal pre post created observed_heights = (\<lambda>(withdrawal_id, event).
     case terminal_source pre post created withdrawal_id of
       None \<Rightarrow> Some [SidecarWithdrawalMismatch]
     | Some (leaf_account, leaf_amount, leaf_expiry) \<Rightarrow> do {
         (account_id, amount, vs) \<leftarrow> (case event of
             WithdrawalRefunded account_id _ amount reason \<Rightarrow>
               Some (account_id, amount, (case reason of
                   L1Expired observed_l1_height \<Rightarrow>
                     flag (observed_l1_height \<le> leaf_expiry \<or> observed_l1_height \<notin> set observed_heights) SidecarWithdrawalMismatch
                 | L1Cancelled \<Rightarrow> []))
           | WithdrawalFinalized account_id _ amount \<Rightarrow> Some (account_id, amount, [])
           | _ \<Rightarrow> None);
         Some (vs @ flag (account_id \<noteq> leaf_account \<or> u64_of (val amount) \<noteq> Some leaf_amount) SidecarWithdrawalMismatch) })"

definition verify_withdrawal_transition :: "BlockWitness \<Rightarrow> ViolationKind list option" where
  "verify_withdrawal_transition w = (
     let pre_bridge = sc_bridge (bw_pre_state_sidecar w); post_bridge = sc_bridge (bw_state_sidecar w);
         (pre, v1) = keyed_withdrawals (br_withdrawals pre_bridge);
         (post, v2) = keyed_withdrawals (br_withdrawals post_bridge);
         v3 = flag (om_keys post \<noteq> [] \<and> br_next_withdrawal_id post_bridge \<le> last (om_keys post)) SidecarWithdrawalMismatch;
         ((created, terminal, observed_heights), v4) = fold index_withdrawal (bw_system_events w) ((om_empty, om_empty, []), []);
         (expected_observed_height, v5) = fold observe_height (bw_system_events w) (br_observed_l1_height pre_bridge, []);
         v6 = flag (br_observed_l1_height post_bridge \<noteq> expected_observed_height) SidecarWithdrawalMismatch;
         v7 = concat (map (check_pre_withdrawal terminal post) (entries pre))
     in do {
       v8 \<leftarrow> each (check_created terminal post) (entries created);
       v9 \<leftarrow> each (check_terminal pre post created observed_heights) (entries terminal);
       let created_count = of_nat (length (entries created));
       let v10 = flag (br_next_withdrawal_id post_bridge \<noteq> saturating_add_u64 (br_next_withdrawal_id pre_bridge) created_count)
             SidecarWithdrawalMismatch;
       Some (v1 @ v2 @ v3 @ v4 @ v5 @ v6 @ v7 @ v8 @ v9 @ v10) })"

section \<open>The deposit accumulator\<close>

definition deposit_leaf_from_witness :: "L1DepositWitness \<Rightarrow> DepositLeaf" where
  "deposit_leaf_from_witness deposit = \<lparr> dl_chain_id = ld_chain_id deposit, dl_vault_address = ld_vault_address deposit,
     dl_deposit_id = ld_deposit_id deposit, dl_token_address = ld_token_address deposit, dl_sender = ld_sender deposit,
     dl_sybil_account_key = ld_sybil_account_key deposit, dl_amount_token_units = ld_amount_token_units deposit \<rparr>"

definition deposit_amount_nanos :: "L1DepositWitness \<Rightarrow> i64 option" where
  "deposit_amount_nanos deposit = do {
     amount \<leftarrow> u64_of (uint (ld_amount_token_units deposit) * 1000);
     i64_of (uint amount) }"

fun disposition :: "SystemEventWitness \<Rightarrow> (u64 option \<times> i64 \<times> u64 \<times> bytes \<times> bytes) list" where
  "disposition (L1Deposit account_id amount deposit_id deposit_root sybil_account_key) =
     [(Some account_id, amount, deposit_id, deposit_root, sybil_account_key)]"
| "disposition (DepositQuarantined amount deposit_id deposit_root sybil_account_key) =
     [(None, amount, deposit_id, deposit_root, sybil_account_key)]"
| "disposition _ = []"

definition check_disposition ::
  "hash \<Rightarrow> L1DepositWitness list \<Rightarrow> bytes list \<Rightarrow> nat \<times> u64 option \<times> i64 \<times> u64 \<times> bytes \<times> bytes \<Rightarrow> ViolationKind list"
where
  "check_disposition h new_deposits prefix_roots = (\<lambda>(index, account_id, amount, deposit_id, deposit_root, sybil_account_key).
     case idx new_deposits index of
       None \<Rightarrow> []
     | Some deposit \<Rightarrow>
         flag (ld_deposit_id deposit \<noteq> deposit_id) SidecarDepositCursorMismatch @
         flag (deposit_root \<noteq> (case idx prefix_roots index of Some root \<Rightarrow> root | None \<Rightarrow> ld_deposit_root deposit))
           SidecarDepositRootMismatch @
         flag (ld_sybil_account_key deposit \<noteq> sybil_account_key) SidecarDepositRootMismatch @
         (case account_id of
            Some account_id \<Rightarrow> flag (sybil_account_key \<noteq> bridge_account_key h account_id) SidecarDepositRootMismatch
          | None \<Rightarrow> []) @
         (case deposit_amount_nanos deposit of
            None \<Rightarrow> [SettlementOverflow]
          | Some expected_amount \<Rightarrow> flag (amount \<noteq> expected_amount) SidecarDepositRootMismatch))"

definition verify_l1_deposit_events_match_delta :: "hash \<Rightarrow> BlockWitness \<Rightarrow> bytes list \<Rightarrow> ViolationKind list" where
  "verify_l1_deposit_events_match_delta h w prefix_roots = (
     let disposition_events = concat (map disposition (bw_system_events w));
         new_deposits = da_new_deposits (bw_deposit_accumulator w)
     in flag (length disposition_events \<noteq> length new_deposits) SidecarDepositCursorMismatch @
        concat (map (check_disposition h new_deposits prefix_roots) (List.enumerate 0 disposition_events)))"

text \<open>The identifier sum cannot wrap: it is at most the post count, which has been checked.\<close>

definition verify_deposit_accumulator :: "hash \<Rightarrow> hash \<Rightarrow> BlockWitness \<Rightarrow> ViolationKind list" where
  "verify_deposit_accumulator h k w = (
     let accumulator = bw_deposit_accumulator w; new_deposits = da_new_deposits accumulator;
         pre_bridge = sc_bridge (bw_pre_state_sidecar w); post_bridge = sc_bridge (bw_state_sidecar w);
         v1 = flag (da_pre_count accumulator \<noteq> br_deposit_cursor pre_bridge) SidecarDepositCursorMismatch;
         v2 = (case deposit_root_from_frontier k (da_pre_frontier accumulator) (da_pre_count accumulator) of
                 Some root \<Rightarrow> flag (root \<noteq> br_deposit_root pre_bridge) SidecarDepositRootMismatch
               | None \<Rightarrow> [SidecarDepositCursorMismatch])
     in v1 @ v2 @
        (case add_u64 (da_pre_count accumulator) (of_nat (length new_deposits)) of
           None \<Rightarrow> [SidecarDepositCursorMismatch]
         | Some expected_post_count \<Rightarrow>
             flag (br_deposit_cursor post_bridge \<noteq> expected_post_count) SidecarDepositCursorMismatch @
             concat (map (\<lambda>(index, deposit). flag (ld_deposit_id deposit \<noteq> da_pre_count accumulator + of_nat index + 1)
               SidecarDepositCursorMismatch) (List.enumerate 0 new_deposits)) @
             (case deposit_frontier_prefix_roots k (da_pre_frontier accumulator) (da_pre_count accumulator)
                 (map deposit_leaf_from_witness new_deposits) of
                None \<Rightarrow> [SidecarDepositCursorMismatch]
              | Some prefix_roots \<Rightarrow>
                  concat (map (\<lambda>(deposit, expected_root). flag (ld_deposit_root deposit \<noteq> expected_root) SidecarDepositRootMismatch)
                    (zip new_deposits prefix_roots)) @
                  flag (br_deposit_root post_bridge \<noteq> (if prefix_roots = [] then br_deposit_root pre_bridge else last prefix_roots))
                    SidecarDepositRootMismatch @
                  verify_l1_deposit_events_match_delta h w prefix_roots)))"

section \<open>Markets and groups\<close>

definition resolved_at :: "Nanos \<Rightarrow> MarketStatusSnapshot \<Rightarrow> bool" where
  "resolved_at payout_nanos status = (case status of MsResolved record \<Rightarrow> rr_payout_nanos record = payout_nanos | MsActive \<Rightarrow> False)"

definition check_pre_market ::
  "(MarketId, MarketSnapshot) omap \<Rightarrow> (MarketId, Nanos) omap \<Rightarrow> MarketId \<times> MarketSnapshot \<Rightarrow> ViolationKind list"
where
  "check_pre_market post_markets resolution_events = (\<lambda>(market_id, pre_market).
     case lookup post_markets market_id of
       None \<Rightarrow> [SidecarMarketStatusMismatch]
     | Some post_market \<Rightarrow>
         flag (mks_name pre_market \<noteq> mks_name post_market \<or> mks_num_outcomes pre_market \<noteq> mks_num_outcomes post_market \<or>
           mks_metadata_digest pre_market \<noteq> mks_metadata_digest post_market \<or>
           mks_resolution_template pre_market \<noteq> mks_resolution_template post_market) SidecarMarketStatusMismatch @
         (case lookup resolution_events market_id of
            Some payout_nanos \<Rightarrow> flag (\<not> resolved_at payout_nanos (mks_status post_market)) SidecarMarketStatusMismatch
          | None \<Rightarrow> flag (mks_status pre_market \<noteq> mks_status post_market) SidecarMarketStatusMismatch))"

definition check_prices :: "(MarketId, MarketSnapshot) omap \<Rightarrow> MarketId \<times> Nanos list \<Rightarrow> ViolationKind list" where
  "check_prices post_markets = (\<lambda>(market_id, prices). case lookup post_markets market_id of
     Some post_market \<Rightarrow> flag (mks_last_clearing_prices post_market \<noteq> prices) SidecarMarketStatusMismatch
   | None \<Rightarrow> [SidecarMarketStatusMismatch])"

definition check_carried_prices ::
  "Prices \<Rightarrow> (MarketId, MarketSnapshot) omap \<Rightarrow> MarketId \<times> MarketSnapshot \<Rightarrow> ViolationKind list"
where
  "check_carried_prices clearing_prices post_markets = (\<lambda>(market_id, pre_market).
     if lookup clearing_prices market_id \<noteq> None then []
     else case lookup post_markets market_id of
       None \<Rightarrow> []
     | Some post_market \<Rightarrow>
         flag (mks_last_clearing_prices post_market \<noteq> mks_last_clearing_prices pre_market) SidecarMarketStatusMismatch)"

definition verify_market_transition :: "BlockWitness \<Rightarrow> ViolationKind list" where
  "verify_market_transition w = (
     let (pre_markets, v1) = keyed_markets (sc_markets (bw_pre_state_sidecar w));
         (post_markets, v2) = keyed_markets (sc_markets (bw_state_sidecar w));
         (resolution_events, v3) = market_resolution_events w;
         clearing_prices = bw_clearing_prices w;
         v4 = (if bw_previous_header w \<noteq> None
               then concat (map (check_pre_market post_markets resolution_events) (entries pre_markets)) @
                    concat (map (check_prices post_markets) (entries clearing_prices)) @
                    concat (map (check_carried_prices clearing_prices post_markets) (entries pre_markets)) @
                    concat (map (\<lambda>(market_id, post_market). flag (lookup pre_markets market_id = None \<and>
                      lookup clearing_prices market_id = None \<and> mks_last_clearing_prices post_market \<noteq> [])
                      SidecarMarketStatusMismatch) (entries post_markets))
               else []);
         v5 = concat (map (\<lambda>(event_market, payout_nanos). case lookup post_markets event_market of
                Some market \<Rightarrow> flag (\<not> resolved_at payout_nanos (mks_status market)) SidecarMarketStatusMismatch
              | None \<Rightarrow> [SidecarMarketStatusMismatch]) (entries resolution_events));
         v6 = concat (map (\<lambda>market_id. case lookup post_markets market_id of
                Some market \<Rightarrow> flag (mks_status market = MsActive) SidecarMarketStatusMismatch
              | None \<Rightarrow> [SidecarMarketStatusMismatch]) (bw_resolved_markets w))
     in v1 @ v2 @ v3 @ v4 @ v5 @ v6)"

fun extension :: "SystemEventWitness \<Rightarrow> (u64 \<times> MarketId) list" where
  "extension (MarketGroupExtended group_id market_id) = [(group_id, market_id)]"
| "extension _ = []"

definition check_pre_group ::
  "(u64, MarketGroupSnapshot) omap \<Rightarrow> MarketId list \<Rightarrow> (u64 \<times> MarketId) list \<Rightarrow> u64 \<times> MarketGroupSnapshot \<Rightarrow> ViolationKind list"
where
  "check_pre_group post_groups resolved extensions = (\<lambda>(group_id, pre_group).
     let expected_markets_after_resolution = filter (\<lambda>market. market \<notin> set resolved) (mgs_markets pre_group)
     in case lookup post_groups group_id of
          None \<Rightarrow> flag (2 \<le> length expected_markets_after_resolution) SidecarMarketGroupMismatch
        | Some post_group \<Rightarrow>
            (let allowed_additions = map snd (filter (\<lambda>(event_group_id, market_id). event_group_id = group_id) extensions)
             in flag (mgs_name pre_group \<noteq> mgs_name post_group) SidecarMarketGroupMismatch @
                flag (mgs_creation_key pre_group \<noteq> mgs_creation_key post_group) SidecarMarketGroupMismatch @
                flag (set (mgs_markets post_group) \<noteq> set (expected_markets_after_resolution @ allowed_additions))
                  SidecarMarketGroupMismatch))"

definition verify_market_group_transition :: "BlockWitness \<Rightarrow> ViolationKind list" where
  "verify_market_group_transition w = (
     let (pre_groups, v1) = keyed_market_groups (sc_market_groups (bw_pre_state_sidecar w));
         (post_groups, v2) = keyed_market_groups (sc_market_groups (bw_state_sidecar w));
         resolved = resolved_market_events w;
         extensions = concat (map extension (bw_system_events w))
     in v1 @ v2 @
        (if bw_previous_header w = None then []
         else concat (map (check_pre_group post_groups resolved extensions) (entries pre_groups))))"

section \<open>The layer\<close>

definition verify_sidecar :: "hash \<Rightarrow> hash \<Rightarrow> BlockWitness \<Rightarrow> VerificationResult option" where
  "verify_sidecar h k w = do {
     let pre = bw_pre_state_sidecar w; let post = bw_state_sidecar w;
     let v1 = verify_resting_order_reservations (sc_resting_orders pre) (sc_account_reservations pre);
     let v2 = verify_resting_order_reservations (sc_resting_orders post) (sc_account_reservations post);
     let v3 = verify_resting_order_transition w;
     v4 \<leftarrow> verify_withdrawal_transition w;
     let v5 = verify_deposit_accumulator h k w;
     quarantine \<leftarrow> verify_quarantine_transition h w;
     let v7 = verify_market_transition w;
     let v8 = verify_market_group_transition w;
     Some (from_violations (v1 @ v2 @ v3 @ v4 @ v5 @ vr_violations quarantine @ v7 @ v8)) }"

end
