(* ===== verification/Sidecar_Sound.thy ===== *)
theory Sidecar_Sound
  imports Verifier_Sidecar Verifier_Orders Verifier_System
begin

text \<open>
  What a clean sidecar layer guarantees: reservation leaves are the rollup of the resting orders, the
  deposit accumulator is the Merkle tree of the deposits and every deposit has exactly one event, and
  withdrawals change as their events say.  The last section shows what it does not guarantee: a withdrawal leaf
  with no event at all passes.
\<close>

section \<open>Keyed views\<close>

lemma keyed_run:
  "\<exists>vs'. fold (keyed_step key kind) xs (m, vs) = (fold (\<lambda>x. om_ins (key x) x) xs m, vs @ vs') \<and>
     (vs' = [] \<longleftrightarrow> distinct (map key xs) \<and> (\<forall>x \<in> set xs. lookup m (key x) = None))"
proof (induction xs arbitrary: m vs)
  case (Cons x xs)
  let ?v = "flag (lookup m (key x) \<noteq> None) kind"
  from Cons [of "om_ins (key x) x m" "vs @ ?v"] obtain vs' where
    "fold (keyed_step key kind) xs (om_ins (key x) x m, vs @ ?v) = (fold (\<lambda>x. om_ins (key x) x) xs (om_ins (key x) x m), (vs @ ?v) @ vs')"
    "vs' = [] \<longleftrightarrow> distinct (map key xs) \<and> (\<forall>y \<in> set xs. lookup (om_ins (key x) x m) (key y) = None)" by blast
  then show ?case by (intro exI [of _ "?v @ vs'"]) (auto simp: keyed_step_def [of key kind x] split: if_splits, metis image_eqI)
qed simp

lemma keyed_clean:
  "keyed key kind xs = (m, []) \<longleftrightarrow> distinct (map key xs) \<and> m = om_of_list (map (\<lambda>x. (key x, x)) xs)"
  using keyed_run [of key kind xs om_empty "[]"]
  by (auto simp: keyed_def om_of_list_def fold_map comp_def)

section \<open>Reservations\<close>

text \<open>What a set of totals holds, and what a leaf or a resting order contributes.\<close>

definition rt_position :: "ReservationTotals \<Rightarrow> MarketId \<times> u8 \<Rightarrow> int" where
  "rt_position t key = val (get_or (rt_reserved_positions t) key 0)"

definition contributes :: "PositionDelta list \<Rightarrow> MarketId \<times> u8 \<Rightarrow> int" where
  "contributes ps key = (\<Sum>(m, b, q) \<leftarrow> ps. if (m, b) = key then val q else 0)"

lemma contributes_simps [simp]:
  "contributes [] key = 0" "contributes ((m, b, q) # ps) key = (if (m, b) = key then val q else 0) + contributes ps key"
  by (simp_all add: contributes_def)

lemma add_position_meaning:
  assumes "rt_add_position m b q t = Some t'"
  shows "rt_reserved_balance t' = rt_reserved_balance t"
    and "rt_position t' key = rt_position t key + (if (m, b) = key then val q else 0)"
  using assms by (auto simp: rt_add_position_def rt_position_def opt num split: if_splits)

lemma add_positions_meaning:
  "rt_add_positions ps t = Some t' \<Longrightarrow>
     rt_reserved_balance t' = rt_reserved_balance t \<and> rt_position t' key = rt_position t key + contributes ps key"
proof (induction ps arbitrary: t)
  case (Cons p ps)
  obtain m b q where p: "p = (m, b, q)" by (cases p) auto
  with Cons.prems obtain u where u: "rt_add_position m b q t = Some u" "rt_add_positions ps u = Some t'"
    by (auto simp: rt_add_positions_def opt)
  from Cons.IH [OF u(2)] add_position_meaning [OF u(1)] show ?case by (simp add: p)
qed (simp add: rt_add_positions_def)

definition balance_of :: "Rollup \<Rightarrow> u64 \<Rightarrow> int" where
  "balance_of m a = val (rt_reserved_balance (get_or m a totals_default))"

definition position_of :: "Rollup \<Rightarrow> u64 \<Rightarrow> MarketId \<times> u8 \<Rightarrow> int" where
  "position_of m a key = rt_position (get_or m a totals_default) key"

definition order_balance :: "u64 \<Rightarrow> RestingOrderSnapshot list \<Rightarrow> int" where
  "order_balance a rs = (\<Sum>r \<leftarrow> rs. if ro_account_id r = a then val (ro_reserved_balance r) else 0)"

definition order_position :: "u64 \<Rightarrow> MarketId \<times> u8 \<Rightarrow> RestingOrderSnapshot list \<Rightarrow> int" where
  "order_position a key rs = (\<Sum>r \<leftarrow> rs. if ro_account_id r = a then contributes (ro_reserved_positions r) key else 0)"

definition leaf_balance :: "u64 \<Rightarrow> AccountReservationSnapshot list \<Rightarrow> int" where
  "leaf_balance a rs = (\<Sum>r \<leftarrow> rs. if ar_account_id r = a then val (ar_reserved_balance r) else 0)"

definition leaf_position :: "u64 \<Rightarrow> MarketId \<times> u8 \<Rightarrow> AccountReservationSnapshot list \<Rightarrow> int" where
  "leaf_position a key rs = (\<Sum>r \<leftarrow> rs. if ar_account_id r = a then contributes (ar_reserved_positions r) key else 0)"

lemma default_totals [simp]:
  "rt_reserved_balance totals_default = 0" "rt_position totals_default key = 0"
  by (simp_all add: totals_default_def rt_position_def)

lemma zero_totals: "rt_is_zero t \<Longrightarrow> rt_reserved_balance t = 0" "rt_is_zero t \<Longrightarrow> rt_position t key = 0"
  by (simp_all add: rt_is_zero_def rt_position_def)

lemma rollup_meaning:
  "fold_opt rollup_step rs (m, seen) = Some (m', seen') \<Longrightarrow>
     distinct (map (\<lambda>r. o_id (ro_order r)) rs) \<and> (\<forall>r \<in> set rs. o_id (ro_order r) \<notin> set seen) \<and>
     balance_of m' a = balance_of m a + order_balance a rs \<and>
     position_of m' a key = position_of m a key + order_position a key rs"
proof (induction rs arbitrary: m seen)
  case (Cons r rs)
  let ?t = "get_or m (ro_account_id r) totals_default"
  from Cons.prems obtain t u where t: "o_id (ro_order r) \<notin> set seen" "rt_add_balance (ro_reserved_balance r) ?t = Some t"
    "rt_add_positions (ro_reserved_positions r) t = Some u"
    "fold_opt rollup_step rs (om_ins (ro_account_id r) u m, o_id (ro_order r) # seen) = Some (m', seen')"
    by (auto simp: rollup_step_def [of r] opt)
  have "val (rt_reserved_balance u) = val (rt_reserved_balance ?t) + val (ro_reserved_balance r)"
    "rt_position u key = rt_position ?t key + contributes (ro_reserved_positions r) key"
    using t(2) add_positions_meaning [OF t(3), of key] by (auto simp: rt_add_balance_def rt_position_def num)
  with Cons.IH [OF t(4)] t(1) show ?case
    by (auto simp: balance_of_def position_of_def order_balance_def order_position_def)
qed (simp add: order_balance_def order_position_def)

lemma claimed_meaning:
  "claimed_rollup rs m = Ok m' \<Longrightarrow>
     balance_of m' a = balance_of m a + leaf_balance a rs \<and> position_of m' a key = position_of m a key + leaf_position a key rs"
proof (induction rs arbitrary: m)
  case (Cons r rs)
  let ?t = "\<lparr> rt_reserved_balance = ar_reserved_balance r, rt_reserved_positions = om_empty \<rparr>"
  from Cons.prems obtain t where t: "lookup m (ar_account_id r) = None" "rt_add_positions (ar_reserved_positions r) ?t = Some t"
    "claimed_rollup rs (if rt_is_zero t then m else om_ins (ar_account_id r) t m) = Ok m'"
    by (auto split: if_splits option.splits)
  have "rt_reserved_balance t = ar_reserved_balance r" "rt_position t key = contributes (ar_reserved_positions r) key"
    using add_positions_meaning [OF t(2), of key] by (simp_all add: rt_position_def)
  moreover have "get_or m (ar_account_id r) totals_default = totals_default" using t(1) by (simp add: get_or_def)
  ultimately show ?case
    using Cons.IH [OF t(3)] zero_totals [of t]
    by (auto simp: balance_of_def position_of_def leaf_balance_def leaf_position_def split: if_splits)
qed (simp add: leaf_balance_def leaf_position_def)

lemma map_of_filter_values:
  "distinct (map fst xs) \<Longrightarrow>
     map_of (filter (\<lambda>(k, v). P v) xs) key = (case map_of xs key of Some v \<Rightarrow> if P v then Some v else None | None \<Rightarrow> None)"
proof (induction xs)
  case (Cons x xs)
  obtain k v where x: "x = (k, v)" by (cases x)
  with Cons.prems have "map_of xs k = None" by (auto simp: map_of_eq_None_iff)
  with x Cons show ?case by auto
qed simp

lemma lookup_retain: "lookup (om_retain P m) key = (case lookup m key of Some v \<Rightarrow> if P v then Some v else None | None \<Rightarrow> None)"
proof -
  have "distinct (map fst (filter (\<lambda>(k, v). P v) (entries m)))"
    using distinct_keys(1) [of m] by (rule distinct_map_filter)
  from lookup_om_of_list_distinct [OF this] show ?thesis
    by (simp only: om_retain_def map_of_filter_values [OF distinct_keys(1)] lookup_entries [of m])
qed

lemma retained_meaning:
  "balance_of (om_retain (\<lambda>t. \<not> rt_is_zero t) m) a = balance_of m a"
  "position_of (om_retain (\<lambda>t. \<not> rt_is_zero t) m) a key = position_of m a key"
  by (auto simp: balance_of_def position_of_def get_or_def lookup_retain zero_totals split: option.splits)

text \<open>C20: reservation leaves that pass are the rollup of the resting orders: the orders have distinct identifiers, and
  for every account the claimed reserved cash and the claimed reserved quantity of every outcome are exactly
  the sums over the orders of that account.\<close>

theorem reservations_are_rollups:
  assumes "verify_resting_order_reservations resting_orders reservations = []"
  shows "distinct (map (\<lambda>r. o_id (ro_order r)) resting_orders) \<and>
         leaf_balance a reservations = order_balance a resting_orders \<and>
         leaf_position a (m, b) reservations = order_position a (m, b) resting_orders"
proof -
  from assms obtain expected where e: "reservations_from_resting_orders resting_orders = Some expected"
    "reservations_from_account_snapshots reservations = Ok expected"
    by (auto simp: verify_resting_order_reservations_def split: option.splits result.splits)
  then obtain by_account seen where r: "fold_opt rollup_step resting_orders (om_empty, []) = Some (by_account, seen)"
    "expected = om_retain (\<lambda>t. \<not> rt_is_zero t) by_account"
    by (auto simp: reservations_from_resting_orders_def opt)
  have z: "balance_of om_empty a = 0" "position_of om_empty a (m, b) = 0" by (simp_all add: balance_of_def position_of_def)
  from rollup_meaning [OF r(1), of a "(m, b)"] claimed_meaning [of reservations om_empty expected a "(m, b)"] e(2)
  show ?thesis by (simp add: reservations_from_account_snapshots_def r(2) retained_meaning z)
qed

section \<open>Deposits\<close>

lemma append_deposits_fits: "append_deposits k f n ds = Some r \<Longrightarrow> ds \<noteq> [] \<Longrightarrow> unat n + length ds \<le> 2 ^ 32"
proof (induction ds arbitrary: f n r)
  case (Cons d ds)
  from Cons.prems(1) obtain f' root r' where r: "append_deposit_frontier k f n d = Some (f', root)"
    "append_deposits k f' (n + 1) ds = Some r'" by (auto simp: opt)
  then have n: "n < deposit_tree_capacity" by (simp add: append_deposit_frontier_def split: if_splits)
  then have s: "unat (n + 1) = Suc (unat n)" by (simp add: unat_word_ariths capacity)
  show ?case
  proof (cases "ds = []")
    case True
    then show ?thesis using n by (simp add: capacity)
  next
    case False
    then show ?thesis using Cons.IH [OF r(2) False] s by simp
  qed
qed simp

text \<open>What the root of the accumulator is after the deposits: unchanged without deposits, else the Merkle root of all leaves.\<close>

lemma prefix_roots_last:
  assumes "deposit_frontier_prefix_roots k f n ds = Some roots" "represents k f xs" "length xs = unat n"
  shows "length roots = length ds"
    and "roots = [] \<longleftrightarrow> ds = []"
    and "ds \<noteq> [] \<Longrightarrow> last roots = tree_root k DEPOSIT_TREE_DEPTH (xs @ map (deposit_tree_leaf k) ds)"
proof -
  from assms(1) obtain f' where a: "append_deposits k f n ds = Some (f', roots)"
    by (auto simp: deposit_frontier_prefix_roots_def opt split: if_splits)
  have roots: "roots = map (\<lambda>i. tree_root k DEPOSIT_TREE_DEPTH (xs @ map (deposit_tree_leaf k) (take (Suc i) ds))) [0..<length ds]"
  proof (cases "ds = []")
    case False
    from append_deposits_represents [OF assms(2,3) append_deposits_fits [OF a False]] a show ?thesis by auto
  qed (use a in simp)
  show "length roots = length ds" "roots = [] \<longleftrightarrow> ds = []" by (simp_all add: roots)
  show "last roots = tree_root k DEPOSIT_TREE_DEPTH (xs @ map (deposit_tree_leaf k) ds)" if "ds \<noteq> []"
    using that unfolding roots by (subst last_map) (simp_all add: last_conv_nth)
qed

lemma enumerate_all: "(\<forall>x \<in> set (List.enumerate 0 xs). P x) \<longleftrightarrow> (\<forall>i < length xs. P (i, xs ! i))"
  by (auto simp: in_set_enumerate_eq)

lemma enumerate_clean: "concat (map f (List.enumerate 0 xs)) = [] \<longleftrightarrow> (\<forall>i < length xs. f (i, xs ! i) = [])"
  by (auto simp: in_set_enumerate_eq)

text \<open>What an event says of its deposit: identifier, account key and credited amount.\<close>

definition credited :: "u64 option \<times> i64 \<times> u64 \<times> bytes \<times> bytes \<Rightarrow> u64 \<times> bytes \<times> int" where
  "credited = (\<lambda>(account_id, amount, deposit_id, deposit_root, key). (deposit_id, key, val amount))"

definition owed :: "L1DepositWitness \<Rightarrow> u64 \<times> bytes \<times> int" where
  "owed d = (ld_deposit_id d, ld_sybil_account_key d, 1000 * uint (ld_amount_token_units d))"

lemma disposition_clean:
  assumes "check_disposition h ds roots (i, e) = []" "i < length ds"
  shows "credited e = owed (ds ! i)" and "fst e = Some a \<Longrightarrow> snd (snd (snd (snd e))) = bridge_account_key h a"
  using assms by (auto simp: check_disposition_def credited_def owed_def deposit_amount_nanos_def num opt idx_def
      split: option.splits prod.splits)

definition dispositions :: "BlockWitness \<Rightarrow> (u64 option \<times> i64 \<times> u64 \<times> bytes \<times> bytes) list" where
  "dispositions w = concat (map disposition (bw_system_events w))"

lemma disposition_L1Deposit:
  "L1Deposit a amount i root key \<in> set (bw_system_events w) \<Longrightarrow> (Some a, amount, i, root, key) \<in> set (dispositions w)"
  by (force simp: dispositions_def)

lemma events_match_delta:
  assumes "verify_l1_deposit_events_match_delta h w roots = []"
  shows "map credited (dispositions w) = map owed (da_new_deposits (bw_deposit_accumulator w))"
    and "L1Deposit a amount i root key \<in> set (bw_system_events w) \<Longrightarrow> key = bridge_account_key h a"
proof -
  let ?ds = "da_new_deposits (bw_deposit_accumulator w)"
  have l: "length (dispositions w) = length ?ds"
    and c: "\<forall>i < length (dispositions w). check_disposition h ?ds roots (i, dispositions w ! i) = []"
    using assms unfolding verify_l1_deposit_events_match_delta_def Let_def append_is_Nil_conv enumerate_clean dispositions_def [symmetric]
    by simp_all
  show "map credited (dispositions w) = map owed ?ds"
    using l c by (intro nth_equalityI) (auto intro: disposition_clean(1) [of h ?ds roots])
  assume "L1Deposit a amount i root key \<in> set (bw_system_events w)"
  then obtain j where j: "j < length (dispositions w)" "dispositions w ! j = (Some a, amount, i, root, key)"
    by (meson disposition_L1Deposit in_set_conv_nth)
  from c j(1) have "check_disposition h ?ds roots (j, dispositions w ! j) = []" by blast
  from disposition_clean(2) [OF this, of a] l j show "key = bridge_account_key h a" by simp
qed

text \<open>C19: in a block whose deposit accumulator verifies, the cursor advances by the number of new deposits, which carry the
  consecutive identifiers after it; the committed root is the Merkle root of all deposits so far; and the
  deposit events match the new deposits one to one and in order, each crediting (or quarantining) exactly
  the deposited token units in nanos under the depositor's key, a credit only under the key of the
  credited account.\<close>

theorem deposits_accounted:
  assumes "verify_deposit_accumulator h k w = []"
    and "acc = bw_deposit_accumulator w" "ds = da_new_deposits acc"
    and "pre = sc_bridge (bw_pre_state_sidecar w)" "post = sc_bridge (bw_state_sidecar w)"
    and "represents k (da_pre_frontier acc) leaves" "length leaves = unat (da_pre_count acc)"
  shows "add_u64 (br_deposit_cursor pre) (of_nat (length ds)) = Some (br_deposit_cursor post) \<and>
         map ld_deposit_id ds = map (\<lambda>i. br_deposit_cursor pre + of_nat i + 1) [0..<length ds] \<and>
         br_deposit_root post = (if ds = [] then br_deposit_root pre
           else tree_root k DEPOSIT_TREE_DEPTH (leaves @ map (\<lambda>d. deposit_tree_leaf k (deposit_leaf_from_witness d)) ds)) \<and>
         map credited (dispositions w) = map owed ds \<and>
         (L1Deposit a amount i root key \<in> set (bw_system_events w) \<longrightarrow> key = bridge_account_key h a)"
proof -
  note defs = assms(2-5)
  from assms(1) obtain roots where c: "da_pre_count acc = br_deposit_cursor pre"
    "add_u64 (da_pre_count acc) (of_nat (length ds)) = Some (br_deposit_cursor post)"
    "\<forall>j < length ds. ld_deposit_id (ds ! j) = da_pre_count acc + of_nat j + 1"
    "deposit_frontier_prefix_roots k (da_pre_frontier acc) (da_pre_count acc) (map deposit_leaf_from_witness ds) = Some roots"
    "br_deposit_root post = (if roots = [] then br_deposit_root pre else last roots)"
    "verify_l1_deposit_events_match_delta h w roots = []"
    unfolding verify_deposit_accumulator_def Let_def defs append_is_Nil_conv
    by (auto split: option.splits simp: enumerate_all)
  have "map ld_deposit_id ds = map (\<lambda>i. br_deposit_cursor pre + of_nat i + 1) [0..<length ds]"
    using c(1,3) by (intro nth_equalityI) simp_all
  with c prefix_roots_last [OF c(4) assms(6,7)] events_match_delta [OF c(6)] show ?thesis
    by (auto simp: defs comp_def)
qed

definition sample_l1_deposit :: L1DepositWitness where
  "sample_l1_deposit = \<lparr> ld_deposit_id = 1, ld_chain_id = 1, ld_vault_address = replicate 20 1, ld_token_address = replicate 20 2,
     ld_sender = replicate 20 3, ld_sybil_account_key = zero_digest, ld_amount_token_units = 5, ld_deposit_root = zero_digest \<rparr>"

text \<open>One deposit of 5 token units for account 1, on an empty tree; account 2 withdraws 4000 nanos.\<close>

definition bridge_block :: BlockWitness where
  "bridge_block = sample_block\<lparr>
     bw_system_events := [L1Deposit 1 (of_val 5000) 1 zero_digest zero_digest,
       WithdrawalCreated 2 (of_val 4000) 1 (replicate 20 5) (replicate 20 2) 4 90 zero_digest],
     bw_deposit_accumulator := \<lparr> da_pre_frontier = empty_deposit_frontier, da_pre_count = 0, da_new_deposits = [sample_l1_deposit] \<rparr>,
     bw_state_sidecar := sample_sidecar\<lparr> sc_bridge := sample_bridge\<lparr> br_deposit_cursor := 1, br_next_withdrawal_id := 2,
       br_withdrawals := [\<lparr> ws_withdrawal_id = 1, ws_account_id = 2, ws_recipient = replicate 20 5, ws_token = replicate 20 2,
         ws_amount_token_units = 4, ws_amount_nanos = 4000, ws_expiry_height = 90, ws_nullifier = zero_digest \<rparr>] \<rparr>\<rparr> \<rparr>"

lemma sample_hash_levels [simp]:
  "hash_node sample_hash a b = zero_digest" "deposit_tree_leaf sample_hash d = zero_digest" "zero_hash sample_hash l = zero_digest"
  "root_level sample_hash f n l zero_digest = zero_digest"
  by (cases l; simp add: hash_node_def deposit_tree_leaf_def sample_hash_def root_level_def)+

lemma sample_hash_roots:
  "deposit_root_from_frontier sample_hash f 0 = Some zero_digest"
proof -
  have "fold (root_level sample_hash f 0) ls zero_digest = zero_digest" for ls by (induction ls) simp_all
  then show ?thesis by (simp add: deposit_root_from_frontier_def deposit_tree_capacity_def)
qed

lemma sample_tree_root: "tree_root sample_hash DEPOSIT_TREE_DEPTH xs = zero_digest"
proof -
  have d: "DEPOSIT_TREE_DEPTH = Suc 31" by (simp add: DEPOSIT_TREE_DEPTH_def)
  show ?thesis unfolding d tree_root.simps(2) by (rule sample_hash_levels(1))
qed

lemma sample_prefix_roots: "deposit_frontier_prefix_roots sample_hash empty_deposit_frontier 0 [d] = Some [zero_digest]"
proof -
  have "\<not> deposit_tree_capacity < 1" by (simp add: deposit_tree_capacity_def DEPOSIT_TREE_DEPTH_def)
  with append_deposits_represents [OF empty_represents, of 0 "[d]" sample_hash] show ?thesis
    by (auto simp: deposit_frontier_prefix_roots_def add_u64_def u64_of_def fits_u64_def sample_tree_root)
qed

lemma bridge_block_deposits: "verify_deposit_accumulator sample_hash sample_hash bridge_block = []"
  by (simp add: verify_deposit_accumulator_def bridge_block_def sample_sidecar_def sample_bridge_def sample_hash_roots
      sample_prefix_roots add_u64_def u64_of_def fits_u64_def verify_l1_deposit_events_match_delta_def check_disposition_def
      sample_l1_deposit_def deposit_amount_nanos_def bridge_account_key_def sample_hash_def i64_of_def fits_i64_def idx_def)

theorem deposits_accounted_witness:
  "map credited (dispositions bridge_block) = map owed [sample_l1_deposit] \<and>
   br_deposit_root (sc_bridge (bw_state_sidecar bridge_block)) =
     tree_root sample_hash DEPOSIT_TREE_DEPTH [deposit_tree_leaf sample_hash (deposit_leaf_from_witness sample_l1_deposit)]"
  using deposits_accounted [OF bridge_block_deposits refl refl refl refl, of "[]"]
  by (simp add: bridge_block_def empty_represents)

section \<open>Withdrawals\<close>

fun creation :: "SystemEventWitness \<Rightarrow> (u64 \<times> SystemEventWitness) list" where
  "creation (WithdrawalCreated a amount i r t u e n) = [(i, WithdrawalCreated a amount i r t u e n)]"
| "creation _ = []"

fun closing :: "SystemEventWitness \<Rightarrow> (u64 \<times> SystemEventWitness) list" where
  "closing (WithdrawalRefunded a i amount reason) = [(i, WithdrawalRefunded a i amount reason)]"
| "closing (WithdrawalFinalized a i amount) = [(i, WithdrawalFinalized a i amount)]"
| "closing _ = []"

fun observation :: "SystemEventWitness \<Rightarrow> u64 list" where
  "observation (L1BlockObserved height) = [height]"
| "observation _ = []"

definition collect :: "('e \<Rightarrow> 'x list) \<Rightarrow> 'e list \<Rightarrow> 'x list" where
  "collect f es = concat (map f es)"

lemma collect_simps [simp]: "collect f [] = []" "collect f (e # es) = f e @ collect f es"
  by (simp_all add: collect_def)

lemma in_collect: "x \<in> set (collect f es) \<longleftrightarrow> (\<exists>e \<in> set es. x \<in> set (f e))"
  by (auto simp: collect_def)

definition ins_all :: "(u64 \<times> SystemEventWitness) list \<Rightarrow> EventIndex \<Rightarrow> EventIndex" where
  "ins_all xs m = fold (\<lambda>(i, e). om_ins i e) xs m"

lemma ins_all_simps [simp]: "ins_all [] m = m" "ins_all [(i, e)] m = om_ins i e m" "ins_all (xs @ ys) m = ins_all ys (ins_all xs m)"
  by (simp_all add: ins_all_def)

lemma lookup_ins_all_None: "lookup (ins_all xs m) i = None \<longleftrightarrow> lookup m i = None \<and> i \<notin> fst ` set xs"
  unfolding ins_all_def by (induction xs arbitrary: m) (auto split: if_splits)

lemma ins_all_empty: "ins_all xs om_empty = om_of_list xs"
  by (simp add: ins_all_def om_of_list_def)

lemma event_keys_distinct [simp]: "distinct (map fst (creation e))" "distinct (map fst (closing e))"
  by (cases e; simp)+

lemma index_withdrawal_step:
  "index_withdrawal e ((c, t, hs), vs) = ((ins_all (creation e) c, ins_all (closing e) t, observation e @ hs),
     vs @ flag (\<exists>x \<in> set (creation e). lookup c (fst x) \<noteq> None) SidecarWithdrawalMismatch @
          flag (\<exists>x \<in> set (closing e). lookup t (fst x) \<noteq> None) SidecarWithdrawalMismatch @
          flag (\<exists>x \<in> set (observation e). x \<in> set hs) SidecarWithdrawalMismatch)"
  by (cases e) (simp_all add: index_withdrawal_def flag_def)

lemma index_withdrawal_clean:
  "fold index_withdrawal es ((c, t, hs), vs) = ((c', t', hs'), []) \<Longrightarrow>
     vs = [] \<and>
     distinct (map fst (collect creation es)) \<and> (\<forall>x \<in> set (collect creation es). lookup c (fst x) = None) \<and>
     c' = ins_all (collect creation es) c \<and>
     distinct (map fst (collect closing es)) \<and> (\<forall>x \<in> set (collect closing es). lookup t (fst x) = None) \<and>
     t' = ins_all (collect closing es) t \<and>
     set hs' = set hs \<union> set (collect observation es)"
proof (induction es arbitrary: c t hs vs)
  case (Cons e es)
  from Cons.IH [OF Cons.prems [unfolded fold_Cons comp_def index_withdrawal_step]] show ?case
    by (auto simp: lookup_ins_all_None) (metis fst_conv image_eqI)+
qed simp

text \<open>The leaf a creation asks for, what a terminal event closes, and the leaf of an identifier in a list.\<close>

fun created_leaf :: "SystemEventWitness \<Rightarrow> WithdrawalSnapshot list" where
  "created_leaf (WithdrawalCreated a amount i r t u e n) =
     [\<lparr> ws_withdrawal_id = i, ws_account_id = a, ws_recipient = r, ws_token = t, ws_amount_token_units = u,
        ws_amount_nanos = unsigned_abs amount, ws_expiry_height = e, ws_nullifier = n \<rparr>]"
| "created_leaf _ = []"

fun closed :: "SystemEventWitness \<Rightarrow> (u64 \<times> u64 \<times> int) list" where
  "closed (WithdrawalRefunded a i amount reason) = [(i, a, val amount)]"
| "closed (WithdrawalFinalized a i amount) = [(i, a, val amount)]"
| "closed _ = []"

definition leaf_at :: "WithdrawalSnapshot list \<Rightarrow> u64 \<Rightarrow> WithdrawalSnapshot option" where
  "leaf_at leaves = map_of (map (\<lambda>l. (ws_withdrawal_id l, l)) leaves)"

lemma creation_views:
  "map fst (collect creation es) = map ws_withdrawal_id (collect created_leaf es)"
  "map_of (collect creation es) i = Some e \<Longrightarrow> \<exists>l. leaf_at (collect created_leaf es) i = Some l \<and> created_leaf e = [l]"
  "map_of (collect creation es) i = None \<longleftrightarrow> leaf_at (collect created_leaf es) i = None"
proof (induction es)
  case (Cons e' es)
  { case 1 show ?case using Cons by (cases e') simp_all }
  { case 2 then show ?case using Cons by (cases e') (auto simp: leaf_at_def split: if_splits) }
  { case 3 show ?case using Cons by (cases e') (auto simp: leaf_at_def split: if_splits) }
qed (simp_all add: leaf_at_def)

lemma closing_views:
  "map fst (collect closing es) = map fst (collect closed es)"
  "map_of (collect closing es) i = Some e \<Longrightarrow> \<exists>c. map_of (collect closed es) i = Some c \<and> closed e = [(i, c)]"
  "map_of (collect closing es) i = None \<longleftrightarrow> map_of (collect closed es) i = None"
proof (induction es)
  case (Cons e' es)
  { case 1 show ?case using Cons by (cases e') simp_all }
  { case 2 then show ?case using Cons by (cases e') (auto split: if_splits) }
  { case 3 show ?case using Cons by (cases e') (auto split: if_splits) }
qed simp_all

definition leaf_map :: "WithdrawalSnapshot list \<Rightarrow> (u64, WithdrawalSnapshot) omap" where
  "leaf_map leaves = om_of_list (map (\<lambda>l. (ws_withdrawal_id l, l)) leaves)"

lemma lookup_leaf_map: "distinct (map ws_withdrawal_id leaves) \<Longrightarrow> lookup (leaf_map leaves) i = leaf_at leaves i"
  by (simp add: leaf_map_def leaf_at_def lookup_om_of_list_distinct comp_def)

lemma leaf_at_id: "leaf_at leaves i = Some l \<Longrightarrow> ws_withdrawal_id l = i"
  by (auto simp: leaf_at_def dest: map_of_SomeD)

lemma keyed_withdrawals_clean:
  "keyed_withdrawals leaves = (m, []) \<longleftrightarrow> distinct (map ws_withdrawal_id leaves) \<and> m = leaf_map leaves"
  unfolding keyed_withdrawals_def by (simp add: keyed_clean leaf_map_def)

text \<open>The individual checks of a clean run.\<close>

lemma withdrawal_checks:
  assumes "verify_withdrawal_transition w = Some []"
    and "es = bw_system_events w" "pre = br_withdrawals (sc_bridge (bw_pre_state_sidecar w))"
    and "post = br_withdrawals (sc_bridge (bw_state_sidecar w))"
    and "C = om_of_list (collect creation es)" "T = om_of_list (collect closing es)"
  obtains heights where
    "distinct (map ws_withdrawal_id pre)" "distinct (map ws_withdrawal_id post)"
    "distinct (map fst (collect creation es))" "distinct (map fst (collect closing es))"
    "set heights = set (collect observation es)"
    "\<And>i l. leaf_at pre i = Some l \<Longrightarrow> check_pre_withdrawal T (leaf_map post) (i, l) = []"
    "\<And>i e. lookup C i = Some e \<Longrightarrow> check_created T (leaf_map post) (i, e) = Some []"
    "\<And>i e. lookup T i = Some e \<Longrightarrow> check_terminal (leaf_map pre) (leaf_map post) C heights (i, e) = Some []"
proof -
  obtain P v1 where P: "keyed_withdrawals pre = (P, v1)" by force
  obtain Q v2 where Q: "keyed_withdrawals post = (Q, v2)" by force
  obtain c t hs v4 where I: "fold index_withdrawal es ((om_empty, om_empty, []), []) = ((c, t, hs), v4)" by (metis prod.exhaust)
  obtain ht v5 where H: "fold observe_height es (br_observed_l1_height (sc_bridge (bw_pre_state_sidecar w)), []) = (ht, v5)" by force
  from assms(1) have v: "v1 = []" "v2 = []" "v4 = []" "concat (map (check_pre_withdrawal t Q) (entries P)) = []"
    "each (check_created t Q) (entries c) = Some []" "each (check_terminal P Q c hs) (entries t) = Some []"
    unfolding verify_withdrawal_transition_def Let_def assms(2-4) [symmetric] P Q I H prod.case opt by auto
  note I' = index_withdrawal_clean [OF I [unfolded v]]
  have ct: "c = C" "t = T" using I' by (simp_all add: assms(5,6) ins_all_empty)
  have PQ: "distinct (map ws_withdrawal_id pre)" "P = leaf_map pre" "distinct (map ws_withdrawal_id post)" "Q = leaf_map post"
    using P Q v(1,2) keyed_withdrawals_clean by auto
  show ?thesis
  proof (rule that [of hs])
    show "check_pre_withdrawal T (leaf_map post) (i, l) = []" if "leaf_at pre i = Some l" for i l
      using v(4) that PQ ct lookup_leaf_map [OF PQ(1), of i] by auto
    show "check_created T (leaf_map post) (i, e) = Some []" if "lookup C i = Some e" for i e
      using v(5) that PQ ct by (auto simp: each_clean)
    show "check_terminal (leaf_map pre) (leaf_map post) C hs (i, e) = Some []" if "lookup T i = Some e" for i e
      using v(6) that PQ ct by (auto simp: each_clean)
  qed (use PQ I' in simp_all)
qed

definition withdrawal_source ::
  "WithdrawalSnapshot list \<Rightarrow> WithdrawalSnapshot list \<Rightarrow> WithdrawalSnapshot list \<Rightarrow> u64 \<Rightarrow> WithdrawalSnapshot option"
where
  "withdrawal_source pre post created i =
     (case leaf_at pre i of Some l \<Rightarrow> Some l
      | None \<Rightarrow> (case leaf_at post i of Some l \<Rightarrow> Some l | None \<Rightarrow> leaf_at created i))"

lemma creation_shape: "map_of (collect creation es) i = Some e \<Longrightarrow> \<exists>a amount r t u x n. e = WithdrawalCreated a amount i r t u x n"
proof (induction es)
  case (Cons e' es)
  then show ?case by (cases e') (auto split: if_splits)
qed simp

lemma terminal_source_leaf:
  assumes "distinct (map ws_withdrawal_id pre)" "distinct (map ws_withdrawal_id post)" "distinct (map fst (collect creation es))"
  shows "terminal_source (leaf_map pre) (leaf_map post) (om_of_list (collect creation es)) i =
    map_option (\<lambda>l. (ws_account_id l, ws_amount_nanos l, ws_expiry_height l)) (withdrawal_source pre post (collect created_leaf es) i)"
proof (cases "map_of (collect creation es) i")
  case None
  then have "leaf_at (collect created_leaf es) i = None" using creation_views(3) by blast
  with None assms show ?thesis
    by (simp add: terminal_source_def withdrawal_source_def lookup_leaf_map lookup_om_of_list_distinct split: option.split)
next
  case (Some e)
  obtain a amount r t u x n where e: "e = WithdrawalCreated a amount i r t u x n" using creation_shape [OF Some] by blast
  with creation_views(2) [OF Some] Some assms show ?thesis
    by (auto simp: terminal_source_def withdrawal_source_def lookup_leaf_map lookup_om_of_list_distinct split: option.split)
qed

lemma terminal_meaning:
  assumes "check_terminal P Q C heights (i, e) = Some []" "closed e = [(i, a, v)]"
    and "terminal_source P Q C i = map_option (\<lambda>l. (ws_account_id l, ws_amount_nanos l, ws_expiry_height l)) src"
  obtains l where "src = Some l" "ws_account_id l = a" "uint (ws_amount_nanos l) = v"
    "\<And>a amount ht. e = WithdrawalRefunded a i amount (L1Expired ht) \<Longrightarrow> ws_expiry_height l < ht \<and> ht \<in> set heights"
  using assms by (cases src; cases e)
    (auto simp: check_terminal_def opt num not_le split: WithdrawalRefundReasonWitness.splits)

lemma unsigned_abs_nonneg: "uint q = val amount \<Longrightarrow> unsigned_abs amount = q"
  unfolding unsigned_abs_def by (metis abs_of_nonneg uint_bounds(1) word_of_int_uint)

lemma survival:
  assumes checks: "\<And>l. leaf_at pre i = Some l \<Longrightarrow> check_pre_withdrawal T (leaf_map post) (i, l) = []"
    "\<And>e. lookup C i = Some e \<Longrightarrow> check_created T (leaf_map post) (i, e) = Some []"
    and C: "C = om_of_list (collect creation es)" "distinct (map fst (collect creation es))"
    and Q: "distinct (map ws_withdrawal_id post)"
    and i: "leaf_at pre i \<noteq> None \<or> leaf_at (collect created_leaf es) i \<noteq> None"
  shows "leaf_at post i = (if lookup T i \<noteq> None then None
           else if leaf_at pre i \<noteq> None then leaf_at pre i else leaf_at (collect created_leaf es) i)"
proof (cases "leaf_at pre i")
  case (Some l)
  with checks(1) [OF Some] show ?thesis
    by (auto simp: check_pre_withdrawal_def lookup_leaf_map [OF Q] split: option.splits bool.splits if_splits)
next
  case None
  with i have "map_of (collect creation es) i \<noteq> None" using creation_views(3) [of es i] by simp
  then obtain e where e: "map_of (collect creation es) i = Some e" by blast
  obtain a amount r t u x n where e': "e = WithdrawalCreated a amount i r t u x n" using creation_shape [OF e] by blast
  from checks(2) [of e] e have "check_created T (leaf_map post) (i, e) = Some []" by (simp add: C lookup_om_of_list_distinct)
  then show ?thesis
    using None creation_views(2) [OF e] leaf_at_id [of post i]
    by (auto simp: e' check_created_def lookup_leaf_map [OF Q] num unsigned_abs_nonneg intro!: WithdrawalSnapshot.equality
        split: option.splits if_splits)
qed

text \<open>C18: in a block whose withdrawals verify, identifiers are unique among the leaves, the creations and the terminal
  events; every committed or newly created withdrawal is still committed, unchanged, unless a terminal
  event closes it, and then it is gone; a terminal event names the owner and the exact amount of the
  withdrawal it closes; and a refund for expiry needs an L1 height past the expiry, observed in this block.\<close>

theorem withdrawals_follow_events:
  assumes "verify_withdrawal_transition w = Some []"
    and "es = bw_system_events w" "pre = br_withdrawals (sc_bridge (bw_pre_state_sidecar w))"
    and "post = br_withdrawals (sc_bridge (bw_state_sidecar w))"
    and "created = collect created_leaf es" "closings = collect closed es"
  shows "distinct (map ws_withdrawal_id pre) \<and> distinct (map ws_withdrawal_id post) \<and>
    distinct (map ws_withdrawal_id created) \<and> distinct (map fst closings) \<and>
    (leaf_at pre i \<noteq> None \<or> leaf_at created i \<noteq> None \<longrightarrow>
       leaf_at post i = (if map_of closings i \<noteq> None then None else if leaf_at pre i \<noteq> None then leaf_at pre i else leaf_at created i)) \<and>
    (map_of closings i = Some (a, v) \<longrightarrow>
       (\<exists>l. withdrawal_source pre post created i = Some l \<and> ws_account_id l = a \<and> uint (ws_amount_nanos l) = v)) \<and>
    (WithdrawalRefunded a i amount (L1Expired ht) \<in> set es \<longrightarrow>
       (\<exists>l. withdrawal_source pre post created i = Some l \<and> ws_expiry_height l < ht) \<and> L1BlockObserved ht \<in> set es)"
proof -
  define C where "C = om_of_list (collect creation es)"
  define T where "T = om_of_list (collect closing es)"
  from withdrawal_checks [OF assms(1-4) C_def T_def] obtain heights where
    d: "distinct (map ws_withdrawal_id pre)" "distinct (map ws_withdrawal_id post)"
       "distinct (map fst (collect creation es))" "distinct (map fst (collect closing es))"
    and hs: "set heights = set (collect observation es)"
    and c1: "\<And>i l. leaf_at pre i = Some l \<Longrightarrow> check_pre_withdrawal T (leaf_map post) (i, l) = []"
    and c2: "\<And>i e. lookup C i = Some e \<Longrightarrow> check_created T (leaf_map post) (i, e) = Some []"
    and c3: "\<And>i e. lookup T i = Some e \<Longrightarrow> check_terminal (leaf_map pre) (leaf_map post) C heights (i, e) = Some []"
    by blast
  have T: "lookup T i = map_of (collect closing es) i" for i by (simp add: T_def lookup_om_of_list_distinct d)
  have src: "\<exists>l. withdrawal_source pre post created i = Some l \<and> ws_account_id l = a \<and> uint (ws_amount_nanos l) = v \<and>
      (\<forall>a amount ht. e = WithdrawalRefunded a i amount (L1Expired ht) \<longrightarrow> ws_expiry_height l < ht \<and> ht \<in> set heights)"
    if "map_of (collect closing es) i = Some e" "closed e = [(i, a, v)]" for e a v
    using terminal_meaning [OF c3 [of i e, unfolded T] that(2) terminal_source_leaf [OF d(1,2,3), folded C_def assms(5)]] that(1)
    by (metis (no_types))
  have "leaf_at post i = (if map_of closings i \<noteq> None then None else if leaf_at pre i \<noteq> None then leaf_at pre i else leaf_at created i)"
    if "leaf_at pre i \<noteq> None \<or> leaf_at created i \<noteq> None"
    using survival [of pre i T post C es, OF c1 c2 C_def d(3,2) that [unfolded assms(5)]] closing_views(3) [of es i]
    unfolding assms(5,6) T by (simp only:)
  moreover have "\<exists>l. withdrawal_source pre post created i = Some l \<and> ws_account_id l = a \<and> uint (ws_amount_nanos l) = v"
    if prem: "map_of closings i = Some (a, v)"
  proof -
    from prem have "map_of (collect closing es) i \<noteq> None" unfolding assms(6) using closing_views(3) [of es i] by simp
    then obtain e where e: "map_of (collect closing es) i = Some e" by blast
    with closing_views(2) [OF e] prem have "closed e = [(i, a, v)]" unfolding assms(6) by simp
    from src [OF e this] show ?thesis by blast
  qed
  moreover have "(\<exists>l. withdrawal_source pre post created i = Some l \<and> ws_expiry_height l < ht) \<and> L1BlockObserved ht \<in> set es"
    if prem: "WithdrawalRefunded a i amount (L1Expired ht) \<in> set es"
  proof -
    let ?e = "WithdrawalRefunded a i amount (L1Expired ht)"
    have "(i, ?e) \<in> set (collect closing es)" using prem by (force simp: in_collect)
    then have "map_of (collect closing es) i = Some ?e" using d(4) by simp
    from src [OF this] obtain l where l: "withdrawal_source pre post created i = Some l" "ws_expiry_height l < ht" "ht \<in> set heights"
      by auto
    from l(3) hs obtain e where "e \<in> set es" "ht \<in> set (observation e)" by (auto simp: in_collect)
    then have "L1BlockObserved ht \<in> set es" by - (cases e, auto)
    with l show ?thesis by blast
  qed
  ultimately show ?thesis
    using d creation_views(1) [of es] closing_views(1) [of es] by (simp add: assms(5,6))
qed

section \<open>A withdrawal with no event\<close>

definition map_post_bridge :: "(BridgeStateSnapshot \<Rightarrow> BridgeStateSnapshot) \<Rightarrow> BlockWitness \<Rightarrow> BlockWitness" where
  "map_post_bridge f w = w\<lparr> bw_state_sidecar := (bw_state_sidecar w)\<lparr> sc_bridge := f (sc_bridge (bw_state_sidecar w)) \<rparr>\<rparr>"

definition forge :: "WithdrawalSnapshot \<Rightarrow> BlockWitness \<Rightarrow> BlockWitness" where
  "forge l = map_post_bridge (\<lambda>b. b\<lparr> br_withdrawals := br_withdrawals b @ [l] \<rparr>)"

lemma forge_simps [simp]:
  "bw_system_events (forge l w) = bw_system_events w" "bw_previous_header (forge l w) = bw_previous_header w"
  "bw_pre_state_sidecar (forge l w) = bw_pre_state_sidecar w" "bw_header (forge l w) = bw_header w"
  "bw_orders (forge l w) = bw_orders w" "bw_fills (forge l w) = bw_fills w"
  "bw_clearing_prices (forge l w) = bw_clearing_prices w" "bw_deposit_accumulator (forge l w) = bw_deposit_accumulator w"
  "bw_resolved_markets (forge l w) = bw_resolved_markets w" "bw_genesis_hash (forge l w) = bw_genesis_hash w"
  "bw_rejections (forge l w) = bw_rejections w" "bw_total_welfare (forge l w) = bw_total_welfare w"
  "bw_minting_cost (forge l w) = bw_minting_cost w" "bw_mm_constraints (forge l w) = bw_mm_constraints w"
  "bw_market_groups (forge l w) = bw_market_groups w" "bw_pre_state (forge l w) = bw_pre_state w"
  "bw_post_system_state (forge l w) = bw_post_system_state w" "bw_post_state (forge l w) = bw_post_state w"
  "bw_account_keys (forge l w) = bw_account_keys w"
  "sc_markets (bw_state_sidecar (forge l w)) = sc_markets (bw_state_sidecar w)"
  "sc_market_groups (bw_state_sidecar (forge l w)) = sc_market_groups (bw_state_sidecar w)"
  "sc_resting_orders (bw_state_sidecar (forge l w)) = sc_resting_orders (bw_state_sidecar w)"
  "sc_account_reservations (bw_state_sidecar (forge l w)) = sc_account_reservations (bw_state_sidecar w)"
  by (simp_all add: forge_def map_post_bridge_def)

lemma forge_post_bridge [simp]:
  "sc_bridge (bw_state_sidecar (forge l w)) =
     (sc_bridge (bw_state_sidecar w))\<lparr> br_withdrawals := br_withdrawals (sc_bridge (bw_state_sidecar w)) @ [l] \<rparr>"
  by (simp add: forge_def map_post_bridge_def)

lemma forge_bridge:
  "br_deposit_cursor (sc_bridge (bw_state_sidecar (forge l w))) = br_deposit_cursor (sc_bridge (bw_state_sidecar w))"
  "br_deposit_root (sc_bridge (bw_state_sidecar (forge l w))) = br_deposit_root (sc_bridge (bw_state_sidecar w))"
  "br_quarantine (sc_bridge (bw_state_sidecar (forge l w))) = br_quarantine (sc_bridge (bw_state_sidecar w))"
  by simp_all

lemma sorted_last: "sorted xs \<Longrightarrow> x \<in> set xs \<Longrightarrow> x \<le> last xs"
  by (induction xs rule: rev_induct) (auto simp: sorted_append)

lemma next_id_above: "\<not> (om_keys m \<noteq> [] \<and> n \<le> last (om_keys m)) \<longleftrightarrow> (\<forall>i. lookup m i \<noteq> None \<longrightarrow> i < n)"
proof (cases "om_keys m = []")
  case True
  then have "lookup m i = None" for i using in_om_keys [of i m] by simp
  with True show ?thesis by simp
next
  case False
  then have l: "lookup m (last (om_keys m)) \<noteq> None"
    using in_om_keys [of "last (om_keys m)" m] last_in_set [OF False] by simp
  have "i \<le> last (om_keys m)" if "lookup m i \<noteq> None" for i
    using that sorted_last [OF sorted_om_keys, of i m] in_om_keys [of i m] by simp
  with l have "last (om_keys m) < n \<longleftrightarrow> (\<forall>i. lookup m i \<noteq> None \<longrightarrow> i < n)" by (meson le_less_trans)
  with False show ?thesis by (simp only: not_le de_Morgan_conj not_not) simp
qed

lemma leaf_map_snoc: "leaf_map (leaves @ [l]) = om_ins (ws_withdrawal_id l) l (leaf_map leaves)"
  by (simp add: leaf_map_def)

lemma leaf_at_None: "leaf_at leaves i = None \<longleftrightarrow> i \<notin> ws_withdrawal_id ` set leaves"
  by (simp add: leaf_at_def map_of_eq_None_iff image_image)

text \<open>The checks look the post leaves up at the identifiers of committed leaves and of events only.\<close>

lemma checks_local:
  "i \<noteq> j \<Longrightarrow> check_pre_withdrawal T (om_ins j l Q) (i, x) = check_pre_withdrawal T Q (i, x)"
  "i \<noteq> j \<Longrightarrow> check_created T (om_ins j l Q) (i, e) = check_created T Q (i, e)"
  "i \<noteq> j \<Longrightarrow> check_terminal P (om_ins j l Q) C hs (i, e) = check_terminal P Q C hs (i, e)"
proof -
  assume "i \<noteq> j"
  then have Q: "lookup (om_ins j l Q) i = lookup Q i" by simp
  then have t: "terminal_source P (om_ins j l Q) C i = terminal_source P Q C i" by (simp only: terminal_source_def)
  show "check_pre_withdrawal T (om_ins j l Q) (i, x) = check_pre_withdrawal T Q (i, x)"
    "check_created T (om_ins j l Q) (i, e) = check_created T Q (i, e)"
    "check_terminal P (om_ins j l Q) C hs (i, e) = check_terminal P Q C hs (i, e)"
    by (simp_all only: check_pre_withdrawal_def check_created_def check_terminal_def prod.case Q t)
qed

lemma entries_local:
  assumes "lookup m j = None" "\<And>i x. i \<noteq> j \<Longrightarrow> f (i, x) = g (i, x)" "\<forall>p \<in> set (entries m). g p = v"
  shows "\<forall>p \<in> set (entries m). f p = v"
proof
  fix p assume p: "p \<in> set (entries m)"
  obtain i x where "p = (i, x)" by force
  with p assms show "f p = v" by (cases "i = j") auto
qed

lemma forged_withdrawal_transition:
  assumes clean: "verify_withdrawal_transition w = Some []"
    and fresh: "leaf_at (br_withdrawals (sc_bridge (bw_pre_state_sidecar w))) (ws_withdrawal_id l) = None"
      "leaf_at (br_withdrawals (sc_bridge (bw_state_sidecar w))) (ws_withdrawal_id l) = None"
      "leaf_at (collect created_leaf (bw_system_events w)) (ws_withdrawal_id l) = None"
      "map_of (collect closed (bw_system_events w)) (ws_withdrawal_id l) = None"
    and old: "ws_withdrawal_id l < br_next_withdrawal_id (sc_bridge (bw_state_sidecar w))"
  shows "verify_withdrawal_transition (forge l w) = Some []"
proof -
  let ?es = "bw_system_events w" and ?i = "ws_withdrawal_id l" and ?b = "sc_bridge (bw_state_sidecar w)"
  define pre where "pre = br_withdrawals (sc_bridge (bw_pre_state_sidecar w))"
  define post where "post = br_withdrawals ?b"
  obtain P v1 where P: "keyed_withdrawals pre = (P, v1)" by force
  obtain Q v2 where Q: "keyed_withdrawals post = (Q, v2)" by force
  obtain c t hs v4 where I: "fold index_withdrawal ?es ((om_empty, om_empty, []), []) = ((c, t, hs), v4)" by (metis prod.exhaust)
  obtain ht v5 where H: "fold observe_height ?es (br_observed_l1_height (sc_bridge (bw_pre_state_sidecar w)), []) = (ht, v5)" by force
  from clean have v: "v1 = []" "v2 = []" "v4 = []" "v5 = []" "\<not> (om_keys Q \<noteq> [] \<and> br_next_withdrawal_id ?b \<le> last (om_keys Q))"
    "br_observed_l1_height ?b = ht" "\<forall>x \<in> set (entries P). check_pre_withdrawal t Q x = []"
    "\<forall>x \<in> set (entries c). check_created t Q x = Some []" "\<forall>x \<in> set (entries t). check_terminal P Q c hs x = Some []"
    "br_next_withdrawal_id ?b = saturating_add_u64 (br_next_withdrawal_id (sc_bridge (bw_pre_state_sidecar w))) (of_nat (length (entries c)))"
    unfolding verify_withdrawal_transition_def Let_def pre_def [symmetric] post_def [symmetric] P Q I H prod.case opt
    by (auto simp: each_clean)
  note I' = index_withdrawal_clean [OF I [unfolded v]]
  have ct: "c = om_of_list (collect creation ?es)" "t = om_of_list (collect closing ?es)" using I' by (simp_all add: ins_all_empty)
  have PQ: "distinct (map ws_withdrawal_id pre)" "P = leaf_map pre" "distinct (map ws_withdrawal_id post)" "Q = leaf_map post"
    using P Q v(1,2) keyed_withdrawals_clean by auto
  have "keyed_withdrawals (post @ [l]) = (om_ins ?i l Q, [])"
    using PQ fresh(2) by (auto simp: keyed_withdrawals_clean leaf_map_snoc post_def leaf_at_None)
  moreover have n: "lookup P ?i = None" "lookup c ?i = None" "lookup t ?i = None"
    using fresh creation_views(3) [of ?es ?i] closing_views(3) [of ?es ?i] I' PQ
    by (simp_all add: ct ins_all_empty lookup_om_of_list_distinct lookup_leaf_map pre_def)
  have "\<forall>x \<in> set (entries P). check_pre_withdrawal t (om_ins ?i l Q) x = []"
    "\<forall>x \<in> set (entries c). check_created t (om_ins ?i l Q) x = Some []"
    "\<forall>x \<in> set (entries t). check_terminal P (om_ins ?i l Q) c hs x = Some []"
    using entries_local [OF n(1) checks_local(1) [where j = ?i and l = l] v(7)] entries_local [OF n(2) checks_local(2) [where j = ?i and l = l] v(8)]
      entries_local [OF n(3) checks_local(3) [where j = ?i and l = l] v(9)] by blast+
  moreover have "\<not> (om_keys (om_ins ?i l Q) \<noteq> [] \<and> br_next_withdrawal_id ?b \<le> last (om_keys (om_ins ?i l Q)))"
    using v(5) old unfolding next_id_above by simp
  ultimately show ?thesis
    using P I H v(1-6,10) by (simp add: verify_withdrawal_transition_def pre_def [symmetric] post_def [symmetric] each_clean opt)
qed

lemma sidecar_clean:
  "(\<exists>r. verify_sidecar h k w = Some r \<and> vr_valid r) \<longleftrightarrow>
     verify_resting_order_reservations (sc_resting_orders (bw_pre_state_sidecar w)) (sc_account_reservations (bw_pre_state_sidecar w)) = [] \<and>
     verify_resting_order_reservations (sc_resting_orders (bw_state_sidecar w)) (sc_account_reservations (bw_state_sidecar w)) = [] \<and>
     verify_resting_order_transition w = [] \<and> verify_withdrawal_transition w = Some [] \<and>
     verify_deposit_accumulator h k w = [] \<and>
     (\<exists>q. verify_quarantine_transition h w = Some q \<and> vr_violations q = []) \<and>
     verify_market_transition w = [] \<and> verify_market_group_transition w = []"
  unfolding verify_sidecar_def Let_def by (auto simp: opt)

lemma forge_keeps:
  "verify_resting_order_transition (forge l w) = verify_resting_order_transition w"
  "verify_deposit_accumulator h k (forge l w) = verify_deposit_accumulator h k w"
  "verify_quarantine_transition h (forge l w) = verify_quarantine_transition h w"
  "verify_market_transition (forge l w) = verify_market_transition w"
  "verify_market_group_transition (forge l w) = verify_market_group_transition w"
  unfolding verify_resting_order_transition_def verify_deposit_accumulator_def verify_l1_deposit_events_match_delta_def
    verify_quarantine_transition_def verify_market_transition_def verify_market_group_transition_def
    resolved_market_events_def market_resolution_events_def Let_def forge_bridge forge_simps by (rule refl)+

lemma forge_keeps_layers:
  "verify_match (forge l w) d = verify_match w d" "verify_settlement h (forge l w) = verify_settlement h w"
  "verify_orders (forge l w) = verify_orders w" "verify_system_transition h sha (forge l w) = verify_system_transition h sha w"
  unfolding verify_match_def verify_order_id_uniqueness_def verify_uniform_clearing_prices_def verify_price_complementarity_def
    verify_resolved_markets_def verify_conditional_activation_def market_group_avg_delta_def verify_settlement_def verify_orders_def
    check_rejection_def check_atomic_bundle_def verify_system_transition_def forge_simps by (rule refl)+

text \<open>The layer does not ask where a new withdrawal leaf comes from: a block that passes still passes after a leaf with
  any content is appended to its committed withdrawals, provided its identifier is below the counter and
  appears in no leaf and no event.\<close>

lemma forged_withdrawal_sidecar:
  assumes "verify_sidecar h k w = Some r" "vr_valid r"
    and "leaf_at (br_withdrawals (sc_bridge (bw_pre_state_sidecar w))) (ws_withdrawal_id l) = None"
    and "leaf_at (br_withdrawals (sc_bridge (bw_state_sidecar w))) (ws_withdrawal_id l) = None"
    and "leaf_at (collect created_leaf (bw_system_events w)) (ws_withdrawal_id l) = None"
    and "map_of (collect closed (bw_system_events w)) (ws_withdrawal_id l) = None"
    and "ws_withdrawal_id l < br_next_withdrawal_id (sc_bridge (bw_state_sidecar w))"
  shows "\<exists>r'. verify_sidecar h k (forge l w) = Some r' \<and> vr_valid r'"
proof -
  from assms(1,2) have "\<exists>r. verify_sidecar h k w = Some r \<and> vr_valid r" by blast
  note c = this [unfolded sidecar_clean]
  from c have "verify_withdrawal_transition w = Some []" by blast
  from forged_withdrawal_transition [OF this assms(3-7)] c
  show ?thesis unfolding sidecar_clean by (simp add: forge_keeps)
qed

section \<open>Witnesses\<close>

lemma bridge_block_withdrawals: "verify_withdrawal_transition bridge_block = Some []"
  by (simp add: verify_withdrawal_transition_def bridge_block_def sample_sidecar_def sample_bridge_def keyed_withdrawals_def keyed_def
      keyed_step_def om_keys_def index_withdrawal_def observe_height_def each_Cons check_created_def u64_of_def fits_u64_def fits_i64_def
      saturating_add_u64_def add_u64_def word_le_def)

theorem withdrawals_follow_events_witness:
  "leaf_at (br_withdrawals (sc_bridge (bw_state_sidecar bridge_block))) 1 = leaf_at (collect created_leaf (bw_system_events bridge_block)) 1"
  using withdrawals_follow_events [OF bridge_block_withdrawals refl refl refl refl refl, of 1]
  by (simp add: bridge_block_def sample_block_def sample_sidecar_def sample_bridge_def leaf_at_def)

definition sample_resting :: "u64 \<Rightarrow> int \<Rightarrow> PositionDelta list \<Rightarrow> RestingOrderSnapshot" where
  "sample_resting i bal ps = \<lparr> ro_order = one_hot_order i 0 BuyYes 600000000 1000, ro_account_id = 1, ro_created_at = 1,
     ro_expires_at_block = 9, ro_reserved_balance = of_val bal, ro_reserved_positions = ps \<rparr>"

theorem reservations_are_rollups_witness:
  "leaf_balance 1 [\<lparr> ar_account_id = 1, ar_reserved_balance = of_val 12, ar_reserved_positions = [(0, 0, of_val 3)] \<rparr>] =
   order_balance 1 [sample_resting 1 5 [(0, 0, of_val 3)], sample_resting 2 7 []]"
  using reservations_are_rollups [of "[sample_resting 1 5 [(0, 0, of_val 3)], sample_resting 2 7 []]"
      "[\<lparr> ar_account_id = 1, ar_reserved_balance = of_val 12, ar_reserved_positions = [(0, 0, of_val 3)] \<rparr>]" 1 0 0]
  by (simp add: sample_resting_def one_hot_order_def verify_resting_order_reservations_def reservations_from_resting_orders_def
      reservations_from_account_snapshots_def om_retain_def rollup_step_def rt_add_balance_def rt_add_positions_def rt_add_position_def
      rt_is_zero_def totals_default_def add_i64_def i64_of_def fits_i64_def zero_i64_def om_of_list_def leaf_balance_def order_balance_def)

end
