(* ===== verification/Book_Refinement.thy ===== *)
theory Book_Refinement
  imports Order_Book_Restore Sidecar_Sound "HOL-Library.Multiset"
begin

text \<open>
  The order book of the sequencer against the sidecar layer of the verifier: the leaves that a block commits
  before and after it produce and settle the book (\<open>sequencer/production/mod.rs\<close>, \<open>order_book.rs\<close>) pass
  \<open>verify_resting_order_transition\<close>, as long as revalidation evicts nothing but orders of markets resolved in the
  block; and an eviction for any other reason makes every witness of the block fail.
\<close>

abbreviation rid :: "RestingOrder \<Rightarrow> u64" where "rid ro \<equiv> o_id (rs_order ro)"

definition ids :: "OrderBook \<Rightarrow> u64 list" where "ids book = map rid (ob_orders book)"

section \<open>What leaves the book\<close>

lemma take_drop_mset: "i < length xs \<Longrightarrow> mset xs = mset (take i xs @ drop (Suc i) xs) + {# xs ! i #}"
  by (subst id_take_nth_drop [of i xs]) simp_all

lemma expire_leaves:
  assumes "book_ok book" "expire h book = (book', Ok removed)"
  shows "mset (ob_orders book) = mset (ob_orders book') + mset removed"
    "\<forall>ro \<in> set removed. rs_expires_at_block ro < h" "book_ok book'"
proof -
  from expire_where_ok [OF book_okD(1,3) [OF assms(1)], of "\<lambda>ro. rs_expires_at_block ro < h"] assms(2) obtain aggs where
    e: "book' = with_book book (filter (\<lambda>ro. \<not> rs_expires_at_block ro < h) (ob_orders book)) aggs"
       "removed = filter (\<lambda>ro. rs_expires_at_block ro < h) (ob_orders book)" by (auto simp: expire_def)
  then show "\<forall>ro \<in> set removed. rs_expires_at_block ro < h" by simp
  show "mset (ob_orders book) = mset (ob_orders book') + mset removed" by (simp add: e multiset_partition [symmetric] add.commute)
  show "book_ok book'" using expire_where_keeps [OF assms(1)] assms(2) by (metis expire_def fst_conv)
qed

lemma cancel_leaves:
  assumes "book_ok book" "cancel a i book = (book', Ok ro)"
  shows "mset (ob_orders book) = mset (ob_orders book') + {# ro #}" "rid ro = i" "rs_account_id ro = a" "book_ok book'"
proof -
  from assms(2) obtain index where c: "cancel_index book a i = Ok index" by (auto simp: cancel_def split: result.splits)
  then have x: "index < length (ob_orders book)" "rid (ob_orders book ! index) = i" "rs_account_id (ob_orders book ! index) = a"
    by (auto simp: cancel_index_def dest: index_of_Some split: option.splits if_splits)
  moreover have e: "ob_orders book' = take index (ob_orders book) @ drop (Suc index) (ob_orders book)" "ro = ob_orders book ! index"
    using assms(2) c by (auto simp: cancel_def Let_def split: prod.splits result.splits)
  ultimately show "mset (ob_orders book) = mset (ob_orders book') + {# ro #}" "rid ro = i" "rs_account_id ro = a"
    using take_drop_mset [OF x(1)] by simp_all
  show "book_ok book'" using cancel_keeps [OF assms(1), of a i] assms(2) by simp
qed

lemma remove_loop_mset:
  "remove_loop xs ros aggs = Some (ros', aggs', Ok removed) \<Longrightarrow> mset ros = mset ros' + mset (map fst removed)"
proof (induction xs arbitrary: ros aggs removed)
  case (Cons x xs)
  obtain i reason where x: "x = (i, reason)" by fastforce
  from Cons.prems x obtain aggs1 r where i: "i < length ros" and
    r: "release_reservations aggs (ros ! i) = (aggs1, r)"
    by (cases "release_reservations aggs (ros ! i)") (auto simp: opt remove_at_def split: if_splits)
  from Cons.prems x i r obtain r' where l: "remove_loop xs (take i ros @ drop (Suc i) ros) aggs1 = Some (ros', aggs', r')"
    "and_then r' (\<lambda>removed. Ok ((ros ! i, reason) # removed)) = Ok removed"
    by (cases r) (auto simp: opt idx_def remove_at_def)
  then obtain removed' where q: "r' = Ok removed'" "removed = (ros ! i, reason) # removed'" by (cases r') auto
  from Cons.IH [OF l(1) [unfolded q]] take_drop_mset [OF i] q(2) show ?case by simp
qed simp

lemma revalidate_leaves:
  assumes "book_ok book" "revalidate accounts active book = Some (book', Ok removed)"
  shows "mset (ob_orders book) = mset (ob_orders book') + mset (map fst removed)" "book_ok book'"
proof -
  from assms(2) obtain exits where e: "to_remove book accounts active = Some exits" by (auto simp: revalidate_def opt)
  with assms(2) obtain ros aggs where "remove_loop (rev exits) (ob_orders book) (aggregates book) = Some (ros, aggs, Ok removed)"
    "book' = with_book book ros aggs" by (auto simp: revalidate_def opt split: result.splits)
  from remove_loop_mset [OF this(1)] this(2) show "mset (ob_orders book) = mset (ob_orders book') + mset (map fst removed)" by simp
  show "book_ok book'" by (rule revalidate_parts(2) [OF assms])
qed

section \<open>The book between two commitments\<close>

text \<open>What the committed order may not leave the book for: the verifier must find the reason in the block.\<close>

definition explained :: "u64 \<Rightarrow> SystemEventWitness list \<Rightarrow> RestingOrder \<Rightarrow> bool" where
  "explained height events ro \<longleftrightarrow> rid ro \<in> set (collect cancelled_order events) \<or> rs_expires_at_block ro \<le> height \<or>
     list_ex (\<lambda>m. m \<in> set (collect resolved_market events)) (active_markets (rs_order ro))"

inductive evolves :: "u64 \<Rightarrow> SystemEventWitness list \<Rightarrow> OrderBook \<Rightarrow> OrderBook \<Rightarrow> bool" for height events start where
  start: "evolves height events start start"
| accept: "evolves height events start book \<Longrightarrow> order_wf ord \<Longrightarrow> o_id ord \<notin> set (ids start) \<union> set (ids book) \<Longrightarrow>
    accept book ord a account h ms = Some (book', Ok acc) \<Longrightarrow> evolves height events start book'"
| cancel: "evolves height events start book \<Longrightarrow> cancel a i book = (book', Ok ro) \<Longrightarrow>
    i \<in> set (collect cancelled_order events) \<or> i \<notin> set (ids start) \<Longrightarrow> evolves height events start book'"
| expire: "evolves height events start book \<Longrightarrow> expire height book = (book', Ok removed) \<Longrightarrow> evolves height events start book'"
| revalidate: "evolves height events start book \<Longrightarrow> revalidate accounts active book = Some (book', Ok evicted) \<Longrightarrow>
    \<forall>(ro, exit) \<in> set evicted. ro \<in> set (ob_orders start) \<longrightarrow> explained height events ro \<Longrightarrow> evolves height events start book'"

definition tracks :: "u64 \<Rightarrow> SystemEventWitness list \<Rightarrow> OrderBook \<Rightarrow> OrderBook \<Rightarrow> bool" where
  "tracks height events start book \<longleftrightarrow> book_ok book \<and> distinct (ids book) \<and>
     (\<forall>ro \<in> set (ob_orders start). ro \<in> set (ob_orders book) \<or> explained height events ro) \<and>
     (\<forall>ro \<in> set (ob_orders book). ro \<in> set (ob_orders start) \<or> rid ro \<notin> set (ids start))"

lemma tracks_leaves:
  assumes "tracks height events start book" "book_ok book'" "mset (ob_orders book) = mset (ob_orders book') + mset lost"
    and "\<forall>ro \<in> set lost. ro \<in> set (ob_orders start) \<longrightarrow> explained height events ro"
  shows "tracks height events start book'"
proof -
  have m: "mset (ob_orders book) = mset (ob_orders book' @ lost)" using assms(3) by simp
  then have "set (ob_orders book) = set (ob_orders book') \<union> set lost" by (metis mset_eq_setD set_append)
  moreover have "mset (ids book) = mset (ids book' @ map rid lost)" using arg_cong [OF m, of "image_mset rid"] by (simp add: ids_def)
  then have "distinct (ids book')" using assms(1) unfolding tracks_def by (metis distinct_append mset_eq_imp_distinct_iff)
  ultimately show ?thesis using assms(1,2,4) unfolding tracks_def by auto
qed

lemma evolves_tracks:
  assumes "evolves height events start book" "book_ok start" "distinct (ids start)"
  shows "tracks height events start book"
  using assms(1)
proof (induction rule: evolves.induct)
  case start
  show ?case using assms(2,3) by (auto simp: tracks_def)
next
  case (accept book ord a account h ms book' acc)
  then have ok: "book_ok book" by (simp add: tracks_def)
  from accept_parts [OF ok accept(2,4)] obtain ro where "rs_order ro = ord" "ob_orders book' = ob_orders book @ [ro]" by metis
  moreover have "book_ok book'" using accept_keeps [OF ok accept(2,4)] by blast
  ultimately show ?case using accept(3,5) by (auto simp: tracks_def ids_def)
next
  case (cancel book a i book' ro)
  then have ok: "book_ok book" by (simp add: tracks_def)
  have "explained height events ro" if "ro \<in> set (ob_orders start)"
    using cancel_leaves(2) [OF ok cancel(2)] cancel(3) that by (auto simp: explained_def ids_def)
  then show ?case using tracks_leaves [OF cancel(4) _ , of book' "[ro]"] cancel_leaves [OF ok cancel(2)] by simp
next
  case (expire book book' removed)
  then have ok: "book_ok book" by (simp add: tracks_def)
  have "explained height events ro" if "ro \<in> set removed" for ro
    using expire_leaves(2) [OF ok expire(2)] that by (simp add: explained_def less_imp_le)
  then show ?case using tracks_leaves [OF expire(3) _ , of book' removed] expire_leaves(1,3) [OF ok expire(2)] by blast
next
  case (revalidate book accounts active book' evicted)
  then have ok: "book_ok book" by (simp add: tracks_def)
  show ?case using tracks_leaves [OF revalidate(4) _ , of book' "map fst evicted"] revalidate_leaves [OF ok revalidate(2)] revalidate(3)
    by fastforce
qed

text \<open>Any run of operations on the book inside one block, whether or not the verifier finds their reasons: admissions of
  orders with fresh identifiers, cancellations, expiry and revalidations.\<close>

inductive operates :: "u64 \<Rightarrow> OrderBook \<Rightarrow> OrderBook \<Rightarrow> OrderBook \<Rightarrow> bool" for height start b where
  none: "operates height start b b"
| accept: "operates height start b book \<Longrightarrow> order_wf ord \<Longrightarrow> o_id ord \<notin> set (ids start) \<union> set (ids book) \<Longrightarrow>
    accept book ord a account h ms = Some (book', Ok acc) \<Longrightarrow> operates height start b book'"
| cancel: "operates height start b book \<Longrightarrow> cancel a i book = (book', Ok ro) \<Longrightarrow> operates height start b book'"
| expire: "operates height start b book \<Longrightarrow> expire height book = (book', Ok removed) \<Longrightarrow> operates height start b book'"
| revalidate: "operates height start b book \<Longrightarrow> revalidate accounts active book = Some (book', Ok evicted) \<Longrightarrow> operates height start b book'"

lemma ids_leave:
  assumes "mset (ob_orders book) = mset (ob_orders book') + mset lost" "distinct (ids book)"
  shows "distinct (ids book')" "set (ids book') \<subseteq> set (ids book)" "ro \<in> set lost \<Longrightarrow> rid ro \<notin> set (ids book')"
proof -
  have "mset (ids book) = mset (ids book' @ map rid lost)" using arg_cong [OF assms(1), of "image_mset rid"] by (simp add: ids_def)
  then have d: "distinct (ids book' @ map rid lost)" and s: "set (ids book) = set (ids book' @ map rid lost)"
    using assms(2) by (metis mset_eq_imp_distinct_iff, metis mset_eq_setD)
  then show "distinct (ids book')" "set (ids book') \<subseteq> set (ids book)" by auto
  show "rid ro \<notin> set (ids book')" if "ro \<in> set lost" using d that by (auto simp: disjoint_iff)
qed

lemma operates_keeps:
  assumes "operates height start b book" "book_ok b" "distinct (ids b)"
  shows "book_ok book \<and> distinct (ids book) \<and> set (ids book) \<inter> set (ids start) \<subseteq> set (ids b)"
  using assms(1)
proof (induction rule: operates.induct)
  case none
  show ?case using assms(2,3) by auto
next
  case (accept book ord a account h ms book' acc)
  then have ok: "book_ok book" by simp
  from accept_parts [OF ok accept(2,4)] obtain ro where "rs_order ro = ord" "ob_orders book' = ob_orders book @ [ro]" by metis
  moreover have "book_ok book'" using accept_keeps [OF ok accept(2,4)] by blast
  ultimately show ?case using accept(3,5) by (auto simp: ids_def)
next
  case (cancel book a i book' ro)
  then show ?case using cancel_leaves [of book a i book' ro] ids_leave [of book book' "[ro]"] by auto
next
  case (expire book book' removed)
  then show ?case using expire_leaves [of book height book' removed] ids_leave [of book book' removed] by blast
next
  case (revalidate book accounts active book' evicted)
  then show ?case using revalidate_leaves [of book accounts active book' evicted] ids_leave [of book book' "map fst evicted"] by blast
qed

section \<open>The leaves\<close>

lemma set_state_root_orders: "set (state_root_orders book) = resting_order_snapshot ` set (ob_orders book)"
  by (simp add: state_root_orders_def resting_order_snapshots_def)

lemma leaf_fields [simp]:
  "ro_order (resting_order_snapshot ro) = rs_order ro" "ro_account_id (resting_order_snapshot ro) = rs_account_id ro"
  "ro_created_at (resting_order_snapshot ro) = rs_created_at ro" "ro_expires_at_block (resting_order_snapshot ro) = rs_expires_at_block ro"
  "ro_reserved_balance (resting_order_snapshot ro) = rs_reserved_balance ro"
  by (simp_all add: resting_order_snapshot_def)

definition leaf_table :: "OrderBook \<Rightarrow> (u64, RestingOrderSnapshot) omap" where
  "leaf_table book = om_of_list (map (\<lambda>s. (o_id (ro_order s), s)) (state_root_orders book))"

lemma distinct_leaf_ids:
  "distinct (ids book) \<Longrightarrow> distinct (map (\<lambda>s. o_id (ro_order s)) (state_root_orders book))"
proof -
  have "mset (map (\<lambda>s. o_id (ro_order s)) (state_root_orders book)) = mset (ids book)"
    by (simp add: state_root_orders_def resting_order_snapshots_def ids_def image_mset.compositionality comp_def)
  then show "distinct (ids book) \<Longrightarrow> ?thesis" by (metis mset_eq_imp_distinct_iff)
qed

lemma keyed_leaves:
  assumes "distinct (ids book)"
  shows "keyed_resting_orders (state_root_orders book) = (leaf_table book, [])"
    and "lookup (leaf_table book) i = Some s \<longleftrightarrow> (\<exists>ro \<in> set (ob_orders book). rid ro = i \<and> s = resting_order_snapshot ro)"
proof -
  note d = distinct_leaf_ids [OF assms]
  show "keyed_resting_orders (state_root_orders book) = (leaf_table book, [])"
    using d by (simp add: keyed_resting_orders_def keyed_clean leaf_table_def)
  have "lookup (leaf_table book) i = Some s \<longleftrightarrow> (i, s) \<in> set (map (\<lambda>s. (o_id (ro_order s), s)) (state_root_orders book))"
    unfolding leaf_table_def using d by (simp add: lookup_om_of_list_distinct comp_def del: set_map)
  then show "lookup (leaf_table book) i = Some s \<longleftrightarrow> (\<exists>ro \<in> set (ob_orders book). rid ro = i \<and> s = resting_order_snapshot ro)"
    by (auto simp: set_state_root_orders image_iff)
qed

lemma keyed_leaves_None:
  assumes "distinct (ids book)"
  shows "lookup (leaf_table book) i = None \<longleftrightarrow> i \<notin> set (ids book)"
  using keyed_leaves(2) [OF assms, of i] by (cases "lookup (leaf_table book) i") (auto simp: ids_def)

lemma ratio_scale: "d \<noteq> 0 \<Longrightarrow> ratio x n d = scale x n d"
  by (simp add: ratio_def scale_def ceil_mul_ratio_eq)

text \<open>The expected post leaf of the verifier is the leaf of the remainder the book keeps.\<close>

lemma expected_leaf:
  assumes "resting_ok ro"
  shows "expected_post_resting (resting_order_snapshot ro) filled height =
    (if o_max_fill (rs_order ro) \<le> filled \<or> rs_expires_at_block ro \<le> height then None
     else Some (resting_order_snapshot (if filled = 0 then ro else remainder ro filled)))"
proof -
  from assms obtain d where "resting_for d ro" by (auto simp: resting_ok_def)
  then have "\<exists>k q. rs_reserved_positions ro = [] \<or> rs_reserved_positions ro = [(k, q)]"
    by (auto simp: resting_for_def Let_def)
  moreover have "o_max_fill (rs_order ro) \<noteq> 0" if "\<not> o_max_fill (rs_order ro) \<le> filled" using that by auto
  ultimately show ?thesis
    by (auto simp: expected_post_resting_def resting_order_snapshot_def remainder_def Let_def ratio_scale)
qed

lemma kept_fate:
  assumes "ro' \<in> set (kept (fate fq mm height ro))"
  shows "rid ro' = rid ro" "rid ro \<notin> mm"
    "resting_order_snapshot ro' = resting_order_snapshot (if get_or fq (rid ro) 0 = 0 then ro else remainder ro (get_or fq (rid ro) 0))"
    "get_or fq (rid ro) 0 < o_max_fill (rs_order ro)" "height < rs_expires_at_block ro"
  using assms by (auto simp: fate_def remainder_def Let_def not_le resting_order_snapshot_def word_neq_0_conv [symmetric] split: if_splits)

lemma lost_fate:
  assumes "kept (fate fq mm height ro) = []" "rid ro \<notin> mm"
  shows "o_max_fill (rs_order ro) \<le> get_or fq (rid ro) 0 \<or> rs_expires_at_block ro \<le> height"
  using assms by (auto simp: fate_def Let_def split: if_splits)

lemma fate_same_leaf:
  "kept (fate fq mm height ro) = [] \<or> (\<exists>ro'. kept (fate fq mm height ro) = [ro'] \<and> rid ro' = rid ro)"
  by (auto simp: fate_def remainder_def Let_def)

section \<open>Filled quantities\<close>

lemma fill_qty_fold:
  assumes "\<And>i. uint (get_or m i 0) + filled_of fills i \<le> 18446744073709551615"
  shows "\<exists>m'. fold (\<lambda>fill (out, vs). let entry = get_or out (f_order_id fill) 0
       in case add_u64 entry (f_fill_qty fill) of
            Some qty \<Rightarrow> (om_ins (f_order_id fill) qty out, vs)
          | None \<Rightarrow> (om_ins (f_order_id fill) entry out, vs @ [SettlementOverflow])) fills (m, vs) = (m', vs) \<and>
     (\<forall>i. uint (get_or m' i 0) = uint (get_or m i 0) + filled_of fills i)"
  using assms
proof (induction fills arbitrary: m)
  case (Cons f fills)
  let ?i = "f_order_id f" and ?q = "f_fill_qty f"
  have rest: "0 \<le> filled_of fills i" for i unfolding filled_of_def by (rule sum_list_nonneg) auto
  have fof: "filled_of (f # fills) i = (if i = ?i then uint ?q else 0) + filled_of fills i" for i by (simp add: filled_of_def)
  have "uint (get_or m ?i 0) + uint ?q \<le> 18446744073709551615" using Cons.prems [of ?i] rest [of ?i] by (simp add: fof)
  then have "fits_u64 (uint (get_or m ?i 0) + uint ?q)" using uint_bounds(1) [of "get_or m ?i 0"] uint_bounds(1) [of ?q]
    unfolding fits_u64_def by linarith
  then obtain v where v0: "add_u64 (get_or m ?i 0) ?q = Some v" by (auto simp: add_u64_def u64_of_def)
  then have v: "uint v = uint (get_or m ?i 0) + uint ?q" by (simp add: add_u64_def u64_of_eq_Some)
  have "uint (get_or (om_ins ?i v m) i 0) + filled_of fills i \<le> 18446744073709551615" for i
    using Cons.prems [of i] by (auto simp: fof v)
  from Cons.IH [OF this] v0 v show ?case by (auto simp: fof)
qed (simp add: filled_of_def)

lemma fill_maps_agree:
  assumes "sum_list (map (\<lambda>f. uint (f_fill_qty f)) fills) \<le> 18446744073709551615"
  obtains fq m where "filled_quantities fills = Some fq" "fill_qty_by_order fills = (m, [])" "\<And>i. get_or m i 0 = get_or fq i 0"
proof -
  have le: "uint (get_or om_empty i 0 :: u64) + filled_of fills i \<le> 18446744073709551615" for i
    using filled_of_le [of fills i] assms by simp
  from filled_quantities_fold [OF le] obtain fq where fq: "filled_quantities fills = Some fq" "\<forall>i. uint (get_or fq i 0) = filled_of fills i"
    by (auto simp: filled_quantities_def)
  from fill_qty_fold [OF le, of "[]"] obtain m where m: "fill_qty_by_order fills = (m, [])" "\<forall>i. uint (get_or m i 0) = filled_of fills i"
    by (auto simp: fill_qty_by_order_def)
  have "get_or m i 0 = get_or fq i 0" for i using fq(2) m(2) by (simp add: word_uint_eq_iff)
  with fq m that show ?thesis by blast
qed

section \<open>The transition\<close>

lemma distinct_kept:
  "distinct (map rid ros) \<Longrightarrow> distinct (map rid (concat (map (\<lambda>ro. kept (fate fq mm height ro)) ros))) \<and>
     rid ` set (concat (map (\<lambda>ro. kept (fate fq mm height ro)) ros)) \<subseteq> rid ` set ros"
proof (induction ros)
  case (Cons ro ros)
  from fate_same_leaf [of fq mm height ro] Cons show ?case by (auto dest!: kept_fate(1)) (metis image_eqI)+
qed simp

lemma leaf_equal [simp]: "resting_orders_equal s s"
  by (simp add: resting_orders_equal_def orders_equal_def order_shape_matches_except_qty_def)

text \<open>The two checks of the transition, for one order.\<close>

lemma pre_order_passes:
  assumes tr: "tracks height events start book" "distinct (ids start)" and ro: "ro \<in> set (ob_orders start)"
    and final: "ob_orders final = concat (map (\<lambda>ro. kept (fate fq mm height ro)) (ob_orders book))" "distinct (ids final)"
    and mm: "\<forall>ro \<in> set (ob_orders book). rid ro \<notin> mm" and fills: "\<And>i. get_or m i 0 = get_or fq i 0"
  shows "check_pre_order height (leaf_table final) m (collect cancelled_order events) (collect resolved_market events)
      (rid ro, resting_order_snapshot ro) = []"
proof (cases "lookup (leaf_table final) (rid ro)")
  case (Some post)
  then obtain ro1 where ro1: "ro1 \<in> set (ob_orders final)" "rid ro1 = rid ro" "post = resting_order_snapshot ro1"
    using keyed_leaves(2) [OF final(2)] by auto
  then obtain ro0 where ro0: "ro0 \<in> set (ob_orders book)" "ro1 \<in> set (kept (fate fq mm height ro0))" by (auto simp: final(1))
  note k = kept_fate [OF ro0(2)]
  have "rid ro0 = rid ro" using k(1) ro1(2) by simp
  moreover have "ro0 \<in> set (ob_orders start)" using tr(1) ro0(1) ro calculation by (auto simp: tracks_def ids_def)
  ultimately have "ro0 = ro" using tr(2) ro by (metis distinct_map ids_def inj_onD)
  moreover have "resting_ok ro" using book_okD(2) tr(1) ro0(1) calculation by (auto simp: tracks_def)
  ultimately show ?thesis
    using Some ro1(3) k(3-5) by (simp add: check_pre_order_def expected_leaf fills not_le)
next
  case None
  then have gone: "rid ro \<notin> set (ids final)" using keyed_leaves_None [OF final(2)] by simp
  have "explained height events ro \<or> o_max_fill (rs_order ro) \<le> get_or fq (rid ro) 0"
  proof (cases "ro \<in> set (ob_orders book)")
    case True
    have "rid ro' \<in> set (ids final)" if "kept (fate fq mm height ro) = [ro']" for ro'
    proof -
      have "ro' \<in> set (ob_orders final)" using that True by (auto simp: final(1) intro!: bexI [of _ ro])
      then show ?thesis by (simp add: ids_def)
    qed
    with gone have "kept (fate fq mm height ro) = []" using fate_same_leaf [of fq mm height ro] by metis
    from lost_fate [OF this] mm True show ?thesis by (auto simp: explained_def)
  next
    case False
    then show ?thesis using tr(1) ro by (auto simp: tracks_def)
  qed
  with None show ?thesis by (auto simp: check_pre_order_def explained_def fills)
qed

lemma post_order_passes:
  assumes tr: "tracks height events start book" "distinct (ids start)" and post: "lookup (leaf_table final) i = Some post"
    and final: "ob_orders final = concat (map (\<lambda>ro. kept (fate fq mm height ro)) (ob_orders book))" "distinct (ids final)"
    and w: "distinct (map (\<lambda>wo. o_id (wo_order wo)) orders)"
      "\<forall>ro \<in> set (ob_orders book). \<lparr> wo_order = rs_order ro, wo_account_id = rs_account_id ro, wo_is_mm = False \<rparr> \<in> set orders"
  shows "check_post_order (leaf_table start) (om_of_list (map (\<lambda>wo. (o_id (wo_order wo), wo)) orders)) (i, post) = []"
proof -
  from post obtain ro1 where ro1: "ro1 \<in> set (ob_orders final)" "rid ro1 = i" "post = resting_order_snapshot ro1"
    using keyed_leaves(2) [OF final(2)] by auto
  then obtain ro where ro: "ro \<in> set (ob_orders book)" "ro1 \<in> set (kept (fate fq mm height ro))" by (auto simp: final(1))
  let ?wo = "\<lparr> wo_order = rs_order ro, wo_account_id = rs_account_id ro, wo_is_mm = False \<rparr>"
  have "lookup (om_of_list (map (\<lambda>wo. (o_id (wo_order wo), wo)) orders)) i = Some ?wo"
    using w ro kept_fate(1) [OF ro(2)] ro1(2) by (force simp: lookup_om_of_list_distinct comp_def)
  moreover have "rs_account_id ro1 = rs_account_id ro" "order_shape_matches_except_qty (rs_order ro1) (rs_order ro)"
    using ro(2) by (auto simp: fate_def remainder_def Let_def order_shape_matches_except_qty_def split: if_splits)
  ultimately show ?thesis by (simp add: check_post_order_def ro1(3))
qed

section \<open>The reservation leaves\<close>

text \<open>A rollup in which no account is zero and no position entry is zero is determined by its amounts.\<close>

definition no_zero :: "ReservationTotals \<Rightarrow> bool" where
  "no_zero t \<longleftrightarrow> (\<forall>m b. lookup (rt_reserved_positions t) (m, b) \<noteq> Some 0)"

definition canonical :: "Rollup \<Rightarrow> bool" where
  "canonical m \<longleftrightarrow> (\<forall>a t. lookup m a = Some t \<longrightarrow> no_zero t \<and> \<not> rt_is_zero t)"

lemma no_zero_lookup: "no_zero t \<Longrightarrow> lookup (rt_reserved_positions t) key = (if rt_position t key = 0 then None else Some (of_val (rt_position t key)))"
proof (cases key)
  case (Pair m b)
  assume "no_zero t"
  then have "lookup (rt_reserved_positions t) key \<noteq> Some 0" by (simp add: no_zero_def Pair)
  then show ?thesis by (auto simp: rt_position_def get_or_def val_eq_iff split: option.splits)
qed

lemma canonical_absent: "canonical m \<Longrightarrow> lookup m a = None \<longleftrightarrow> rt_is_zero (get_or m a totals_default)"
proof (cases "lookup m a")
  case (Some t)
  assume "canonical m"
  with Some have "\<not> rt_is_zero t" by (simp add: canonical_def)
  with Some show ?thesis by (simp add: get_or_def)
qed (simp add: get_or_def rt_is_zero_def totals_default_def)

lemma canonical_no_zero: "canonical m \<Longrightarrow> no_zero (get_or m a totals_default)"
proof (cases "lookup m a")
  case (Some t)
  assume "canonical m"
  with Some have "no_zero t" by (simp add: canonical_def)
  with Some show ?thesis by (simp add: get_or_def)
qed (simp add: get_or_def no_zero_def totals_default_def)

lemma rollup_ext:
  assumes "canonical m" "canonical m'" "\<And>a. balance_of m a = balance_of m' a" "\<And>a key. position_of m a key = position_of m' a key"
  shows "m = m'"
proof (rule omap_eqI)
  fix a
  let ?t = "get_or m a totals_default" and ?t' = "get_or m' a totals_default"
  note nz = canonical_no_zero [OF assms(1), of a] canonical_no_zero [OF assms(2), of a]
  have "rt_reserved_balance ?t = rt_reserved_balance ?t'" using assms(3) [of a] by (simp add: balance_of_def val_eq_iff)
  moreover have "rt_reserved_positions ?t = rt_reserved_positions ?t'"
    using assms(4) [of a] by (intro omap_eqI) (simp add: no_zero_lookup nz position_of_def)
  ultimately have "?t = ?t'" by simp
  with canonical_absent [OF assms(1), of a] canonical_absent [OF assms(2), of a]
  show "lookup m a = lookup m' a" by (cases "lookup m a"; cases "lookup m' a") (simp_all add: get_or_def)
qed

lemma add_position_no_zero: "rt_add_position m b q t = Some t' \<Longrightarrow> no_zero t \<Longrightarrow> no_zero t'"
proof -
  assume a: "rt_add_position m b q t = Some t'" and z: "no_zero t"
  show "no_zero t'"
  proof (cases "q = 0")
    case False
    with a obtain e where "t' = t\<lparr> rt_reserved_positions := (if e = 0 then om_del (m, b) (rt_reserved_positions t)
        else om_ins (m, b) e (rt_reserved_positions t)) \<rparr>" by (auto simp: rt_add_position_def opt)
    with z show ?thesis by (auto simp: no_zero_def)
  qed (use a z in \<open>simp add: rt_add_position_def\<close>)
qed

lemma add_positions_no_zero: "rt_add_positions ps t = Some t' \<Longrightarrow> no_zero t \<Longrightarrow> no_zero t'"
proof (induction ps arbitrary: t)
  case (Cons p ps)
  obtain m b q where p: "p = (m, b, q)" by (cases p) auto
  with Cons.prems obtain u where u: "rt_add_position m b q t = Some u" "rt_add_positions ps u = Some t'"
    by (auto simp: rt_add_positions_def opt)
  from Cons.IH [OF u(2)] add_position_no_zero [OF u(1)] Cons.prems(2) show ?case by blast
qed (simp add: rt_add_positions_def)

lemma contributes_nonneg: "\<forall>(m, b, q) \<in> set ps. 0 \<le> val q \<Longrightarrow> 0 \<le> contributes ps key"
  by (induction ps) auto

lemma add_positions_succeed:
  assumes "\<forall>(m, b, q) \<in> set ps. 0 \<le> val q" "\<And>key. 0 \<le> rt_position t key"
    and "\<And>key. rt_position t key + contributes ps key \<le> 9223372036854775807"
  shows "\<exists>t'. rt_add_positions ps t = Some t'"
  using assms
proof (induction ps arbitrary: t)
  case (Cons p ps)
  obtain m b q where p: "p = (m, b, q)" by (cases p) auto
  have q: "0 \<le> val q" "\<forall>(m, b, q) \<in> set ps. 0 \<le> val q" using Cons.prems(1) p by auto
  have "fits_i64 (val (get_or (rt_reserved_positions t) (m, b) 0) + val q)"
    using Cons.prems(2) [of "(m, b)"] Cons.prems(3) [of "(m, b)"] q(1) contributes_nonneg [OF q(2), of "(m, b)"]
    by (simp add: p rt_position_def fits_i64_def)
  then obtain u where u: "rt_add_position m b q t = Some u"
    by (cases "q = 0") (auto simp: rt_add_position_def add_i64_def i64_of_def opt)
  note u' = add_position_meaning(2) [OF u]
  have "\<exists>t'. rt_add_positions ps u = Some t'"
    using Cons.prems(2,3) q by (intro Cons.IH) (auto simp: u' p add.assoc intro: add_nonneg_nonneg)
  with u show ?case by (simp add: p rt_add_positions_def)
qed (simp add: rt_add_positions_def)

definition snapshot_ok :: "RestingOrderSnapshot \<Rightarrow> bool" where
  "snapshot_ok r \<longleftrightarrow> 0 \<le> val (ro_reserved_balance r) \<and> (\<forall>(m, b, q) \<in> set (ro_reserved_positions r). 0 \<le> val q)"

lemma order_totals_nonneg:
  "\<forall>r \<in> set rs. snapshot_ok r \<Longrightarrow> 0 \<le> order_balance a rs" "\<forall>r \<in> set rs. snapshot_ok r \<Longrightarrow> 0 \<le> order_position a key rs"
  by (induction rs) (auto simp: order_balance_def order_position_def snapshot_ok_def contributes_nonneg)

lemma rollup_succeeds:
  assumes "\<forall>r \<in> set rs. snapshot_ok r" "distinct (map (\<lambda>r. o_id (ro_order r)) rs)" "\<forall>r \<in> set rs. o_id (ro_order r) \<notin> set seen"
    and "\<And>a. 0 \<le> balance_of m a" "\<And>a key. 0 \<le> position_of m a key"
    and "\<And>a. balance_of m a + order_balance a rs \<le> 9223372036854775807"
    and "\<And>a key. position_of m a key + order_position a key rs \<le> 9223372036854775807"
    and "\<And>a. no_zero (get_or m a totals_default)"
  shows "\<exists>m' seen'. fold_opt rollup_step rs (m, seen) = Some (m', seen') \<and> (\<forall>a. no_zero (get_or m' a totals_default))"
  using assms
proof (induction rs arbitrary: m seen)
  case (Cons r rs)
  let ?a = "ro_account_id r" and ?b = "ro_reserved_balance r" and ?ps = "ro_reserved_positions r"
  let ?t = "get_or m ?a totals_default"
  have ok: "0 \<le> val ?b" "\<forall>(m, b, q) \<in> set ?ps. 0 \<le> val q" "\<forall>r \<in> set rs. snapshot_ok r"
    using Cons.prems(1) by (auto simp: snapshot_ok_def)
  note nn = order_totals_nonneg [OF ok(3)]
  have "fits_i64 (val (rt_reserved_balance ?t) + val ?b)"
    using Cons.prems(4) [of ?a] Cons.prems(6) [of ?a] nn(1) [of ?a] ok(1)
    by (simp add: balance_of_def order_balance_def fits_i64_def)
  then obtain t where t: "rt_add_balance ?b ?t = Some t" by (auto simp: rt_add_balance_def add_i64_def i64_of_def opt)
  then have t': "rt_reserved_positions t = rt_reserved_positions ?t" "val (rt_reserved_balance t) = val (rt_reserved_balance ?t) + val ?b"
    by (auto simp: rt_add_balance_def num)
  have pos: "rt_position t key = position_of m ?a key" for key by (simp add: rt_position_def t' position_of_def)
  have "\<exists>u. rt_add_positions ?ps t = Some u"
  proof (rule add_positions_succeed [OF ok(2)])
    fix key
    show "0 \<le> rt_position t key" "rt_position t key + contributes ?ps key \<le> 9223372036854775807"
      using Cons.prems(5) [of ?a key] Cons.prems(7) [of ?a key] nn(2) [of ?a key] by (simp_all add: pos order_position_def)
  qed
  then obtain u where u: "rt_add_positions ?ps t = Some u" ..
  have u': "rt_reserved_balance u = rt_reserved_balance t" "\<And>key. rt_position u key = position_of m ?a key + contributes ?ps key"
    using add_positions_meaning [OF u] by (simp_all add: pos)
  have nz: "no_zero u" using add_positions_no_zero [OF u] Cons.prems(8) [of ?a] by (simp add: no_zero_def t')
  let ?m = "om_ins ?a u m" and ?seen = "o_id (ro_order r) # seen"
  have bal: "balance_of ?m a = balance_of m a + (if ?a = a then val ?b else 0)" for a by (simp add: balance_of_def u' t')
  have posm: "position_of ?m a key = position_of m a key + (if ?a = a then contributes ?ps key else 0)" for a key
    using u'(2) by (simp add: position_of_def)
  have "\<exists>m' seen'. fold_opt rollup_step rs (?m, ?seen) = Some (m', seen') \<and> (\<forall>a. no_zero (get_or m' a totals_default))"
  proof (rule Cons.IH [OF ok(3)])
    show "distinct (map (\<lambda>r. o_id (ro_order r)) rs)" using Cons.prems(2) by simp
    show "\<forall>r \<in> set rs. o_id (ro_order r) \<notin> set ?seen" using Cons.prems(2,3) by (auto simp: image_iff)
    show "0 \<le> balance_of ?m a" for a using Cons.prems(4) [of a] ok(1) by (simp add: bal)
    show "0 \<le> position_of ?m a key" for a key using Cons.prems(5) [of a key] contributes_nonneg [OF ok(2), of key] by (simp add: posm)
    show "balance_of ?m a + order_balance a rs \<le> 9223372036854775807" for a
      using Cons.prems(6) [of a] by (simp add: bal order_balance_def)
    show "position_of ?m a key + order_position a key rs \<le> 9223372036854775807" for a key
      using Cons.prems(7) [of a key] by (simp add: posm order_position_def split: if_splits)
    show "no_zero (get_or ?m a totals_default)" for a using Cons.prems(8) [of a] nz by simp
  qed
  moreover have "rollup_step r (m, seen) = Some (?m, ?seen)" using Cons.prems(3) t u by (simp add: rollup_step_def opt)
  ultimately show ?case by simp
qed simp

lemma claimed_succeeds:
  assumes "\<forall>r \<in> set rs. (\<forall>(m, b, q) \<in> set (ar_reserved_positions r). 0 \<le> val q) \<and>
      (\<forall>key. contributes (ar_reserved_positions r) key \<le> 9223372036854775807)"
    and "distinct (map ar_account_id rs)" "\<forall>r \<in> set rs. lookup m (ar_account_id r) = None" "canonical m"
  shows "\<exists>m'. claimed_rollup rs m = Ok m' \<and> canonical m'"
  using assms
proof (induction rs arbitrary: m)
  case (Cons r rs)
  let ?t = "\<lparr> rt_reserved_balance = ar_reserved_balance r, rt_reserved_positions = om_empty \<rparr>"
  have "\<exists>u. rt_add_positions (ar_reserved_positions r) ?t = Some u"
    using Cons.prems(1) by (intro add_positions_succeed) (auto simp: rt_position_def)
  then obtain u where u: "rt_add_positions (ar_reserved_positions r) ?t = Some u" ..
  have nz: "no_zero u" using add_positions_no_zero [OF u] by (simp add: no_zero_def)
  let ?m = "if rt_is_zero u then m else om_ins (ar_account_id r) u m"
  have "canonical ?m" using Cons.prems(4) nz by (auto simp: canonical_def)
  moreover have "lookup ?m (ar_account_id s) = None" if "s \<in> set rs" for s
    using Cons.prems(2,3) that by (auto simp: image_iff)
  ultimately have "\<exists>m'. claimed_rollup rs ?m = Ok m' \<and> canonical m'"
    using Cons.prems(1,2) by (intro Cons.IH) auto
  moreover have "lookup m (ar_account_id r) = None" using Cons.prems(3) by simp
  ultimately show ?case by (simp add: u)
qed simp

lemma snapshot_contributes: "contributes (ro_reserved_positions (resting_order_snapshot ro)) key = qty_of key (rs_reserved_positions ro)"
  by (simp add: resting_order_snapshot_def contributes_def sum_list_sort_key qty_of_def comp_def case_prod_unfold cong: if_cong)

lemma snapshot_totals:
  "order_balance a (state_root_orders book) = held a (ob_orders book)"
  "order_position a key (state_root_orders book) = held_position a key (ob_orders book)"
  by (simp_all add: order_balance_def order_position_def state_root_orders_def resting_order_snapshots_def sum_list_sort_key
      comp_def snapshot_contributes held_def held_position_def cong: if_cong)

lemma snapshot_okI: "nonneg ro \<Longrightarrow> snapshot_ok (resting_order_snapshot ro)"
  by (auto simp: snapshot_ok_def nonneg_def resting_order_snapshot_def)

lemma leaf_shape:
  assumes "leaf \<in> set (reservation_snapshots_from_aggregates b p)" "\<And>k. 0 \<le> val (get_or p k 0)"
  shows "\<forall>(m, o', q) \<in> set (ar_reserved_positions leaf). 0 \<le> val q"
    "contributes (ar_reserved_positions leaf) key = val (get_or p (ar_account_id leaf, key) 0)"
proof -
  let ?sort = "\<lambda>leaf. leaf\<lparr> ar_reserved_positions := sort_key (\<lambda>(market, outcome, qty). (market, outcome)) (ar_reserved_positions leaf) \<rparr>"
  from assms(1) obtain l a where l: "leaf = ?sort l" "lookup (leaves_by_account b p) a = Some l"
    by (auto simp: leaves_nonzero om_values_def)
  from l(2) have a: "ar_account_id l = a" "ar_reserved_positions l = account_positions a (nonzero p)"
    by (auto simp: leaves_lookup split: if_splits)
  have "0 \<le> val q" if "((c, m, o'), q) \<in> set (nonzero p)" for c m o' q
    using assms(2) [of "(c, m, o')"] map_of_nonzero [of p "(c, m, o')"] map_of_is_SomeI [OF distinct_nonzero that] by (simp split: if_splits)
  then show "\<forall>(m, o', q) \<in> set (ar_reserved_positions leaf). 0 \<le> val q"
    by (auto simp: l(1) a account_positions_def)
  show "contributes (ar_reserved_positions leaf) key = val (get_or p (ar_account_id leaf, key) 0)"
    using account_positions_sum [of key a p] by (simp add: l(1) a contributes_def sum_list_sort_key)
qed

lemma distinct_leaf_accounts: "distinct (map ar_account_id (reservation_snapshots_from_aggregates b p))"
proof -
  let ?m = "leaves_by_account b p"
  have "ar_account_id leaf = a" if "(a, leaf) \<in> set (entries ?m)" for a leaf
    using that by (auto simp: leaves_lookup split: if_splits)
  then have "map ar_account_id (om_values ?m) = map fst (entries ?m)" by (auto simp: om_values_def)
  then show ?thesis using distinct_keys(1) [of ?m] by (simp add: leaves_nonzero comp_def)
qed

lemma retained_canonical: "(\<And>a. no_zero (get_or m a totals_default)) \<Longrightarrow> canonical (om_retain (\<lambda>t. \<not> rt_is_zero t) m)"
proof -
  assume z: "\<And>a. no_zero (get_or m a totals_default)"
  have "no_zero t \<and> \<not> rt_is_zero t" if "lookup (om_retain (\<lambda>t. \<not> rt_is_zero t) m) a = Some t" for a t
    using that z [of a] by (auto simp: lookup_retain get_or_def split: option.splits if_splits)
  then show ?thesis by (simp add: canonical_def)
qed

text \<open>The committed reservation leaves of a book are the rollup of its committed orders.\<close>

lemma book_reservations_pass:
  assumes "book_ok book" "distinct (ids book)"
  shows "verify_resting_order_reservations (state_root_orders book) (state_root_reservations book) = []"
proof -
  let ?b = "ob_balance_reservations book" and ?p = "ob_position_reservations book"
  let ?R = "state_root_orders book" and ?L = "state_root_reservations book"
  note nn = book_okD(3) [OF assms(1)]
  have tot: "val (get_or ?b a 0) = held a (ob_orders book)" "val (get_or ?p (a, key) 0) = held_position a key (ob_orders book)" for a key
    using book_okD(1) [OF assms(1)] by (cases key; simp add: total_for_def aggregates_def)+
  have z: "balance_of om_empty a = 0" "position_of om_empty a key = 0" "no_zero (get_or om_empty a totals_default)" for a key
    by (simp_all add: balance_of_def position_of_def no_zero_def rt_position_def get_or_def totals_default_def)
  have "\<exists>m' seen'. fold_opt rollup_step ?R (om_empty, []) = Some (m', seen') \<and> (\<forall>a. no_zero (get_or m' a totals_default))"
  proof (rule rollup_succeeds)
    show "\<forall>r \<in> set ?R. snapshot_ok r" using nn snapshot_okI by (auto simp: set_state_root_orders)
    show "balance_of om_empty a + order_balance a ?R \<le> 9223372036854775807" for a
      using val_bounds(2) [of "get_or ?b a 0"] by (simp add: z snapshot_totals tot)
    show "position_of om_empty a key + order_position a key ?R \<le> 9223372036854775807" for a key
      using val_bounds(2) [of "get_or ?p (a, key) 0"] by (simp add: z snapshot_totals tot)
  qed (use distinct_leaf_ids [OF assms(2)] z in simp_all)
  then obtain m seen where m: "fold_opt rollup_step ?R (om_empty, []) = Some (m, seen)" "\<And>a. no_zero (get_or m a totals_default)" by blast
  let ?e = "om_retain (\<lambda>t. \<not> rt_is_zero t) m"
  have p0: "0 \<le> val (get_or ?p k 0)" for k using held_position_nonneg [OF nn] tot(2) by (cases k) simp
  have "\<exists>c. claimed_rollup ?L om_empty = Ok c \<and> canonical c"
  proof (rule claimed_succeeds)
    show "\<forall>r \<in> set ?L. (\<forall>(m, b, q) \<in> set (ar_reserved_positions r). 0 \<le> val q) \<and>
      (\<forall>key. contributes (ar_reserved_positions r) key \<le> 9223372036854775807)"
    proof
      fix r assume r: "r \<in> set ?L"
      note s = leaf_shape [OF r [unfolded state_root_reservations_def] p0]
      show "(\<forall>(m, b, q) \<in> set (ar_reserved_positions r). 0 \<le> val q) \<and> (\<forall>key. contributes (ar_reserved_positions r) key \<le> 9223372036854775807)"
        using s(1) val_bounds(2) by (simp add: s(2))
    qed
    show "distinct (map ar_account_id ?L)" unfolding state_root_reservations_def by (rule distinct_leaf_accounts)
  qed (simp_all add: canonical_def)
  then obtain c where c: "claimed_rollup ?L om_empty = Ok c" "canonical c" by blast
  have leaf: "leaf_balance a ?L = held a (ob_orders book)" "leaf_position a key ?L = held_position a key (ob_orders book)" for a key
    using leaf_totals(1) [of a ?b ?p] leaf_totals(2) [of a key ?b ?p]
    by (simp_all add: leaf_balance_def leaf_position_def contributes_def state_root_reservations_def tot cong: if_cong)
  have "?e = c"
  proof (rule rollup_ext [OF retained_canonical [OF m(2)] c(2)])
    show "balance_of ?e a = balance_of c a" for a
      using rollup_meaning [OF m(1), of a "(0, 0)"] claimed_meaning [OF c(1), of a "(0, 0)"] by (simp add: retained_meaning z snapshot_totals leaf)
    show "position_of ?e a key = position_of c a key" for a key
      using rollup_meaning [OF m(1), of a key] claimed_meaning [OF c(1), of a key] by (simp add: retained_meaning z snapshot_totals leaf)
  qed
  then show ?thesis using m(1) c(1)
    by (simp add: verify_resting_order_reservations_def reservations_from_resting_orders_def reservations_from_account_snapshots_def)
qed

section \<open>The block\<close>

text \<open>A witness of the block commits the book it starts from and the book it ends with, and lists the orders that were solved.\<close>

definition commits :: "BlockWitness \<Rightarrow> OrderBook \<Rightarrow> OrderBook \<Rightarrow> OrderBook \<Rightarrow> bool" where
  "commits w start book final \<longleftrightarrow> bw_previous_header w \<noteq> None \<and>
     sc_resting_orders (bw_pre_state_sidecar w) = state_root_orders start \<and>
     sc_account_reservations (bw_pre_state_sidecar w) = state_root_reservations start \<and>
     sc_resting_orders (bw_state_sidecar w) = state_root_orders final \<and>
     sc_account_reservations (bw_state_sidecar w) = state_root_reservations final \<and>
     distinct (map (\<lambda>wo. o_id (wo_order wo)) (bw_orders w)) \<and>
     (\<forall>ro \<in> set (ob_orders book). \<lparr> wo_order = rs_order ro, wo_account_id = rs_account_id ro, wo_is_mm = False \<rparr> \<in> set (bw_orders w))"

definition mm_orders :: "BlockWitness \<Rightarrow> u64 set" where
  "mm_orders w = (\<lambda>wo. o_id (wo_order wo)) ` {wo \<in> set (bw_orders w). wo_is_mm wo}"

lemma book_orders_not_mm:
  assumes "commits w start book final" "ro \<in> set (ob_orders book)"
  shows "rid ro \<notin> mm_orders w"
proof
  assume "rid ro \<in> mm_orders w"
  then obtain wo where wo: "wo \<in> set (bw_orders w)" "wo_is_mm wo" "o_id (wo_order wo) = rid ro" by (auto simp: mm_orders_def)
  let ?wo = "\<lparr> wo_order = rs_order ro, wo_account_id = rs_account_id ro, wo_is_mm = False \<rparr>"
  have "?wo \<in> set (bw_orders w)" "inj_on (\<lambda>wo. o_id (wo_order wo)) (set (bw_orders w))"
    using assms by (auto simp: commits_def distinct_map)
  from inj_onD [OF this(2) _ wo(1) this(1)] wo(3) have "wo = ?wo" by simp
  with wo(2) show False by simp
qed

lemma settle_succeeds:
  assumes "book_ok book" "sum_list (map (\<lambda>f. uint (f_fill_qty f)) fills) \<le> 18446744073709551615"
  shows "\<exists>final removed. book_settle fills mm height book = Some (final, Ok removed)"
proof -
  from fill_maps_agree [OF assms(2)] obtain fq m where "filled_quantities fills = Some fq" by blast
  from settle_parts [OF assms(1) this] show ?thesis by blast
qed

lemma leaf_entries:
  "distinct (ids book) \<Longrightarrow> x \<in> set (entries (leaf_table book)) \<longleftrightarrow> (\<exists>ro \<in> set (ob_orders book). x = (rid ro, resting_order_snapshot ro))"
  by (cases x) (auto simp: keyed_leaves(2))

text \<open>C4: a block that the sequencer produces from a committed book passes the checks of its resting orders.
  From a reachable book with distinct identifiers, take any sequence of admissions of fresh orders, cancellations of
  committed orders that emit their event, expiry at the height of the block and revalidations that evict no
  committed order without a reason in the block, and settle the fills.  Then the settlement succeeds, and a witness
  that commits the two books satisfies the transition check, and its reservation leaves on both sides are the
  rollups of the orders.\<close>

theorem book_block_verifies:
  assumes "reachable ttl start" "distinct (ids start)"
    and "evolves (h_height (bw_header w)) (bw_system_events w) start book"
    and "sum_list (map (\<lambda>f. uint (f_fill_qty f)) (bw_fills w)) \<le> 18446744073709551615"
    and "book_settle (bw_fills w) (mm_orders w) (h_height (bw_header w)) book = Some (final, r)"
    and "commits w start book final"
  shows "verify_resting_order_transition w = [] \<and>
    verify_resting_order_reservations (sc_resting_orders (bw_pre_state_sidecar w)) (sc_account_reservations (bw_pre_state_sidecar w)) = [] \<and>
    verify_resting_order_reservations (sc_resting_orders (bw_state_sidecar w)) (sc_account_reservations (bw_state_sidecar w)) = [] \<and>
    (\<exists>removed. r = Ok removed)"
proof -
  let ?h = "h_height (bw_header w)" and ?es = "bw_system_events w"
  have start: "book_ok start" using reachable_ok [OF assms(1)] by simp
  have tr: "tracks ?h ?es start book" by (rule evolves_tracks [OF assms(3) start assms(2)])
  then have book: "book_ok book" "distinct (ids book)" by (simp_all add: tracks_def)
  from fill_maps_agree [OF assms(4)] obtain fq m where
    fq: "filled_quantities (bw_fills w) = Some fq" "fill_qty_by_order (bw_fills w) = (m, [])" "\<And>i. get_or m i 0 = get_or fq i 0" by blast
  from settle_parts [OF book(1) fq(1), of "mm_orders w" ?h] assms(5) have
    final: "ob_orders final = concat (map (\<lambda>ro. kept (fate fq (mm_orders w) ?h ro)) (ob_orders book))" "book_ok final" "\<exists>removed. r = Ok removed"
    by auto
  have d: "distinct (ids final)" using distinct_kept [of "ob_orders book"] book(2) by (simp add: ids_def final(1))
  note c = assms(6) [unfolded commits_def]
  have mm: "\<forall>ro \<in> set (ob_orders book). rid ro \<notin> mm_orders w" using book_orders_not_mm [OF assms(6)] by blast
  have pre: "check_pre_order ?h (leaf_table final) m (collect cancelled_order ?es) (collect resolved_market ?es) x = []"
    if "x \<in> set (entries (leaf_table start))" for x
    using that pre_order_passes [OF tr assms(2) _ final(1) d mm fq(3)] by (auto simp: leaf_entries [OF assms(2)])
  have post: "check_post_order (leaf_table start) (om_of_list (map (\<lambda>wo. (o_id (wo_order wo), wo)) (bw_orders w))) x = []"
    if "x \<in> set (entries (leaf_table final))" for x
  proof -
    obtain i s where x: "x = (i, s)" by fastforce
    with that have "lookup (leaf_table final) i = Some s" by simp
    from post_order_passes [OF tr assms(2) this final(1) d] c show ?thesis by (simp add: x)
  qed
  have "verify_resting_order_transition w = []"
    using c pre post by (simp add: verify_resting_order_transition_def keyed_leaves(1) assms(2) d fq(2) collect_def resolved_market_events_def)
  then show ?thesis using c final(3) book_reservations_pass [OF start assms(2)] book_reservations_pass [OF final(2) d] by simp
qed

text \<open>A committed order that is gone, unfilled, from the next leaves without a reason in the block fails the transition.\<close>

lemma unexplained_loss:
  assumes "distinct (ids start)" "ro \<in> set (ob_orders start)" "\<not> explained (h_height (bw_header w)) (bw_system_events w) ro"
    and "sum_list (map (\<lambda>f. uint (f_fill_qty f)) (bw_fills w)) \<le> 18446744073709551615"
    and "\<forall>f \<in> set (bw_fills w). f_order_id f \<noteq> rid ro" "o_max_fill (rs_order ro) \<noteq> 0"
    and "distinct (ids final)" "rid ro \<notin> set (ids final)" "commits w start book final"
  shows "verify_resting_order_transition w \<noteq> []"
proof -
  let ?h = "h_height (bw_header w)" and ?es = "bw_system_events w"
  from fill_maps_agree [OF assms(4)] obtain fq m where
    fq: "filled_quantities (bw_fills w) = Some fq" "fill_qty_by_order (bw_fills w) = (m, [])" "\<And>i. get_or m i 0 = get_or fq i 0" by blast
  have "uint (get_or om_empty i 0 :: u64) + filled_of (bw_fills w) i \<le> 18446744073709551615" for i
    using filled_of_le [of "bw_fills w" i] assms(4) by simp
  from filled_quantities_fold [OF this] fq(1) have "uint (get_or fq (rid ro) 0) = filled_of (bw_fills w) (rid ro)"
    by (auto simp: filled_quantities_def)
  moreover have "\<forall>f \<in> set fs. f_order_id f \<noteq> rid ro \<Longrightarrow> filled_of fs (rid ro) = 0" for fs by (induction fs) (simp_all add: filled_of_def)
  ultimately have q: "get_or m (rid ro) 0 = 0" using assms(5) by (simp add: fq(3) word_uint_eq_iff)
  note c = assms(9) [unfolded commits_def]
  let ?x = "(rid ro, resting_order_snapshot ro)"
  have x: "?x \<in> set (entries (leaf_table start))" using assms(1,2) by (auto simp: leaf_entries simp del: in_entries)
  have "check_pre_order ?h (leaf_table final) m (collect cancelled_order ?es) (collect resolved_market ?es) ?x \<noteq> []"
  proof -
    have "lookup (leaf_table final) (rid ro) = None" using keyed_leaves_None [OF assms(7)] assms(8) by simp
    with assms(3,6) q show ?thesis by (simp add: check_pre_order_def explained_def flag_def Let_def)
  qed
  with x c show ?thesis
    by (auto simp: verify_resting_order_transition_def keyed_leaves(1) assms(1,7) fq(2) collect_def resolved_market_events_def simp del: in_entries)
qed

text \<open>C21: a block in which revalidation evicts a committed order without a reason in the block (the account of the
  order is out of cash, or the order is no longer covered) cannot be verified: the eviction emits no event, so every
  witness that commits the two books fails the transition check.  Before and after that revalidation the block may
  admit fresh orders, cancel, expire and revalidate in any way; the fills are any fills, of resting or
  market-maker orders, that do not fill the evicted order, whose quantity is not zero, and they sum to at most
  \<open>u64::MAX\<close>.\<close>

theorem eviction_unverifiable:
  assumes "reachable ttl start" "distinct (ids start)"
    and "operates (h_height (bw_header w)) start start before"
    and "revalidate accounts active before = Some (after, Ok evicted)" "(ro, exit) \<in> set evicted" "ro \<in> set (ob_orders start)"
    and "operates (h_height (bw_header w)) start after book"
    and "\<not> explained (h_height (bw_header w)) (bw_system_events w) ro" "o_max_fill (rs_order ro) \<noteq> 0"
    and "sum_list (map (\<lambda>f. uint (f_fill_qty f)) (bw_fills w)) \<le> 18446744073709551615"
    and "\<forall>f \<in> set (bw_fills w). f_order_id f \<noteq> rid ro"
    and "book_settle (bw_fills w) (mm_orders w) (h_height (bw_header w)) book = Some (final, Ok removed)"
    and "commits w start book final"
  shows "verify_resting_order_transition w \<noteq> []"
proof -
  have "book_ok start" using reachable_ok [OF assms(1)] by simp
  from operates_keeps [OF assms(3) this assms(2)] have before: "book_ok before" "distinct (ids before)" by simp_all
  note rv = revalidate_leaves [OF before(1) assms(4)]
  note leave = ids_leave [OF rv(1) before(2)]
  from operates_keeps [OF assms(7) rv(2) leave(1)]
  have book: "book_ok book" "distinct (ids book)" "set (ids book) \<inter> set (ids start) \<subseteq> set (ids after)" by simp_all
  have "rid ro \<notin> set (ids after)" using leave(3) [of ro] assms(5) by force
  then have out: "rid ro \<notin> set (ids book)" using book(3) assms(6) by (auto simp: ids_def)
  from fill_maps_agree [OF assms(10)] obtain fq m where "filled_quantities (bw_fills w) = Some fq" by blast
  from settle_parts [OF book(1) this, of "mm_orders w" "h_height (bw_header w)"] assms(12) have
    final: "ob_orders final = concat (map (\<lambda>ro. kept (fate fq (mm_orders w) (h_height (bw_header w)) ro)) (ob_orders book))" by auto
  have "distinct (ids final)" "set (ids final) \<subseteq> set (ids book)"
    using distinct_kept [of "ob_orders book"] book(2) by (simp_all add: ids_def final)
  with out show ?thesis
    by (intro unexplained_loss [OF assms(2,6,8,10,11,9) _ _ assms(13)]) auto
qed

section \<open>Examples\<close>

definition book_witness :: "OrderBook \<Rightarrow> OrderBook \<Rightarrow> OrderBook \<Rightarrow> Fill list \<Rightarrow> BlockWitness" where
  "book_witness start book final fills = sample_block\<lparr> bw_previous_header := Some sample_header, bw_fills := fills,
     bw_orders := map (\<lambda>ro. \<lparr> wo_order = rs_order ro, wo_account_id = rs_account_id ro, wo_is_mm = False \<rparr>) (ob_orders book),
     bw_pre_state_sidecar := sample_sidecar\<lparr> sc_resting_orders := state_root_orders start, sc_account_reservations := state_root_reservations start \<rparr>,
     bw_state_sidecar := sample_sidecar\<lparr> sc_resting_orders := state_root_orders final, sc_account_reservations := state_root_reservations final \<rparr> \<rparr>"

lemma book_witness_simps [simp]:
  "bw_header (book_witness start book final fills) = sample_header" "bw_fills (book_witness start book final fills) = fills"
  "bw_system_events (book_witness start book final fills) = []" "mm_orders (book_witness start book final fills) = {}"
  by (auto simp: book_witness_def mm_orders_def)

lemma book_witness_commits: "distinct (ids book) \<Longrightarrow> commits (book_witness start book final fills) start book final"
  by (simp add: commits_def book_witness_def ids_def comp_def)

theorem book_block_verifies_witness:
  "\<exists>final removed. book_settle [fill_new 2 400 550000000] {} 5 sample_book = Some (final, Ok removed) \<and>
     verify_resting_order_transition (book_witness sample_book sample_book final [fill_new 2 400 550000000]) = []"
proof -
  let ?fills = "[fill_new 2 400 550000000]"
  have d: "distinct (ids sample_book)" by (simp add: ids_def sample_book_def sample_sell_def sample_buy_def)
  obtain final r where f: "book_settle ?fills {} 5 sample_book = Some (final, r)"
    using settle_succeeds [of sample_book ?fills "{}" 5] reachable_ok [OF sample_book_reachable] by (auto simp: fill_new_def)
  have "verify_resting_order_transition (book_witness sample_book sample_book final ?fills) = [] \<and> (\<exists>removed. r = Ok removed)"
    using book_block_verifies [OF sample_book_reachable d, of "book_witness sample_book sample_book final ?fills" sample_book final r]
      f evolves.start book_witness_commits [OF d] by (simp add: fill_new_def)
  with f show ?thesis by blast
qed

text \<open>The account of a committed sell has withdrawn its cash.\<close>

definition sell_book :: OrderBook where
  "sell_book = sample_book\<lparr> ob_orders := [sample_sell], ob_balance_reservations := om_empty \<rparr>"

definition emptied_accounts :: AccountStore where
  "emptied_accounts = \<lparr> sto_accounts = om_ins 7 (seller_account\<lparr> ac_balance := 0 \<rparr>) om_empty, sto_next_id = 8 \<rparr>"

lemma sell_book_reachable: "reachable 10 sell_book"
  unfolding sell_book_def using sample_accepts(1) reachable.accept reachable.new one_hot_order_wf by metis

lemma sell_insolvent: "to_remove sell_book emptied_accounts {0} = Some [(0, AccountInsolvent)]"
proof -
  have "active_markets (rs_order sample_sell) = [0]" by (simp add: sample_sell_def active_markets_def one_hot_order_def)
  then have "revalidation_exit sell_book emptied_accounts {0} sample_sell = Some (Some AccountInsolvent)"
    by (simp add: revalidation_exit_def get_account_def emptied_accounts_def sample_sell_def)
  then show ?thesis by (simp add: to_remove_def sell_book_def)
qed

lemma sell_released: "\<exists>aggs. release_reservations (aggregates sell_book) sample_sell = (aggs, Ok ())"
  by (simp add: sell_book_def sample_book_def aggregates_def release_reservations_def sample_sell_def over_released_def
      release_position_def Let_def num)

lemma sell_evicted: "\<exists>book. revalidate emptied_accounts {0} sell_book = Some (book, Ok [(sample_sell, AccountInsolvent)]) \<and> ob_orders book = []"
proof -
  obtain aggs where "release_reservations (aggregates sell_book) sample_sell = (aggs, Ok ())" using sell_released by blast
  moreover have "ob_orders sell_book = [sample_sell]" by (simp add: sell_book_def)
  ultimately show ?thesis by (simp add: revalidate_def sell_insolvent idx_def remove_at_def)
qed

theorem eviction_unverifiable_witness:
  "\<exists>book final. revalidate emptied_accounts {0} sell_book = Some (book, Ok [(sample_sell, AccountInsolvent)]) \<and>
     verify_resting_order_transition (book_witness sell_book book final []) \<noteq> []"
proof -
  obtain book where b: "revalidate emptied_accounts {0} sell_book = Some (book, Ok [(sample_sell, AccountInsolvent)])" "ob_orders book = []"
    using sell_evicted by blast
  have ok: "book_ok book" using revalidate_leaves(2) [OF _ b(1)] reachable_ok [OF sell_book_reachable] by blast
  then obtain final removed where f: "book_settle [] {} 5 book = Some (final, Ok removed)" using settle_succeeds [of book "[]" "{}" 5] by auto
  have d: "distinct (ids sell_book)" "distinct (ids book)" by (simp_all add: ids_def b(2) sell_book_def)
  have x: "\<not> explained 5 [] sample_sell" "o_max_fill (rs_order sample_sell) \<noteq> 0"
    by (simp_all add: explained_def sample_sell_def one_hot_order_def list_ex_iff word_le_def)
  have "verify_resting_order_transition (book_witness sell_book book final []) \<noteq> []"
    by (rule eviction_unverifiable [OF sell_book_reachable d(1) operates.none b(1) list.set_intros(1) _ operates.none, where final = final and removed = removed])
      (simp_all add: x f book_witness_commits d sell_book_def)
  with b(1) show ?thesis by blast
qed

end
