(* ===== verification/Json_Parser.thy ===== *)
theory Json_Parser
  imports Account_Keys
begin

text \<open>
  The JSON reader of \<open>crates/sybil-verifier/src/key_op_auth.rs\<close>, which reads the client data of a WebAuthn
  assertion: a cursor over the bytes, strings with their escapes, numbers, and values that are skipped up to a
  nesting depth.  The skipping functions call each other without a bound the code states, so they carry fuel; the
  fuel the reader starts them with is always enough, so the reader terminates on every input.
\<close>

unbundle bit_operations_syntax

section \<open>The cursor\<close>

type_synonym u16 = "16 word"

record JsonParser =
  jp_bytes :: bytes
  jp_offset :: nat

datatype JsonError =
    InvalidByte nat | UnterminatedString | NotUtf8 | ControlByte | InvalidBoolean nat | UnterminatedEscape
  | InvalidSurrogatePair | UnpairedLowSurrogate | InvalidUnicodeEscape | InvalidStringEscape | TruncatedUnicodeEscape
  | NonHexUnicodeEscape | DepthExceeded | InvalidValue nat | InvalidLiteral nat | InvalidNumber | InvalidFraction
  | InvalidExponent | MissingTypeAndChallenge | DuplicateType | DuplicateChallenge | DuplicateOrigin
  | DuplicateCrossOrigin | TrailingBytes | MissingType | MissingChallenge | MissingOrigin

type_synonym 'a parsed = "(JsonError, 'a \<times> JsonParser) result"

definition peek :: "JsonParser \<Rightarrow> u8 option" where
  "peek p = (if jp_offset p < length (jp_bytes p) then Some (jp_bytes p ! jp_offset p) else None)"

definition advance :: "JsonParser \<Rightarrow> JsonParser" where
  "advance p = p\<lparr> jp_offset := jp_offset p + 1 \<rparr>"

definition take_byte :: "u8 \<Rightarrow> JsonParser \<Rightarrow> bool \<times> JsonParser" where
  "take_byte b p = (if peek p = Some b then (True, advance p) else (False, p))"

definition expect :: "u8 \<Rightarrow> JsonParser \<Rightarrow> (JsonError, JsonParser) result" where
  "expect b p = (case take_byte b p of (True, p) \<Rightarrow> Ok p | (False, p) \<Rightarrow> Err (InvalidByte (jp_offset p)))"

lemma peek_less: "peek p = Some b \<Longrightarrow> jp_offset p < length (jp_bytes p)"
  by (simp add: peek_def split: if_splits)

text \<open>The bytes a condition holds of, skipped.\<close>

function skip_while :: "(u8 \<Rightarrow> bool) \<Rightarrow> JsonParser \<Rightarrow> JsonParser" where
  "skip_while P p = (case peek p of Some b \<Rightarrow> if P b then skip_while P (advance p) else p | None \<Rightarrow> p)"
  by auto
termination
  by (relation "measure (\<lambda>(P, p). length (jp_bytes p) - jp_offset p)") (auto simp: advance_def dest: peek_less)

declare skip_while.simps [simp del]

definition is_ws :: "u8 \<Rightarrow> bool" where "is_ws b \<longleftrightarrow> b = 0x20 \<or> b = 0x0a \<or> b = 0x0d \<or> b = 0x09"
definition is_digit :: "u8 \<Rightarrow> bool" where "is_digit b \<longleftrightarrow> 0x30 \<le> b \<and> b \<le> 0x39"

definition skip_ws :: "JsonParser \<Rightarrow> JsonParser" where "skip_ws = skip_while is_ws"
definition skip_digits :: "JsonParser \<Rightarrow> JsonParser" where "skip_digits = skip_while is_digit"

definition peeks :: "(u8 \<Rightarrow> bool) \<Rightarrow> JsonParser \<Rightarrow> bool" where
  "peeks P p = (case peek p of Some b \<Rightarrow> P b | None \<Rightarrow> False)"

section \<open>UTF-8\<close>

text \<open>\<open>core::str::from_utf8\<close>: the well-formed byte sequences of the Unicode standard.\<close>

definition cont :: "u8 \<Rightarrow> bool" where "cont b \<longleftrightarrow> 0x80 \<le> b \<and> b \<le> 0xbf"

definition second_of_three :: "u8 \<Rightarrow> u8 \<Rightarrow> bool" where
  "second_of_three a b \<longleftrightarrow> (if a = 0xe0 then 0xa0 \<le> b \<and> b \<le> 0xbf else if a = 0xed then 0x80 \<le> b \<and> b \<le> 0x9f else cont b)"

definition second_of_four :: "u8 \<Rightarrow> u8 \<Rightarrow> bool" where
  "second_of_four a b \<longleftrightarrow> (if a = 0xf0 then 0x90 \<le> b \<and> b \<le> 0xbf else if a = 0xf4 then 0x80 \<le> b \<and> b \<le> 0x8f else cont b)"

fun from_utf8 :: "bytes \<Rightarrow> bool" where
  "from_utf8 [] = True"
| "from_utf8 (a # bs) =
     (if a < 0x80 then from_utf8 bs
      else if 0xc2 \<le> a \<and> a \<le> 0xdf then (case bs of b # bs \<Rightarrow> cont b \<and> from_utf8 bs | _ \<Rightarrow> False)
      else if 0xe0 \<le> a \<and> a \<le> 0xef then (case bs of b # c # bs \<Rightarrow> second_of_three a b \<and> cont c \<and> from_utf8 bs | _ \<Rightarrow> False)
      else if 0xf0 \<le> a \<and> a \<le> 0xf4 then (case bs of b # c # d # bs \<Rightarrow> second_of_four a b \<and> cont c \<and> cont d \<and> from_utf8 bs | _ \<Rightarrow> False)
      else False)"

text \<open>\<open>char::from_u32\<close> and \<open>char::encode_utf8\<close>.\<close>

definition is_scalar :: "u32 \<Rightarrow> bool" where
  "is_scalar c \<longleftrightarrow> c < 0xd800 \<or> (0xe000 \<le> c \<and> c \<le> 0x10ffff)"

definition encode_utf8 :: "u32 \<Rightarrow> bytes" where
  "encode_utf8 c =
     (if c < 0x80 then [ucast c]
      else if c < 0x800 then [ucast (drop_bit 6 c AND 0x1f) OR 0xc0, ucast (c AND 0x3f) OR 0x80]
      else if c < 0x10000 then [ucast (drop_bit 12 c AND 0x0f) OR 0xe0, ucast (drop_bit 6 c AND 0x3f) OR 0x80, ucast (c AND 0x3f) OR 0x80]
      else [ucast (drop_bit 18 c AND 0x07) OR 0xf0, ucast (drop_bit 12 c AND 0x3f) OR 0x80, ucast (drop_bit 6 c AND 0x3f) OR 0x80,
            ucast (c AND 0x3f) OR 0x80])"

section \<open>Strings\<close>

definition hex_nibble :: "u8 \<Rightarrow> u8 option" where
  "hex_nibble b = (if 0x30 \<le> b \<and> b \<le> 0x39 then Some (b - 0x30)
     else if 0x61 \<le> b \<and> b \<le> 0x66 then Some (b - 0x61 + 10)
     else if 0x41 \<le> b \<and> b \<le> 0x46 then Some (b - 0x41 + 10) else None)"

fun hex_digits :: "nat \<Rightarrow> u16 \<Rightarrow> JsonParser \<Rightarrow> u16 parsed" where
  "hex_digits 0 v p = Ok (v, p)"
| "hex_digits (Suc n) v p = (case peek p of
     None \<Rightarrow> Err TruncatedUnicodeEscape
   | Some b \<Rightarrow> (case hex_nibble b of
       None \<Rightarrow> Err NonHexUnicodeEscape
     | Some nibble \<Rightarrow> hex_digits n (push_bit 4 v OR ucast nibble) (advance p)))"

definition parse_hex_quad :: "JsonParser \<Rightarrow> u16 parsed" where
  "parse_hex_quad p = hex_digits 4 0 p"

definition high_surrogate :: "u16 \<Rightarrow> bool" where "high_surrogate v \<longleftrightarrow> 0xd800 \<le> v \<and> v \<le> 0xdbff"
definition low_surrogate :: "u16 \<Rightarrow> bool" where "low_surrogate v \<longleftrightarrow> 0xdc00 \<le> v \<and> v \<le> 0xdfff"

definition surrogate_scalar :: "u16 \<Rightarrow> u16 \<Rightarrow> u32" where
  "surrogate_scalar first second = 0x10000 + (push_bit 10 (ucast first - 0xd800) OR (ucast second - 0xdc00))"

definition unicode_scalar :: "JsonParser \<Rightarrow> u32 parsed" where
  "unicode_scalar p = and_then (parse_hex_quad p) (\<lambda>(first, p).
     if high_surrogate first then
       and_then (expect 0x5c p) (\<lambda>p. and_then (expect 0x75 p) (\<lambda>p. and_then (parse_hex_quad p) (\<lambda>(second, p).
         if \<not> low_surrogate second then Err InvalidSurrogatePair else Ok (surrogate_scalar first second, p))))
     else if low_surrogate first then Err UnpairedLowSurrogate
     else Ok (ucast first, p))"

definition parse_escape :: "bytes \<Rightarrow> JsonParser \<Rightarrow> bytes parsed" where
  "parse_escape out p = (case peek p of
     None \<Rightarrow> Err UnterminatedEscape
   | Some escaped \<Rightarrow>
       (let p = advance p
        in if escaped = 0x22 \<or> escaped = 0x5c \<or> escaped = 0x2f then Ok (out @ [escaped], p)
           else if escaped = 0x62 then Ok (out @ [0x08], p)
           else if escaped = 0x66 then Ok (out @ [0x0c], p)
           else if escaped = 0x6e then Ok (out @ [0x0a], p)
           else if escaped = 0x72 then Ok (out @ [0x0d], p)
           else if escaped = 0x74 then Ok (out @ [0x09], p)
           else if escaped = 0x75 then and_then (unicode_scalar p) (\<lambda>(scalar, p).
             if is_scalar scalar then Ok (out @ encode_utf8 scalar, p) else Err InvalidUnicodeEscape)
           else Err InvalidStringEscape))"

text \<open>A parser that has moved on, within the bytes.\<close>

definition advances :: "JsonParser \<Rightarrow> JsonParser \<Rightarrow> bool" where
  "advances p p' \<longleftrightarrow> jp_bytes p' = jp_bytes p \<and> jp_offset p < jp_offset p' \<and> jp_offset p' \<le> length (jp_bytes p)"

definition stays :: "JsonParser \<Rightarrow> JsonParser \<Rightarrow> bool" where
  "stays p p' \<longleftrightarrow> p' = p \<or> advances p p'"

lemma advances_trans:
  "advances p q \<Longrightarrow> advances q r \<Longrightarrow> advances p r" "advances p q \<Longrightarrow> stays q r \<Longrightarrow> advances p r"
  "stays p q \<Longrightarrow> advances q r \<Longrightarrow> advances p r" "stays p q \<Longrightarrow> stays q r \<Longrightarrow> stays p r"
  by (auto simp: advances_def stays_def)

lemma stays_refl [intro, simp]: "stays p p"
  by (simp add: stays_def)

lemma advances_stays [intro]: "advances p q \<Longrightarrow> stays p q"
  by (simp add: stays_def)

named_theorems moves

lemma advance_moves [moves]: "peek p = Some b \<Longrightarrow> advances p (advance p)"
  by (auto simp: advances_def advance_def dest: peek_less)

lemma expect_moves [moves]: "expect b p = Ok p' \<Longrightarrow> advances p p'"
  by (auto simp: expect_def take_byte_def advance_moves split: if_splits)

lemma take_byte_moves [moves]: "take_byte b p = (True, p') \<Longrightarrow> advances p p'" "take_byte b p = (False, p') \<Longrightarrow> p' = p"
  by (auto simp: take_byte_def advance_moves split: if_splits)

lemma skip_while_stays [simp]: "stays p (skip_while P p)"
proof (induction P p rule: skip_while.induct)
  case (1 P p)
  show ?case
  proof (cases "peek p")
    case (Some b)
    with "1.IH" [of b] advances_trans(2) [OF advance_moves [OF Some]] show ?thesis
      by (subst skip_while.simps) (auto simp: stays_def)
  qed (subst skip_while.simps; simp)
qed

lemma skips_stay [simp]: "stays p (skip_ws p)" "stays p (skip_digits p)"
  by (simp_all add: skip_ws_def skip_digits_def)

lemma hex_digits_moves: "hex_digits n v p = Ok (v', p') \<Longrightarrow> stays p p'"
proof (induction n arbitrary: v p)
  case (Suc n)
  then obtain b v2 where "peek p = Some b" "hex_digits n v2 (advance p) = Ok (v', p')" by (auto split: option.splits)
  with Suc.IH advance_moves advances_trans(2) show ?case by blast
qed simp

lemma unicode_scalar_moves: "unicode_scalar p = Ok (c, p') \<Longrightarrow> stays p p'"
proof -
  assume a: "unicode_scalar p = Ok (c, p')"
  then obtain first q where q: "parse_hex_quad p = Ok (first, q)" by (auto simp: unicode_scalar_def opt)
  then have pq: "stays p q" using hex_digits_moves by (simp add: parse_hex_quad_def)
  show ?thesis
  proof (cases "high_surrogate first")
    case True
    with a q obtain r s second where "expect 0x5c q = Ok r" "expect 0x75 r = Ok s" "parse_hex_quad s = Ok (second, p')"
      by (auto simp: unicode_scalar_def opt split: if_splits)
    then have "advances q r" "advances r s" "stays s p'" using expect_moves hex_digits_moves by (auto simp: parse_hex_quad_def)
    with pq advances_trans show ?thesis by (meson advances_stays)
  qed (use a q pq in \<open>auto simp: unicode_scalar_def split: if_splits\<close>)
qed

lemma parse_escape_moves: "parse_escape out p = Ok (out', p') \<Longrightarrow> advances p p'"
proof -
  assume a: "parse_escape out p = Ok (out', p')"
  then obtain b where b: "peek p = Some b" by (auto simp: parse_escape_def split: option.splits)
  then have "p' = advance p \<or> (\<exists>c. unicode_scalar (advance p) = Ok (c, p'))"
    using a by (auto simp: parse_escape_def Let_def opt split: if_splits)
  then have "stays (advance p) p'" using unicode_scalar_moves by blast
  with advances_trans(2) [OF advance_moves [OF b]] show ?thesis by blast
qed

function string_loop :: "bytes \<Rightarrow> JsonParser \<Rightarrow> bytes parsed" where
  "string_loop out p = (case peek p of
     None \<Rightarrow> Err UnterminatedString
   | Some byte \<Rightarrow>
       (if byte = 0x22 then (if from_utf8 out then Ok (out, advance p) else Err NotUtf8)
        else if byte = 0x5c then
          (case parse_escape out (advance p) of Err e \<Rightarrow> Err e | Ok (out', p') \<Rightarrow> string_loop out' p')
        else if byte \<le> 0x1f then Err ControlByte
        else string_loop (out @ [byte]) (advance p)))"
  by auto
termination
proof (relation "measure (\<lambda>(out, p). length (jp_bytes p) - jp_offset p)"; clarsimp)
  fix out p out' p'
  assume "peek p = Some 0x5c" "parse_escape out (advance p) = Ok (out', p')"
  then have "advances p p'" using advances_trans(1) [OF advance_moves parse_escape_moves] by blast
  then show "length (jp_bytes p') - jp_offset p' < length (jp_bytes p) - jp_offset p" by (auto simp: advances_def)
next
  fix p b
  assume "peek p = Some b"
  from advance_moves [OF this] show "length (jp_bytes (advance p)) - jp_offset (advance p) < length (jp_bytes p) - jp_offset p"
    by (auto simp: advances_def)
qed

declare string_loop.simps [simp del]

definition parse_string :: "JsonParser \<Rightarrow> bytes parsed" where
  "parse_string p = and_then (expect 0x22 p) (string_loop [])"

lemma string_loop_moves: "string_loop out p = Ok (out', p') \<Longrightarrow> advances p p'"
proof (induction out p rule: string_loop.induct)
  case (1 out p)
  from "1.prems" obtain b where b: "peek p = Some b" by (subst (asm) string_loop.simps) (auto split: option.splits)
  note s = "1.prems" [unfolded string_loop.simps [of out p]] and a = advance_moves [OF b]
  consider "b = 0x22" | "b = 0x5c" | "b \<noteq> 0x22" "b \<noteq> 0x5c" by blast
  then show ?case
  proof cases
    case 1
    with s b a show ?thesis by (auto split: if_splits)
  next
    case 2
    with s b obtain o2 p2 where e: "parse_escape out (advance p) = Ok (o2, p2)" "string_loop o2 p2 = Ok (out', p')"
      by (auto split: result.splits)
    from "1.IH"(1) [OF b] 2 e have "advances p2 p'" by simp
    with advances_trans(1) [OF a advances_trans(1) [OF parse_escape_moves [OF e(1)]]] show ?thesis by blast
  next
    case 3
    with s b have "string_loop (out @ [b]) (advance p) = Ok (out', p')" "\<not> b \<le> 0x1f" by (auto split: if_splits)
    with "1.IH"(2) [OF b] 3 advances_trans(1) [OF a] show ?thesis by blast
  qed
qed

lemma parse_string_moves: "parse_string p = Ok (out, p') \<Longrightarrow> advances p p'"
  using advances_trans(1) [OF expect_moves string_loop_moves] by (auto simp: parse_string_def opt)

section \<open>Literals and numbers\<close>

definition expect_literal :: "bytes \<Rightarrow> JsonParser \<Rightarrow> (JsonError, JsonParser) result" where
  "expect_literal literal p = (let stop = jp_offset p + length literal
     in if stop \<le> length (jp_bytes p) \<and> take (length literal) (drop (jp_offset p) (jp_bytes p)) = literal
        then Ok (p\<lparr> jp_offset := stop \<rparr>) else Err (InvalidLiteral (jp_offset p)))"

definition parse_bool :: "JsonParser \<Rightarrow> bool parsed" where
  "parse_bool p = (case peek p of
     Some b \<Rightarrow>
       (if b = 0x74 then and_then (expect_literal (ascii ''true'') p) (\<lambda>p. Ok (True, p))
        else if b = 0x66 then and_then (expect_literal (ascii ''false'') p) (\<lambda>p. Ok (False, p))
        else Err (InvalidBoolean (jp_offset p)))
   | None \<Rightarrow> Err (InvalidBoolean (jp_offset p)))"

definition skip_integer :: "JsonParser \<Rightarrow> (JsonError, JsonParser) result" where
  "skip_integer p = (case peek p of
     Some b \<Rightarrow> (if b = 0x30 then Ok (advance p) else if 0x31 \<le> b \<and> b \<le> 0x39 then Ok (skip_digits (advance p)) else Err InvalidNumber)
   | None \<Rightarrow> Err InvalidNumber)"

definition skip_fraction :: "JsonParser \<Rightarrow> (JsonError, JsonParser) result" where
  "skip_fraction p = (let (dot, p) = take_byte 0x2e p
     in if dot then (if peeks is_digit p then Ok (skip_digits p) else Err InvalidFraction) else Ok p)"

definition skip_exponent :: "JsonParser \<Rightarrow> (JsonError, JsonParser) result" where
  "skip_exponent p =
     (if peeks (\<lambda>b. b = 0x65 \<or> b = 0x45) p then
        (let p = advance p;
             p = (if peeks (\<lambda>b. b = 0x2b \<or> b = 0x2d) p then advance p else p)
         in if peeks is_digit p then Ok (skip_digits p) else Err InvalidExponent)
      else Ok p)"

definition skip_number :: "JsonParser \<Rightarrow> (JsonError, JsonParser) result" where
  "skip_number p = and_then (skip_integer (snd (take_byte 0x2d p))) (\<lambda>p. and_then (skip_fraction p) skip_exponent)"

lemma peeks_moves: "peeks P p \<Longrightarrow> advances p (advance p)"
  by (auto simp: peeks_def advance_moves split: option.splits)

lemma expect_literal_moves: "expect_literal literal p = Ok p' \<Longrightarrow> literal \<noteq> [] \<Longrightarrow> advances p p'"
  by (auto simp: expect_literal_def Let_def advances_def split: if_splits)

lemma parse_bool_moves: "parse_bool p = Ok (b, p') \<Longrightarrow> advances p p'"
  by (auto simp: parse_bool_def opt ascii_def split: option.splits if_splits dest!: expect_literal_moves)

lemma skip_integer_moves: "skip_integer p = Ok p' \<Longrightarrow> advances p p'"
  using advances_trans(2) [OF advance_moves] by (auto simp: skip_integer_def split: option.splits if_splits)

lemma skip_fraction_moves: "skip_fraction p = Ok p' \<Longrightarrow> stays p p'"
  using advances_stays [OF advances_trans(2) [OF advance_moves skips_stay(2)]] by (auto simp: skip_fraction_def take_byte_def split: if_splits)

lemma skip_exponent_moves: "skip_exponent p = Ok p' \<Longrightarrow> stays p p'"
proof (cases "peeks (\<lambda>b. b = 0x65 \<or> b = 0x45) p")
  case True
  assume a: "skip_exponent p = Ok p'"
  let ?q = "if peeks (\<lambda>b. b = 0x2b \<or> b = 0x2d) (advance p) then advance (advance p) else advance p"
  have "stays (advance p) ?q" using peeks_moves by auto
  from advances_stays [OF advances_trans(2) [OF peeks_moves [OF True] advances_trans(4) [OF this skips_stay(2)]]]
  show ?thesis using a True by (auto simp: skip_exponent_def Let_def split: if_splits)
qed (simp add: skip_exponent_def)

lemma skip_number_moves: "skip_number p = Ok p' \<Longrightarrow> advances p p'"
proof -
  assume "skip_number p = Ok p'"
  then obtain q r where q: "skip_integer (snd (take_byte 0x2d p)) = Ok q" "skip_fraction q = Ok r" "skip_exponent r = Ok p'"
    by (auto simp: skip_number_def opt)
  have "stays p (snd (take_byte 0x2d p))" by (simp add: take_byte_def advances_stays advance_moves)
  with skip_integer_moves [OF q(1)] skip_fraction_moves [OF q(2)] skip_exponent_moves [OF q(3)] show ?thesis
    using advances_trans(2) [OF advances_trans(2) [OF advances_trans(3)]] by blast
qed

section \<open>Skipping a value\<close>

definition MAX_JSON_DEPTH :: nat where "MAX_JSON_DEPTH = 32"

text \<open>Out of fuel is \<open>None\<close>.\<close>

definition and_then_fuel :: "('e, 'a) result option \<Rightarrow> ('a \<Rightarrow> ('e, 'b) result option) \<Rightarrow> ('e, 'b) result option" where
  "and_then_fuel r f = (case r of None \<Rightarrow> None | Some (Err e) \<Rightarrow> Some (Err e) | Some (Ok v) \<Rightarrow> f v)"

lemma and_then_fuel_simps [simp]:
  "and_then_fuel None f = None" "and_then_fuel (Some (Err e)) f = Some (Err e)" "and_then_fuel (Some (Ok v)) f = f v"
  by (simp_all add: and_then_fuel_def)

lemma and_then_fuel_Ok [opt]: "and_then_fuel r f = Some (Ok v) \<longleftrightarrow> (\<exists>u. r = Some (Ok u) \<and> f u = Some (Ok v))"
  by (auto simp: and_then_fuel_def split: option.splits result.splits)

text \<open>After the opening bracket, and after an element: the closing bracket ends the loop.\<close>

definition enter :: "u8 \<Rightarrow> (JsonParser \<Rightarrow> (JsonError, JsonParser) result option) \<Rightarrow> JsonParser \<Rightarrow> (JsonError, JsonParser) result option" where
  "enter close loop p = (let (closes, p) = take_byte close (skip_ws p) in if closes then Some (Ok p) else loop p)"

definition continue :: "u8 \<Rightarrow> (JsonParser \<Rightarrow> (JsonError, JsonParser) result option) \<Rightarrow> JsonParser \<Rightarrow> (JsonError, JsonParser) result option" where
  "continue close loop p = (let (closes, p) = take_byte close (skip_ws p)
     in if closes then Some (Ok p) else and_then_fuel (Some (expect 0x2c p)) (\<lambda>p. loop (skip_ws p)))"

fun skip_value :: "nat \<Rightarrow> nat \<Rightarrow> JsonParser \<Rightarrow> (JsonError, JsonParser) result option"
  and object_loop :: "nat \<Rightarrow> nat \<Rightarrow> JsonParser \<Rightarrow> (JsonError, JsonParser) result option"
  and array_loop :: "nat \<Rightarrow> nat \<Rightarrow> JsonParser \<Rightarrow> (JsonError, JsonParser) result option"
where
  "skip_value 0 depth p = None"
| "skip_value (Suc fuel) depth p =
     (if MAX_JSON_DEPTH < depth then Some (Err DepthExceeded)
      else let p = skip_ws p
      in case peek p of
        None \<Rightarrow> Some (Err (InvalidValue (jp_offset p)))
      | Some b \<Rightarrow>
          (if b = 0x22 then Some (and_then (parse_string p) (\<lambda>(s, p). Ok p))
           else if b = 0x7b then and_then_fuel (Some (expect 0x7b p)) (enter 0x7d (object_loop fuel (depth + 1)))
           else if b = 0x5b then and_then_fuel (Some (expect 0x5b p)) (enter 0x5d (array_loop fuel (depth + 1)))
           else if b = 0x74 then Some (expect_literal (ascii ''true'') p)
           else if b = 0x66 then Some (expect_literal (ascii ''false'') p)
           else if b = 0x6e then Some (expect_literal (ascii ''null'') p)
           else if b = 0x2d \<or> is_digit b then Some (skip_number p)
           else Some (Err (InvalidValue (jp_offset p)))))"
| "object_loop 0 depth p = None"
| "object_loop (Suc fuel) depth p =
     and_then_fuel (Some (parse_string p)) (\<lambda>(key, p).
     and_then_fuel (Some (expect 0x3a (skip_ws p))) (\<lambda>p.
     and_then_fuel (skip_value fuel depth p) (continue 0x7d (object_loop fuel depth))))"
| "array_loop 0 depth p = None"
| "array_loop (Suc fuel) depth p =
     and_then_fuel (skip_value fuel depth p) (continue 0x5d (array_loop fuel depth))"

lemma closing: "take_byte b (skip_ws p) = (True, q) \<Longrightarrow> advances p q" "take_byte b (skip_ws p) = (False, q) \<Longrightarrow> q = skip_ws p"
  using take_byte_moves advances_trans(3) [OF skips_stay(1)] by blast+

lemma enter_moves:
  assumes "enter close loop p = Some (Ok p')" "\<And>q. loop q = Some (Ok p') \<Longrightarrow> advances q p'"
  shows "advances p p'"
proof -
  have "advances (skip_ws p) p'"
    using assms by (auto simp: enter_def Let_def split: prod.splits if_splits dest: take_byte_moves)
  then show ?thesis by (rule advances_trans(3) [OF skips_stay(1)])
qed

lemma continue_moves:
  assumes "continue close loop p = Some (Ok p')" "\<And>q. loop q = Some (Ok p') \<Longrightarrow> advances q p'"
  shows "advances p p'"
proof -
  let ?p = "skip_ws p"
  from assms(1) consider "take_byte close ?p = (True, p')" | q where "expect 0x2c ?p = Ok q" "loop (skip_ws q) = Some (Ok p')"
    by (auto simp: continue_def Let_def opt split: prod.splits if_splits dest: take_byte_moves(2))
  then have "advances ?p p'"
  proof cases
    case 2
    from advances_trans(1) [OF expect_moves [OF 2(1)] advances_trans(3) [OF skips_stay(1) assms(2) [OF 2(2)]]] show ?thesis .
  qed (rule take_byte_moves(1))
  then show ?thesis by (rule advances_trans(3) [OF skips_stay(1)])
qed

lemma skip_moves:
  "skip_value fuel depth p = Some (Ok p') \<Longrightarrow> advances p p'"
  "object_loop fuel depth p = Some (Ok p') \<Longrightarrow> advances p p'"
  "array_loop fuel depth p = Some (Ok p') \<Longrightarrow> advances p p'"
proof (induction fuel arbitrary: depth p p')
  case (Suc fuel)
  note ih = Suc.IH
  {
    case 1
    let ?p = "skip_ws p"
    from 1 obtain b where b: "peek ?p = Some b" "\<not> MAX_JSON_DEPTH < depth" by (auto simp: Let_def split: if_splits option.splits)
    have "advances ?p p'"
    proof (cases "b = 0x7b \<or> b = 0x5b")
      case True
      with 1 b obtain q close loop where q: "expect b ?p = Ok q" "enter close loop q = Some (Ok p')"
        and l: "loop = object_loop fuel (depth + 1) \<or> loop = array_loop fuel (depth + 1)" by (auto simp: Let_def opt)
      from l enter_moves [OF q(2)] ih(2,3) have "advances q p'" by blast
      with advances_trans(1) [OF expect_moves [OF q(1)]] show ?thesis by blast
    next
      case False
      then show ?thesis using 1 b
        by (auto simp: Let_def opt ascii_def split: if_splits dest: parse_string_moves expect_literal_moves skip_number_moves)
    qed
    then show ?case by (rule advances_trans(3) [OF skips_stay(1)])
  next
    case 2
    then obtain key q r s where q: "parse_string p = Ok (key, q)" "expect 0x3a (skip_ws q) = Ok r"
      "skip_value fuel depth r = Some (Ok s)" "continue 0x7d (object_loop fuel depth) s = Some (Ok p')" by (auto simp: opt)
    have "advances q r" by (rule advances_trans(3) [OF skips_stay(1) expect_moves [OF q(2)]])
    moreover have "advances r s" by (rule ih(1) [OF q(3)])
    moreover have "advances s p'" by (rule continue_moves [OF q(4)]) (rule ih(2))
    ultimately show ?case using parse_string_moves [OF q(1)] advances_trans(1) by blast
  next
    case 3
    then obtain s where s: "skip_value fuel depth p = Some (Ok s)" "continue 0x5d (array_loop fuel depth) s = Some (Ok p')" by (auto simp: opt)
    have "advances s p'" by (rule continue_moves [OF s(2)]) (rule ih(3))
    then show ?case by (rule advances_trans(1) [OF ih(1) [OF s(1)]])
  }
qed simp_all

section \<open>Termination\<close>

definition left :: "JsonParser \<Rightarrow> nat" where "left p = length (jp_bytes p) - jp_offset p"

lemma left_moves: "advances p q \<Longrightarrow> left q < left p" "stays p q \<Longrightarrow> left q \<le> left p"
  by (auto simp: left_def advances_def stays_def)

lemma enter_fuel: "(\<And>q. left q \<le> left p \<Longrightarrow> loop q \<noteq> None) \<Longrightarrow> enter close loop p \<noteq> None"
  using left_moves(2) [OF skips_stay(1)] by (auto simp: enter_def Let_def split: prod.splits dest: take_byte_moves)

lemma continue_fuel: "(\<And>q. left q < left p \<Longrightarrow> loop q \<noteq> None) \<Longrightarrow> continue close loop p \<noteq> None"
proof -
  assume l: "\<And>q. left q < left p \<Longrightarrow> loop q \<noteq> None"
  have "loop (skip_ws q) \<noteq> None" if "expect 0x2c (skip_ws p) = Ok q" for q
    using l left_moves(2) [OF skips_stay(1), of q] left_moves(1) [OF advances_trans(3) [OF skips_stay(1) expect_moves [OF that]]] by simp
  then show ?thesis by (cases "expect 0x2c (skip_ws p)") (auto simp: continue_def Let_def split: prod.splits dest: take_byte_moves)
qed

lemma and_then_fuel_None: "and_then_fuel r f = None \<longleftrightarrow> r = None \<or> (\<exists>v. r = Some (Ok v) \<and> f v = None)"
  by (auto simp: and_then_fuel_def split: option.splits result.splits)

lemma skip_fuel:
  "2 * left p + 1 \<le> fuel \<Longrightarrow> skip_value fuel depth p \<noteq> None"
  "2 * left p + 2 \<le> fuel \<Longrightarrow> object_loop fuel depth p \<noteq> None"
  "2 * left p + 2 \<le> fuel \<Longrightarrow> array_loop fuel depth p \<noteq> None"
proof (induction fuel arbitrary: depth p)
  case (Suc fuel)
  note ih = Suc.IH
  {
    case 1
    have "and_then_fuel (Some (expect b (skip_ws p))) (enter close loop) \<noteq> None"
      if "loop = object_loop fuel (depth + 1) \<or> loop = array_loop fuel (depth + 1)" for b close loop
    proof -
      have "enter close loop q \<noteq> None" if q: "expect b (skip_ws p) = Ok q" for q
      proof (rule enter_fuel)
        fix r assume "left r \<le> left q"
        then have "left r < left p" using left_moves(1) [OF advances_trans(3) [OF skips_stay(1) expect_moves [OF q]]] by simp
        with ih(2,3) [of r] 1 \<open>loop = _ \<or> loop = _\<close> show "loop r \<noteq> None" by auto
      qed
      then show ?thesis by (simp add: and_then_fuel_None)
    qed
    then show ?case by (auto simp: Let_def split: option.splits)
  next
    case 2
    have "and_then_fuel (skip_value fuel depth r) (continue 0x7d (object_loop fuel depth)) \<noteq> None"
      if "parse_string p = Ok (key, q)" "expect 0x3a (skip_ws q) = Ok r" for key q r
    proof -
      have r: "left r < left p"
        by (rule left_moves(1) [OF advances_trans(1) [OF parse_string_moves [OF that(1)] advances_trans(3) [OF skips_stay(1) expect_moves [OF that(2)]]]])
      have "continue 0x7d (object_loop fuel depth) s \<noteq> None" if s: "skip_value fuel depth r = Some (Ok s)" for s
        by (rule continue_fuel) (use left_moves(1) [OF skip_moves(1) [OF s]] r ih(2) 2 in auto)
      then show ?thesis using ih(1) [of r] r 2 by (simp add: and_then_fuel_None)
    qed
    then show ?case by (auto simp: and_then_fuel_None)
  next
    case 3
    have "continue 0x5d (array_loop fuel depth) s \<noteq> None" if s: "skip_value fuel depth p = Some (Ok s)" for s
      by (rule continue_fuel) (use left_moves(1) [OF skip_moves(1) [OF s]] ih(3) 3 in auto)
    then show ?case using ih(1) [of p] 3 by (simp add: and_then_fuel_None)
  }
qed simp_all

end
