(* ===== verification/Key_Op_Auth.thy ===== *)
theory Key_Op_Auth
  imports Json_Parser
begin

text \<open>
  \<open>crates/sybil-verifier/src/key_op_auth.rs\<close>: authorization of a key operation or client action by an active key
  of the account, either by a P-256 signature of the canonical bytes or by a WebAuthn assertion whose challenge is
  their hash.  Sha256 is the parameter \<open>sha\<close> and the P-256 library the parameter \<open>p256\<close>.
\<close>

unbundle bit_operations_syntax

section \<open>The client data\<close>

record ClientDataFields =
  cd_type :: bytes
  cd_challenge :: bytes
  cd_origin :: bytes
  cd_cross_origin :: bool

text \<open>The members read so far.\<close>

record Members =
  ms_type :: "bytes option"
  ms_challenge :: "bytes option"
  ms_origin :: "bytes option"
  ms_cross_origin :: "bool option"

text \<open>Enough for every value that begins here.\<close>

definition json_fuel :: "JsonParser \<Rightarrow> nat" where "json_fuel p = 2 * left p + 1"

definition client_member :: "bytes \<Rightarrow> Members \<Rightarrow> JsonParser \<Rightarrow> (JsonError, Members \<times> JsonParser) result option" where
  "client_member key ms p =
     (if key = ascii ''type'' then Some (if ms_type ms \<noteq> None then Err DuplicateType
        else and_then (parse_string p) (\<lambda>(v, p). Ok (ms\<lparr> ms_type := Some v \<rparr>, p)))
      else if key = ascii ''challenge'' then Some (if ms_challenge ms \<noteq> None then Err DuplicateChallenge
        else and_then (parse_string p) (\<lambda>(v, p). Ok (ms\<lparr> ms_challenge := Some v \<rparr>, p)))
      else if key = ascii ''origin'' then Some (if ms_origin ms \<noteq> None then Err DuplicateOrigin
        else and_then (parse_string p) (\<lambda>(v, p). Ok (ms\<lparr> ms_origin := Some v \<rparr>, p)))
      else if key = ascii ''crossOrigin'' then Some (if ms_cross_origin ms \<noteq> None then Err DuplicateCrossOrigin
        else and_then (parse_bool p) (\<lambda>(v, p). Ok (ms\<lparr> ms_cross_origin := Some v \<rparr>, p)))
      else and_then_fuel (skip_value (json_fuel p) 0 p) (\<lambda>p. Some (Ok (ms, p))))"

text \<open>One turn of the loop: the member, and whether the object goes on.\<close>

definition turn_end :: "JsonParser \<Rightarrow> bool parsed" where
  "turn_end p = (let (closes, p) = take_byte 0x7d (skip_ws p)
     in if closes then Ok (True, p) else and_then (expect 0x2c p) (\<lambda>p. Ok (False, skip_ws p)))"

definition client_turn :: "Members \<Rightarrow> JsonParser \<Rightarrow> (JsonError, Members \<times> bool \<times> JsonParser) result option" where
  "client_turn ms p =
     and_then_fuel (Some (parse_string p)) (\<lambda>(key, p).
     and_then_fuel (Some (expect 0x3a (skip_ws p))) (\<lambda>p.
     and_then_fuel (client_member key ms (skip_ws p)) (\<lambda>(ms, p).
     and_then_fuel (Some (turn_end p)) (\<lambda>(closes, p). Some (Ok (ms, closes, p))))))"

lemma turn_end_moves: "turn_end p = Ok (closes, p') \<Longrightarrow> advances p p'"
proof (cases "take_byte 0x7d (skip_ws p)")
  case (Pair c q)
  assume a: "turn_end p = Ok (closes, p')"
  show ?thesis
  proof (cases c)
    case True
    with a Pair closing(1) show ?thesis by (auto simp: turn_end_def)
  next
    case False
    with Pair closing(2) [of "0x7d" p q] have "q = skip_ws p" by simp
    with a Pair False obtain r where "expect 0x2c (skip_ws p) = Ok r" "p' = skip_ws r" by (auto simp: turn_end_def opt)
    with advances_trans(3) [OF skips_stay(1) advances_trans(2) [OF expect_moves skips_stay(1)]] show ?thesis by blast
  qed
qed

lemma client_member_moves: "client_member key ms p = Some (Ok (ms', p')) \<Longrightarrow> advances p p'"
  by (auto simp: client_member_def opt split: if_splits dest: parse_string_moves parse_bool_moves skip_moves(1))

lemma client_turn_moves: "client_turn ms p = Some (Ok (ms', closes, p')) \<Longrightarrow> advances p p'"
proof -
  assume "client_turn ms p = Some (Ok (ms', closes, p'))"
  then obtain key q r s where q: "parse_string p = Ok (key, q)" "expect 0x3a (skip_ws q) = Ok r"
    "client_member key ms (skip_ws r) = Some (Ok (ms', s))" "turn_end s = Ok (closes, p')"
    by (auto simp: client_turn_def opt)
  have "advances s p'" by (rule turn_end_moves [OF q(4)])
  moreover have "advances q r" by (rule advances_trans(3) [OF skips_stay(1) expect_moves [OF q(2)]])
  moreover have "advances r s" by (rule advances_trans(3) [OF skips_stay(1) client_member_moves [OF q(3)]])
  ultimately show ?thesis using parse_string_moves [OF q(1)] advances_trans(1) by blast
qed

function client_loop :: "Members \<Rightarrow> JsonParser \<Rightarrow> (JsonError, Members \<times> JsonParser) result option" where
  "client_loop ms p = (case client_turn ms p of
     None \<Rightarrow> None
   | Some (Err e) \<Rightarrow> Some (Err e)
   | Some (Ok (ms', True, p')) \<Rightarrow> Some (Ok (ms', p'))
   | Some (Ok (ms', False, p')) \<Rightarrow> client_loop ms' p')"
  by auto
termination
  by (relation "measure (\<lambda>(ms, p). left p)") (auto dest: left_moves(1) [OF client_turn_moves])

declare client_loop.simps [simp del]

definition no_members :: Members where
  "no_members = \<lparr> ms_type = None, ms_challenge = None, ms_origin = None, ms_cross_origin = None \<rparr>"

definition client_fields :: "Members \<Rightarrow> (JsonError, ClientDataFields) result" where
  "client_fields ms =
     and_then (ok_or MissingType (ms_type ms)) (\<lambda>ty.
     and_then (ok_or MissingChallenge (ms_challenge ms)) (\<lambda>challenge.
     and_then (ok_or MissingOrigin (ms_origin ms)) (\<lambda>orig.
       Ok \<lparr> cd_type = ty, cd_challenge = challenge, cd_origin = orig,
            cd_cross_origin = (case ms_cross_origin ms of Some b \<Rightarrow> b | None \<Rightarrow> False) \<rparr>)))"

definition extract_client_data_fields :: "bytes \<Rightarrow> (JsonError, ClientDataFields) result option" where
  "extract_client_data_fields bs =
     and_then_fuel (Some (expect 0x7b (skip_ws \<lparr> jp_bytes = bs, jp_offset = 0 \<rparr>))) (\<lambda>p.
       let (closes, p) = take_byte 0x7d (skip_ws p)
       in if closes then Some (Err MissingTypeAndChallenge)
          else and_then_fuel (client_loop no_members p) (\<lambda>(ms, p).
            if jp_offset (skip_ws p) \<noteq> length bs then Some (Err TrailingBytes) else Some (client_fields ms)))"

section \<open>The challenge\<close>

definition b64_table :: bytes where
  "b64_table = ascii ''ABCDEFGHIJKLMNOPQRSTUVWXYZabcdefghijklmnopqrstuvwxyz0123456789-_''"

definition b64_char :: "nat \<Rightarrow> u32 \<Rightarrow> u8" where
  "b64_char n chunk = b64_table ! unat (drop_bit n chunk AND 0x3f)"

text \<open>Groups of three bytes, and the two bytes that remain of a 32-byte digest.\<close>

fun base64url_sha256 :: "bytes \<Rightarrow> bytes" where
  "base64url_sha256 (a # b # c # rest) =
     (let chunk = push_bit 16 (ucast a) OR push_bit 8 (ucast b) OR ucast c
      in [b64_char 18 chunk, b64_char 12 chunk, b64_char 6 chunk, b64_char 0 chunk]) @ base64url_sha256 rest"
| "base64url_sha256 [a, b] =
     (let chunk = push_bit 16 (ucast a) OR push_bit 8 (ucast b)
      in [b64_char 18 chunk, b64_char 12 chunk, b64_char 6 chunk])"
| "base64url_sha256 _ = []"

section \<open>The envelope\<close>

definition EXPECTED_WEBAUTHN_ORIGIN :: bytes where
  "EXPECTED_WEBAUTHN_ORIGIN = ascii ''https://app.sybil.exchange''"

definition EXPECTED_RP_ID_HASH :: bytes where
  "EXPECTED_RP_ID_HASH =
     [0x0e, 0xa9, 0x94, 0x09, 0xb0, 0x92, 0x3a, 0x99, 0xb1, 0x5b, 0x3a, 0xc8, 0x2e, 0xb1, 0xbb, 0x06,
      0xde, 0xd0, 0x2f, 0xab, 0xfe, 0xcd, 0x5b, 0x7c, 0xc3, 0x0c, 0xda, 0x11, 0xbb, 0xd6, 0x0a, 0x6c]"

definition FLAG_UP :: u8 where "FLAG_UP = 0x01"
definition FLAG_UV :: u8 where "FLAG_UV = 0x04"
definition MAX_WEBAUTHN_AUTHENTICATOR_DATA_BYTES :: nat where "MAX_WEBAUTHN_AUTHENTICATOR_DATA_BYTES = 512"
definition MAX_WEBAUTHN_CLIENT_DATA_JSON_BYTES :: nat where "MAX_WEBAUTHN_CLIENT_DATA_JSON_BYTES = 2048"

datatype AuthError =
    NotACurrentKey | InvalidPoint | InvalidSignature | SignatureMismatch
  | AuthenticatorDataTooLong | ClientDataTooLong | AuthenticatorDataTooShort | RpIdMismatch | UserPresenceMissing
  | UserVerificationMissing | ClientDataError JsonError | TypeMismatch | OriginMismatch | CrossOriginRejected | ChallengeMismatch

text \<open>The P-256 library: which public keys and signatures it reads, and which signatures of a hash it accepts.\<close>

record P256 =
  from_sec1_bytes :: "bytes \<Rightarrow> bool"
  from_slice :: "bytes \<Rightarrow> bool"
  verify_prehash :: "bytes \<Rightarrow> bytes \<Rightarrow> bytes \<Rightarrow> bool" \<comment> \<open>key, hash, signature\<close>

definition verify_p256_prehash :: "P256 \<Rightarrow> bytes \<Rightarrow> bytes \<Rightarrow> bytes \<Rightarrow> (AuthError, unit) result" where
  "verify_p256_prehash p256 pubkey signature prehash =
     (if \<not> from_sec1_bytes p256 pubkey then Err InvalidPoint
      else if \<not> from_slice p256 signature then Err InvalidSignature
      else if verify_prehash p256 pubkey prehash signature then Ok () else Err SignatureMismatch)"

definition verify_webauthn_envelope :: "hash \<Rightarrow> bytes \<Rightarrow> bytes \<Rightarrow> bytes \<Rightarrow> (AuthError, unit) result option" where
  "verify_webauthn_envelope sha canonical_bytes authenticator_data client_data_json =
     (if MAX_WEBAUTHN_AUTHENTICATOR_DATA_BYTES < length authenticator_data then Some (Err AuthenticatorDataTooLong)
      else if MAX_WEBAUTHN_CLIENT_DATA_JSON_BYTES < length client_data_json then Some (Err ClientDataTooLong)
      else if length authenticator_data < 37 then Some (Err AuthenticatorDataTooShort)
      else if take 32 authenticator_data \<noteq> EXPECTED_RP_ID_HASH then Some (Err RpIdMismatch)
      else if authenticator_data ! 32 AND FLAG_UP = 0 then Some (Err UserPresenceMissing)
      else if authenticator_data ! 32 AND FLAG_UV = 0 then Some (Err UserVerificationMissing)
      else case extract_client_data_fields client_data_json of
        None \<Rightarrow> None
      | Some (Err e) \<Rightarrow> Some (Err (ClientDataError e))
      | Some (Ok cd) \<Rightarrow>
          Some (if cd_type cd \<noteq> ascii ''webauthn.get'' then Err TypeMismatch
                else if cd_origin cd \<noteq> EXPECTED_WEBAUTHN_ORIGIN then Err OriginMismatch
                else if cd_cross_origin cd then Err CrossOriginRejected
                else if cd_challenge cd \<noteq> base64url_sha256 (sha canonical_bytes) then Err ChallengeMismatch
                else Ok ()))"

definition verify_keyop_auth :: "hash \<Rightarrow> P256 \<Rightarrow> KeyOpAuth \<Rightarrow> KeyRecord list \<Rightarrow> bytes \<Rightarrow> (AuthError, unit) result option" where
  "verify_keyop_auth sha p256 authorization active_keys canonical_bytes =
     (if \<not> list_ex (\<lambda>key. kr_pubkey_sec1 key = signer_pubkey authorization \<and>
            kr_auth_scheme key = signer_auth_scheme authorization) active_keys
      then Some (Err NotACurrentKey)
      else case authorization of
        RawP256 pubkey signature \<Rightarrow> Some (verify_p256_prehash p256 pubkey signature (sha canonical_bytes))
      | WebAuthn pubkey authenticator_data client_data_json signature \<Rightarrow>
          and_then_fuel (verify_webauthn_envelope sha canonical_bytes authenticator_data client_data_json) (\<lambda>_.
            Some (verify_p256_prehash p256 pubkey signature (sha (authenticator_data @ sha client_data_json)))))"

section \<open>The reader terminates\<close>

lemma client_turn_total: "client_turn ms p \<noteq> None"
proof -
  have "client_member key ms q \<noteq> None" for key q
    using skip_fuel(1) [OF eq_refl [OF json_fuel_def [symmetric]], of q 0] by (simp add: client_member_def and_then_fuel_None del: not_None_eq)
  then show ?thesis by (auto simp: client_turn_def and_then_fuel_None simp del: not_None_eq)
qed

lemma client_loop_total: "client_loop ms p \<noteq> None"
proof (induction ms p rule: client_loop.induct)
  case (1 ms p)
  with client_turn_total [of ms p] show ?case
    by (subst client_loop.simps) (auto split: option.splits result.splits bool.splits)
qed

lemma extract_total: "extract_client_data_fields bs \<noteq> None"
  using client_loop_total by (auto simp: extract_client_data_fields_def and_then_fuel_None Let_def split: prod.splits if_splits simp del: not_None_eq)

end
