(* ===== verification/Signing.thy ===== *)
theory Signing
  imports Engine_Mm Account_Keys
begin

text \<open>
  \<open>crates/sybil-signing/src/lib.rs\<close>: the requests a client signs.  The signed bytes are a domain string followed by
  the Borsh serialization of the request.  Borsh is not part of the repository: its serializer is the parameter
  \<open>to_vec\<close>, of which the code relies on one documented fact, that values of one type with the same bytes are equal
  (the locale \<open>borsh\<close>).  The published layout of the format is an instance.
\<close>

section \<open>Requests\<close>

record CanonicalOrder =
  co_markets :: "MarketId list"
  co_num_markets :: u8
  co_payoffs :: "i8 list"
  co_num_states :: u8
  co_limit_price :: u64
  co_max_fill :: u64
  co_condition :: "PriceCondition option"
  co_expires_at_block :: "u64 option"
  co_nonce :: u64

record MmBundleOrder =
  bo_markets :: "MarketId list"
  bo_num_markets :: u8
  bo_payoffs :: "i8 list"
  bo_num_states :: u8
  bo_limit_price :: u64
  bo_max_fill :: u64
  bo_condition :: "PriceCondition option"
  bo_expires_at_block :: "u64 option"
  bo_side :: MmSide

record MmBundle =
  mb_account_id :: u64
  mb_bundle_id :: bytes
  mb_revision :: u64
  mb_orders :: "MmBundleOrder list"
  mb_max_capital :: u64
  mb_nonce :: u64

record MmBundleReplace =
  br_expected_revision :: u64
  br_replacement :: MmBundle

record MmBundleCancel =
  bc_account_id :: u64
  bc_bundle_id :: bytes
  bc_expected_revision :: u64
  bc_nonce :: u64

record BridgeWithdrawalRequest =
  bq_account_id :: u64
  bq_chain_id :: u64
  bq_vault_address :: bytes
  bq_recipient :: bytes
  bq_token_address :: bytes
  bq_amount_token_units :: u64
  bq_expiry_height :: u64
  bq_nonce :: u64

record ResolutionAttestation =
  at_market_id :: MarketId
  at_payout_nanos :: u64
  at_nonce :: u64

text \<open>The serialized structures; the first field of each is the genesis hash.\<close>

datatype SigningRequest =
    OrderRequest bytes CanonicalOrder
  | CancelRequest bytes u64 u64 u64 \<comment> \<open>account, order, nonce\<close>
  | MmBundleRequest bytes MmBundle
  | MmBundleReplaceRequest bytes MmBundleReplace
  | MmBundleCancelRequest bytes MmBundleCancel
  | ProfileUpdate bytes u64 "bytes option" "bytes option" u64 \<comment> \<open>account, display name, avatar seed, nonce\<close>
  | ApiKeyCreate bytes u64 "bytes option" u64 \<comment> \<open>account, label, nonce\<close>
  | ApiKeyRevoke bytes u64 u64 u64 \<comment> \<open>account, key, nonce\<close>
  | BridgeWithdrawalSigningRequest bytes BridgeWithdrawalRequest
  | ResolutionAttestationSigningRequest bytes ResolutionAttestation

fun request_domain :: "SigningRequest \<Rightarrow> bytes" where
  "request_domain (OrderRequest _ _) = ascii ''sybil/signing/order/v1''"
| "request_domain (CancelRequest _ _ _ _) = ascii ''sybil/signing/cancel/v1''"
| "request_domain (MmBundleRequest _ _) = ascii ''sybil/signing/mm-bundle/v1''"
| "request_domain (MmBundleReplaceRequest _ _) = ascii ''sybil/signing/mm-bundle-replace/v1''"
| "request_domain (MmBundleCancelRequest _ _) = ascii ''sybil/signing/mm-bundle-cancel/v1''"
| "request_domain (ProfileUpdate _ _ _ _ _) = ascii ''sybil/signing/profile-update/v1''"
| "request_domain (ApiKeyCreate _ _ _ _) = ascii ''sybil/signing/read-api-key-create/v1''"
| "request_domain (ApiKeyRevoke _ _ _ _) = ascii ''sybil/signing/read-api-key-revoke/v1''"
| "request_domain (BridgeWithdrawalSigningRequest _ _) = ascii ''sybil/signing/bridge-withdrawal/v1''"
| "request_domain (ResolutionAttestationSigningRequest _ _) = ascii ''sybil/signing/resolution-attestation/v1''"

type_synonym borsh_encoder = "SigningRequest \<Rightarrow> bytes"

definition domain_separated_bytes :: "borsh_encoder \<Rightarrow> bytes \<Rightarrow> SigningRequest \<Rightarrow> bytes" where
  "domain_separated_bytes to_vec domain request = domain @ to_vec request"

definition signing_order_bytes :: "borsh_encoder \<Rightarrow> CanonicalOrder \<Rightarrow> bytes \<Rightarrow> bytes" where
  "signing_order_bytes to_vec order genesis_hash =
     domain_separated_bytes to_vec (ascii ''sybil/signing/order/v1'') (OrderRequest genesis_hash order)"

definition signing_cancel_bytes :: "borsh_encoder \<Rightarrow> u64 \<Rightarrow> u64 \<Rightarrow> u64 \<Rightarrow> bytes \<Rightarrow> bytes" where
  "signing_cancel_bytes to_vec account_id order_id nonce genesis_hash =
     domain_separated_bytes to_vec (ascii ''sybil/signing/cancel/v1'') (CancelRequest genesis_hash account_id order_id nonce)"

definition signing_mm_bundle_bytes :: "borsh_encoder \<Rightarrow> MmBundle \<Rightarrow> bytes \<Rightarrow> bytes" where
  "signing_mm_bundle_bytes to_vec bundle genesis_hash =
     domain_separated_bytes to_vec (ascii ''sybil/signing/mm-bundle/v1'') (MmBundleRequest genesis_hash bundle)"

definition signing_mm_bundle_replace_bytes :: "borsh_encoder \<Rightarrow> MmBundleReplace \<Rightarrow> bytes \<Rightarrow> bytes" where
  "signing_mm_bundle_replace_bytes to_vec replacement genesis_hash =
     domain_separated_bytes to_vec (ascii ''sybil/signing/mm-bundle-replace/v1'') (MmBundleReplaceRequest genesis_hash replacement)"

definition signing_mm_bundle_cancel_bytes :: "borsh_encoder \<Rightarrow> MmBundleCancel \<Rightarrow> bytes \<Rightarrow> bytes" where
  "signing_mm_bundle_cancel_bytes to_vec cancel genesis_hash =
     domain_separated_bytes to_vec (ascii ''sybil/signing/mm-bundle-cancel/v1'') (MmBundleCancelRequest genesis_hash cancel)"

definition canonical_attestation_bytes :: "borsh_encoder \<Rightarrow> ResolutionAttestation \<Rightarrow> bytes \<Rightarrow> bytes" where
  "canonical_attestation_bytes to_vec att genesis_hash =
     domain_separated_bytes to_vec (ascii ''sybil/signing/resolution-attestation/v1'') (ResolutionAttestationSigningRequest genesis_hash att)"

definition canonical_bridge_withdrawal_bytes :: "borsh_encoder \<Rightarrow> BridgeWithdrawalRequest \<Rightarrow> bytes \<Rightarrow> bytes" where
  "canonical_bridge_withdrawal_bytes to_vec request genesis_hash =
     domain_separated_bytes to_vec (ascii ''sybil/signing/bridge-withdrawal/v1'') (BridgeWithdrawalSigningRequest genesis_hash request)"

definition canonical_profile_update_bytes :: "borsh_encoder \<Rightarrow> u64 \<Rightarrow> bytes option \<Rightarrow> bytes option \<Rightarrow> u64 \<Rightarrow> bytes \<Rightarrow> bytes" where
  "canonical_profile_update_bytes to_vec account_id display_name avatar_seed nonce genesis_hash =
     domain_separated_bytes to_vec (ascii ''sybil/signing/profile-update/v1'') (ProfileUpdate genesis_hash account_id display_name avatar_seed nonce)"

definition canonical_api_key_create_bytes :: "borsh_encoder \<Rightarrow> u64 \<Rightarrow> bytes option \<Rightarrow> u64 \<Rightarrow> bytes \<Rightarrow> bytes" where
  "canonical_api_key_create_bytes to_vec account_id label nonce genesis_hash =
     domain_separated_bytes to_vec (ascii ''sybil/signing/read-api-key-create/v1'') (ApiKeyCreate genesis_hash account_id label nonce)"

definition canonical_api_key_revoke_bytes :: "borsh_encoder \<Rightarrow> u64 \<Rightarrow> u64 \<Rightarrow> u64 \<Rightarrow> bytes \<Rightarrow> bytes" where
  "canonical_api_key_revoke_bytes to_vec account_id api_key_id nonce genesis_hash =
     domain_separated_bytes to_vec (ascii ''sybil/signing/read-api-key-revoke/v1'') (ApiKeyRevoke genesis_hash account_id api_key_id nonce)"

text \<open>The bytes of a request.\<close>

definition signed_bytes :: "borsh_encoder \<Rightarrow> SigningRequest \<Rightarrow> bytes" where
  "signed_bytes to_vec request = domain_separated_bytes to_vec (request_domain request) request"

lemma signed_bytes_entry_points:
  "signing_order_bytes to_vec ord g = signed_bytes to_vec (OrderRequest g ord)"
  "signing_cancel_bytes to_vec a i n g = signed_bytes to_vec (CancelRequest g a i n)"
  "signing_mm_bundle_bytes to_vec b g = signed_bytes to_vec (MmBundleRequest g b)"
  "signing_mm_bundle_replace_bytes to_vec r g = signed_bytes to_vec (MmBundleReplaceRequest g r)"
  "signing_mm_bundle_cancel_bytes to_vec c g = signed_bytes to_vec (MmBundleCancelRequest g c)"
  "canonical_attestation_bytes to_vec att g = signed_bytes to_vec (ResolutionAttestationSigningRequest g att)"
  "canonical_bridge_withdrawal_bytes to_vec w g = signed_bytes to_vec (BridgeWithdrawalSigningRequest g w)"
  "canonical_profile_update_bytes to_vec a dn s n g = signed_bytes to_vec (ProfileUpdate g a dn s n)"
  "canonical_api_key_create_bytes to_vec a l n g = signed_bytes to_vec (ApiKeyCreate g a l n)"
  "canonical_api_key_revoke_bytes to_vec a i n g = signed_bytes to_vec (ApiKeyRevoke g a i n)"
  by (simp_all add: signed_bytes_def signing_order_bytes_def signing_cancel_bytes_def signing_mm_bundle_bytes_def
      signing_mm_bundle_replace_bytes_def signing_mm_bundle_cancel_bytes_def canonical_attestation_bytes_def
      canonical_bridge_withdrawal_bytes_def canonical_profile_update_bytes_def canonical_api_key_create_bytes_def
      canonical_api_key_revoke_bytes_def)

section \<open>Values of the serialized types\<close>

text \<open>The arrays of the structures have their lengths, and a vector or string has a length that fits 32 bits.\<close>

definition short :: "'a list \<Rightarrow> bool" where "short xs \<longleftrightarrow> length xs < 2 ^ 32"

definition canonical_order_wf :: "CanonicalOrder \<Rightarrow> bool" where
  "canonical_order_wf ord \<longleftrightarrow> length (co_markets ord) = 5 \<and> length (co_payoffs ord) = 32"

definition bundle_order_wf :: "MmBundleOrder \<Rightarrow> bool" where
  "bundle_order_wf ord \<longleftrightarrow> length (bo_markets ord) = 5 \<and> length (bo_payoffs ord) = 32"

definition bundle_wf :: "MmBundle \<Rightarrow> bool" where
  "bundle_wf b \<longleftrightarrow> length (mb_bundle_id b) = 32 \<and> short (mb_orders b) \<and> list_all bundle_order_wf (mb_orders b)"

fun request_wf :: "SigningRequest \<Rightarrow> bool" where
  "request_wf (OrderRequest g ord) = (length g = 32 \<and> canonical_order_wf ord)"
| "request_wf (CancelRequest g a i n) = (length g = 32)"
| "request_wf (MmBundleRequest g b) = (length g = 32 \<and> bundle_wf b)"
| "request_wf (MmBundleReplaceRequest g r) = (length g = 32 \<and> bundle_wf (br_replacement r))"
| "request_wf (MmBundleCancelRequest g c) = (length g = 32 \<and> length (bc_bundle_id c) = 32)"
| "request_wf (ProfileUpdate g a dn s n) = (length g = 32 \<and> pred_option short dn \<and> pred_option short s)"
| "request_wf (ApiKeyCreate g a l n) = (length g = 32 \<and> pred_option short l)"
| "request_wf (ApiKeyRevoke g a i n) = (length g = 32)"
| "request_wf (BridgeWithdrawalSigningRequest g w) =
     (length g = 32 \<and> length (bq_vault_address w) = 20 \<and> length (bq_recipient w) = 20 \<and> length (bq_token_address w) = 20)"
| "request_wf (ResolutionAttestationSigningRequest g att) = (length g = 32)"

text \<open>No domain begins another.\<close>

definition request_domains :: "string list" where
  "request_domains = [''sybil/signing/order/v1'', ''sybil/signing/cancel/v1'', ''sybil/signing/mm-bundle/v1'',
     ''sybil/signing/mm-bundle-replace/v1'', ''sybil/signing/mm-bundle-cancel/v1'', ''sybil/signing/profile-update/v1'',
     ''sybil/signing/read-api-key-create/v1'', ''sybil/signing/read-api-key-revoke/v1'', ''sybil/signing/bridge-withdrawal/v1'',
     ''sybil/signing/resolution-attestation/v1'']"

lemma request_domain_in: "request_domain r \<in> ascii ` set request_domains"
  by (cases r) (simp_all add: request_domains_def)

lemma domains_separate: "list_all (\<lambda>d. list_all (\<lambda>e. take (length d) e = d \<longrightarrow> d = e) request_domains) request_domains"
  by (simp add: request_domains_def)

lemma ascii_simps: "length (ascii s) = length s" "take n (ascii s) = ascii (take n s)" "ascii s = ascii t \<longleftrightarrow> s = t"
proof -
  have "of_char c = (of_char d :: nat)" if "(of_nat (of_char c) :: u8) = of_nat (of_char d)" for c d :: char
  proof -
    have "(of_char c :: nat) < 256" "(of_char d :: nat) < 256" by simp_all
    with that show ?thesis by (simp add: word_unat_eq_iff unat_of_nat)
  qed
  then have "inj (\<lambda>c. of_nat (of_char c) :: u8)" by (intro injI) simp
  then show "ascii s = ascii t \<longleftrightarrow> s = t" unfolding ascii_def by (rule inj_map_eq_map)
qed (simp_all add: ascii_def take_map)

lemma domain_read_off: "request_domain r @ x = request_domain r' @ y \<Longrightarrow> request_domain r = request_domain r' \<and> x = y"
proof -
  let ?d = "request_domain r" and ?e = "request_domain r'"
  assume a: "?d @ x = ?e @ y"
  then have "take (length ?d) ?e = ?d \<or> take (length ?e) ?d = ?e"
    by (metis append_eq_append_conv_if)
  moreover have "take (length d) e = d \<Longrightarrow> d = e" if "d \<in> ascii ` set request_domains" "e \<in> ascii ` set request_domains" for d e
    using domains_separate that by (auto simp: list_all_iff ascii_simps)
  ultimately have "?d = ?e" using request_domain_in by metis
  with a show ?thesis by simp
qed

locale borsh =
  fixes to_vec :: borsh_encoder
  assumes to_vec_inj: "request_wf r \<Longrightarrow> request_wf r' \<Longrightarrow> request_domain r = request_domain r' \<Longrightarrow> to_vec r = to_vec r' \<Longrightarrow> r = r'"
begin

lemma signed_bytes_inj:
  assumes "request_wf r" "request_wf r'"
  shows "signed_bytes to_vec r = signed_bytes to_vec r' \<longleftrightarrow> r = r'"
proof
  assume a: "signed_bytes to_vec r = signed_bytes to_vec r'"
  then have "request_domain r = request_domain r'" "to_vec r = to_vec r'"
    using domain_read_off by (simp_all add: signed_bytes_def domain_separated_bytes_def)
  then show "r = r'" by (rule to_vec_inj [OF assms])
qed simp

end

section \<open>The published layout\<close>

text \<open>Little-endian integers, raw arrays, a one-byte tag for options and enumerations, a 32-bit length before a vector.\<close>

definition borsh_option :: "('a \<Rightarrow> bytes) \<Rightarrow> 'a option \<Rightarrow> bytes" where
  "borsh_option enc x = (case x of None \<Rightarrow> [0] | Some v \<Rightarrow> 1 # enc v)"

definition borsh_vec :: "('a \<Rightarrow> bytes) \<Rightarrow> 'a list \<Rightarrow> bytes" where
  "borsh_vec enc xs = le32 (of_nat (length xs)) @ concat (map enc xs)"

definition borsh_condition :: "PriceCondition \<Rightarrow> bytes" where
  "borsh_condition c = le32 (pc_market c) @ le64 (pc_threshold c) @ [case pc_direction c of Above \<Rightarrow> 0 | Below \<Rightarrow> 1]"

definition borsh_i8 :: "i8 \<Rightarrow> bytes" where "borsh_i8 x = [ucast x]"

definition borsh_order :: "CanonicalOrder \<Rightarrow> bytes" where
  "borsh_order ord = concat (map le32 (co_markets ord)) @ [co_num_markets ord] @ concat (map borsh_i8 (co_payoffs ord)) @ [co_num_states ord] @
     le64 (co_limit_price ord) @ le64 (co_max_fill ord) @ borsh_option borsh_condition (co_condition ord) @
     borsh_option le64 (co_expires_at_block ord) @ le64 (co_nonce ord)"

definition borsh_side :: "MmSide \<Rightarrow> bytes" where
  "borsh_side s = [case s of MmSellYes \<Rightarrow> 0 | MmBuyYes \<Rightarrow> 1 | MmSellNo \<Rightarrow> 2 | MmBuyNo \<Rightarrow> 3]"

definition borsh_bundle_order :: "MmBundleOrder \<Rightarrow> bytes" where
  "borsh_bundle_order ord = concat (map le32 (bo_markets ord)) @ [bo_num_markets ord] @ concat (map borsh_i8 (bo_payoffs ord)) @ [bo_num_states ord] @
     le64 (bo_limit_price ord) @ le64 (bo_max_fill ord) @ borsh_option borsh_condition (bo_condition ord) @
     borsh_option le64 (bo_expires_at_block ord) @ borsh_side (bo_side ord)"

definition borsh_bundle :: "MmBundle \<Rightarrow> bytes" where
  "borsh_bundle b = le64 (mb_account_id b) @ mb_bundle_id b @ le64 (mb_revision b) @ borsh_vec borsh_bundle_order (mb_orders b) @
     le64 (mb_max_capital b) @ le64 (mb_nonce b)"

definition borsh_string :: "bytes \<Rightarrow> bytes" where "borsh_string = borsh_vec (\<lambda>b. [b])"

fun borsh_to_vec :: borsh_encoder where
  "borsh_to_vec (OrderRequest g ord) = g @ borsh_order ord"
| "borsh_to_vec (CancelRequest g a i n) = g @ le64 a @ le64 i @ le64 n"
| "borsh_to_vec (MmBundleRequest g b) = g @ borsh_bundle b"
| "borsh_to_vec (MmBundleReplaceRequest g r) = g @ le64 (br_expected_revision r) @ borsh_bundle (br_replacement r)"
| "borsh_to_vec (MmBundleCancelRequest g c) = g @ le64 (bc_account_id c) @ bc_bundle_id c @ le64 (bc_expected_revision c) @ le64 (bc_nonce c)"
| "borsh_to_vec (ProfileUpdate g a dn s n) = g @ le64 a @ borsh_option borsh_string dn @ borsh_option borsh_string s @ le64 n"
| "borsh_to_vec (ApiKeyCreate g a l n) = g @ le64 a @ borsh_option borsh_string l @ le64 n"
| "borsh_to_vec (ApiKeyRevoke g a i n) = g @ le64 a @ le64 i @ le64 n"
| "borsh_to_vec (BridgeWithdrawalSigningRequest g w) = g @ le64 (bq_account_id w) @ le64 (bq_chain_id w) @ bq_vault_address w @ bq_recipient w @
     bq_token_address w @ le64 (bq_amount_token_units w) @ le64 (bq_expiry_height w) @ le64 (bq_nonce w)"
| "borsh_to_vec (ResolutionAttestationSigningRequest g att) = g @ le32 (at_market_id att) @ le64 (at_payout_nanos att) @ le64 (at_nonce att)"

text \<open>An encoding of values of \<open>P\<close> after which the rest of the bytes can be read off.\<close>

definition prefix_free :: "('a \<Rightarrow> bool) \<Rightarrow> ('a \<Rightarrow> bytes) \<Rightarrow> bool" where
  "prefix_free P enc \<longleftrightarrow> (\<forall>x y r s. P x \<longrightarrow> P y \<longrightarrow> enc x @ r = enc y @ s \<longrightarrow> x = y \<and> r = s)"

lemma prefix_freeD: "prefix_free P enc \<Longrightarrow> P x \<Longrightarrow> P y \<Longrightarrow> enc x @ r = enc y @ s \<longleftrightarrow> x = y \<and> r = s"
  unfolding prefix_free_def by blast

lemma fixed_width: "(\<And>x. P x \<Longrightarrow> length (enc x) = n) \<Longrightarrow> (\<And>x y. P x \<Longrightarrow> P y \<Longrightarrow> enc x = enc y \<Longrightarrow> x = y) \<Longrightarrow> prefix_free P enc"
  by (auto simp: prefix_free_def append_eq_append_conv)

lemma le_prefix_free: "prefix_free (\<lambda>_. True) le64" "prefix_free (\<lambda>_. True) le32" "prefix_free (\<lambda>_. True) borsh_i8"
  "prefix_free (\<lambda>_. True) borsh_side" "prefix_free (\<lambda>_. True) borsh_condition" "prefix_free (\<lambda>_. True) (\<lambda>b :: u8. [b])"
proof -
  show "prefix_free (\<lambda>_. True) le64" by (rule fixed_width [where n = 8]) simp_all
  show "prefix_free (\<lambda>_. True) le32" by (rule fixed_width [where n = 4]) simp_all
  show "prefix_free (\<lambda>_. True) borsh_i8" by (rule fixed_width [where n = 1]) (simp_all add: borsh_i8_def)
  show "prefix_free (\<lambda>_. True) borsh_side" by (rule fixed_width [where n = 1]) (auto simp: borsh_side_def split: MmSide.splits)
  show "prefix_free (\<lambda>_. True) (\<lambda>b :: u8. [b])" by (rule fixed_width [where n = 1]) simp_all
  show "prefix_free (\<lambda>_. True) borsh_condition"
  proof (rule fixed_width [where n = 13])
    fix x y assume "borsh_condition x = borsh_condition y"
    then show "x = y" by (cases x; cases y) (auto simp: borsh_condition_def split: ConditionDir.splits)
  qed (simp add: borsh_condition_def)
qed

lemma option_prefix_free: "prefix_free P enc \<Longrightarrow> prefix_free (pred_option P) (borsh_option enc)"
proof -
  assume p: "prefix_free P enc"
  have "x = y \<and> r = s" if e: "borsh_option enc x @ r = borsh_option enc y @ s" and "pred_option P x" "pred_option P y" for x y r s
  proof (cases x; cases y)
    fix a b
    assume "x = Some a" "y = Some b"
    with that prefix_freeD [OF p, of a b r s] show ?thesis by (simp add: borsh_option_def)
  qed (use e in \<open>simp_all add: borsh_option_def\<close>)
  then show ?thesis unfolding prefix_free_def by blast
qed

lemma concat_prefix_free:
  assumes "prefix_free P enc"
  shows "list_all P xs \<Longrightarrow> list_all P ys \<Longrightarrow> length xs = length ys \<Longrightarrow>
    concat (map enc xs) @ r = concat (map enc ys) @ s \<longleftrightarrow> xs = ys \<and> r = s"
proof (induction xs arbitrary: ys)
  case (Cons x xs)
  then obtain y zs where "ys = y # zs" by (cases ys) auto
  with Cons prefix_freeD [OF assms, of x y] show ?case by auto
qed simp

lemma vec_prefix_free:
  assumes "prefix_free P enc"
  shows "prefix_free (\<lambda>xs. short xs \<and> list_all P xs) (borsh_vec enc)"
proof -
  have "xs = ys \<and> r = s" if x: "short xs \<and> list_all P xs" and y: "short ys \<and> list_all P ys" and e: "borsh_vec enc xs @ r = borsh_vec enc ys @ s" for xs ys r s
  proof -
    from e have c: "of_nat (length xs) = (of_nat (length ys) :: u32)" "concat (map enc xs) @ r = concat (map enc ys) @ s"
      by (simp_all add: borsh_vec_def append_eq_append_conv)
    then have "length xs = length ys" using x y by (simp add: short_def word_unat_eq_iff unat_of_nat)
    with concat_prefix_free [OF assms, of xs ys r s] x y c(2) show ?thesis by simp
  qed
  then show ?thesis unfolding prefix_free_def by blast
qed

lemmas borsh_prefix_free = le_prefix_free option_prefix_free [OF le_prefix_free(5)] option_prefix_free [OF le_prefix_free(1)]

lemma pred_option_True [simp]: "pred_option (\<lambda>_. True) x"
  by (cases x) simp_all

lemmas borsh_reads = borsh_prefix_free [THEN prefix_freeD, OF _ _, simplified]

lemma order_prefix_free: "prefix_free canonical_order_wf borsh_order"
proof (unfold prefix_free_def, intro allI impI)
  fix x y r s
  assume w: "canonical_order_wf x" "canonical_order_wf y" and e: "borsh_order x @ r = borsh_order y @ s"
  have m: "concat (map le32 (co_markets x)) @ a = concat (map le32 (co_markets y)) @ b \<longleftrightarrow> co_markets x = co_markets y \<and> a = b" for a b
    using w by (intro concat_prefix_free [OF le_prefix_free(2)]) (simp_all add: canonical_order_wf_def list_all_iff)
  have p: "concat (map borsh_i8 (co_payoffs x)) @ a = concat (map borsh_i8 (co_payoffs y)) @ b \<longleftrightarrow> co_payoffs x = co_payoffs y \<and> a = b" for a b
    using w by (intro concat_prefix_free [OF le_prefix_free(3)]) (simp_all add: canonical_order_wf_def list_all_iff)
  from e show "x = y \<and> r = s" by (cases x; cases y) (use m p in \<open>simp add: borsh_order_def borsh_reads\<close>)
qed

lemma bundle_order_prefix_free: "prefix_free bundle_order_wf borsh_bundle_order"
proof (unfold prefix_free_def, intro allI impI)
  fix x y r s
  assume w: "bundle_order_wf x" "bundle_order_wf y" and e: "borsh_bundle_order x @ r = borsh_bundle_order y @ s"
  have m: "concat (map le32 (bo_markets x)) @ a = concat (map le32 (bo_markets y)) @ b \<longleftrightarrow> bo_markets x = bo_markets y \<and> a = b" for a b
    using w by (intro concat_prefix_free [OF le_prefix_free(2)]) (simp_all add: bundle_order_wf_def list_all_iff)
  have p: "concat (map borsh_i8 (bo_payoffs x)) @ a = concat (map borsh_i8 (bo_payoffs y)) @ b \<longleftrightarrow> bo_payoffs x = bo_payoffs y \<and> a = b" for a b
    using w by (intro concat_prefix_free [OF le_prefix_free(3)]) (simp_all add: bundle_order_wf_def list_all_iff)
  from e show "x = y \<and> r = s" by (cases x; cases y) (use m p in \<open>simp add: borsh_bundle_order_def borsh_reads\<close>)
qed

lemma bundle_prefix_free: "prefix_free bundle_wf borsh_bundle"
proof (unfold prefix_free_def, intro allI impI)
  fix x y r s
  assume w: "bundle_wf x" "bundle_wf y" and e: "borsh_bundle x @ r = borsh_bundle y @ s"
  have v: "borsh_vec borsh_bundle_order (mb_orders x) @ a = borsh_vec borsh_bundle_order (mb_orders y) @ b \<longleftrightarrow> mb_orders x = mb_orders y \<and> a = b" for a b
    using w by (intro prefix_freeD [OF vec_prefix_free [OF bundle_order_prefix_free]]) (simp_all add: bundle_wf_def)
  have i: "length (mb_bundle_id x) = length (mb_bundle_id y)" using w by (simp add: bundle_wf_def)
  from e show "x = y \<and> r = s" by (cases x; cases y) (use v i in \<open>simp add: borsh_bundle_def borsh_reads\<close>)
qed

lemma string_prefix_free: "prefix_free (pred_option short) (borsh_option borsh_string)"
  using option_prefix_free [OF vec_prefix_free [OF le_prefix_free(6)]] by (simp add: borsh_string_def list_all_iff)

lemma prefix_free_inj: "prefix_free P enc \<Longrightarrow> P x \<Longrightarrow> P y \<Longrightarrow> enc x = enc y \<longleftrightarrow> x = y"
  using prefix_freeD [of P enc x y "[]" "[]"] by simp

lemma same_struct:
  assumes "request_domain r = request_domain r'" "request_wf r" "request_wf r'" "borsh_to_vec r = borsh_to_vec r'"
  shows "r = r'"
proof -
  note inj = prefix_free_inj [OF order_prefix_free] prefix_free_inj [OF bundle_prefix_free] prefix_freeD [OF string_prefix_free]
    prefix_free_inj [OF string_prefix_free]
  note d = assms(1) and w = assms(2,3) and e = assms(4)
  show ?thesis
  proof (cases r)
    case (OrderRequest g x)
    with d obtain g' x' where "r' = OrderRequest g' x'" by (cases r') (auto simp: ascii_def)
    with OrderRequest w e show ?thesis by (simp add: append_eq_append_conv inj)
  next
    case (CancelRequest g a i n)
    with d obtain g' a' i' n' where "r' = CancelRequest g' a' i' n'" by (cases r') (auto simp: ascii_def)
    with CancelRequest w e show ?thesis by (simp add: append_eq_append_conv)
  next
    case (MmBundleRequest g x)
    with d obtain g' x' where "r' = MmBundleRequest g' x'" by (cases r') (auto simp: ascii_def)
    with MmBundleRequest w e show ?thesis by (simp add: append_eq_append_conv inj)
  next
    case (MmBundleReplaceRequest g x)
    with d obtain g' x' where "r' = MmBundleReplaceRequest g' x'" by (cases r') (auto simp: ascii_def)
    with MmBundleReplaceRequest w e show ?thesis by (cases x; cases x') (simp add: append_eq_append_conv inj)
  next
    case (MmBundleCancelRequest g x)
    with d obtain g' x' where "r' = MmBundleCancelRequest g' x'" by (cases r') (auto simp: ascii_def)
    with MmBundleCancelRequest w e show ?thesis by (cases x; cases x') (simp add: append_eq_append_conv)
  next
    case (ProfileUpdate g a dn s n)
    with d obtain g' a' dn' s' n' where "r' = ProfileUpdate g' a' dn' s' n'" by (cases r') (auto simp: ascii_def)
    with ProfileUpdate w e show ?thesis by (simp add: append_eq_append_conv inj)
  next
    case (ApiKeyCreate g a l n)
    with d obtain g' a' l' n' where "r' = ApiKeyCreate g' a' l' n'" by (cases r') (auto simp: ascii_def)
    with ApiKeyCreate w e show ?thesis by (simp add: append_eq_append_conv inj)
  next
    case (ApiKeyRevoke g a i n)
    with d obtain g' a' i' n' where "r' = ApiKeyRevoke g' a' i' n'" by (cases r') (auto simp: ascii_def)
    with ApiKeyRevoke w e show ?thesis by (simp add: append_eq_append_conv)
  next
    case (BridgeWithdrawalSigningRequest g x)
    with d obtain g' x' where "r' = BridgeWithdrawalSigningRequest g' x'" by (cases r') (auto simp: ascii_def)
    with BridgeWithdrawalSigningRequest w e show ?thesis by (cases x; cases x') (simp add: append_eq_append_conv)
  next
    case (ResolutionAttestationSigningRequest g x)
    with d obtain g' x' where "r' = ResolutionAttestationSigningRequest g' x'" by (cases r') (auto simp: ascii_def)
    with ResolutionAttestationSigningRequest w e show ?thesis by (cases x; cases x') (simp add: append_eq_append_conv)
  qed
qed

interpretation layout: borsh borsh_to_vec
  by unfold_locales (rule same_struct)

section \<open>Properties\<close>

text \<open>C17: a signature covers one request only.  For a serializer that satisfies the contract of Borsh, two requests of
  any kinds (orders, cancellations, market-maker bundles, their replacement and cancellation, profile updates,
  API keys, withdrawals, resolution attestations) have the same signed bytes only if they are the same request of
  the same kind for the same deployment.\<close>

theorem signed_bytes_injective:
  assumes "borsh to_vec" "request_wf r" "request_wf r'"
  shows "signed_bytes to_vec r = signed_bytes to_vec r' \<longleftrightarrow> r = r'"
  using assms by (rule borsh.signed_bytes_inj)

theorem signed_bytes_injective_witness:
  "signed_bytes borsh_to_vec (CancelRequest (replicate 32 1) 7 42 11) \<noteq> signed_bytes borsh_to_vec (ApiKeyRevoke (replicate 32 1) 7 42 11)"
  using signed_bytes_injective [OF layout.borsh_axioms, of "CancelRequest (replicate 32 1) 7 42 11" "ApiKeyRevoke (replicate 32 1) 7 42 11"] by simp

end
