(* ===== verification/Client_Action.thy ===== *)
theory Client_Action
  imports Signing Passes Sample_Block
begin

text \<open>
  \<open>crates/sybil-verifier/src/client_action.rs\<close>: the bytes a client signs for an order, a cancellation or a
  market-maker bundle, and the layer of the verifier that binds every authorization event of a block to the effect
  it authorized.
\<close>

section \<open>Canonical bytes\<close>

definition to_canonical_order :: "Order \<Rightarrow> u64 \<Rightarrow> CanonicalOrder" where
  "to_canonical_order ord nonce =
     \<lparr> co_markets = take MAX_MARKETS_PER_ORDER (o_markets ord) @ replicate (MAX_MARKETS_PER_ORDER - length (o_markets ord)) market_none,
       co_num_markets = o_num_markets ord, co_payoffs = o_payoffs ord, co_num_states = o_num_states ord,
       co_limit_price = o_limit_price ord, co_max_fill = o_max_fill ord, co_condition = o_condition ord,
       co_expires_at_block = o_expires_at_block ord, co_nonce = nonce \<rparr>"

definition canonical_order_bytes :: "borsh_encoder \<Rightarrow> Order \<Rightarrow> u64 \<Rightarrow> bytes \<Rightarrow> bytes" where
  "canonical_order_bytes to_vec ord nonce genesis_hash = signing_order_bytes to_vec (to_canonical_order ord nonce) genesis_hash"

definition canonical_cancel_bytes :: "borsh_encoder \<Rightarrow> u64 \<Rightarrow> u64 \<Rightarrow> u64 \<Rightarrow> bytes \<Rightarrow> bytes" where
  "canonical_cancel_bytes to_vec account_id order_id nonce genesis_hash = signing_cancel_bytes to_vec account_id order_id nonce genesis_hash"

definition to_canonical_mm_bundle_order :: "Order \<Rightarrow> MmSide \<Rightarrow> MmBundleOrder" where
  "to_canonical_mm_bundle_order ord side =
     (let canonical = to_canonical_order ord 0
      in \<lparr> bo_markets = co_markets canonical, bo_num_markets = co_num_markets canonical, bo_payoffs = co_payoffs canonical,
           bo_num_states = co_num_states canonical, bo_limit_price = co_limit_price canonical, bo_max_fill = co_max_fill canonical,
           bo_condition = co_condition canonical, bo_expires_at_block = co_expires_at_block canonical, bo_side = side \<rparr>)"

datatype ClientError =
    SidesMismatch | RevisionExhausted | RevisionNotNext | DuplicateResult u64 | AlreadyResting u64 | AuthorizedTwice u64
  | NoEffect u64 | NoCancellation u64 | NonzeroRevision u64 | EmptyOrMismatchedBundle | MmNoResult u64 | PartiallyAdmitted nat nat
  | NoExactConstraint | RetainedConstraint u64

definition bundle_orders :: "Order list \<Rightarrow> MmSide list \<Rightarrow> MmBundleOrder list" where
  "bundle_orders orders sides = map (\<lambda>(ord, side). to_canonical_mm_bundle_order ord side) (zip orders sides)"

definition canonical_mm_bundle_bytes ::
  "borsh_encoder \<Rightarrow> u64 \<Rightarrow> bytes \<Rightarrow> u64 \<Rightarrow> Order list \<Rightarrow> MmSide list \<Rightarrow> Nanos \<Rightarrow> u64 \<Rightarrow> bytes \<Rightarrow> (ClientError, bytes) result"
where
  "canonical_mm_bundle_bytes to_vec account_id bundle_id revision orders order_sides max_capital nonce genesis_hash =
     (if length orders \<noteq> length order_sides then Err SidesMismatch
      else Ok (signing_mm_bundle_bytes to_vec
        \<lparr> mb_account_id = account_id, mb_bundle_id = bundle_id, mb_revision = revision, mb_orders = bundle_orders orders order_sides,
          mb_max_capital = max_capital, mb_nonce = nonce \<rparr> genesis_hash))"

definition canonical_mm_bundle_replace_bytes ::
  "borsh_encoder \<Rightarrow> u64 \<Rightarrow> bytes \<Rightarrow> u64 \<Rightarrow> u64 \<Rightarrow> Order list \<Rightarrow> MmSide list \<Rightarrow> Nanos \<Rightarrow> u64 \<Rightarrow> bytes \<Rightarrow> (ClientError, bytes) result"
where
  "canonical_mm_bundle_replace_bytes to_vec account_id bundle_id expected_revision new_revision orders order_sides max_capital nonce genesis_hash =
     and_then (ok_or RevisionExhausted (add_u64 expected_revision 1)) (\<lambda>next.
       if new_revision \<noteq> next then Err RevisionNotNext
       else if length orders \<noteq> length order_sides then Err SidesMismatch
       else Ok (signing_mm_bundle_replace_bytes to_vec
         \<lparr> br_expected_revision = expected_revision,
           br_replacement = \<lparr> mb_account_id = account_id, mb_bundle_id = bundle_id, mb_revision = new_revision,
             mb_orders = bundle_orders orders order_sides, mb_max_capital = max_capital, mb_nonce = nonce \<rparr> \<rparr> genesis_hash))"

definition canonical_mm_bundle_cancel_bytes :: "borsh_encoder \<Rightarrow> u64 \<Rightarrow> bytes \<Rightarrow> u64 \<Rightarrow> u64 \<Rightarrow> bytes \<Rightarrow> bytes" where
  "canonical_mm_bundle_cancel_bytes to_vec account_id bundle_id expected_revision nonce genesis_hash =
     signing_mm_bundle_cancel_bytes to_vec
       \<lparr> bc_account_id = account_id, bc_bundle_id = bundle_id, bc_expected_revision = expected_revision, bc_nonce = nonce \<rparr> genesis_hash"

section \<open>What the block did with every order\<close>

type_synonym Results = "(u64, u64 \<times> Order) omap"

definition insert_result :: "u64 \<Rightarrow> Order \<Rightarrow> Results \<Rightarrow> (ClientError, Results) result" where
  "insert_result account_id ord results =
     (if lookup results (o_id ord) \<noteq> None then Err (DuplicateResult (o_id ord)) else Ok (om_ins (o_id ord) (account_id, ord) results))"

fun index_results :: "(u64 \<times> Order) list \<Rightarrow> Results \<Rightarrow> (ClientError, Results) result" where
  "index_results [] results = Ok results"
| "index_results ((account_id, ord) # rest) results = and_then (insert_result account_id ord results) (index_results rest)"

definition or_insert_resting :: "RestingOrderSnapshot \<Rightarrow> Results \<Rightarrow> Results" where
  "or_insert_resting resting results =
     (if lookup results (o_id (ro_order resting)) = None
      then om_ins (o_id (ro_order resting)) (ro_account_id resting, ro_order resting) results else results)"

definition order_results :: "BlockWitness \<Rightarrow> (ClientError, Results) result" where
  "order_results w =
     and_then (index_results (map (\<lambda>accepted. (wo_account_id accepted, wo_order accepted)) (bw_orders w)) om_empty) (\<lambda>results.
     and_then (index_results (map (\<lambda>rejected. (wr_account_id rejected, wr_order rejected)) (bw_rejections w)) results) (\<lambda>results.
     Ok (fold or_insert_resting (sc_resting_orders (bw_state_sidecar w)) results)))"

definition accepted_mm :: "BlockWitness \<Rightarrow> u64 list" where
  "accepted_mm w = map (\<lambda>accepted. o_id (wo_order accepted)) (filter wo_is_mm (bw_orders w))"

definition rejected_ids :: "BlockWitness \<Rightarrow> u64 list" where
  "rejected_ids w = map (\<lambda>rejected. o_id (wr_order rejected)) (bw_rejections w)"

definition pre_resting :: "BlockWitness \<Rightarrow> u64 list" where
  "pre_resting w = map (\<lambda>resting. o_id (ro_order resting)) (sc_resting_orders (bw_pre_state_sidecar w))"

section \<open>Bundles\<close>

type_synonym Authorized = "(u64, nat \<times> u64) omap"

fun bind_mm_orders ::
  "u64 list \<Rightarrow> Results \<Rightarrow> nat \<Rightarrow> u64 \<Rightarrow> Order list \<Rightarrow> u64 list \<times> Authorized \<Rightarrow> (ClientError, u64 list \<times> Authorized) result"
where
  "bind_mm_orders pre results event_index account_id [] (ids, authorized) = Ok (ids, authorized)"
| "bind_mm_orders pre results event_index account_id (ord # orders) (ids, authorized) =
     (if o_id ord \<in> set pre then Err (AlreadyResting (o_id ord))
      else if o_id ord \<in> set ids \<or> lookup authorized (o_id ord) \<noteq> None then Err (AuthorizedTwice (o_id ord))
      else if lookup results (o_id ord) \<noteq> Some (account_id, ord) then Err (MmNoResult (o_id ord))
      else bind_mm_orders pre results event_index account_id orders
        (ids @ [o_id ord], om_ins (o_id ord) (event_index, account_id) authorized))"

definition exact_constraint :: "u64 \<Rightarrow> Order list \<Rightarrow> MmSide list \<Rightarrow> Nanos \<Rightarrow> MmConstraint \<Rightarrow> bool" where
  "exact_constraint account_id orders order_sides max_capital constraint \<longleftrightarrow>
     mm_id constraint = account_id \<and> mm_max_capital constraint = max_capital \<and>
     length (mm_order_ids constraint) = length orders \<and> length (entries (mm_order_sides constraint)) = length orders \<and>
     list_all (\<lambda>(ord, side). o_id ord \<in> set (mm_order_ids constraint) \<and> lookup (mm_order_sides constraint) (o_id ord) = Some side)
       (zip orders order_sides)"

definition verify_mm_bundle_binding ::
  "BlockWitness \<Rightarrow> Results \<Rightarrow> Authorized \<Rightarrow> nat \<Rightarrow> u64 \<Rightarrow> Order list \<Rightarrow> MmSide list \<Rightarrow> Nanos \<Rightarrow> (ClientError, Authorized) result"
where
  "verify_mm_bundle_binding w results authorized event_index account_id orders order_sides max_capital =
     (if orders = [] \<or> length orders \<noteq> length order_sides then Err EmptyOrMismatchedBundle
      else and_then (bind_mm_orders (pre_resting w) results event_index account_id orders ([], authorized)) (\<lambda>(ids, authorized).
        let accepted = length (filter (\<lambda>i. i \<in> set (accepted_mm w)) ids);
            rejected = length (filter (\<lambda>i. i \<in> set (rejected_ids w)) ids)
        in if accepted \<noteq> length ids \<and> rejected \<noteq> length ids then Err (PartiallyAdmitted accepted rejected)
           else if list_ex (exact_constraint account_id orders order_sides max_capital) (bw_mm_constraints w) then Ok authorized
           else Err NoExactConstraint))"

section \<open>Authorizations and their effects\<close>

fun cancels :: "u64 \<Rightarrow> u64 \<Rightarrow> SystemEventWitness \<Rightarrow> bool" where
  "cancels account_id order_id (OrderCancelled cancelled_account cancelled_order market_ids side remaining) =
     (cancelled_account = account_id \<and> cancelled_order = order_id)"
| "cancels account_id order_id _ = False"

fun resolves :: "Order \<Rightarrow> SystemEventWitness \<Rightarrow> bool" where
  "resolves ord (MarketResolved market_id payout affected) = (market_id \<in> set (active_markets ord))"
| "resolves ord _ = False"

fun opens_bundle :: "u64 \<Rightarrow> SystemEventWitness \<Rightarrow> bool" where
  "opens_bundle account_id (ClientActionAuthorized (CaMmBundle later_account _ _ _ _ _ _ _)) = (later_account = account_id)"
| "opens_bundle account_id (ClientActionAuthorized (CaMmBundleReplace later_account _ _ _ _ _ _ _ _)) = (later_account = account_id)"
| "opens_bundle account_id _ = False"

definition bind_action ::
  "BlockWitness \<Rightarrow> Results \<Rightarrow> nat \<Rightarrow> SystemEventWitness list \<Rightarrow> ClientActionWitness \<Rightarrow> Authorized \<Rightarrow> (ClientError, Authorized) result"
where
  "bind_action w results index later action authorized = (case action of
     CaOrder account_id ord nonce auth \<Rightarrow>
       (if o_id ord \<in> set (pre_resting w) then Err (AlreadyResting (o_id ord))
        else if lookup authorized (o_id ord) \<noteq> None then Err (AuthorizedTwice (o_id ord))
        else if lookup results (o_id ord) \<noteq> Some (account_id, ord) \<and> \<not> list_ex (cancels account_id (o_id ord)) later \<and>
                \<not> list_ex (resolves ord) later then Err (NoEffect (o_id ord))
        else Ok (om_ins (o_id ord) (index, account_id) authorized))
   | CaCancel account_id order_id nonce auth \<Rightarrow>
       (if list_ex (cancels account_id order_id) later then Ok authorized else Err (NoCancellation order_id))
   | CaMmBundle account_id bundle_id revision orders order_sides max_capital nonce auth \<Rightarrow>
       (if revision \<noteq> 0 then Err (NonzeroRevision revision)
        else verify_mm_bundle_binding w results authorized index account_id orders order_sides max_capital)
   | CaMmBundleReplace account_id bundle_id expected_revision new_revision orders order_sides max_capital nonce auth \<Rightarrow>
       and_then (ok_or RevisionExhausted (add_u64 expected_revision 1)) (\<lambda>next.
         if new_revision \<noteq> next then Err RevisionNotNext
         else verify_mm_bundle_binding w results authorized index account_id orders order_sides max_capital)
   | CaMmBundleCancel account_id bundle_id expected_revision nonce auth \<Rightarrow>
       (if \<not> list_ex (opens_bundle account_id) later \<and> list_ex (\<lambda>constraint. mm_id constraint = account_id) (bw_mm_constraints w)
        then Err (RetainedConstraint account_id) else Ok authorized))"

fun bind_events ::
  "BlockWitness \<Rightarrow> Results \<Rightarrow> nat \<Rightarrow> SystemEventWitness list \<Rightarrow> Authorized \<Rightarrow> (ClientError, Authorized) result"
where
  "bind_events w results index [] authorized = Ok authorized"
| "bind_events w results index (ClientActionAuthorized action # later) authorized =
     and_then (bind_action w results index later action authorized) (bind_events w results (Suc index) later)"
| "bind_events w results index (event # later) authorized = bind_events w results (Suc index) later authorized"

definition verify_bindings :: "BlockWitness \<Rightarrow> (ClientError, unit) result" where
  "verify_bindings w = and_then (order_results w) (\<lambda>results.
     and_then (bind_events w results 0 (bw_system_events w) om_empty) (\<lambda>authorized. Ok ()))"

definition verify_client_action_bindings :: "BlockWitness \<Rightarrow> VerificationResult" where
  "verify_client_action_bindings w =
     (case verify_bindings w of Ok _ \<Rightarrow> from_violations [] | Err details \<Rightarrow> from_violations [ClientActionMismatch])"

section \<open>What the checks mean\<close>

lemma index_results_ok:
  "index_results xs m = Ok m' \<Longrightarrow>
     distinct (map (\<lambda>x. o_id (snd x)) xs) \<and> (\<forall>x \<in> set xs. lookup m (o_id (snd x)) = None) \<and>
     (\<forall>i v. lookup m' i = Some v \<longleftrightarrow> lookup m i = Some v \<or> v \<in> set xs \<and> o_id (snd v) = i)"
proof (induction xs arbitrary: m)
  case (Cons x xs)
  obtain a ord where x: "x = (a, ord)" by fastforce
  have n: "lookup m (o_id ord) = None" using Cons.prems x by (cases "lookup m (o_id ord)") (auto simp: insert_result_def)
  with Cons.prems x have r: "index_results xs (om_ins (o_id ord) x m) = Ok m'" by (auto simp: insert_result_def)
  note ih = Cons.IH [OF r]
  have fresh: "o_id (snd y) \<noteq> o_id ord \<and> lookup m (o_id (snd y)) = None" if "y \<in> set xs" for y
  proof -
    have "lookup (om_ins (o_id ord) x m) (o_id (snd y)) = None" using ih that by blast
    then show ?thesis by (cases "o_id (snd y) = o_id ord") simp_all
  qed
  have "lookup m' i = Some v \<longleftrightarrow> lookup m i = Some v \<or> v \<in> set (x # xs) \<and> o_id (snd v) = i" for i v
  proof -
    have "lookup m' i = Some v \<longleftrightarrow> lookup (om_ins (o_id ord) x m) i = Some v \<or> v \<in> set xs \<and> o_id (snd v) = i" using ih by blast
    then show ?thesis using n x by (cases "i = o_id ord") auto
  qed
  moreover have "distinct (map (\<lambda>x. o_id (snd x)) (x # xs))"
  proof -
    have "o_id ord \<notin> (\<lambda>y. o_id (snd y)) ` set xs" using fresh by fastforce
    with ih x show ?thesis by simp
  qed
  ultimately show ?case using fresh n x by simp
qed simp

text \<open>An event list with a position: what came before and what comes later.\<close>

lemma bind_events_split:
  "bind_events w results index (pre @ ClientActionAuthorized action # later) authorized = Ok authorized' \<Longrightarrow>
     \<exists>before after. bind_action w results (index + length pre) later action before = Ok after"
proof (induction pre arbitrary: index authorized)
  case Nil
  then show ?case by (auto simp: opt)
next
  case (Cons e pre)
  then obtain mid where "bind_events w results (Suc index) (pre @ ClientActionAuthorized action # later) mid = Ok authorized'"
    by (cases e) (auto simp: opt)
  from Cons.IH [OF this] show ?case by simp
qed

text \<open>The effects a client sees.\<close>

definition committed_result :: "BlockWitness \<Rightarrow> u64 \<Rightarrow> Order \<Rightarrow> bool" where
  "committed_result w a ord \<longleftrightarrow> (\<exists>wo \<in> set (bw_orders w). wo_account_id wo = a \<and> wo_order wo = ord) \<or>
     (\<exists>wr \<in> set (bw_rejections w). wr_account_id wr = a \<and> wr_order wr = ord) \<or>
     (\<exists>r \<in> set (sc_resting_orders (bw_state_sidecar w)). ro_account_id r = a \<and> ro_order r = ord)"

definition bundle_admitted :: "BlockWitness \<Rightarrow> u64 \<Rightarrow> Order list \<Rightarrow> bool" where
  "bundle_admitted w a orders \<longleftrightarrow>
     (\<forall>ord \<in> set orders. \<exists>wo \<in> set (bw_orders w). wo_account_id wo = a \<and> wo_order wo = ord \<and> wo_is_mm wo) \<or>
     (\<forall>ord \<in> set orders. \<exists>wr \<in> set (bw_rejections w). wr_account_id wr = a \<and> wr_order wr = ord)"

definition bundle_budget :: "BlockWitness \<Rightarrow> u64 \<Rightarrow> Order list \<Rightarrow> MmSide list \<Rightarrow> Nanos \<Rightarrow> bool" where
  "bundle_budget w a orders sides capital \<longleftrightarrow> (\<exists>c \<in> set (bw_mm_constraints w). mm_id c = a \<and> mm_max_capital c = capital \<and>
     set (mm_order_ids c) = o_id ` set orders \<and> (\<forall>(ord, side) \<in> set (zip orders sides). lookup (mm_order_sides c) (o_id ord) = Some side))"

definition bundle_effect :: "BlockWitness \<Rightarrow> u64 \<Rightarrow> Order list \<Rightarrow> MmSide list \<Rightarrow> Nanos \<Rightarrow> bool" where
  "bundle_effect w a orders sides capital \<longleftrightarrow> orders \<noteq> [] \<and> length orders = length sides \<and> distinct (map o_id orders) \<and>
     set (map o_id orders) \<inter> set (pre_resting w) = {} \<and> bundle_admitted w a orders \<and> bundle_budget w a orders sides capital"

fun effect :: "BlockWitness \<Rightarrow> SystemEventWitness list \<Rightarrow> ClientActionWitness \<Rightarrow> bool" where
  "effect w later (CaOrder a ord n auth) =
     (o_id ord \<notin> set (pre_resting w) \<and> (committed_result w a ord \<or> (\<exists>e \<in> set later. cancels a (o_id ord) e) \<or> (\<exists>e \<in> set later. resolves ord e)))"
| "effect w later (CaCancel a i n auth) = (\<exists>e \<in> set later. cancels a i e)"
| "effect w later (CaMmBundle a b revision orders sides capital n auth) = (revision = 0 \<and> bundle_effect w a orders sides capital)"
| "effect w later (CaMmBundleReplace a b revision new_revision orders sides capital n auth) =
     (uint new_revision = uint revision + 1 \<and> bundle_effect w a orders sides capital)"
| "effect w later (CaMmBundleCancel a b revision n auth) =
     ((\<exists>e \<in> set later. opens_bundle a e) \<or> (\<forall>c \<in> set (bw_mm_constraints w). mm_id c \<noteq> a))"

fun action_orders :: "ClientActionWitness \<Rightarrow> u64 list" where
  "action_orders (CaOrder a ord n auth) = [o_id ord]"
| "action_orders (CaMmBundle a b revision orders sides capital n auth) = map o_id orders"
| "action_orders (CaMmBundleReplace a b revision new_revision orders sides capital n auth) = map o_id orders"
| "action_orders _ = []"

fun authorized_orders :: "SystemEventWitness list \<Rightarrow> u64 list" where
  "authorized_orders [] = []"
| "authorized_orders (ClientActionAuthorized action # es) = action_orders action @ authorized_orders es"
| "authorized_orders (e # es) = authorized_orders es"

section \<open>Bundles are admitted whole\<close>

lemma bind_mm_orders_ok:
  "bind_mm_orders pre results index a orders (ids, authorized) = Ok (ids', authorized') \<Longrightarrow>
     ids' = ids @ map o_id orders \<and> distinct (map o_id orders) \<and> set (map o_id orders) \<inter> set pre = {} \<and>
     (\<forall>ord \<in> set orders. lookup results (o_id ord) = Some (a, ord) \<and> lookup authorized (o_id ord) = None \<and> o_id ord \<notin> set ids) \<and>
     (\<forall>i. lookup authorized' i = None \<longleftrightarrow> lookup authorized i = None \<and> i \<notin> set (map o_id orders))"
proof (induction orders arbitrary: ids authorized)
  case (Cons ord orders)
  let ?i = "o_id ord"
  have n: "lookup authorized ?i = None" using Cons.prems by (cases "lookup authorized ?i") (auto split: if_splits)
  with Cons.prems have c: "?i \<notin> set pre" "?i \<notin> set ids" "lookup results ?i = Some (a, ord)"
    and r: "bind_mm_orders pre results index a orders (ids @ [?i], om_ins ?i (index, a) authorized) = Ok (ids', authorized')"
    by (auto split: if_splits)
  from Cons.IH [OF r] n c show ?case by (auto simp del: split_paired_All split_paired_Ex not_None_eq not_Some_eq split: if_splits)
qed simp

lemma order_results_ok:
  assumes "order_results w = Ok results"
  shows "distinct (map (\<lambda>wo. o_id (wo_order wo)) (bw_orders w) @ rejected_ids w)"
    "lookup results i = Some (a, ord) \<Longrightarrow> o_id ord = i \<and> committed_result w a ord"
    "wo \<in> set (bw_orders w) \<Longrightarrow> lookup results (o_id (wo_order wo)) = Some (wo_account_id wo, wo_order wo)"
    "wr \<in> set (bw_rejections w) \<Longrightarrow> lookup results (o_id (wr_order wr)) = Some (wr_account_id wr, wr_order wr)"
proof -
  let ?A = "map (\<lambda>accepted. (wo_account_id accepted, wo_order accepted)) (bw_orders w)"
  let ?R = "map (\<lambda>rejected. (wr_account_id rejected, wr_order rejected)) (bw_rejections w)"
  let ?S = "sc_resting_orders (bw_state_sidecar w)"
  from assms obtain m1 m2 where m: "index_results ?A om_empty = Ok m1" "index_results ?R m1 = Ok m2" "results = fold or_insert_resting ?S m2"
    by (auto simp: order_results_def opt)
  note a = index_results_ok [OF m(1)] and r = index_results_ok [OF m(2)]
  have "lookup (or_insert_resting s x) i = Some v" if "lookup x i = Some v" for s x i v
    using that by (auto simp: or_insert_resting_def)
  then have keep: "lookup (fold or_insert_resting rs x) i = Some v" if "lookup x i = Some v" for rs x i v
    using that by (induction rs arbitrary: x) simp_all
  have from_resting: "lookup x i = Some (b, u) \<or> (\<exists>s \<in> set rs. ro_account_id s = b \<and> ro_order s = u \<and> o_id u = i)"
    if "lookup (fold or_insert_resting rs x) i = Some (b, u)" for rs x i b u
    using that
  proof (induction rs arbitrary: x)
    case (Cons s rs)
    then have "lookup (fold or_insert_resting rs (or_insert_resting s x)) i = Some (b, u)" by simp
    from Cons.IH [OF this] show ?case by (auto simp: or_insert_resting_def split: if_splits)
  qed simp
  have m2: "lookup m2 i = Some v \<longleftrightarrow> v \<in> set ?A \<union> set ?R \<and> o_id (snd v) = i" for i v
  proof -
    have "lookup m1 i = Some v \<longleftrightarrow> lookup om_empty i = Some v \<or> v \<in> set ?A \<and> o_id (snd v) = i" using a by blast
    then have "lookup m1 i = Some v \<longleftrightarrow> v \<in> set ?A \<and> o_id (snd v) = i" by simp
    moreover have "lookup m2 i = Some v \<longleftrightarrow> lookup m1 i = Some v \<or> v \<in> set ?R \<and> o_id (snd v) = i" using r by blast
    ultimately show ?thesis by blast
  qed
  show "wo \<in> set (bw_orders w) \<Longrightarrow> lookup results (o_id (wo_order wo)) = Some (wo_account_id wo, wo_order wo)"
    using keep m2 by (auto simp: m(3))
  show "wr \<in> set (bw_rejections w) \<Longrightarrow> lookup results (o_id (wr_order wr)) = Some (wr_account_id wr, wr_order wr)"
    using keep m2 by (auto simp: m(3))
  show "lookup results i = Some (a, ord) \<Longrightarrow> o_id ord = i \<and> committed_result w a ord"
    using from_resting [of ?S m2 i a ord] m2 [of i "(a, ord)"] by (auto simp: m(3) committed_result_def)
  have d: "distinct (map (\<lambda>wo. o_id (wo_order wo)) (bw_orders w))" "distinct (rejected_ids w)"
    using a r by (simp_all add: rejected_ids_def comp_def)
  moreover have "o_id (wr_order wr) \<noteq> o_id (wo_order wo)" if "wo \<in> set (bw_orders w)" "wr \<in> set (bw_rejections w)" for wo wr
  proof -
    have "(wo_account_id wo, wo_order wo) \<in> set ?A" using that(1) by simp
    with a have "lookup m1 (o_id (snd (wo_account_id wo, wo_order wo))) = Some (wo_account_id wo, wo_order wo)" by blast
    then have "lookup m1 (o_id (wo_order wo)) = Some (wo_account_id wo, wo_order wo)" by simp
    moreover have "lookup m1 (o_id (wr_order wr)) = None" using r that(2) by (force simp del: not_None_eq)
    ultimately show ?thesis by auto
  qed
  then have "set (map (\<lambda>wo. o_id (wo_order wo)) (bw_orders w)) \<inter> set (rejected_ids w) = {}" by (fastforce simp: rejected_ids_def)
  ultimately show "distinct (map (\<lambda>wo. o_id (wo_order wo)) (bw_orders w) @ rejected_ids w)" by simp
qed

lemma mm_binding_ok:
  assumes "verify_mm_bundle_binding w results authorized index a orders sides capital = Ok authorized'" "order_results w = Ok results"
  shows "bundle_effect w a orders sides capital \<and> (\<forall>ord \<in> set orders. lookup authorized (o_id ord) = None) \<and>
    (\<forall>i. lookup authorized' i = None \<longleftrightarrow> lookup authorized i = None \<and> i \<notin> set (map o_id orders))"
proof -
  from assms(1) obtain ids where b: "bind_mm_orders (pre_resting w) results index a orders ([], authorized) = Ok (ids, authorized')"
    and s: "orders \<noteq> []" "length orders = length sides"
    and c: "list_ex (exact_constraint a orders sides capital) (bw_mm_constraints w)"
    and adm: "length (filter (\<lambda>i. i \<in> set (accepted_mm w)) ids) = length ids \<or> length (filter (\<lambda>i. i \<in> set (rejected_ids w)) ids) = length ids"
    by (auto simp: verify_mm_bundle_binding_def opt Let_def split: if_splits)
  note o = bind_mm_orders_ok [OF b]
  have ids: "ids = map o_id orders" using o by simp
  have all: "length (filter P xs) = length xs \<longleftrightarrow> (\<forall>x \<in> set xs. P x)" for P and xs :: "u64 list"
    by (metis filter_True length_filter_less less_irrefl)
  have res: "lookup results (o_id ord) = Some (a, ord)" if "ord \<in> set orders" for ord using o that by blast
  have "bundle_admitted w a orders"
    using adm
  proof
    assume "length (filter (\<lambda>i. i \<in> set (accepted_mm w)) ids) = length ids"
    then have acc: "\<forall>i \<in> set ids. i \<in> set (accepted_mm w)" by (simp only: all)
    have "\<exists>wo \<in> set (bw_orders w). wo_account_id wo = a \<and> wo_order wo = ord \<and> wo_is_mm wo" if "ord \<in> set orders" for ord
    proof -
      have "o_id ord \<in> set (accepted_mm w)" using acc that by (simp add: ids)
      then obtain wo where wo: "wo \<in> set (bw_orders w)" "wo_is_mm wo" "o_id (wo_order wo) = o_id ord" by (auto simp: accepted_mm_def)
      have "Some (wo_account_id wo, wo_order wo) = Some (a, ord)"
        using order_results_ok(3) [OF assms(2) wo(1)] res [OF that] by (simp only: wo(3))
      with wo(1,2) show ?thesis by (intro bexI [of _ wo]) simp_all
    qed
    then show ?thesis by (simp add: bundle_admitted_def)
  next
    assume "length (filter (\<lambda>i. i \<in> set (rejected_ids w)) ids) = length ids"
    then have acc: "\<forall>i \<in> set ids. i \<in> set (rejected_ids w)" by (simp only: all)
    have "\<exists>wr \<in> set (bw_rejections w). wr_account_id wr = a \<and> wr_order wr = ord" if "ord \<in> set orders" for ord
    proof -
      have "o_id ord \<in> set (rejected_ids w)" using acc that by (simp add: ids)
      then obtain wr where wr: "wr \<in> set (bw_rejections w)" "o_id (wr_order wr) = o_id ord" by (auto simp: rejected_ids_def)
      have "Some (wr_account_id wr, wr_order wr) = Some (a, ord)"
        using order_results_ok(4) [OF assms(2) wr(1)] res [OF that] by (simp only: wr(2))
      with wr(1) show ?thesis by (intro bexI [of _ wr]) simp_all
    qed
    then show ?thesis by (simp add: bundle_admitted_def)
  qed
  moreover have "bundle_budget w a orders sides capital"
  proof -
    from c obtain k where k: "k \<in> set (bw_mm_constraints w)" "exact_constraint a orders sides capital k" by (auto simp: list_ex_iff)
    have z: "o_id ord \<in> set (mm_order_ids k) \<and> lookup (mm_order_sides k) (o_id ord) = Some side" if "(ord, side) \<in> set (zip orders sides)" for ord side
      using k(2) that by (auto simp: exact_constraint_def list_all_iff)
    have "o_id ord \<in> set (mm_order_ids k)" if "ord \<in> set orders" for ord
      using z s(2) that by (metis in_set_impl_in_set_zip1)
    then have sub: "set (map o_id orders) \<subseteq> set (mm_order_ids k)" by auto
    moreover have "card (set (mm_order_ids k)) \<le> card (set (map o_id orders))"
    proof -
      have "card (set (map o_id orders)) = length orders" using o by (metis distinct_card length_map)
      moreover have "card (set (mm_order_ids k)) \<le> length orders" using card_length [of "mm_order_ids k"] k(2) by (simp add: exact_constraint_def)
      ultimately show ?thesis by simp
    qed
    ultimately have "set (map o_id orders) = set (mm_order_ids k)" by (intro card_seteq) simp_all
    then have "set (mm_order_ids k) = o_id ` set orders" by simp
    moreover have "\<forall>(ord, side) \<in> set (zip orders sides). lookup (mm_order_sides k) (o_id ord) = Some side" using z by blast
    ultimately show ?thesis using k by (auto simp: bundle_budget_def exact_constraint_def)
  qed
  ultimately show ?thesis using o s by (auto simp: bundle_effect_def)
qed

section \<open>Every authorization has its effect\<close>

lemma bind_action_ok:
  assumes "bind_action w results index later action authorized = Ok authorized'" "order_results w = Ok results"
  shows "effect w later action \<and> distinct (action_orders action) \<and> (\<forall>i \<in> set (action_orders action). lookup authorized i = None) \<and>
    (\<forall>i. lookup authorized' i = None \<longleftrightarrow> lookup authorized i = None \<and> i \<notin> set (action_orders action))"
proof (cases action)
  case (CaOrder a ord n auth)
  have n: "lookup authorized (o_id ord) = None"
    using assms(1) CaOrder by (cases "lookup authorized (o_id ord)") (auto simp: bind_action_def split: if_splits)
  moreover from this assms(1) CaOrder have "authorized' = om_ins (o_id ord) (index, a) authorized" by (auto simp: bind_action_def split: if_splits)
  moreover have "lookup results (o_id ord) = Some (a, ord) \<Longrightarrow> committed_result w a ord" using order_results_ok(2) [OF assms(2)] by blast
  ultimately show ?thesis using assms(1) CaOrder
    by (auto simp: bind_action_def list_ex_iff simp del: split_paired_All split_paired_Ex not_None_eq not_Some_eq split: if_splits)
next
  case (CaCancel a i n auth)
  with assms(1) show ?thesis by (auto simp: bind_action_def list_ex_iff split: if_splits)
next
  case (CaMmBundle a b revision orders sides capital n auth)
  with assms(1) have r: "revision = 0" and v: "verify_mm_bundle_binding w results authorized index a orders sides capital = Ok authorized'"
    by (auto simp: bind_action_def split: if_splits)
  from mm_binding_ok [OF v assms(2)] r CaMmBundle show ?thesis by (simp add: bundle_effect_def)
next
  case (CaMmBundleReplace a b revision new_revision orders sides capital n auth)
  with assms(1) have r: "add_u64 revision 1 = Some new_revision" and v: "verify_mm_bundle_binding w results authorized index a orders sides capital = Ok authorized'"
    by (auto simp: bind_action_def opt split: if_splits)
  from r have "uint new_revision = uint revision + 1" by (simp add: add_u64_def u64_of_eq_Some)
  with mm_binding_ok [OF v assms(2)] CaMmBundleReplace show ?thesis by (simp add: bundle_effect_def)
next
  case (CaMmBundleCancel a b revision n auth)
  with assms(1) show ?thesis by (auto simp: bind_action_def list_ex_iff split: if_splits)
qed

lemma bind_events_distinct:
  assumes "order_results w = Ok results"
  shows "bind_events w results index events authorized = Ok authorized' \<Longrightarrow>
    distinct (authorized_orders events) \<and> (\<forall>i \<in> set (authorized_orders events). lookup authorized i = None)"
proof (induction events arbitrary: index authorized)
  case (Cons e es)
  show ?case
  proof (cases "\<exists>action. e = ClientActionAuthorized action")
    case True
    then obtain action mid where e: "e = ClientActionAuthorized action" and a: "bind_action w results index es action authorized = Ok mid"
      "bind_events w results (Suc index) es mid = Ok authorized'" using Cons.prems by (auto simp: opt)
    from bind_action_ok [OF a(1) assms] Cons.IH [OF a(2)] e show ?thesis
      by (auto simp del: split_paired_All split_paired_Ex not_None_eq not_Some_eq)
  next
    case False
    with Cons.prems have "bind_events w results (Suc index) es authorized = Ok authorized'" "authorized_orders (e # es) = authorized_orders es"
      by (cases e; simp)+
    with Cons.IH show ?thesis by simp
  qed
qed simp

lemma bindings_ok: "vr_valid (verify_client_action_bindings w) \<longleftrightarrow> verify_bindings w = Ok ()"
  by (auto simp: verify_client_action_bindings_def split: result.splits)

text \<open>C7: in a block that passes the client-action layer every authorization event has the effect the client signed.
  An authorized order is new, no order is authorized twice, and it is accepted, rejected or resting with exactly the
  signed terms for the signing account, or a later event cancels it or resolves one of its markets; an authorized
  cancellation is followed by the cancellation of that order of that account; a market-maker bundle is admitted whole
  or rejected whole with its signed budget, orders and sides as a constraint of the block; a replacement has the next
  revision; and after the cancellation of a bundle no constraint of the account remains unless a later one opens.\<close>

theorem authorized_actions_take_effect:
  assumes "vr_valid (verify_client_action_bindings w)"
  shows "distinct (authorized_orders (bw_system_events w)) \<and>
    (\<forall>pre action later. bw_system_events w = pre @ ClientActionAuthorized action # later \<longrightarrow> effect w later action)"
proof -
  from assms obtain results authorized where r: "order_results w = Ok results" "bind_events w results 0 (bw_system_events w) om_empty = Ok authorized"
    by (auto simp: bindings_ok verify_bindings_def opt)
  have "effect w later action" if "bw_system_events w = pre @ ClientActionAuthorized action # later" for pre action later
    using bind_events_split [OF r(2) [unfolded that]] bind_action_ok [OF _ r(1)] by blast
  then show ?thesis using bind_events_distinct [OF r] by blast
qed

definition client_block :: BlockWitness where
  "client_block = sample_block\<lparr> bw_system_events := [ClientActionAuthorized (CaOrder 1 sample_order_1 9 (RawP256 [] [])),
     ClientActionAuthorized (CaMmBundle 2 [] 0 [sample_order_2] [MmBuyNo] 400000000 4 (RawP256 [] []))],
     bw_orders := [\<lparr> wo_order = sample_order_1, wo_account_id = 1, wo_is_mm = False \<rparr>,
       \<lparr> wo_order = sample_order_2, wo_account_id = 2, wo_is_mm = True \<rparr>],
     bw_mm_constraints := [\<lparr> mm_id = 2, mm_max_capital = 400000000, mm_order_ids = [2], mm_order_sides = om_ins 2 MmBuyNo om_empty \<rparr>] \<rparr>"

theorem authorized_actions_take_effect_witness:
  "committed_result client_block 1 sample_order_1 \<and> bundle_admitted client_block 2 [sample_order_2]"
proof -
  let ?e = "ClientActionAuthorized (CaOrder 1 sample_order_1 9 (RawP256 [] []))"
  let ?f = "ClientActionAuthorized (CaMmBundle 2 [] 0 [sample_order_2] [MmBuyNo] 400000000 4 (RawP256 [] []))"
  have ok: "vr_valid (verify_client_action_bindings client_block)"
    unfolding bindings_ok by code_simp
  have ev: "bw_system_events client_block = [] @ ?e # [?f]" "bw_system_events client_block = [?e] @ ?f # []" by (simp_all add: client_block_def)
  from authorized_actions_take_effect [OF ok] have "effect client_block [?f] (CaOrder 1 sample_order_1 9 (RawP256 [] []))"
    "effect client_block [] (CaMmBundle 2 [] 0 [sample_order_2] [MmBuyNo] 400000000 4 (RawP256 [] []))" using ev by blast+
  then show ?thesis by (simp add: bundle_effect_def)
qed

end
