(* ===== verification/Key_Transition.thy ===== *)
theory Key_Transition
  imports Key_Op_Auth Client_Action Verifier_System
begin

text \<open>
  \<open>crates/sybil-verifier/src/key_transition.rs\<close>: the layer of the verifier that replays the signing-key sets of a
  block.  It opens the post-state key sets, runs the key events backwards to recover the sets at the start of the
  block, ties both to the committed digests, and replays the events forwards, checking the authorization of every key
  operation and client action under the keys that are active at that point.
\<close>

section \<open>Key sets\<close>

text \<open>The derived order of a key record is that of its fields.\<close>

definition key_fields :: "'a::linorder KeyRecord_scheme \<Rightarrow> u8 \<times> bytes \<times> u32 \<times> 'a" where
  "key_fields k = (kr_auth_scheme k, kr_pubkey_sec1 k, kr_capability_mask k, KeyRecord.more k)"

lemma key_fields_inj: "key_fields k = key_fields l \<longleftrightarrow> k = l"
  by (cases k; cases l) (auto simp: key_fields_def)

instantiation KeyRecord_ext :: (linorder) linorder
begin

definition less_eq_KeyRecord_ext :: "'a KeyRecord_scheme \<Rightarrow> 'a KeyRecord_scheme \<Rightarrow> bool" where
  "less_eq_KeyRecord_ext k l \<longleftrightarrow> key_fields k \<le> key_fields l"

definition less_KeyRecord_ext :: "'a KeyRecord_scheme \<Rightarrow> 'a KeyRecord_scheme \<Rightarrow> bool" where
  "less_KeyRecord_ext k l \<longleftrightarrow> key_fields k < key_fields l"

instance
  by standard (auto simp: less_eq_KeyRecord_ext_def less_KeyRecord_ext_def key_fields_inj [symmetric])

end

text \<open>A \<open>BTreeSet\<close> is an ordered map to the unit type.\<close>

type_synonym 'k oset = "('k, unit) omap"
type_synonym KeySet = "KeyRecord oset"
type_synonym KeyUniverse = "(u64, KeySet) omap"

definition oset_of :: "'k::linorder list \<Rightarrow> 'k oset" where
  "oset_of ks = om_of_list (map (\<lambda>k. (k, ())) ks)"

definition oset_mem :: "'k::linorder \<Rightarrow> 'k oset \<Rightarrow> bool" where
  "oset_mem k s \<longleftrightarrow> lookup s k \<noteq> None"

datatype KeyError =
    DuplicateAccount u64 | DuplicateKeysEntry u64 | UnknownKeysAccount u64 | TooManyKeys u64 nat | UnsupportedScheme u8
  | NotCompressed | PartialCapability | DuplicatePubkey u64 | AbsentFromUniverse u64 | DigestMismatch u64
  | PubkeySharedBy u64 u64 | TooManyKeyOps nat | KeyEventAfterOther u64 | ReverseNoLeaf u64 | ReverseNotFound u64
  | ReverseStillActive u64 | ReverseCreateMismatch u64 | CreatedInPreState u64 | NoPreLeaf u64 | MissingRecovered u64
  | PreDigestMismatch u64 | UntouchedAbsent u64 | UntouchedChanged u64 | CreateDuplicated u64 | NoRunningAccount u64
  | NoRunningEvents u64 | AuthFailed u64 AuthError | ClientBytes ClientError | KeyLimit u64 | KeyCollision u64 u64
  | DuplicateRegistration u64 | LastKey u64 | NotActive u64 | ReplayMismatch

section \<open>Opening the committed sets\<close>

fun account_map :: "AccountSnapshot list \<Rightarrow> (u64, AccountSnapshot) omap \<Rightarrow> (KeyError, (u64, AccountSnapshot) omap) result" where
  "account_map [] out = Ok out"
| "account_map (account # accounts) out =
     (if lookup out (as_id account) \<noteq> None then Err (DuplicateAccount (as_id account))
      else account_map accounts (om_ins (as_id account) account out))"

definition validate_key_record :: "KeyRecord \<Rightarrow> (KeyError, unit) result" where
  "validate_key_record key =
     (if 1 < kr_auth_scheme key then Err (UnsupportedScheme (kr_auth_scheme key))
      else if take 1 (kr_pubkey_sec1 key) \<noteq> [0x02] \<and> take 1 (kr_pubkey_sec1 key) \<noteq> [0x03] then Err NotCompressed
      else if kr_capability_mask key \<noteq> FULL_CAPABILITY_MASK then Err PartialCapability
      else Ok ())"

fun validate_keys :: "u64 \<Rightarrow> KeyRecord list \<Rightarrow> bytes list \<Rightarrow> (KeyError, unit) result" where
  "validate_keys account_id [] pubkeys = Ok ()"
| "validate_keys account_id (key # keys) pubkeys =
     and_then (validate_key_record key) (\<lambda>_.
       if kr_pubkey_sec1 key \<in> set pubkeys then Err (DuplicatePubkey account_id)
       else validate_keys account_id keys (kr_pubkey_sec1 key # pubkeys))"

definition validate_key_list :: "u64 \<Rightarrow> KeyRecord list \<Rightarrow> (KeyError, unit) result" where
  "validate_key_list account_id keys =
     (if MAX_KEYS_PER_ACCOUNT < length keys then Err (TooManyKeys account_id (length keys)) else validate_keys account_id keys [])"

fun open_keys ::
  "(u64, AccountSnapshot) omap \<Rightarrow> (u64 \<times> KeyRecord list) list \<Rightarrow> u64 list \<Rightarrow> KeyUniverse \<Rightarrow> (KeyError, KeyUniverse) result"
where
  "open_keys post_accounts [] seen out = Ok out"
| "open_keys post_accounts ((account_id, keys) # rest) seen out =
     (if account_id \<in> set seen then Err (DuplicateKeysEntry account_id)
      else if lookup post_accounts account_id = None then Err (UnknownKeysAccount account_id)
      else and_then (validate_key_list account_id keys) (\<lambda>_.
        open_keys post_accounts rest (account_id # seen) (om_ins account_id (oset_of keys) out)))"

definition normalized_post_key_map :: "BlockWitness \<Rightarrow> (u64, AccountSnapshot) omap \<Rightarrow> (KeyError, KeyUniverse) result" where
  "normalized_post_key_map w post_accounts =
     open_keys post_accounts (bw_account_keys w) [] (om_of_list (map (\<lambda>account_id. (account_id, om_empty)) (om_keys post_accounts)))"

fun weld_entries :: "hash \<Rightarrow> KeyUniverse \<Rightarrow> (u64 \<times> AccountSnapshot) list \<Rightarrow> (KeyError, unit) result" where
  "weld_entries sha keys [] = Ok ()"
| "weld_entries sha keys ((account_id, account) # rest) =
     and_then (ok_or (AbsentFromUniverse account_id) (lookup keys account_id)) (\<lambda>active.
       if as_keys_digest account \<noteq> account_keys_digest sha account_id (om_keys active) then Err (DigestMismatch account_id)
       else weld_entries sha keys rest)"

definition weld_post_keys :: "hash \<Rightarrow> KeyUniverse \<Rightarrow> (u64, AccountSnapshot) omap \<Rightarrow> (KeyError, unit) result" where
  "weld_post_keys sha keys accounts = weld_entries sha keys (entries accounts)"

text \<open>The owner of every public key, over the accounts and the keys of each account in order.\<close>

definition owned_keys :: "KeyUniverse \<Rightarrow> (u64 \<times> KeyRecord) list" where
  "owned_keys keys = concat (map (\<lambda>(account_id, records). map (\<lambda>record. (account_id, record)) (om_keys records)) (entries keys))"

fun owner_loop :: "(u64 \<times> KeyRecord) list \<Rightarrow> (bytes, u64) omap \<Rightarrow> (KeyError, (bytes, u64) omap) result" where
  "owner_loop [] out = Ok out"
| "owner_loop ((account_id, record) # rest) out = (case lookup out (kr_pubkey_sec1 record) of
     Some previous \<Rightarrow> Err (PubkeySharedBy previous account_id)
   | None \<Rightarrow> owner_loop rest (om_ins (kr_pubkey_sec1 record) account_id out))"

definition pubkey_owner_map :: "KeyUniverse \<Rightarrow> (KeyError, (bytes, u64) omap) result" where
  "pubkey_owner_map keys = owner_loop (owned_keys keys) om_empty"

definition ensure_global_pubkey_uniqueness :: "KeyUniverse \<Rightarrow> (KeyError, unit) result" where
  "ensure_global_pubkey_uniqueness keys = and_then (pubkey_owner_map keys) (\<lambda>_. Ok ())"

section \<open>The events\<close>

fun is_key_op :: "SystemEventWitness \<Rightarrow> bool" where
  "is_key_op (KeyRegistered _ _ _) = True"
| "is_key_op (KeyRevoked _ _ _) = True"
| "is_key_op _ = False"

fun is_key_phase :: "SystemEventWitness \<Rightarrow> bool" where
  "is_key_phase (CreateAccount _ _ _) = True"
| "is_key_phase e = is_key_op e"

fun is_client_action :: "SystemEventWitness \<Rightarrow> bool" where
  "is_client_action (ClientActionAuthorized _) = True"
| "is_client_action _ = False"

fun event_account_ids :: "SystemEventWitness \<Rightarrow> u64 list" where
  "event_account_ids (CreateAccount a _ _) = [a]"
| "event_account_ids (Deposit a _) = [a]"
| "event_account_ids (L1Deposit a _ _ _ _) = [a]"
| "event_account_ids (WithdrawalCreated a _ _ _ _ _ _ _) = [a]"
| "event_account_ids (WithdrawalRefunded a _ _ _) = [a]"
| "event_account_ids (WithdrawalFinalized a _ _) = [a]"
| "event_account_ids (OrderCancelled a _ _ _ _) = [a]"
| "event_account_ids (KeyRegistered a _ _) = [a]"
| "event_account_ids (KeyRevoked a _ _) = [a]"
| "event_account_ids (ClientActionAuthorized action) = [action_account action]"
| "event_account_ids (QuarantineClaimed a _ _) = [a]"
| "event_account_ids (MarketResolved _ _ affected_accounts) = affected_accounts"
| "event_account_ids (L1BlockObserved _) = []"
| "event_account_ids (MarketGroupExtended _ _) = []"
| "event_account_ids (DepositQuarantined _ _ _ _) = []"

fun event_order :: "SystemEventWitness list \<Rightarrow> u64 list \<Rightarrow> (KeyError, unit) result" where
  "event_order [] saw_non_key_event = Ok ()"
| "event_order (event # events) saw_non_key_event =
     (if is_client_action event then event_order events saw_non_key_event
      else if is_key_phase event then
        (case List.find (\<lambda>account_id. account_id \<in> set saw_non_key_event) (event_account_ids event) of
           Some account_id \<Rightarrow> Err (KeyEventAfterOther account_id)
         | None \<Rightarrow> event_order events saw_non_key_event)
      else event_order events (event_account_ids event @ saw_non_key_event))"

definition verify_key_event_order :: "SystemEventWitness list \<Rightarrow> (KeyError, unit) result" where
  "verify_key_event_order events = event_order events []"

definition key_touched_accounts :: "SystemEventWitness list \<Rightarrow> u64 oset" where
  "key_touched_accounts events = oset_of (concat (map (\<lambda>event. if is_key_phase event then event_account_ids event else []) events))"

fun creates :: "u64 \<Rightarrow> SystemEventWitness \<Rightarrow> bool" where
  "creates account_id (CreateAccount i _ _) = (i = account_id)"
| "creates account_id _ = False"

section \<open>Backwards\<close>

fun reverse_key_event :: "SystemEventWitness \<Rightarrow> KeyUniverse \<Rightarrow> (KeyError, KeyUniverse) result" where
  "reverse_key_event (KeyRegistered account_id key _) keys =
     and_then (ok_or (ReverseNoLeaf account_id) (lookup keys account_id)) (\<lambda>active.
       if \<not> oset_mem key active then Err (ReverseNotFound account_id) else Ok (om_ins account_id (om_del key active) keys))"
| "reverse_key_event (KeyRevoked account_id key _) keys =
     and_then (ok_or (ReverseNoLeaf account_id) (lookup keys account_id)) (\<lambda>active.
       if oset_mem key active then Err (ReverseStillActive account_id) else Ok (om_ins account_id (om_ins key () active) keys))"
| "reverse_key_event (CreateAccount account_id _ initial_keys) keys =
     and_then (validate_key_list account_id initial_keys) (\<lambda>_.
     and_then (ok_or (ReverseNoLeaf account_id) (lookup keys account_id)) (\<lambda>actual.
       if actual \<noteq> oset_of initial_keys then Err (ReverseCreateMismatch account_id) else Ok (om_del account_id keys)))"
| "reverse_key_event _ keys = Ok keys"

fun reverse_keys :: "SystemEventWitness list \<Rightarrow> KeyUniverse \<Rightarrow> (KeyError, KeyUniverse) result" where
  "reverse_keys [] keys = Ok keys"
| "reverse_keys (event # events) keys = and_then (reverse_key_event event keys) (reverse_keys events)"

fun check_touched ::
  "hash \<Rightarrow> SystemEventWitness list \<Rightarrow> (u64, AccountSnapshot) omap \<Rightarrow> KeyUniverse \<Rightarrow> u64 list \<Rightarrow> (KeyError, unit) result"
where
  "check_touched sha events pre_accounts keys [] = Ok ()"
| "check_touched sha events pre_accounts keys (account_id # rest) =
     (if list_ex (creates account_id) events then
        (if lookup pre_accounts account_id \<noteq> None then Err (CreatedInPreState account_id)
         else check_touched sha events pre_accounts keys rest)
      else and_then (ok_or (NoPreLeaf account_id) (lookup pre_accounts account_id)) (\<lambda>pre.
        and_then (ok_or (MissingRecovered account_id) (lookup keys account_id)) (\<lambda>active.
          if as_keys_digest pre \<noteq> account_keys_digest sha account_id (om_keys active) then Err (PreDigestMismatch account_id)
          else check_touched sha events pre_accounts keys rest)))"

fun check_untouched ::
  "u64 oset \<Rightarrow> (u64, AccountSnapshot) omap \<Rightarrow> (u64 \<times> AccountSnapshot) list \<Rightarrow> (KeyError, unit) result"
where
  "check_untouched touched pre_accounts [] = Ok ()"
| "check_untouched touched pre_accounts ((account_id, post) # rest) =
     (if oset_mem account_id touched then check_untouched touched pre_accounts rest
      else and_then (ok_or (UntouchedAbsent account_id) (lookup pre_accounts account_id)) (\<lambda>pre.
        if as_keys_digest pre \<noteq> as_keys_digest post then Err (UntouchedChanged account_id)
        else check_untouched touched pre_accounts rest))"

section \<open>Forwards\<close>

record Replay =
  rp_running :: KeyUniverse
  rp_pubkeys :: "(bytes, u64) omap"
  rp_events :: "(u64, bytes) omap"

definition insert_globally_unique_key ::
  "u64 \<Rightarrow> KeyRecord \<Rightarrow> KeySet \<times> (bytes, u64) omap \<Rightarrow> (KeyError, KeySet \<times> (bytes, u64) omap) result"
where
  "insert_globally_unique_key account_id key = (\<lambda>(account_keys, pubkeys).
     case lookup pubkeys (kr_pubkey_sec1 key) of
       Some owner \<Rightarrow> Err (KeyCollision account_id owner)
     | None \<Rightarrow> (if oset_mem key account_keys then Err (DuplicateRegistration account_id)
         else Ok (om_ins key () account_keys, om_ins (kr_pubkey_sec1 key) account_id pubkeys)))"

fun insert_keys :: "u64 \<Rightarrow> KeyRecord list \<Rightarrow> KeySet \<times> (bytes, u64) omap \<Rightarrow> (KeyError, KeySet \<times> (bytes, u64) omap) result" where
  "insert_keys account_id [] s = Ok s"
| "insert_keys account_id (key # keys) s = and_then (insert_globally_unique_key account_id key s) (insert_keys account_id keys)"

text \<open>The libraries the layer calls: sha256, blake3, P-256, Borsh.\<close>

record Crypto =
  cr_sha :: hash
  cr_blake3 :: hash
  cr_p256 :: P256
  cr_to_vec :: borsh_encoder

fun action_bytes :: "Crypto \<Rightarrow> bytes \<Rightarrow> ClientActionWitness \<Rightarrow> (ClientError, bytes) result" where
  "action_bytes cr genesis (CaOrder account_id ord nonce auth) = Ok (canonical_order_bytes (cr_to_vec cr) ord nonce genesis)"
| "action_bytes cr genesis (CaCancel account_id order_id nonce auth) = Ok (canonical_cancel_bytes (cr_to_vec cr) account_id order_id nonce genesis)"
| "action_bytes cr genesis (CaMmBundle account_id bundle_id revision orders order_sides max_capital nonce auth) =
     canonical_mm_bundle_bytes (cr_to_vec cr) account_id bundle_id revision orders order_sides max_capital nonce genesis"
| "action_bytes cr genesis (CaMmBundleReplace account_id bundle_id expected_revision new_revision orders order_sides max_capital nonce auth) =
     canonical_mm_bundle_replace_bytes (cr_to_vec cr) account_id bundle_id expected_revision new_revision orders order_sides max_capital nonce genesis"
| "action_bytes cr genesis (CaMmBundleCancel account_id bundle_id expected_revision nonce auth) =
     Ok (canonical_mm_bundle_cancel_bytes (cr_to_vec cr) account_id bundle_id expected_revision nonce genesis)"

fun action_auth :: "ClientActionWitness \<Rightarrow> KeyOpAuth" where
  "action_auth (CaOrder _ _ _ auth) = auth"
| "action_auth (CaCancel _ _ _ auth) = auth"
| "action_auth (CaMmBundle _ _ _ _ _ _ _ auth) = auth"
| "action_auth (CaMmBundleReplace _ _ _ _ _ _ _ _ auth) = auth"
| "action_auth (CaMmBundleCancel _ _ _ _ auth) = auth"

definition check_auth :: "Crypto \<Rightarrow> u64 \<Rightarrow> KeyOpAuth \<Rightarrow> KeySet \<Rightarrow> bytes \<Rightarrow> (KeyError, unit) result option" where
  "check_auth cr account_id authorization keys canonical =
     (case verify_keyop_auth (cr_sha cr) (cr_p256 cr) authorization (om_keys keys) canonical of
        None \<Rightarrow> None
      | Some (Err e) \<Rightarrow> Some (Err (AuthFailed account_id e))
      | Some (Ok u) \<Rightarrow> Some (Ok u))"

fun replay_event :: "Crypto \<Rightarrow> bytes \<Rightarrow> u64 \<Rightarrow> SystemEventWitness \<Rightarrow> Replay \<Rightarrow> (KeyError, Replay) result option" where
  "replay_event cr genesis height (CreateAccount account_id initial_balance initial_keys) st = Some (
     if lookup (rp_running st) account_id \<noteq> None then Err (CreateDuplicated account_id)
     else and_then (validate_key_list account_id initial_keys) (\<lambda>_.
       and_then (insert_keys account_id initial_keys (om_empty, rp_pubkeys st)) (\<lambda>(keys, pubkeys).
         Ok \<lparr> rp_running = om_ins account_id keys (rp_running st), rp_pubkeys = pubkeys,
              rp_events = om_ins account_id (update_digest (cr_blake3 cr) zero_digest (encode_create_account_event initial_balance height)) (rp_events st) \<rparr>)))"
| "replay_event cr genesis height (KeyRegistered account_id key authorization) st =
     and_then_fuel (Some (validate_key_record key)) (\<lambda>_.
     and_then_fuel (Some (ok_or (NoRunningAccount account_id) (lookup (rp_running st) account_id))) (\<lambda>keys.
     and_then_fuel (Some (ok_or (NoRunningEvents account_id) (lookup (rp_events st) account_id))) (\<lambda>events_digest.
     and_then_fuel (check_auth cr account_id authorization keys
       (canonical_key_registration_bytes genesis account_id key (account_keys_digest (cr_sha cr) account_id (om_keys keys)) events_digest)) (\<lambda>_.
     Some (if MAX_KEYS_PER_ACCOUNT \<le> length (om_keys keys) then Err (KeyLimit account_id)
           else and_then (insert_globally_unique_key account_id key (keys, rp_pubkeys st)) (\<lambda>(keys, pubkeys).
             Ok \<lparr> rp_running = om_ins account_id keys (rp_running st), rp_pubkeys = pubkeys,
                  rp_events = om_ins account_id (update_digest (cr_blake3 cr) events_digest (encode_key_event 0x0a key height)) (rp_events st) \<rparr>))))))"
| "replay_event cr genesis height (KeyRevoked account_id key authorization) st =
     and_then_fuel (Some (validate_key_record key)) (\<lambda>_.
     and_then_fuel (Some (ok_or (NoRunningAccount account_id) (lookup (rp_running st) account_id))) (\<lambda>keys.
     and_then_fuel (Some (ok_or (NoRunningEvents account_id) (lookup (rp_events st) account_id))) (\<lambda>events_digest.
     and_then_fuel (check_auth cr account_id authorization keys
       (canonical_key_revocation_bytes genesis account_id key (account_keys_digest (cr_sha cr) account_id (om_keys keys)) events_digest)) (\<lambda>_.
     Some (if length (om_keys keys) \<le> 1 then Err (LastKey account_id)
           else if \<not> oset_mem key keys then Err (NotActive account_id)
           else Ok \<lparr> rp_running = om_ins account_id (om_del key keys) (rp_running st), rp_pubkeys = om_del (kr_pubkey_sec1 key) (rp_pubkeys st),
                     rp_events = om_ins account_id (update_digest (cr_blake3 cr) events_digest (encode_key_event 0x0b key height)) (rp_events st) \<rparr>)))))"
| "replay_event cr genesis height (ClientActionAuthorized action) st =
     and_then_fuel (Some (case action_bytes cr genesis action of Ok canonical \<Rightarrow> Ok canonical | Err e \<Rightarrow> Err (ClientBytes e))) (\<lambda>canonical.
     and_then_fuel (Some (ok_or (NoRunningAccount (action_account action)) (lookup (rp_running st) (action_account action)))) (\<lambda>keys.
     and_then_fuel (check_auth cr (action_account action) (action_auth action) keys canonical) (\<lambda>_. Some (Ok st))))"
| "replay_event cr genesis height _ st = Some (Ok st)"

fun replay_events :: "Crypto \<Rightarrow> bytes \<Rightarrow> u64 \<Rightarrow> SystemEventWitness list \<Rightarrow> Replay \<Rightarrow> (KeyError, Replay) result option" where
  "replay_events cr genesis height [] st = Some (Ok st)"
| "replay_events cr genesis height (event # events) st = and_then_fuel (replay_event cr genesis height event st) (replay_events cr genesis height events)"

section \<open>The layer\<close>

definition verify_keys :: "Crypto \<Rightarrow> BlockWitness \<Rightarrow> (KeyError, unit) result option" where
  "verify_keys cr w =
     and_then_fuel (Some (account_map (bw_pre_state w) om_empty)) (\<lambda>pre_accounts.
     and_then_fuel (Some (account_map (bw_post_system_state w) om_empty)) (\<lambda>post_system_accounts.
     and_then_fuel (Some (account_map (bw_post_state w) om_empty)) (\<lambda>post_accounts.
     and_then_fuel (Some (normalized_post_key_map w post_accounts)) (\<lambda>post_keys.
     and_then_fuel (Some (weld_post_keys (cr_sha cr) post_keys post_system_accounts)) (\<lambda>_.
     and_then_fuel (Some (weld_post_keys (cr_sha cr) post_keys post_accounts)) (\<lambda>_.
     and_then_fuel (Some (ensure_global_pubkey_uniqueness post_keys)) (\<lambda>_.
     let key_op_count = length (filter is_key_op (bw_system_events w))
     in if MAX_KEY_OPS_PER_BLOCK < key_op_count then Some (Err (TooManyKeyOps key_op_count))
     else
     and_then_fuel (Some (verify_key_event_order (bw_system_events w))) (\<lambda>_.
     let touched = key_touched_accounts (bw_system_events w) in
     and_then_fuel (Some (reverse_keys (rev (bw_system_events w)) post_keys)) (\<lambda>pre_keys.
     and_then_fuel (Some (ensure_global_pubkey_uniqueness pre_keys)) (\<lambda>_.
     and_then_fuel (Some (check_touched (cr_sha cr) (bw_system_events w) pre_accounts pre_keys (om_keys touched))) (\<lambda>_.
     and_then_fuel (Some (check_untouched touched pre_accounts (entries post_accounts))) (\<lambda>_.
     and_then_fuel (Some (pubkey_owner_map pre_keys)) (\<lambda>pubkeys.
     and_then_fuel (replay_events cr (bw_genesis_hash w) (h_height (bw_header w)) (bw_system_events w)
       \<lparr> rp_running = pre_keys, rp_pubkeys = pubkeys,
         rp_events = om_of_list (map (\<lambda>(account_id, account). (account_id, as_events_digest account)) (entries pre_accounts)) \<rparr>) (\<lambda>st.
     and_then_fuel (Some (normalized_post_key_map w post_accounts)) (\<lambda>expected_post.
     Some (if rp_running st \<noteq> expected_post then Err ReplayMismatch else Ok ()))))))))))))))))"

definition verify_key_transitions :: "Crypto \<Rightarrow> BlockWitness \<Rightarrow> VerificationResult option" where
  "verify_key_transitions cr w = map_option (\<lambda>r. case r of Ok _ \<Rightarrow> from_violations [] | Err _ \<Rightarrow> from_violations [KeyTransitionMismatch]) (verify_keys cr w)"

end
