(* ===== verification/Json_Grammar.thy ===== *)
theory Json_Grammar
  imports Key_Op_Auth
begin

text \<open>
  The JSON grammar of RFC 8259 as predicates on byte strings, and that the reader of the client data accepts
  exactly the objects of the grammar: what it accepts is an object with one \<open>type\<close>, one \<open>challenge\<close> and one
  \<open>origin\<close> member, whose decoded values it returns, and every such object is accepted up to the nesting depth.
\<close>

unbundle bit_operations_syntax

section \<open>Reading a text\<close>

definition rest :: "JsonParser \<Rightarrow> bytes" where "rest p = drop (jp_offset p) (jp_bytes p)"

definition reads :: "JsonParser \<Rightarrow> bytes \<Rightarrow> JsonParser \<Rightarrow> bool" where
  "reads p t p' \<longleftrightarrow> p' = p\<lparr> jp_offset := jp_offset p + length t \<rparr> \<and> (\<exists>r. rest p = t @ r)"

lemma reads_rest: "reads p t p' \<Longrightarrow> rest p = t @ rest p'"
proof -
  assume "reads p t p'"
  then obtain r where p': "p' = p\<lparr> jp_offset := jp_offset p + length t \<rparr>" and r: "rest p = t @ r" by (auto simp: reads_def)
  have "rest p' = drop (length t) (rest p)" by (simp add: rest_def p' add.commute)
  with r show ?thesis by simp
qed

lemma reads_Nil [simp]: "reads p [] p' \<longleftrightarrow> p' = p"
  by (auto simp: reads_def)

lemma reads_append: "reads p (s @ t) r \<longleftrightarrow> (\<exists>q. reads p s q \<and> reads q t r)"
proof
  assume a: "reads p (s @ t) r"
  let ?q = "p\<lparr> jp_offset := jp_offset p + length s \<rparr>"
  from a obtain u where u: "rest p = s @ t @ u" by (auto simp: reads_def)
  then have "reads p s ?q" by (auto simp: reads_def)
  moreover from reads_rest [OF this] u have "rest ?q = t @ u" by simp
  then have "reads ?q t r" using a by (auto simp: reads_def add.assoc)
  ultimately show "\<exists>q. reads p s q \<and> reads q t r" by blast
next
  assume "\<exists>q. reads p s q \<and> reads q t r"
  then obtain q where q: "reads p s q" "reads q t r" by blast
  have "rest p = s @ t @ rest r" using reads_rest [OF q(1)] reads_rest [OF q(2)] by simp
  with q show "reads p (s @ t) r" by (auto simp: reads_def add.assoc)
qed

lemma peek_rest: "peek p = Some b \<longleftrightarrow> (\<exists>r. rest p = b # r)"
proof (cases "jp_offset p < length (jp_bytes p)")
  case True
  from Cons_nth_drop_Suc [OF this] show ?thesis by (auto simp: peek_def rest_def True dest: sym)
qed (simp add: peek_def rest_def)

lemma peek_reads: "peek p = Some b \<longleftrightarrow> reads p [b] (advance p)"
  by (auto simp: peek_rest reads_def advance_def)

lemma reads_Cons: "reads p (b # t) r \<longleftrightarrow> peek p = Some b \<and> reads (advance p) t r"
proof -
  have "reads p (b # t) r \<longleftrightarrow> (\<exists>q. reads p [b] q \<and> reads q t r)" using reads_append [of p "[b]" t r] by simp
  also have "\<dots> \<longleftrightarrow> peek p = Some b \<and> reads (advance p) t r" by (auto simp: peek_rest) (auto simp: reads_def advance_def)
  finally show ?thesis .
qed

lemma expect_reads: "expect b p = Ok p' \<longleftrightarrow> reads p [b] p'"
  by (auto simp: expect_def take_byte_def reads_Cons)

lemma take_byte_reads: "take_byte b p = (True, p') \<longleftrightarrow> reads p [b] p'" "take_byte b p = (False, p') \<longleftrightarrow> p' = p \<and> peek p \<noteq> Some b"
  by (auto simp: take_byte_def reads_Cons)

lemma skip_while_reads:
  "skip_while P p = p' \<longleftrightarrow> (\<exists>w. reads p w p' \<and> list_all P w) \<and> \<not> peeks P p'"
proof (induction P p rule: skip_while.induct)
  case (1 P p)
  show ?case
  proof (cases "peek p")
    case None
    have "\<not> reads p (b # t) q" for b t q using None by (simp add: reads_Cons)
    then have "reads p w p' \<longleftrightarrow> w = [] \<and> p' = p" for w by (cases w) auto
    then have "(\<exists>w. reads p w p' \<and> list_all P w) \<longleftrightarrow> p' = p" by auto
    with None show ?thesis by (subst skip_while.simps) (auto simp: peeks_def)
  next
    case (Some b)
    have *: "(\<exists>w. reads p w p' \<and> list_all P w) \<longleftrightarrow> p' = p \<or> P b \<and> (\<exists>w. reads (advance p) w p' \<and> list_all P w)"
    proof
      assume "\<exists>w. reads p w p' \<and> list_all P w"
      then obtain w where "reads p w p'" "list_all P w" by blast
      with Some show "p' = p \<or> P b \<and> (\<exists>w. reads (advance p) w p' \<and> list_all P w)" by (cases w) (auto simp: reads_Cons)
    next
      assume "p' = p \<or> P b \<and> (\<exists>w. reads (advance p) w p' \<and> list_all P w)"
      then show "\<exists>w. reads p w p' \<and> list_all P w"
      proof
        assume "P b \<and> (\<exists>w. reads (advance p) w p' \<and> list_all P w)"
        then obtain w where "reads p (b # w) p'" "list_all P (b # w)" using Some by (auto simp: reads_Cons)
        then show ?thesis by blast
      qed (auto intro: exI [of _ "[]"])
    qed
    show ?thesis
    proof (cases "P b")
      case True
      with "1.IH" [OF Some True] Some * show ?thesis by (subst skip_while.simps) (auto simp: peeks_def)
    qed (use Some * in \<open>subst skip_while.simps; auto simp: peeks_def\<close>)
  qed
qed

definition blank :: "bytes \<Rightarrow> bool" where "blank w \<longleftrightarrow> list_all is_ws w"

lemma skip_ws_reads: "skip_ws p = p' \<longleftrightarrow> (\<exists>w. reads p w p' \<and> blank w) \<and> \<not> peeks is_ws p'"
  by (simp add: skip_ws_def skip_while_reads blank_def)

lemma skip_digits_reads: "skip_digits p = p' \<longleftrightarrow> (\<exists>w. reads p w p' \<and> list_all is_digit w) \<and> \<not> peeks is_digit p'"
  by (simp add: skip_digits_def skip_while_reads)

section \<open>Strings\<close>

fun quad :: "bytes \<Rightarrow> u16 option" where
  "quad [a, b, c, d] = do {
     a \<leftarrow> hex_nibble a; b \<leftarrow> hex_nibble b; c \<leftarrow> hex_nibble c; d \<leftarrow> hex_nibble d;
     Some (push_bit 4 (push_bit 4 (push_bit 4 (push_bit 4 0 OR ucast a) OR ucast b) OR ucast c) OR ucast d) }"
| "quad _ = None"

lemma parse_hex_quad_reads: "parse_hex_quad p = Ok (v, p') \<longleftrightarrow> (\<exists>t. reads p t p' \<and> quad t = Some v)"
proof
  assume "parse_hex_quad p = Ok (v, p')"
  then obtain a b c d where "reads p [a, b, c, d] p'" "quad [a, b, c, d] = Some v"
    by (auto simp: parse_hex_quad_def numeral_eq_Suc reads_Cons split: option.splits)
  then show "\<exists>t. reads p t p' \<and> quad t = Some v" by blast
next
  assume "\<exists>t. reads p t p' \<and> quad t = Some v"
  then obtain t where t: "reads p t p'" "quad t = Some v" by blast
  then obtain a b c d where "t = [a, b, c, d]" by (cases t rule: quad.cases) auto
  with t show "parse_hex_quad p = Ok (v, p')" by (auto simp: parse_hex_quad_def numeral_eq_Suc reads_Cons opt)
qed

definition short_escapes :: "(u8 \<times> u8) list" where
  "short_escapes = [(0x22, 0x22), (0x5c, 0x5c), (0x2f, 0x2f), (0x62, 0x08), (0x66, 0x0c), (0x6e, 0x0a), (0x72, 0x0d), (0x74, 0x09)]"

text \<open>The text after the backslash, and what it stands for.\<close>

inductive escape :: "bytes \<Rightarrow> bytes \<Rightarrow> bool" where
  short: "(e, c) \<in> set short_escapes \<Longrightarrow> escape [e] [c]"
| basic: "quad t = Some v \<Longrightarrow> \<not> high_surrogate v \<Longrightarrow> \<not> low_surrogate v \<Longrightarrow> escape (0x75 # t) (encode_utf8 (ucast v))"
| pair: "quad t = Some v \<Longrightarrow> high_surrogate v \<Longrightarrow> quad u = Some w \<Longrightarrow> low_surrogate w \<Longrightarrow>
    escape (0x75 # t @ [0x5c, 0x75] @ u) (encode_utf8 (surrogate_scalar v w))"

lemma scalars:
  "\<not> high_surrogate v \<Longrightarrow> \<not> low_surrogate v \<Longrightarrow> is_scalar (ucast v)"
  "high_surrogate v \<Longrightarrow> low_surrogate w \<Longrightarrow> is_scalar (surrogate_scalar v w)"
proof -
  assume "\<not> high_surrogate v" "\<not> low_surrogate v"
  then show "is_scalar (ucast v)"
    using uint_bounded [of v] by (auto simp: high_surrogate_def low_surrogate_def is_scalar_def word_le_def word_less_def uint_up_ucast is_up)
next
  assume a: "high_surrogate v" "low_surrogate w"
  let ?x = "ucast v - 0xd800 :: u32" and ?y = "ucast w - 0xdc00 :: u32"
  have u: "uint (ucast v :: u32) = uint v" "uint (ucast w :: u32) = uint w" by (simp_all add: uint_up_ucast is_up)
  have x: "uint ?x = uint v - 0xd800" "uint ?y = uint w - 0xdc00"
    using a by (simp_all add: high_surrogate_def low_surrogate_def word_le_def uint_sub_if' u)
  then have b: "uint ?x < 2 ^ 10" "uint ?y < 2 ^ 10" "0 \<le> uint ?x" "0 \<le> uint ?y"
    using a by (simp_all add: high_surrogate_def low_surrogate_def word_le_def)
  have "uint (push_bit 10 x) = uint x * 1024" if "uint x < 2 ^ 10" for x :: u32
    using that by (simp only: unsigned_push_bit_eq) (simp add: push_bit_eq_mult take_bit_int_eq_self)
  from this [OF b(1)] have "uint (push_bit 10 ?x) = uint ?x * 1024" .
  then have "uint (push_bit 10 ?x OR ?y) < 2 ^ 20"
    using b by (simp only: unsigned_or_eq) (rule OR_upper; simp)
  then show "is_scalar (surrogate_scalar v w)"
    by (simp add: surrogate_scalar_def is_scalar_def word_le_def word_less_def uint_word_ariths(1))
qed

lemma unicode_scalar_reads:
  "unicode_scalar p = Ok (c, p') \<longleftrightarrow>
     (\<exists>t v. reads p t p' \<and> quad t = Some v \<and> \<not> high_surrogate v \<and> \<not> low_surrogate v \<and> c = ucast v) \<or>
     (\<exists>t v u w. reads p (t @ [0x5c, 0x75] @ u) p' \<and> quad t = Some v \<and> high_surrogate v \<and> quad u = Some w \<and> low_surrogate w \<and>
        c = surrogate_scalar v w)"
    (is "?L \<longleftrightarrow> ?A \<or> ?B")
proof
  assume L: ?L
  then obtain v q where q: "parse_hex_quad p = Ok (v, q)" by (auto simp: unicode_scalar_def opt)
  then obtain t where t: "reads p t q" "quad t = Some v" by (auto simp: parse_hex_quad_reads)
  show "?A \<or> ?B"
  proof (cases "high_surrogate v")
    case True
    with L q obtain r s w where r: "expect 0x5c q = Ok r" "expect 0x75 r = Ok s" "parse_hex_quad s = Ok (w, p')" "low_surrogate w" "c = surrogate_scalar v w"
      by (auto simp: unicode_scalar_def opt split: if_splits)
    then obtain u where "reads s u p'" "quad u = Some w" by (auto simp: parse_hex_quad_reads)
    moreover from this r have "reads q ([0x5c, 0x75] @ u) p'" by (auto simp: expect_reads reads_append reads_Cons)
    ultimately show ?thesis using t r True reads_append by blast
  next
    case False
    with L q t show ?thesis by (auto simp: unicode_scalar_def split: if_splits)
  qed
next
  assume "?A \<or> ?B"
  then show ?L
  proof
    assume ?A
    then obtain t v where t: "reads p t p'" "quad t = Some v" "\<not> high_surrogate v" "\<not> low_surrogate v" "c = ucast v" by blast
    then have "parse_hex_quad p = Ok (v, p')" by (auto simp: parse_hex_quad_reads)
    with t show ?L by (simp add: unicode_scalar_def)
  next
    assume ?B
    then obtain t v u w where t: "reads p (t @ [0x5c, 0x75] @ u) p'" "quad t = Some v" "high_surrogate v" "quad u = Some w" "low_surrogate w"
      "c = surrogate_scalar v w" by blast
    then obtain q r where q: "reads p t q" "reads q [0x5c, 0x75] r" "reads r u p'" unfolding reads_append by blast
    have "parse_hex_quad p = Ok (v, q)" "parse_hex_quad r = Ok (w, p')" using q t parse_hex_quad_reads by blast+
    moreover have "expect 0x5c q = Ok (advance q)" "expect 0x75 (advance q) = Ok r" using q(2) by (auto simp: expect_reads reads_Cons)
    ultimately show ?L using t by (simp add: unicode_scalar_def)
  qed
qed

lemma parse_escape_reads:
  "parse_escape out p = Ok (out', p') \<longleftrightarrow> (\<exists>t c. reads p t p' \<and> escape t c \<and> out' = out @ c)"
proof
  assume L: "parse_escape out p = Ok (out', p')"
  then obtain b where b: "peek p = Some b" by (auto simp: parse_escape_def split: option.splits)
  show "\<exists>t c. reads p t p' \<and> escape t c \<and> out' = out @ c"
  proof (cases "b = 0x75")
    case True
    with L b obtain c where c: "unicode_scalar (advance p) = Ok (c, p')" "out' = out @ encode_utf8 c"
      by (auto simp: parse_escape_def opt split: if_splits)
    then obtain t where "reads (advance p) t p'" "escape (0x75 # t) (encode_utf8 c)"
      unfolding unicode_scalar_reads using escape.basic escape.pair by blast
    with c(2) b True show ?thesis by (auto simp: reads_Cons intro!: exI [of _ "0x75 # t"])
  next
    case False
    with L b obtain c where "(b, c) \<in> set short_escapes" "p' = advance p" "out' = out @ [c]"
      by (auto simp: parse_escape_def Let_def short_escapes_def split: if_splits)
    with b have "reads p [b] p'" "escape [b] [c]" by (auto simp: reads_Cons intro: escape.short)
    with \<open>out' = _\<close> show ?thesis by blast
  qed
next
  assume "\<exists>t c. reads p t p' \<and> escape t c \<and> out' = out @ c"
  then obtain t c where t: "reads p t p'" "escape t c" "out' = out @ c" by blast
  from t(2) show "parse_escape out p = Ok (out', p')"
  proof cases
    case (short e x)
    then show ?thesis using t by (auto simp: short_escapes_def reads_Cons parse_escape_def)
  next
    case (basic u v)
    then have "unicode_scalar (advance p) = Ok (ucast v, p')" "peek p = Some 0x75" using t by (auto simp: reads_Cons unicode_scalar_reads)
    with basic scalars(1) t show ?thesis by (simp add: parse_escape_def)
  next
    case (pair u v x w)
    then have "unicode_scalar (advance p) = Ok (surrogate_scalar v w, p')" "peek p = Some 0x75"
      using t unfolding unicode_scalar_reads by (simp add: reads_Cons; blast)+
    with pair scalars(2) t show ?thesis by (simp add: parse_escape_def)
  qed
qed

text \<open>What stands between the quotes, and what it stands for.\<close>

inductive body :: "bytes \<Rightarrow> bytes \<Rightarrow> bool" where
  empty: "body [] []"
| plain: "0x20 \<le> b \<Longrightarrow> b \<noteq> 0x22 \<Longrightarrow> b \<noteq> 0x5c \<Longrightarrow> body t c \<Longrightarrow> body (b # t) (b # c)"
| escaped: "escape e x \<Longrightarrow> body t c \<Longrightarrow> body (0x5c # e @ t) (x @ c)"

definition json_string :: "bytes \<Rightarrow> bytes \<Rightarrow> bool" where
  "json_string text value \<longleftrightarrow> (\<exists>t. text = 0x22 # t @ [0x22] \<and> body t value \<and> from_utf8 value)"

lemma control_iff: "(b :: u8) \<le> 0x1f \<longleftrightarrow> \<not> 0x20 \<le> b"
  by (simp add: word_le_def) arith

lemma string_loop_sound:
  "string_loop out p = Ok (out', p') \<Longrightarrow> \<exists>t c. reads p (t @ [0x22]) p' \<and> body t c \<and> out' = out @ c \<and> from_utf8 out'"
proof (induction out p rule: string_loop.induct)
  case (1 out p)
  from "1.prems" obtain b where b: "peek p = Some b" by (subst (asm) string_loop.simps) (auto split: option.splits)
  note s = "1.prems" [unfolded string_loop.simps [of out p]]
  consider "b = 0x22" | "b = 0x5c" | "b \<noteq> 0x22" "b \<noteq> 0x5c" by blast
  then show ?case
  proof cases
    case 1
    with s b have "reads p ([] @ [0x22]) p'" "out' = out @ []" "from_utf8 out'" by (auto simp: reads_Cons split: if_splits)
    with body.empty show ?thesis by blast
  next
    case 2
    with s b obtain o2 p2 where e: "parse_escape out (advance p) = Ok (o2, p2)" "string_loop o2 p2 = Ok (out', p')"
      by (auto split: result.splits)
    from "1.IH"(1) [OF b _ 2 e(1) refl] 2 e(2) have "\<exists>t c. reads p2 (t @ [0x22]) p' \<and> body t c \<and> out' = o2 @ c \<and> from_utf8 out'" by simp
    then obtain t c where t: "reads p2 (t @ [0x22]) p'" "body t c" "out' = o2 @ c" "from_utf8 out'" by blast
    from e(1) obtain u x where u: "reads (advance p) u p2" "escape u x" "o2 = out @ x" by (auto simp: parse_escape_reads)
    have "reads p ((0x5c # u @ t) @ [0x22]) p'" using b 2 u(1) t(1) by (auto simp: reads_Cons reads_append)
    moreover have "body (0x5c # u @ t) (x @ c)" by (rule body.escaped [OF u(2) t(2)])
    ultimately show ?thesis using t(3,4) u(3) by (intro exI [of _ "0x5c # u @ t"] exI [of _ "x @ c"]) simp
  next
    case 3
    with s b have "string_loop (out @ [b]) (advance p) = Ok (out', p')" "\<not> b \<le> 0x1f" by (auto split: if_splits)
    with "1.IH"(2) [OF b] 3 obtain t c where t: "reads (advance p) (t @ [0x22]) p'" "body t c" "out' = (out @ [b]) @ c" "from_utf8 out'" by blast
    have "body (b # t) (b # c)" using 3 t(2) \<open>\<not> b \<le> 0x1f\<close> by (auto intro: body.plain simp: control_iff)
    moreover have "reads p ((b # t) @ [0x22]) p'" using b t(1) by (simp add: reads_Cons)
    ultimately show ?thesis using t(3,4) by (intro exI [of _ "b # t"] exI [of _ "b # c"]) simp
  qed
qed

lemma string_loop_complete:
  "body t c \<Longrightarrow> reads p (t @ [0x22]) p' \<Longrightarrow> from_utf8 (out @ c) \<Longrightarrow> string_loop out p = Ok (out @ c, p')"
proof (induction arbitrary: out p rule: body.induct)
  case empty
  then show ?case by (subst string_loop.simps) (simp add: reads_Cons)
next
  case (plain b t c)
  then have "string_loop (out @ [b]) (advance p) = Ok ((out @ [b]) @ c, p')" by (intro plain.IH) (simp_all add: reads_Cons)
  with plain show ?case by (subst string_loop.simps) (simp add: reads_Cons control_iff)
next
  case (escaped e x t c)
  then obtain q where q: "peek p = Some 0x5c" "reads (advance p) e q" "reads q (t @ [0x22]) p'" by (auto simp: reads_Cons reads_append)
  then have "parse_escape out (advance p) = Ok (out @ x, q)" using escaped.hyps(1) by (auto simp: parse_escape_reads)
  moreover have "string_loop (out @ x) q = Ok ((out @ x) @ c, p')" using escaped.prems(2) by (intro escaped.IH [OF q(3)]) simp
  ultimately show ?case using q(1) by (subst string_loop.simps) simp
qed

text \<open>The string reader reads exactly the strings of the grammar.\<close>

lemma parse_string_reads: "parse_string p = Ok (s, p') \<longleftrightarrow> (\<exists>t. reads p t p' \<and> json_string t s)"
proof
  assume "parse_string p = Ok (s, p')"
  then obtain q where "expect 0x22 p = Ok q" "string_loop [] q = Ok (s, p')" by (auto simp: parse_string_def opt)
  with string_loop_sound [of "[]" q s p'] obtain t where "reads p (0x22 # t @ [0x22]) p'" "body t s" "from_utf8 s"
    by (auto simp: expect_reads reads_Cons)
  then show "\<exists>t. reads p t p' \<and> json_string t s" by (auto simp: json_string_def)
next
  assume "\<exists>t. reads p t p' \<and> json_string t s"
  then obtain t where t: "reads p (0x22 # t @ [0x22]) p'" "body t s" "from_utf8 s" by (auto simp: json_string_def)
  then have "expect 0x22 p = Ok (advance p)" "string_loop [] (advance p) = Ok (s, p')"
    using string_loop_complete [of t s "advance p" p' "[]"] by (auto simp: expect_reads reads_Cons)
  then show "parse_string p = Ok (s, p')" by (simp add: parse_string_def)
qed

section \<open>Literals and numbers\<close>

lemma expect_literal_reads: "literal \<noteq> [] \<Longrightarrow> expect_literal literal p = Ok p' \<longleftrightarrow> reads p literal p'"
proof -
  assume n: "literal \<noteq> []"
  have "(\<exists>r. rest p = literal @ r) \<longleftrightarrow> take (length literal) (rest p) = literal" by (metis append_eq_conv_conj append_take_drop_id)
  moreover have "jp_offset p + length literal \<le> length (jp_bytes p)" if "rest p = literal @ r" for r
  proof -
    have "length (jp_bytes p) - jp_offset p = length literal + length r" using arg_cong [OF that, of length] by (simp add: rest_def)
    moreover have "0 < length literal" using n by simp
    ultimately show ?thesis by linarith
  qed
  ultimately show ?thesis by (auto simp: expect_literal_def Let_def reads_def rest_def)
qed

definition int_part :: "bytes \<Rightarrow> bool" where
  "int_part t \<longleftrightarrow> t = [0x30] \<or> (\<exists>d ds. t = d # ds \<and> 0x31 \<le> d \<and> d \<le> 0x39 \<and> list_all is_digit ds)"

definition frac_part :: "bytes \<Rightarrow> bool" where
  "frac_part t \<longleftrightarrow> t = [] \<or> (\<exists>d ds. t = 0x2e # d # ds \<and> is_digit d \<and> list_all is_digit ds)"

definition exp_part :: "bytes \<Rightarrow> bool" where
  "exp_part t \<longleftrightarrow> t = [] \<or> (\<exists>c sign d ds. t = c # sign @ d # ds \<and> c \<in> {0x65, 0x45} \<and> sign \<in> {[], [0x2b], [0x2d]} \<and>
     is_digit d \<and> list_all is_digit ds)"

definition number :: "bytes \<Rightarrow> bool" where
  "number t \<longleftrightarrow> (\<exists>sign i f e. t = sign @ i @ f @ e \<and> sign \<in> {[], [0x2d]} \<and> int_part i \<and> frac_part f \<and> exp_part e)"

lemma skip_digits_some: "peek p = Some d \<Longrightarrow> is_digit d \<Longrightarrow> \<exists>ds. reads p (d # ds) (skip_digits p) \<and> list_all is_digit ds"
proof -
  assume d: "peek p = Some d" "is_digit d"
  obtain w where w: "reads p w (skip_digits p)" "list_all is_digit w" "\<not> peeks is_digit (skip_digits p)" using skip_digits_reads by blast
  show ?thesis
  proof (cases w)
    case Nil
    with w d show ?thesis by (simp add: peeks_def)
  next
    case (Cons b ds)
    with w d show ?thesis by (auto simp: reads_Cons)
  qed
qed

lemma skip_digits_all: "reads p ds p' \<Longrightarrow> list_all is_digit ds \<Longrightarrow> \<not> peeks is_digit p' \<Longrightarrow> skip_digits p = p'"
  using skip_digits_reads by blast

lemma optional_byte: "\<exists>t. reads p t (snd (take_byte b p)) \<and> t \<in> {[], [b]}"
proof (cases "peek p = Some b")
  case True
  then show ?thesis by (intro exI [of _ "[b]"]) (simp add: take_byte_def reads_Cons)
next
  case False
  then show ?thesis by (intro exI [of _ "[]"]) (simp add: take_byte_def)
qed

lemma optional_sign: "\<exists>t. reads p t (if peeks (\<lambda>b. b = x \<or> b = y) p then advance p else p) \<and> t \<in> {[], [x], [y]}"
proof (cases "peeks (\<lambda>b. b = x \<or> b = y) p")
  case True
  then obtain b where "peek p = Some b" "b = x \<or> b = y" by (auto simp: peeks_def split: option.splits)
  with True show ?thesis by (intro exI [of _ "[b]"]) (auto simp: reads_Cons)
next
  case False
  then show ?thesis by (intro exI [of _ "[]"]) simp
qed

lemma skip_number_sound: "skip_number p = Ok p' \<Longrightarrow> \<exists>t. reads p t p' \<and> number t"
proof -
  assume "skip_number p = Ok p'"
  then obtain q r where s: "skip_integer (snd (take_byte 0x2d p)) = Ok q" "skip_fraction q = Ok r" "skip_exponent r = Ok p'"
    by (auto simp: skip_number_def opt)
  obtain sign where sign: "reads p sign (snd (take_byte 0x2d p))" "sign \<in> {[], [0x2d]}"
    using optional_byte [of p "0x2d"] by blast
  obtain i where i: "reads (snd (take_byte 0x2d p)) i q" "int_part i"
  proof -
    let ?p = "snd (take_byte 0x2d p)"
    from s(1) obtain b where b: "peek ?p = Some b" by (auto simp: skip_integer_def split: option.splits)
    show ?thesis
    proof (cases "b = 0x30")
      case True
      with s(1) b show ?thesis by (intro that [of "[b]"]) (auto simp: skip_integer_def reads_Cons int_part_def)
    next
      case False
      with s(1) b have d: "0x31 \<le> b" "b \<le> 0x39" "q = skip_digits (advance ?p)" by (auto simp: skip_integer_def split: if_splits)
      obtain w where "reads (advance ?p) w q" "list_all is_digit w" using d(3) skip_digits_reads by blast
      with b d(1,2) show ?thesis by (intro that [of "b # w"]) (auto simp: reads_Cons int_part_def)
    qed
  qed
  obtain f where f: "reads q f r" "frac_part f"
  proof (cases "peek q = Some 0x2e")
    case True
    with s(2) obtain d where d: "peek (advance q) = Some d" "is_digit d" "r = skip_digits (advance q)"
      by (auto simp: skip_fraction_def take_byte_def peeks_def split: if_splits option.splits)
    then obtain ds where "reads (advance q) (d # ds) r" "list_all is_digit ds" using skip_digits_some by blast
    with True d(2) show ?thesis by (intro that [of "0x2e # d # ds"]) (auto simp: reads_Cons frac_part_def)
  next
    case False
    with s(2) show ?thesis by (intro that [of "[]"]) (auto simp: skip_fraction_def take_byte_def frac_part_def)
  qed
  obtain e where e: "reads r e p'" "exp_part e"
  proof (cases "peeks (\<lambda>b. b = 0x65 \<or> b = 0x45) r")
    case True
    then obtain c where c: "peek r = Some c" "c \<in> {0x65, 0x45}" by (auto simp: peeks_def split: option.splits)
    let ?q = "if peeks (\<lambda>b. b = 0x2b \<or> b = 0x2d) (advance r) then advance (advance r) else advance r"
    obtain sg where sg: "reads (advance r) sg ?q" "sg \<in> {[], [0x2b], [0x2d]}"
      using optional_sign [of "advance r" "0x2b" "0x2d"] by blast
    from s(3) True have "peeks is_digit ?q" "p' = skip_digits ?q" by (auto simp: skip_exponent_def Let_def split: if_splits)
    then obtain d ds where "is_digit d" "reads ?q (d # ds) p'" "list_all is_digit ds"
      using skip_digits_some [of ?q] by (auto simp: peeks_def split: option.splits)
    moreover from this sg have "reads (advance r) (sg @ d # ds) p'" unfolding reads_append by blast
    ultimately show ?thesis using c sg(2) by (intro that [of "c # sg @ d # ds"]) (auto simp: reads_Cons [of r] exp_part_def)
  next
    case False
    with s(3) show ?thesis by (intro that [of "[]"]) (auto simp: skip_exponent_def exp_part_def)
  qed
  have "reads p (sign @ i @ f @ e) p'" using sign i f e by (auto simp: reads_append)
  moreover have "number (sign @ i @ f @ e)" unfolding number_def using sign(2) i(2) f(2) e(2) by blast
  ultimately show ?thesis by blast
qed

text \<open>The byte after a number does not continue it.\<close>

definition number_end :: "JsonParser \<Rightarrow> bool" where
  "number_end p \<longleftrightarrow> \<not> peeks (\<lambda>b. is_digit b \<or> b = 0x2e \<or> b = 0x65 \<or> b = 0x45) p"

lemma not_digits: "\<not> is_digit 0x2e" "\<not> is_digit 0x65" "\<not> is_digit 0x45" "\<not> is_digit 0x2d" "\<not> is_digit 0x2b" "is_digit 0x30"
  "0x31 \<le> d \<Longrightarrow> d \<le> 0x39 \<Longrightarrow> is_digit d"
  by (simp_all add: is_digit_def word_le_def)

lemma exponent_complete:
  assumes "exp_part e" "reads r e p'" "number_end p'"
  shows "skip_exponent r = Ok p'"
proof (cases "e = []")
  case True
  with assms show ?thesis by (auto simp: skip_exponent_def number_end_def peeks_def split: option.splits)
next
  case False
  with assms(1) obtain c sg d ds where e: "e = c # sg @ d # ds" "c \<in> {0x65, 0x45}" "sg \<in> {[], [0x2b], [0x2d]}" "is_digit d" "list_all is_digit ds"
    by (auto simp: exp_part_def)
  with assms(2) obtain q where q: "peek r = Some c" "reads (advance r) sg q" "reads q (d # ds) p'" by (auto simp: reads_Cons [of r] reads_append)
  have d: "peek q = Some d" using q(3) by (simp add: reads_Cons)
  have "\<not> peeks is_digit p'" using assms(3) by (auto simp: number_end_def peeks_def split: option.splits)
  then have "skip_digits q = p'" using skip_digits_all [OF q(3)] e(4,5) by simp
  moreover have "(if peeks (\<lambda>b. b = 0x2b \<or> b = 0x2d) (advance r) then advance (advance r) else advance r) = q"
    using e(3,4) q(2) d not_digits by (auto simp: reads_Cons peeks_def)
  moreover have "peeks is_digit q" using d e(4) by (simp add: peeks_def)
  ultimately show ?thesis using q(1) e(2) by (simp add: skip_exponent_def peeks_def [of _ r] Let_def)
qed

lemma skip_number_complete:
  assumes "number t" "reads p t p'" "number_end p'"
  shows "skip_number p = Ok p'"
proof -
  from assms(1) obtain sign i f e where t: "t = sign @ i @ f @ e" "sign \<in> {[], [0x2d]}" "int_part i" "frac_part f" "exp_part e"
    unfolding number_def by blast
  with assms(2) obtain p1 q r where s: "reads p sign p1" "reads p1 i q" "reads q f r" "reads r e p'" by (auto simp: reads_append)
  have e: "skip_exponent r = Ok p'" by (rule exponent_complete [OF t(5) s(4) assms(3)])
  have r: "\<not> peeks is_digit r \<and> peek r \<noteq> Some 0x2e"
    using t(5) s(4) assms(3) not_digits by (cases e) (auto simp: exp_part_def number_end_def peeks_def reads_Cons split: option.splits)
  have f: "skip_fraction q = Ok r"
  proof (cases f)
    case Nil
    with s(3) r show ?thesis by (simp add: skip_fraction_def take_byte_def)
  next
    case (Cons a b)
    with t(4) obtain d ds where "f = 0x2e # d # ds" "is_digit d" "list_all is_digit ds" by (auto simp: frac_part_def)
    with s(3) have "peek q = Some 0x2e" "peek (advance q) = Some d" "reads (advance q) (d # ds) r" "is_digit d" "list_all is_digit (d # ds)"
      by (auto simp: reads_Cons)
    with r skip_digits_all show ?thesis by (simp add: skip_fraction_def take_byte_def peeks_def)
  qed
  have q: "\<not> peeks is_digit q" using t(4) s(3) r not_digits by (cases f) (auto simp: frac_part_def reads_Cons peeks_def)
  have i: "skip_integer p1 = Ok q"
  proof (cases "i = [0x30]")
    case True
    with s(2) show ?thesis by (auto simp: skip_integer_def reads_Cons)
  next
    case False
    with t(3) obtain d ds where d: "i = d # ds" "0x31 \<le> d" "d \<le> 0x39" "list_all is_digit ds" by (auto simp: int_part_def)
    then have "d \<noteq> 0x30" by (auto simp: word_le_def)
    with d s(2) skip_digits_all [OF _ d(4) q] show ?thesis by (auto simp: skip_integer_def reads_Cons)
  qed
  have "snd (take_byte 0x2d p) = p1"
  proof (cases "sign = []")
    case True
    have "peek p \<noteq> Some 0x2d" using t(3) s(1,2) True not_digits by (auto simp: int_part_def reads_Cons word_le_def)
    with s(1) True show ?thesis by (simp add: take_byte_def)
  qed (use t(2) s(1) in \<open>auto simp: take_byte_def reads_Cons\<close>)
  with i f e show ?thesis by (simp add: skip_number_def)
qed

section \<open>Values\<close>

text \<open>A value, the members of an object and the elements of an array, whose non-empty brackets nest at most \<open>d\<close> deep.\<close>

inductive json_value :: "nat \<Rightarrow> bytes \<Rightarrow> bool" and members :: "nat \<Rightarrow> bytes \<Rightarrow> bool" and elements :: "nat \<Rightarrow> bytes \<Rightarrow> bool" where
  string: "json_string t s \<Longrightarrow> json_value d t"
| literal: "t \<in> {ascii ''true'', ascii ''false'', ascii ''null''} \<Longrightarrow> json_value d t"
| number: "number t \<Longrightarrow> json_value d t"
| empty_object: "blank w \<Longrightarrow> json_value d (0x7b # w @ [0x7d])"
| object: "blank w \<Longrightarrow> members d t \<Longrightarrow> json_value (Suc d) (0x7b # w @ t @ [0x7d])"
| empty_array: "blank w \<Longrightarrow> json_value d (0x5b # w @ [0x5d])"
| array: "blank w \<Longrightarrow> elements d t \<Longrightarrow> json_value (Suc d) (0x5b # w @ t @ [0x5d])"
| last_member: "json_string k s \<Longrightarrow> blank w \<Longrightarrow> blank w' \<Longrightarrow> json_value d v \<Longrightarrow> blank w'' \<Longrightarrow> members d (k @ w @ [0x3a] @ w' @ v @ w'')"
| member: "json_string k s \<Longrightarrow> blank w \<Longrightarrow> blank w' \<Longrightarrow> json_value d v \<Longrightarrow> blank w'' \<Longrightarrow> blank w3 \<Longrightarrow> members d t \<Longrightarrow>
    members d (k @ w @ [0x3a] @ w' @ v @ w'' @ [0x2c] @ w3 @ t)"
| last_element: "json_value d v \<Longrightarrow> blank w \<Longrightarrow> elements d (v @ w)"
| element: "json_value d v \<Longrightarrow> blank w \<Longrightarrow> blank w' \<Longrightarrow> elements d t \<Longrightarrow> elements d (v @ w @ [0x2c] @ w' @ t)"

lemma blank_reads: "\<exists>w. reads p w (skip_ws p) \<and> blank w"
  using skip_ws_reads by blast

lemma blank_then: "blank w \<Longrightarrow> reads p w q \<Longrightarrow> \<not> peeks is_ws q \<Longrightarrow> skip_ws p = q"
  using skip_ws_reads by blast

lemma enter_sound:
  assumes "enter close loop p = Some (Ok p')"
  shows "\<exists>w q. blank w \<and> reads p w q \<and> (reads q [close] p' \<or> loop q = Some (Ok p'))"
proof -
  obtain w where w: "reads p w (skip_ws p)" "blank w" using blank_reads by blast
  obtain c q where c: "take_byte close (skip_ws p) = (c, q)" by fastforce
  have "reads (skip_ws p) [close] p' \<or> loop (skip_ws p) = Some (Ok p')"
    using assms c take_byte_reads [of close "skip_ws p"] by (cases c) (auto simp: enter_def)
  with w show ?thesis by blast
qed

lemma continue_sound:
  assumes "continue close loop p = Some (Ok p')"
  shows "\<exists>w q. blank w \<and> reads p w q \<and> (reads q [close] p' \<or> (\<exists>w' r. blank w' \<and> reads q (0x2c # w') r \<and> loop r = Some (Ok p')))"
proof -
  obtain w where w: "reads p w (skip_ws p)" "blank w" using blank_reads by blast
  obtain c q where c: "take_byte close (skip_ws p) = (c, q)" by fastforce
  have "reads (skip_ws p) [close] p' \<or> (\<exists>w' r. blank w' \<and> reads (skip_ws p) (0x2c # w') r \<and> loop r = Some (Ok p'))"
  proof (cases c)
    case True
    with assms c take_byte_reads(1) show ?thesis by (auto simp: continue_def)
  next
    case False
    with c take_byte_reads(2) [of close "skip_ws p" q] have "q = skip_ws p" by simp
    with assms c False obtain u where u: "expect 0x2c (skip_ws p) = Ok u" "loop (skip_ws u) = Some (Ok p')" by (auto simp: continue_def opt)
    obtain w' where "reads u w' (skip_ws u)" "blank w'" using blank_reads by blast
    with u have "reads (skip_ws p) (0x2c # w') (skip_ws u)" by (simp add: expect_reads reads_Cons)
    with u(2) \<open>blank w'\<close> show ?thesis by blast
  qed
  with w show ?thesis by blast
qed

lemma skip_sound:
  "skip_value fuel depth p = Some (Ok p') \<Longrightarrow> depth \<le> 32 \<and> (\<exists>w t. reads p (w @ t) p' \<and> blank w \<and> json_value (32 - depth) t)"
  "object_loop fuel depth p = Some (Ok p') \<Longrightarrow> depth \<le> 32 \<and> (\<exists>t. reads p (t @ [0x7d]) p' \<and> members (32 - depth) t)"
  "array_loop fuel depth p = Some (Ok p') \<Longrightarrow> depth \<le> 32 \<and> (\<exists>w t. reads p (w @ t @ [0x5d]) p' \<and> blank w \<and> elements (32 - depth) t)"
proof (induction fuel arbitrary: depth p p')
  case (Suc fuel)
  note ih = Suc.IH
  {
    case 1
    let ?p = "skip_ws p"
    from 1 obtain b where b: "peek ?p = Some b" and d: "depth \<le> 32" by (auto simp: Let_def MAX_JSON_DEPTH_def split: if_splits option.splits)
    obtain w where w: "reads p w ?p" "blank w" using blank_reads by blast
    note v = 1 [simplified Let_def b skip_value.simps option.case]
    have "\<exists>t. reads ?p t p' \<and> json_value (32 - depth) t"
    proof (cases "b \<in> {0x7b, 0x5b}")
      case True
      then consider (object) "b = 0x7b" | (array) "b = 0x5b" by blast
      then show ?thesis
      proof cases
        case object
        with v d obtain q where q: "expect 0x7b ?p = Ok q" "enter 0x7d (object_loop fuel (depth + 1)) q = Some (Ok p')" by (auto simp: MAX_JSON_DEPTH_def opt)
        from enter_sound [OF q(2)] obtain w2 r where r: "blank w2" "reads q w2 r" "reads r [0x7d] p' \<or> object_loop fuel (depth + 1) r = Some (Ok p')" by blast
        from r(3) show ?thesis
        proof
          assume "reads r [0x7d] p'"
          with q(1) r(2) have "reads ?p (0x7b # w2 @ [0x7d]) p'" by (auto simp: expect_reads reads_Cons [of ?p] reads_append)
          with json_value_members_elements.empty_object [OF r(1)] show ?thesis by blast
        next
          assume "object_loop fuel (depth + 1) r = Some (Ok p')"
          from ih(2) [OF this] obtain t where t: "depth + 1 \<le> 32" "reads r (t @ [0x7d]) p'" "members (32 - (depth + 1)) t" by blast
          have "reads ?p (0x7b # w2 @ t @ [0x7d]) p'" using q(1) r(2) t(2) by (auto simp: expect_reads reads_Cons [of ?p] reads_append)
          moreover have "Suc (32 - (depth + 1)) = 32 - depth" using t(1) by simp
          ultimately show ?thesis using json_value_members_elements.object [OF r(1) t(3)] by metis
        qed
      next
        case array
        with v d obtain q where q: "expect 0x5b ?p = Ok q" "enter 0x5d (array_loop fuel (depth + 1)) q = Some (Ok p')" by (auto simp: MAX_JSON_DEPTH_def opt)
        from enter_sound [OF q(2)] obtain w2 r where r: "blank w2" "reads q w2 r" "reads r [0x5d] p' \<or> array_loop fuel (depth + 1) r = Some (Ok p')" by blast
        from r(3) show ?thesis
        proof
          assume "reads r [0x5d] p'"
          with q(1) r(2) have "reads ?p (0x5b # w2 @ [0x5d]) p'" by (auto simp: expect_reads reads_Cons [of ?p] reads_append)
          with json_value_members_elements.empty_array [OF r(1)] show ?thesis by blast
        next
          assume "array_loop fuel (depth + 1) r = Some (Ok p')"
          from ih(3) [OF this] obtain w3 t where t: "depth + 1 \<le> 32" "reads r (w3 @ t @ [0x5d]) p'" "blank w3" "elements (32 - (depth + 1)) t" by blast
          have "reads ?p (0x5b # (w2 @ w3) @ t @ [0x5d]) p'" using q(1) r(2) t(2) by (auto simp: expect_reads reads_Cons [of ?p] reads_append)
          moreover have "blank (w2 @ w3)" using r(1) t(3) by (simp add: blank_def)
          moreover have "Suc (32 - (depth + 1)) = 32 - depth" using t(1) by simp
          ultimately show ?thesis using json_value_members_elements.array [OF _ t(4)] by metis
        qed
      qed
    next
      case False
      from v False d consider x where "parse_string ?p = Ok (x, p')"
        | l where "l \<in> {ascii ''true'', ascii ''false'', ascii ''null''}" "expect_literal l ?p = Ok p'" | "skip_number ?p = Ok p'"
        by (auto simp: MAX_JSON_DEPTH_def opt split: if_splits)
      then show ?thesis
      proof cases
        case (1 x)
        then obtain t where "reads ?p t p'" "json_string t x" using parse_string_reads by blast
        with json_value_members_elements.string [OF this(2)] show ?thesis by blast
      next
        case (2 l)
        then have "l \<noteq> []" by (auto simp: ascii_def)
        with 2 json_value_members_elements.literal [OF 2(1)] show ?thesis by (auto simp: expect_literal_reads)
      next
        case 3
        from skip_number_sound [OF 3] obtain t where "reads ?p t p'" "number t" by blast
        with json_value_members_elements.number [OF this(2)] show ?thesis by blast
      qed
    qed
    with w d show ?case by (auto simp: reads_append)
  next
    case 2
    then obtain key q r s where q: "parse_string p = Ok (key, q)" "expect 0x3a (skip_ws q) = Ok r"
      "skip_value fuel depth r = Some (Ok s)" "continue 0x7d (object_loop fuel depth) s = Some (Ok p')" by (auto simp: opt)
    obtain k where k: "reads p k q" "json_string k key" using q(1) parse_string_reads by blast
    obtain w where w: "reads q w (skip_ws q)" "blank w" using blank_reads by blast
    from ih(1) [OF q(3)] obtain w' v where v: "depth \<le> 32" "reads r (w' @ v) s" "blank w'" "json_value (32 - depth) v" by blast
    from continue_sound [OF q(4)] obtain w'' u where u: "blank w''" "reads s w'' u"
      "reads u [0x7d] p' \<or> (\<exists>w3 x. blank w3 \<and> reads u (0x2c # w3) x \<and> object_loop fuel depth x = Some (Ok p'))" by blast
    have pre: "reads p (k @ w @ [0x3a] @ w' @ v @ w'') u" using k(1) w(1) q(2) v(2) u(2) by (auto simp: expect_reads reads_append reads_Cons)
    from u(3) show ?case
    proof
      assume "reads u [0x7d] p'"
      with pre have "reads p ((k @ w @ [0x3a] @ w' @ v @ w'') @ [0x7d]) p'" using reads_append by blast
      with json_value_members_elements.last_member [OF k(2) w(2) v(3,4) u(1)] v(1) show ?thesis by blast
    next
      assume "\<exists>w3 x. blank w3 \<and> reads u (0x2c # w3) x \<and> object_loop fuel depth x = Some (Ok p')"
      then obtain w3 x where x: "blank w3" "reads u ([0x2c] @ w3) x" "object_loop fuel depth x = Some (Ok p')" by auto
      from ih(2) [OF x(3)] obtain t where t: "reads x (t @ [0x7d]) p'" "members (32 - depth) t" by blast
      have "reads p ((k @ w @ [0x3a] @ w' @ v @ w'') @ ([0x2c] @ w3) @ t @ [0x7d]) p'" using pre x(2) t(1) reads_append by blast
      then have "reads p ((k @ w @ [0x3a] @ w' @ v @ w'' @ [0x2c] @ w3 @ t) @ [0x7d]) p'" by simp
      with json_value_members_elements.member [OF k(2) w(2) v(3,4) u(1) x(1) t(2)] v(1) show ?thesis by blast
    qed
  next
    case 3
    then obtain s where q: "skip_value fuel depth p = Some (Ok s)" "continue 0x5d (array_loop fuel depth) s = Some (Ok p')" by (auto simp: opt)
    from ih(1) [OF q(1)] obtain w0 v where v: "depth \<le> 32" "reads p (w0 @ v) s" "blank w0" "json_value (32 - depth) v" by blast
    from continue_sound [OF q(2)] obtain w u where u: "blank w" "reads s w u"
      "reads u [0x5d] p' \<or> (\<exists>w3 x. blank w3 \<and> reads u (0x2c # w3) x \<and> array_loop fuel depth x = Some (Ok p'))" by blast
    have pre: "reads p (w0 @ v @ w) u" using v(2) u(2) by (auto simp: reads_append)
    from u(3) show ?case
    proof
      assume "reads u [0x5d] p'"
      with pre have "reads p (w0 @ (v @ w) @ [0x5d]) p'" using reads_append [of p "w0 @ v @ w"] by auto
      with json_value_members_elements.last_element [OF v(4) u(1)] v(1,3) show ?thesis by blast
    next
      assume "\<exists>w3 x. blank w3 \<and> reads u (0x2c # w3) x \<and> array_loop fuel depth x = Some (Ok p')"
      then obtain w3 x where x: "blank w3" "reads u ([0x2c] @ w3) x" "array_loop fuel depth x = Some (Ok p')" by auto
      from ih(3) [OF x(3)] obtain w4 t where t: "reads x (w4 @ t @ [0x5d]) p'" "blank w4" "elements (32 - depth) t" by blast
      have "reads p ((w0 @ v @ w) @ ([0x2c] @ w3) @ w4 @ t @ [0x5d]) p'" using pre x(2) t(1) reads_append by blast
      then have "reads p (w0 @ (v @ w @ [0x2c] @ (w3 @ w4) @ t) @ [0x5d]) p'" by simp
      moreover have "blank (w3 @ w4)" using x(1) t(2) by (simp add: blank_def)
      ultimately show ?thesis using json_value_members_elements.element [OF v(4) u(1) _ t(3)] v(1,3) by blast
    qed
  }
qed simp_all

end
