(* ===== verification/Json_Complete.thy ===== *)
theory Json_Complete
  imports Json_Grammar
begin

text \<open>
  The converse of the soundness of \<^theory_text>\<open>Json_Grammar\<close>: a value of the grammar, nested at most 32 deep and followed by a byte that does not
  continue a number, is skipped to its end.
\<close>

definition value_start :: "u8 \<Rightarrow> bool" where
  "value_start b \<longleftrightarrow> b \<in> {0x22, 0x74, 0x66, 0x6e, 0x7b, 0x5b, 0x2d} \<or> is_digit b"

lemma value_start_other: "value_start b \<Longrightarrow> \<not> is_ws b \<and> b \<noteq> 0x5d \<and> b \<noteq> 0x7d \<and> b \<noteq> 0x2c"
  by (auto simp: value_start_def is_ws_def is_digit_def word_le_def)

lemma string_first: "json_string t s \<Longrightarrow> \<exists>r. t = 0x22 # r"
  by (auto simp: json_string_def)

lemma number_first: "number t \<Longrightarrow> \<exists>b r. t = b # r \<and> (b = 0x2d \<or> is_digit b)"
  using not_digits by (fastforce simp: number_def int_part_def)

lemma literal_first:
  "t \<in> {ascii ''true'', ascii ''false'', ascii ''null''} \<Longrightarrow> \<exists>b r. t = b # r \<and> b \<in> {0x74, 0x66, 0x6e}"
  by (auto simp: ascii_def)

lemma firsts:
  "json_value d t \<Longrightarrow> \<exists>b r. t = b # r \<and> value_start b"
  "members d t \<Longrightarrow> \<exists>r. t = 0x22 # r"
  "elements d t \<Longrightarrow> \<exists>b r. t = b # r \<and> value_start b"
proof (induction rule: json_value_members_elements.inducts)
  case (string t s d)
  from string_first [OF this] show ?case by (auto simp: value_start_def)
next
  case (literal t d)
  from literal_first [OF this] show ?case by (auto simp: value_start_def)
next
  case (number t d)
  from number_first [OF this] show ?case by (auto simp: value_start_def)
next
  case (last_member k s)
  then show ?case using string_first by fastforce
next
  case (member k s)
  then show ?case using string_first by fastforce
qed (auto simp: value_start_def)

lemma peek_first: "reads p (b # t) q \<Longrightarrow> peek p = Some b"
  by (simp add: reads_Cons)

lemma not_ws_peek: "peek p = Some b \<Longrightarrow> \<not> is_ws b \<Longrightarrow> \<not> peeks is_ws p"
  by (simp add: peeks_def)

lemma token_end: "peek p = Some b \<Longrightarrow> is_ws b \<or> b \<in> {0x2c, 0x7d, 0x5d} \<Longrightarrow> number_end p"
  by (auto simp: number_end_def peeks_def is_ws_def is_digit_def word_le_def)

lemma after_value: "blank w \<Longrightarrow> c \<in> {0x2c, 0x7d, 0x5d} \<Longrightarrow> reads p (w @ c # t) q \<Longrightarrow> number_end p"
proof -
  assume a: "blank w" "c \<in> {0x2c, 0x7d, 0x5d}" "reads p (w @ c # t) q"
  obtain b where "peek p = Some b" "is_ws b \<or> b \<in> {0x2c, 0x7d, 0x5d}"
    using a by (cases w) (auto simp: blank_def dest: peek_first)
  then show ?thesis by (rule token_end)
qed

lemma enter_complete:
  "blank w \<Longrightarrow> \<not> is_ws close \<Longrightarrow> reads p (w @ [close]) q \<Longrightarrow> enter close loop p = Some (Ok q)"
  "blank w \<Longrightarrow> reads p w q \<Longrightarrow> peek q = Some b \<Longrightarrow> \<not> is_ws b \<Longrightarrow> b \<noteq> close \<Longrightarrow> enter close loop p = loop q"
proof -
  assume a: "blank w" "\<not> is_ws close" "reads p (w @ [close]) q"
  then obtain r where r: "reads p w r" "reads r [close] q" by (auto simp: reads_append)
  then have "skip_ws p = r" using blank_then [OF a(1)] not_ws_peek a(2) by (auto simp: reads_Cons)
  moreover have "take_byte close r = (True, q)" using r(2) take_byte_reads(1) by blast
  ultimately show "enter close loop p = Some (Ok q)" by (simp add: enter_def)
next
  assume a: "blank w" "reads p w q" "peek q = Some b" "\<not> is_ws b" "b \<noteq> close"
  then have "skip_ws p = q" using blank_then [OF a(1,2)] not_ws_peek by blast
  moreover have "take_byte close q = (False, q)" using a(3,5) by (simp add: take_byte_def)
  ultimately show "enter close loop p = loop q" by (simp add: enter_def)
qed

lemma continue_complete:
  "blank w \<Longrightarrow> \<not> is_ws close \<Longrightarrow> reads p (w @ [close]) q \<Longrightarrow> continue close loop p = Some (Ok q)"
  "blank w \<Longrightarrow> reads p w r \<Longrightarrow> reads r [0x2c] s \<Longrightarrow> blank w' \<Longrightarrow> reads s w' q \<Longrightarrow> close \<noteq> 0x2c \<Longrightarrow> \<not> peeks is_ws q \<Longrightarrow> continue close loop p = loop q"
proof -
  assume a: "blank w" "\<not> is_ws close" "reads p (w @ [close]) q"
  then obtain r where r: "reads p w r" "reads r [close] q" by (auto simp: reads_append)
  then have "skip_ws p = r" using blank_then [OF a(1)] not_ws_peek a(2) by (auto simp: reads_Cons)
  moreover have "take_byte close r = (True, q)" using r(2) take_byte_reads(1) by blast
  ultimately show "continue close loop p = Some (Ok q)" by (simp add: continue_def)
next
  assume a: "blank w" "reads p w r" "reads r [0x2c] s" "blank w'" "reads s w' q" "close \<noteq> 0x2c" "\<not> peeks is_ws q"
  have c: "peek r = Some 0x2c" using a(3) by (rule peek_first)
  then have "skip_ws p = r" using blank_then [OF a(1,2)] not_ws_peek by (auto simp: is_ws_def)
  moreover have "take_byte close r = (False, r)" using c a(6) by (simp add: take_byte_def)
  moreover have "expect 0x2c r = Ok s" using a(3) by (simp add: expect_reads)
  moreover have "skip_ws s = q" by (rule blank_then [OF a(4,5,7)])
  ultimately show "continue close loop p = loop q" by (simp add: continue_def)
qed

text \<open>A call that does not run out of fuel.\<close>

lemma fuel_Suc: "skip_value fuel depth p \<noteq> None \<Longrightarrow> \<exists>f. fuel = Suc f" "object_loop fuel depth p \<noteq> None \<Longrightarrow> \<exists>f. fuel = Suc f"
  "array_loop fuel depth p \<noteq> None \<Longrightarrow> \<exists>f. fuel = Suc f"
  by (cases fuel; simp)+

lemma value_dispatch:
  assumes "blank w" "reads p w r" "peek r = Some b" "value_start b" "depth \<le> 32"
  shows "skip_value (Suc fuel) depth p =
    (if b = 0x22 then Some (and_then (parse_string r) (\<lambda>(s, p). Ok p))
     else if b = 0x7b then and_then_fuel (Some (expect 0x7b r)) (enter 0x7d (object_loop fuel (depth + 1)))
     else if b = 0x5b then and_then_fuel (Some (expect 0x5b r)) (enter 0x5d (array_loop fuel (depth + 1)))
     else if b = 0x74 then Some (expect_literal (ascii ''true'') r)
     else if b = 0x66 then Some (expect_literal (ascii ''false'') r)
     else if b = 0x6e then Some (expect_literal (ascii ''null'') r)
     else Some (skip_number r))"
proof -
  have "skip_ws p = r" using blank_then [OF assms(1,2)] not_ws_peek [OF assms(3)] value_start_other [OF assms(4)] by blast
  then show ?thesis using assms(3-5) by (simp add: MAX_JSON_DEPTH_def Let_def value_start_def) blast
qed

definition skips :: "nat \<Rightarrow> bytes \<Rightarrow> bool" where
  "skips d t \<longleftrightarrow> (\<forall>fuel depth p q w. blank w \<longrightarrow> reads p (w @ t) q \<longrightarrow> depth + d \<le> 32 \<longrightarrow> number_end q \<longrightarrow>
     skip_value fuel depth p \<noteq> None \<longrightarrow> skip_value fuel depth p = Some (Ok q))"

lemma object_step:
  assumes "skips d v" "json_string k s" "blank w" "blank w'" "reads p (k @ w @ [0x3a] @ w' @ v) r" "number_end r" "depth + d \<le> 32"
    and "object_loop (Suc f) depth p \<noteq> None"
  shows "object_loop (Suc f) depth p = continue 0x7d (object_loop f depth) r"
proof -
  obtain p1 p2 p3 where r: "reads p k p1" "reads p1 w p2" "reads p2 [0x3a] p3" "reads p3 (w' @ v) r" using assms(5) unfolding reads_append by blast
  have k: "parse_string p = Ok (s, p1)" using r(1) assms(2) parse_string_reads by blast
  have "\<not> peeks is_ws p2" using not_ws_peek [OF peek_first [OF r(3)]] by (simp add: is_ws_def)
  then have w: "expect 0x3a (skip_ws p1) = Ok p3" using blank_then [OF assms(3) r(2)] r(3) by (simp add: expect_reads)
  then have "skip_value f depth p3 \<noteq> None" using assms(8) k by (auto simp: and_then_fuel_None simp del: not_None_eq)
  then have "skip_value f depth p3 = Some (Ok r)" using assms(1,4,6,7) r(4) by (simp add: skips_def)
  then show ?thesis using k w by simp
qed

lemma array_step:
  assumes "skips d v" "reads p v r" "number_end r" "depth + d \<le> 32" "array_loop (Suc f) depth p \<noteq> None"
  shows "array_loop (Suc f) depth p = continue 0x5d (array_loop f depth) r"
proof -
  have "skip_value f depth p \<noteq> None" using assms(5) by (auto simp: and_then_fuel_None simp del: not_None_eq)
  moreover have "blank []" by (simp add: blank_def)
  moreover have "reads p ([] @ v) r" using assms(2) by simp
  ultimately have "skip_value f depth p = Some (Ok r)" using assms(1,3,4) unfolding skips_def by blast
  then show ?thesis by simp
qed

lemma skip_complete:
  "json_value d t \<Longrightarrow> (\<forall>fuel depth p q w. blank w \<longrightarrow> reads p (w @ t) q \<longrightarrow> depth + d \<le> 32 \<longrightarrow> number_end q \<longrightarrow>
     skip_value fuel depth p \<noteq> None \<longrightarrow> skip_value fuel depth p = Some (Ok q))"
  "members d t \<Longrightarrow> (\<forall>fuel depth p q. reads p (t @ [0x7d]) q \<longrightarrow> depth + d \<le> 32 \<longrightarrow>
     object_loop fuel depth p \<noteq> None \<longrightarrow> object_loop fuel depth p = Some (Ok q))"
  "elements d t \<Longrightarrow> (\<forall>fuel depth p q. reads p (t @ [0x5d]) q \<longrightarrow> depth + d \<le> 32 \<longrightarrow>
     array_loop fuel depth p \<noteq> None \<longrightarrow> array_loop fuel depth p = Some (Ok q))"
proof (induction rule: json_value_members_elements.inducts)
  case (string t s d)
  show ?case
  proof (intro allI impI)
    fix fuel depth p q w
    assume a: "blank w" "reads p (w @ t) q" "depth + d \<le> 32" "number_end q" "skip_value fuel depth p \<noteq> None"
    obtain f where f: "fuel = Suc f" using fuel_Suc(1) [OF a(5)] by blast
    obtain r where r: "reads p w r" "reads r t q" using a(2) by (auto simp: reads_append)
    have b: "peek r = Some 0x22" using r(2) string_first [OF string] peek_first by blast
    have "parse_string r = Ok (s, q)" using r(2) string parse_string_reads by blast
    with value_dispatch [OF a(1) r(1) b, of depth f] a(3) show "skip_value fuel depth p = Some (Ok q)" by (simp add: f value_start_def)
  qed
next
  case (literal t d)
  show ?case
  proof (intro allI impI)
    fix fuel depth p q w
    assume a: "blank w" "reads p (w @ t) q" "depth + d \<le> 32" "number_end q" "skip_value fuel depth p \<noteq> None"
    obtain f where f: "fuel = Suc f" using fuel_Suc(1) [OF a(5)] by blast
    obtain r where r: "reads p w r" "reads r t q" using a(2) by (auto simp: reads_append)
    have e: "expect_literal t r = Ok q" using r(2) literal by (subst expect_literal_reads) (auto simp: ascii_def)
    have "peek r = Some 0x74 \<and> t = ascii ''true'' \<or> peek r = Some 0x66 \<and> t = ascii ''false'' \<or> peek r = Some 0x6e \<and> t = ascii ''null''"
      using literal r(2) by (auto simp: ascii_def dest!: peek_first)
    with e value_dispatch [OF a(1) r(1), of _ depth f] a(3) show "skip_value fuel depth p = Some (Ok q)" by (auto simp: f value_start_def)
  qed
next
  case (number t d)
  show ?case
  proof (intro allI impI)
    fix fuel depth p q w
    assume a: "blank w" "reads p (w @ t) q" "depth + d \<le> 32" "number_end q" "skip_value fuel depth p \<noteq> None"
    obtain f where f: "fuel = Suc f" using fuel_Suc(1) [OF a(5)] by blast
    obtain r where r: "reads p w r" "reads r t q" using a(2) by (auto simp: reads_append)
    have e: "skip_number r = Ok q" by (rule skip_number_complete [OF number r(2) a(4)])
    obtain b where b: "peek r = Some b" "b = 0x2d \<or> is_digit b" using number_first [OF number] r(2) peek_first by blast
    then have "b \<notin> {0x22, 0x7b, 0x5b, 0x74, 0x66, 0x6e}" by (auto simp: is_digit_def word_le_def)
    with e value_dispatch [OF a(1) r(1) b(1), of depth f] a(3) b(2) show "skip_value fuel depth p = Some (Ok q)" by (auto simp: f value_start_def)
  qed
next
  case (empty_object w' d)
  show ?case
  proof (intro allI impI)
    fix fuel depth p q w
    assume a: "blank w" "reads p (w @ 0x7b # w' @ [0x7d]) q" "depth + d \<le> 32" "number_end q" "skip_value fuel depth p \<noteq> None"
    obtain f where f: "fuel = Suc f" using fuel_Suc(1) [OF a(5)] by blast
    obtain r where r: "reads p w r" "reads r (0x7b # w' @ [0x7d]) q" using a(2) by (auto simp: reads_append)
    have "expect 0x7b r = Ok (advance r)" "reads (advance r) (w' @ [0x7d]) q" using r(2) by (auto simp: expect_reads reads_Cons)
    with value_dispatch [OF a(1) r(1) peek_first [OF r(2)], of depth f] a(3) enter_complete(1) [OF empty_object]
    show "skip_value fuel depth p = Some (Ok q)" by (simp add: f value_start_def is_ws_def)
  qed
next
  case (empty_array w' d)
  show ?case
  proof (intro allI impI)
    fix fuel depth p q w
    assume a: "blank w" "reads p (w @ 0x5b # w' @ [0x5d]) q" "depth + d \<le> 32" "number_end q" "skip_value fuel depth p \<noteq> None"
    obtain f where f: "fuel = Suc f" using fuel_Suc(1) [OF a(5)] by blast
    obtain r where r: "reads p w r" "reads r (0x5b # w' @ [0x5d]) q" using a(2) by (auto simp: reads_append)
    have "expect 0x5b r = Ok (advance r)" "reads (advance r) (w' @ [0x5d]) q" using r(2) by (auto simp: expect_reads reads_Cons)
    with value_dispatch [OF a(1) r(1) peek_first [OF r(2)], of depth f] a(3) enter_complete(1) [OF empty_array]
    show "skip_value fuel depth p = Some (Ok q)" by (simp add: f value_start_def is_ws_def)
  qed
next
  case (object w' d t)
  show ?case
  proof (intro allI impI)
    fix fuel depth p q w
    assume a: "blank w" "reads p (w @ 0x7b # w' @ t @ [0x7d]) q" "depth + Suc d \<le> 32" "number_end q" "skip_value fuel depth p \<noteq> None"
    obtain f where f: "fuel = Suc f" using fuel_Suc(1) [OF a(5)] by blast
    obtain r where r: "reads p w r" "reads r (0x7b # w' @ t @ [0x7d]) q" using a(2) by (auto simp: reads_append)
    obtain s where s: "reads (advance r) w' s" "reads s (t @ [0x7d]) q" using r(2) by (auto simp: reads_Cons [of r] reads_append)
    have e: "expect 0x7b r = Ok (advance r)" using r(2) by (simp add: expect_reads reads_Cons)
    have "peek s = Some 0x22" using firsts(2) [OF object(2)] s(2) peek_first by fastforce
    then have "enter 0x7d (object_loop f (depth + 1)) (advance r) = object_loop f (depth + 1) s"
      by (rule enter_complete(2) [OF object(1) s(1)]) (simp_all add: is_ws_def)
    then have v: "skip_value fuel depth p = object_loop f (depth + 1) s"
      using value_dispatch [OF a(1) r(1) peek_first [OF r(2)], of depth f] a(3) e by (simp add: f value_start_def)
    with a(5) object.IH s(2) a(3) show "skip_value fuel depth p = Some (Ok q)" by simp
  qed
next
  case (array w' d t)
  show ?case
  proof (intro allI impI)
    fix fuel depth p q w
    assume a: "blank w" "reads p (w @ 0x5b # w' @ t @ [0x5d]) q" "depth + Suc d \<le> 32" "number_end q" "skip_value fuel depth p \<noteq> None"
    obtain f where f: "fuel = Suc f" using fuel_Suc(1) [OF a(5)] by blast
    obtain r where r: "reads p w r" "reads r (0x5b # w' @ t @ [0x5d]) q" using a(2) by (auto simp: reads_append)
    obtain s where s: "reads (advance r) w' s" "reads s (t @ [0x5d]) q" using r(2) by (auto simp: reads_Cons [of r] reads_append)
    have e: "expect 0x5b r = Ok (advance r)" using r(2) by (simp add: expect_reads reads_Cons)
    obtain b where b: "peek s = Some b" "value_start b" using firsts(3) [OF array(2)] s(2) peek_first by fastforce
    have "enter 0x5d (array_loop f (depth + 1)) (advance r) = array_loop f (depth + 1) s"
      using value_start_other [OF b(2)] by (intro enter_complete(2) [OF array(1) s(1) b(1)]) auto
    then have v: "skip_value fuel depth p = array_loop f (depth + 1) s"
      using value_dispatch [OF a(1) r(1) peek_first [OF r(2)], of depth f] a(3) e by (simp add: f value_start_def)
    with a(5) array.IH s(2) a(3) show "skip_value fuel depth p = Some (Ok q)" by simp
  qed
next
  case (last_member k s w w' d v w'')
  show ?case
  proof (intro allI impI)
    fix fuel depth p q
    assume a: "reads p ((k @ w @ [0x3a] @ w' @ v @ w'') @ [0x7d]) q" "depth + d \<le> 32" "object_loop fuel depth p \<noteq> None"
    obtain f where f: "fuel = Suc f" using fuel_Suc(2) [OF a(3)] by blast
    from a(1) have "reads p ((k @ w @ [0x3a] @ w' @ v) @ w'' @ [0x7d]) q" by simp
    then obtain r where r: "reads p (k @ w @ [0x3a] @ w' @ v) r" "reads r (w'' @ [0x7d]) q" unfolding reads_append [of p "k @ w @ [0x3a] @ w' @ v"] by blast
    have n: "number_end r" using after_value [OF last_member(5) _ r(2)] by simp
    have "continue 0x7d (object_loop f depth) r = Some (Ok q)" by (rule continue_complete(1) [OF last_member(5) _ r(2)]) (simp add: is_ws_def)
    with object_step [OF last_member.IH [folded skips_def] last_member(1-3) r(1) n a(2)] a(3) show "object_loop fuel depth p = Some (Ok q)" by (simp add: f)
  qed
next
  case (member k s w w' d v w'' w3 t)
  show ?case
  proof (intro allI impI)
    fix fuel depth p q
    assume a: "reads p ((k @ w @ [0x3a] @ w' @ v @ w'' @ [0x2c] @ w3 @ t) @ [0x7d]) q" "depth + d \<le> 32" "object_loop fuel depth p \<noteq> None"
    obtain f where f: "fuel = Suc f" using fuel_Suc(2) [OF a(3)] by blast
    from a(1) have "reads p ((k @ w @ [0x3a] @ w' @ v) @ w'' @ [0x2c] @ w3 @ t @ [0x7d]) q" by simp
    then obtain r r1 r2 r3 where r: "reads p (k @ w @ [0x3a] @ w' @ v) r" "reads r w'' r1" "reads r1 [0x2c] r2" "reads r2 w3 r3" "reads r3 (t @ [0x7d]) q"
      unfolding reads_append [of p "k @ w @ [0x3a] @ w' @ v"] reads_append [of _ w''] reads_append [of _ "[0x2c]"] reads_append [of _ w3] by blast
    have "reads r (w'' @ 0x2c # []) r2" using r(2,3) by (auto simp: reads_append)
    then have n: "number_end r" using after_value [OF member(5)] by blast
    have "peek r3 = Some 0x22" using firsts(2) [OF member(7)] r(5) peek_first by fastforce
    then have "continue 0x7d (object_loop f depth) r = object_loop f depth r3"
      by (intro continue_complete(2) [OF member(5) r(2,3) member(6) r(4)]) (auto simp: peeks_def is_ws_def)
    with object_step [OF member.IH(1) [folded skips_def] member(1-3) r(1) n a(2)] a(3) have e: "object_loop fuel depth p = object_loop f depth r3" by (simp add: f)
    with a(3) member.IH(2) r(5) a(2) show "object_loop fuel depth p = Some (Ok q)" by simp
  qed
next
  case (last_element d v w)
  show ?case
  proof (intro allI impI)
    fix fuel depth p q
    assume a: "reads p ((v @ w) @ [0x5d]) q" "depth + d \<le> 32" "array_loop fuel depth p \<noteq> None"
    obtain f where f: "fuel = Suc f" using fuel_Suc(3) [OF a(3)] by blast
    obtain r where r: "reads p v r" "reads r (w @ [0x5d]) q" using a(1) by (auto simp: reads_append)
    have n: "number_end r" using after_value [OF last_element(2) _ r(2)] by simp
    have "continue 0x5d (array_loop f depth) r = Some (Ok q)" by (rule continue_complete(1) [OF last_element(2) _ r(2)]) (simp add: is_ws_def)
    with array_step [OF last_element.IH [folded skips_def] r(1) n a(2)] a(3) show "array_loop fuel depth p = Some (Ok q)" by (simp add: f)
  qed
next
  case (element d v w w' t)
  show ?case
  proof (intro allI impI)
    fix fuel depth p q
    assume a: "reads p ((v @ w @ [0x2c] @ w' @ t) @ [0x5d]) q" "depth + d \<le> 32" "array_loop fuel depth p \<noteq> None"
    obtain f where f: "fuel = Suc f" using fuel_Suc(3) [OF a(3)] by blast
    from a(1) have "reads p (v @ w @ [0x2c] @ w' @ t @ [0x5d]) q" by simp
    then obtain r r1 r2 r3 where r: "reads p v r" "reads r w r1" "reads r1 [0x2c] r2" "reads r2 w' r3" "reads r3 (t @ [0x5d]) q"
      unfolding reads_append [of p v] reads_append [of _ w] reads_append [of _ "[0x2c]"] reads_append [of _ w'] by blast
    have "reads r (w @ 0x2c # []) r2" using r(2,3) by (auto simp: reads_append)
    then have n: "number_end r" using after_value [OF element(2)] by blast
    obtain b where "peek r3 = Some b" "value_start b" using firsts(3) [OF element(4)] r(5) peek_first by fastforce
    then have "\<not> peeks is_ws r3" using not_ws_peek value_start_other by blast
    then have "continue 0x5d (array_loop f depth) r = array_loop f depth r3"
      by (intro continue_complete(2) [OF element(2) r(2,3) element(3) r(4)]) auto
    with array_step [OF element.IH(1) [folded skips_def] r(1) n a(2)] a(3) have e: "array_loop fuel depth p = array_loop f depth r3" by (simp add: f)
    with a(3) element.IH(2) r(5) a(2) show "array_loop fuel depth p = Some (Ok q)" by simp
  qed
qed

end
