(* ===== verification/Client_Data.thy ===== *)
theory Client_Data
  imports Json_Complete
begin

text \<open>
  What the reader of the client data accepts: \<^const>\<open>extract_client_data_fields\<close> against the grammar of
  \<^theory_text>\<open>Json_Grammar\<close>, the challenge encoding, and what an accepted authorization means.
\<close>

unbundle bit_operations_syntax

section \<open>The grammar of the client data\<close>

datatype entry = Text bytes | Flag bool | Other

inductive client_entry :: "bytes \<Rightarrow> bytes \<Rightarrow> entry \<Rightarrow> bool" where
  member: "key \<in> {ascii ''type'', ascii ''challenge'', ascii ''origin''} \<Longrightarrow> json_string v s \<Longrightarrow> client_entry key v (Text s)"
| flag: "key = ascii ''crossOrigin'' \<Longrightarrow> v = (if b then ascii ''true'' else ascii ''false'') \<Longrightarrow> client_entry key v (Flag b)"
| other: "key \<notin> {ascii ''type'', ascii ''challenge'', ascii ''origin'', ascii ''crossOrigin''} \<Longrightarrow> json_value 32 v \<Longrightarrow> client_entry key v Other"

inductive client_members :: "bytes \<Rightarrow> (bytes \<times> entry) list \<Rightarrow> bool" where
  last: "json_string k key \<Longrightarrow> blank w \<Longrightarrow> blank w' \<Longrightarrow> client_entry key v e \<Longrightarrow> blank w'' \<Longrightarrow>
    client_members (k @ w @ [0x3a] @ w' @ v @ w'') [(key, e)]"
| more: "json_string k key \<Longrightarrow> blank w \<Longrightarrow> blank w' \<Longrightarrow> client_entry key v e \<Longrightarrow> blank w'' \<Longrightarrow> blank w3 \<Longrightarrow> client_members t es \<Longrightarrow>
    client_members (k @ w @ [0x3a] @ w' @ v @ w'' @ [0x2c] @ w3 @ t) ((key, e) # es)"

text \<open>The values of a member, in order.\<close>

definition entries_of :: "string \<Rightarrow> (bytes \<times> entry) list \<Rightarrow> entry list" where
  "entries_of name es = map snd (filter (\<lambda>(key, e). key = ascii name) es)"

definition client_data :: "bytes \<Rightarrow> (bytes \<times> entry) list \<Rightarrow> bool" where
  "client_data bs es \<longleftrightarrow> (\<exists>w0 w1 t w2. bs = w0 @ [0x7b] @ w1 @ t @ [0x7d] @ w2 \<and> blank w0 \<and> blank w1 \<and> blank w2 \<and> client_members t es)"

lemma names_distinct:
  "ascii ''type'' \<noteq> ascii ''challenge''" "ascii ''type'' \<noteq> ascii ''origin''" "ascii ''type'' \<noteq> ascii ''crossOrigin''"
  "ascii ''challenge'' \<noteq> ascii ''origin''" "ascii ''challenge'' \<noteq> ascii ''crossOrigin''" "ascii ''origin'' \<noteq> ascii ''crossOrigin''"
  by (simp_all add: ascii_def)

lemmas names = names_distinct names_distinct [symmetric]

section \<open>Members\<close>

definition put :: "bytes \<Rightarrow> entry \<Rightarrow> Members \<Rightarrow> Members option" where
  "put key e ms = (case e of
     Text s \<Rightarrow>
       (if key = ascii ''type'' then (if ms_type ms = None then Some (ms\<lparr> ms_type := Some s \<rparr>) else None)
        else if key = ascii ''challenge'' then (if ms_challenge ms = None then Some (ms\<lparr> ms_challenge := Some s \<rparr>) else None)
        else (if ms_origin ms = None then Some (ms\<lparr> ms_origin := Some s \<rparr>) else None))
   | Flag b \<Rightarrow> (if ms_cross_origin ms = None then Some (ms\<lparr> ms_cross_origin := Some b \<rparr>) else None)
   | Other \<Rightarrow> Some ms)"

fun put_all :: "(bytes \<times> entry) list \<Rightarrow> Members \<Rightarrow> Members option" where
  "put_all [] ms = Some ms"
| "put_all ((key, e) # es) ms = (case put key e ms of None \<Rightarrow> None | Some ms' \<Rightarrow> put_all es ms')"

lemma bool_reads:
  "parse_bool p = Ok (b, p') \<longleftrightarrow> reads p (if b then ascii ''true'' else ascii ''false'') p'"
proof -
  have n: "ascii ''true'' \<noteq> []" "ascii ''false'' \<noteq> []" by (simp_all add: ascii_def)
  have f: "reads p (ascii ''true'') p' \<Longrightarrow> peek p = Some 0x74" "reads p (ascii ''false'') p' \<Longrightarrow> peek p = Some 0x66"
    by (auto simp: ascii_def dest: peek_first)
  show ?thesis
    using f by (cases b) (auto simp: parse_bool_def opt expect_literal_reads [OF n(1)] expect_literal_reads [OF n(2)] split: option.splits if_splits)
qed

lemma client_member_sound:
  assumes "client_member key ms p = Some (Ok (ms', p'))"
  shows "\<exists>w v e. reads p (w @ v) p' \<and> blank w \<and> client_entry key v e \<and> put key e ms = Some ms'"
proof -
  consider (t) "key = ascii ''type''" | (c) "key = ascii ''challenge''" | (or) "key = ascii ''origin''" | (x) "key = ascii ''crossOrigin''"
    | (o) "key \<notin> {ascii ''type'', ascii ''challenge'', ascii ''origin'', ascii ''crossOrigin''}" by blast
  then show ?thesis
  proof cases
    case o
    with assms obtain "skip_value (json_fuel p) 0 p = Some (Ok p')" "ms' = ms" by (auto simp: client_member_def opt)
    with skip_sound(1) [OF this(1)] obtain w v where "reads p (w @ v) p'" "blank w" "json_value 32 v" by auto
    moreover have "put key Other ms = Some ms'" using \<open>ms' = ms\<close> by (simp add: put_def)
    ultimately show ?thesis using client_entry.other [OF o] by blast
  next
    case x
    with assms obtain b where b: "parse_bool p = Ok (b, p')" "put key (Flag b) ms = Some ms'"
      by (auto simp: client_member_def names put_def opt split: if_splits)
    then have "reads p ([] @ (if b then ascii ''true'' else ascii ''false'')) p'" "blank []" by (simp_all add: bool_reads blank_def)
    with client_entry.flag [OF x refl] b(2) show ?thesis by blast
  next
    case t
    with assms obtain s where "parse_string p = Ok (s, p')" "put key (Text s) ms = Some ms'"
      by (auto simp: client_member_def names put_def opt split: if_splits)
    then obtain v where "reads p ([] @ v) p'" "blank []" "json_string v s" "put key (Text s) ms = Some ms'" by (auto simp: parse_string_reads blank_def)
    with client_entry.member [of key v s] t show ?thesis by blast
  next
    case c
    with assms obtain s where "parse_string p = Ok (s, p')" "put key (Text s) ms = Some ms'"
      by (auto simp: client_member_def names put_def opt split: if_splits)
    then obtain v where "reads p ([] @ v) p'" "blank []" "json_string v s" "put key (Text s) ms = Some ms'" by (auto simp: parse_string_reads blank_def)
    with client_entry.member [of key v s] c show ?thesis by blast
  next
    case or
    with assms obtain s where "parse_string p = Ok (s, p')" "put key (Text s) ms = Some ms'"
      by (auto simp: client_member_def names put_def opt split: if_splits)
    then obtain v where "reads p ([] @ v) p'" "blank []" "json_string v s" "put key (Text s) ms = Some ms'" by (auto simp: parse_string_reads blank_def)
    with client_entry.member [of key v s] or show ?thesis by blast
  qed
qed

lemma client_member_complete:
  assumes "client_entry key v e" "put key e ms = Some ms'" "reads p v p'" "number_end p'"
  shows "client_member key ms p = Some (Ok (ms', p'))"
  using assms(1)
proof cases
  case (member s)
  then have "parse_string p = Ok (s, p')" using assms(3) parse_string_reads by blast
  with member assms(2) show ?thesis by (auto simp: client_member_def put_def names split: if_splits)
next
  case (flag b)
  then have "parse_bool p = Ok (b, p')" using assms(3) bool_reads by blast
  with flag assms(2) show ?thesis by (auto simp: client_member_def put_def names split: if_splits)
next
  case other
  have "skip_value (json_fuel p) 0 p \<noteq> None" by (rule skip_fuel(1)) (simp add: json_fuel_def)
  moreover have "blank []" "reads p ([] @ v) p'" using assms(3) by (simp_all add: blank_def)
  ultimately have "skip_value (json_fuel p) 0 p = Some (Ok p')" using skip_complete(1) [OF other(3)] assms(4) by (metis add_0 order_refl)
  with other assms(2) show ?thesis by (simp add: client_member_def put_def)
qed

lemma entry_first: "client_entry key v e \<Longrightarrow> \<exists>b r. v = b # r \<and> value_start b"
proof (induction rule: client_entry.induct)
  case (member key v s)
  from string_first [OF member(2)] show ?case by (auto simp: value_start_def)
next
  case (flag key v b)
  then show ?case by (cases b) (simp_all add: ascii_def value_start_def)
next
  case (other key v)
  from firsts(1) [OF other(2)] show ?case .
qed

section \<open>The loop\<close>

lemma turn_end_sound:
  assumes "turn_end p = Ok (closes, p')"
  shows "\<exists>w q. blank w \<and> reads p w q \<and> (if closes then reads q [0x7d] p' else \<exists>w'. blank w' \<and> reads q ([0x2c] @ w') p')"
proof -
  obtain w where w: "reads p w (skip_ws p)" "blank w" using blank_reads by blast
  obtain c q where c: "take_byte 0x7d (skip_ws p) = (c, q)" by fastforce
  have "if closes then reads (skip_ws p) [0x7d] p' else \<exists>w'. blank w' \<and> reads (skip_ws p) ([0x2c] @ w') p'"
  proof (cases c)
    case True
    with assms c take_byte_reads(1) show ?thesis by (auto simp: turn_end_def)
  next
    case False
    with c take_byte_reads(2) [of "0x7d" "skip_ws p" q] have "q = skip_ws p" by simp
    with assms c False obtain u where u: "expect 0x2c (skip_ws p) = Ok u" "p' = skip_ws u" "\<not> closes" by (auto simp: turn_end_def opt)
    obtain w' where "reads u w' (skip_ws u)" "blank w'" using blank_reads by blast
    with u show ?thesis by (auto simp: expect_reads reads_Cons)
  qed
  with w show ?thesis by blast
qed

lemma turn_end_complete:
  "blank w \<Longrightarrow> reads p (w @ [0x7d]) q \<Longrightarrow> turn_end p = Ok (True, q)"
  "blank w \<Longrightarrow> reads p w r \<Longrightarrow> reads r [0x2c] s \<Longrightarrow> blank w' \<Longrightarrow> reads s w' q \<Longrightarrow> \<not> peeks is_ws q \<Longrightarrow> turn_end p = Ok (False, q)"
proof -
  assume a: "blank w" "reads p (w @ [0x7d]) q"
  then obtain r where r: "reads p w r" "reads r [0x7d] q" by (auto simp: reads_append)
  have "\<not> peeks is_ws r" using not_ws_peek [OF peek_first [OF r(2)]] by (simp add: is_ws_def)
  then have "skip_ws p = r" by (rule blank_then [OF a(1) r(1)])
  moreover have "take_byte 0x7d r = (True, q)" using r(2) take_byte_reads(1) by blast
  ultimately show "turn_end p = Ok (True, q)" by (simp add: turn_end_def)
next
  assume a: "blank w" "reads p w r" "reads r [0x2c] s" "blank w'" "reads s w' q" "\<not> peeks is_ws q"
  have c: "peek r = Some 0x2c" using a(3) by (rule peek_first)
  then have "\<not> peeks is_ws r" using not_ws_peek by (simp add: peeks_def is_ws_def)
  then have "skip_ws p = r" by (rule blank_then [OF a(1,2)])
  moreover have "take_byte 0x7d r = (False, r)" using c by (simp add: take_byte_def)
  moreover have "expect 0x2c r = Ok s" using a(3) by (simp add: expect_reads)
  moreover have "skip_ws s = q" by (rule blank_then [OF a(4,5,6)])
  ultimately show "turn_end p = Ok (False, q)" by (simp add: turn_end_def)
qed

lemma client_turn_sound:
  assumes "client_turn ms p = Some (Ok (ms', closes, p'))"
  obtains k key w w' v e q where "json_string k key" "blank w" "blank w'" "client_entry key v e" "put key e ms = Some ms'"
    "reads p (k @ w @ [0x3a] @ w' @ v) q" "turn_end q = Ok (closes, p')"
proof -
  from assms obtain key q r s where q: "parse_string p = Ok (key, q)" "expect 0x3a (skip_ws q) = Ok r"
    "client_member key ms (skip_ws r) = Some (Ok (ms', s))" "turn_end s = Ok (closes, p')"
    by (auto simp: client_turn_def opt)
  obtain k where k: "reads p k q" "json_string k key" using q(1) parse_string_reads by blast
  obtain w where w: "reads q w (skip_ws q)" "blank w" using blank_reads by blast
  obtain w1 where w1: "reads r w1 (skip_ws r)" "blank w1" using blank_reads by blast
  from client_member_sound [OF q(3)] obtain w2 v e where v: "reads (skip_ws r) (w2 @ v) s" "blank w2" "client_entry key v e" "put key e ms = Some ms'" by blast
  have "reads r (w1 @ w2 @ v) s" using w1(1) v(1) reads_append [of r w1] by blast
  then have "reads (skip_ws q) ([0x3a] @ w1 @ w2 @ v) s" using q(2) reads_append [of "skip_ws q" "[0x3a]"] expect_reads by blast
  then have "reads q (w @ [0x3a] @ w1 @ w2 @ v) s" using w(1) reads_append [of q w] by blast
  then have "reads p (k @ w @ [0x3a] @ w1 @ w2 @ v) s" using k(1) reads_append [of p k] by blast
  then have "reads p (k @ w @ [0x3a] @ (w1 @ w2) @ v) s" by simp
  moreover have "blank (w1 @ w2)" using w1(2) v(2) by (simp add: blank_def)
  ultimately show ?thesis using that k(2) w(2) v(3,4) q(4) by blast
qed

lemma client_turn_complete:
  assumes "json_string k key" "blank w" "blank w'" "client_entry key v e" "put key e ms = Some ms'"
    "reads p (k @ w @ [0x3a] @ w' @ v) q" "number_end q" "turn_end q = Ok (closes, p')"
  shows "client_turn ms p = Some (Ok (ms', closes, p'))"
proof -
  obtain p1 p2 p3 p4 where r: "reads p k p1" "reads p1 w p2" "reads p2 [0x3a] p3" "reads p3 w' p4" "reads p4 v q" using assms(6) unfolding reads_append by blast
  have "parse_string p = Ok (key, p1)" using r(1) assms(1) parse_string_reads by blast
  moreover have "\<not> peeks is_ws p2" using not_ws_peek [OF peek_first [OF r(3)]] by (simp add: is_ws_def)
  then have "expect 0x3a (skip_ws p1) = Ok p3" using blank_then [OF assms(2) r(2)] r(3) by (simp add: expect_reads)
  moreover obtain b where "peek p4 = Some b" "value_start b" using entry_first [OF assms(4)] r(5) peek_first by blast
  then have "skip_ws p3 = p4" using blank_then [OF assms(3) r(4)] not_ws_peek value_start_other by blast
  moreover have "client_member key ms p4 = Some (Ok (ms', q))" by (rule client_member_complete [OF assms(4,5) r(5) assms(7)])
  ultimately show ?thesis using assms(8) by (simp add: client_turn_def)
qed

lemma client_loop_sound:
  "client_loop ms p = Some (Ok (ms', p')) \<Longrightarrow> \<exists>t es. reads p (t @ [0x7d]) p' \<and> client_members t es \<and> put_all es ms = Some ms'"
proof (induction ms p rule: client_loop.induct)
  case (1 ms p)
  from "1.prems" obtain ms1 closes q where t: "client_turn ms p = Some (Ok (ms1, closes, q))"
    and e: "if closes then ms' = ms1 \<and> p' = q else client_loop ms1 q = Some (Ok (ms', p'))"
    by (subst (asm) client_loop.simps) (auto split: option.splits result.splits bool.splits)
  from client_turn_sound [OF t] obtain k key w w' v x r where x: "json_string k key" "blank w" "blank w'" "client_entry key v x" "put key x ms = Some ms1"
    "reads p (k @ w @ [0x3a] @ w' @ v) r" "turn_end r = Ok (closes, q)" .
  from turn_end_sound [OF x(7)] obtain w'' u where u: "blank w''" "reads r w'' u"
    "if closes then reads u [0x7d] q else \<exists>w3. blank w3 \<and> reads u ([0x2c] @ w3) q" by blast
  show ?case
  proof (cases closes)
    case True
    then have "reads r (w'' @ [0x7d]) p'" using u(2,3) e reads_append [of r w''] by auto
    then have "reads p ((k @ w @ [0x3a] @ w' @ v) @ w'' @ [0x7d]) p'" using x(6) reads_append [of p "k @ w @ [0x3a] @ w' @ v"] by blast
    then have "reads p ((k @ w @ [0x3a] @ w' @ v @ w'') @ [0x7d]) p'" by simp
    moreover have "put_all [(key, x)] ms = Some ms'" using x(5) e True by simp
    ultimately show ?thesis using client_members.last [OF x(1-4) u(1)] by blast
  next
    case False
    then obtain w3 where w3: "blank w3" "reads u ([0x2c] @ w3) q" using u(3) by auto
    have "\<exists>t es. reads q (t @ [0x7d]) p' \<and> client_members t es \<and> put_all es ms1 = Some ms'"
      using "1.IH" [OF t refl refl refl] e False by auto
    then obtain t es where es: "reads q (t @ [0x7d]) p'" "client_members t es" "put_all es ms1 = Some ms'" by auto
    have "reads u (([0x2c] @ w3) @ t @ [0x7d]) p'" using w3(2) es(1) reads_append [of u "[0x2c] @ w3"] by blast
    then have "reads r (w'' @ ([0x2c] @ w3) @ t @ [0x7d]) p'" using u(2) reads_append [of r w''] by blast
    then have "reads p ((k @ w @ [0x3a] @ w' @ v) @ w'' @ ([0x2c] @ w3) @ t @ [0x7d]) p'" using x(6) reads_append [of p "k @ w @ [0x3a] @ w' @ v"] by blast
    then have "reads p ((k @ w @ [0x3a] @ w' @ v @ w'' @ [0x2c] @ w3 @ t) @ [0x7d]) p'" by simp
    moreover have "put_all ((key, x) # es) ms = Some ms'" using x(5) es(3) by simp
    ultimately show ?thesis using client_members.more [OF x(1-4) u(1) w3(1) es(2)] by blast
  qed
qed

lemma client_members_first: "client_members t es \<Longrightarrow> \<exists>r. t = 0x22 # r"
  by (induction rule: client_members.induct) (auto dest!: string_first)

lemma client_loop_complete:
  "client_members t es \<Longrightarrow> reads p (t @ [0x7d]) p' \<Longrightarrow> put_all es ms = Some ms' \<Longrightarrow> client_loop ms p = Some (Ok (ms', p'))"
proof (induction arbitrary: p ms rule: client_members.induct)
  case (last k key w w' v e w'')
  from last.prems(1) have "reads p ((k @ w @ [0x3a] @ w' @ v) @ w'' @ [0x7d]) p'" by simp
  then obtain r where r: "reads p (k @ w @ [0x3a] @ w' @ v) r" "reads r (w'' @ [0x7d]) p'" unfolding reads_append [of p "k @ w @ [0x3a] @ w' @ v"] by blast
  have n: "number_end r" using after_value [OF last(5) _ r(2)] by simp
  have "put key e ms = Some ms'" using last.prems(2) by (auto split: option.splits)
  from client_turn_complete [OF last(1-4) this r(1) n turn_end_complete(1) [OF last(5) r(2)]] show ?case
    by (subst client_loop.simps) simp
next
  case (more k key w w' v e w'' w3 t es)
  from more.prems(1) have "reads p ((k @ w @ [0x3a] @ w' @ v) @ w'' @ [0x2c] @ w3 @ t @ [0x7d]) p'" by simp
  then obtain r r1 r2 r3 where r: "reads p (k @ w @ [0x3a] @ w' @ v) r" "reads r w'' r1" "reads r1 [0x2c] r2" "reads r2 w3 r3" "reads r3 (t @ [0x7d]) p'"
    unfolding reads_append [of p "k @ w @ [0x3a] @ w' @ v"] reads_append [of _ w''] reads_append [of _ "[0x2c]"] reads_append [of _ w3] by blast
  have "reads r (w'' @ 0x2c # []) r2" using r(2,3) by (auto simp: reads_append)
  then have n: "number_end r" using after_value [OF more(5)] by blast
  have "peek r3 = Some 0x22" using client_members_first [OF more(7)] r(5) peek_first by fastforce
  then have ws: "\<not> peeks is_ws r3" by (simp add: peeks_def is_ws_def)
  obtain ms1 where ms1: "put key e ms = Some ms1" "put_all es ms1 = Some ms'" using more.prems(2) by (auto split: option.splits)
  from client_turn_complete [OF more(1-4) ms1(1) r(1) n turn_end_complete(2) [OF more(5) r(2,3) more(6) r(4) ws]] more.IH [OF r(5) ms1(2)] show ?case
    by (subst client_loop.simps) simp
qed

section \<open>The fields\<close>

definition texts :: "bytes option \<Rightarrow> entry list" where
  "texts x = (case x of None \<Rightarrow> [] | Some s \<Rightarrow> [Text s])"

definition flags :: "bool option \<Rightarrow> entry list" where
  "flags x = (case x of None \<Rightarrow> [] | Some b \<Rightarrow> [Flag b])"

lemma texts_simps [simp]: "texts None = []" "texts (Some s) = [Text s]" "flags None = []" "flags (Some b) = [Flag b]"
  by (simp_all add: texts_def flags_def)

lemma texts_inj [simp]: "texts x = texts y \<longleftrightarrow> x = y" "flags x' = flags y' \<longleftrightarrow> x' = y'"
  by (cases x; cases y; simp) (cases x'; cases y'; simp)

lemma entries_of_simps [simp]:
  "entries_of name [] = []" "entries_of name ((key, e) # es) = (if key = ascii name then [e] else []) @ entries_of name es"
  by (simp_all add: entries_of_def)

definition entry_ok :: "bytes \<times> entry \<Rightarrow> bool" where
  "entry_ok = (\<lambda>(key, e). case e of
     Text s \<Rightarrow> key \<in> {ascii ''type'', ascii ''challenge'', ascii ''origin''} | Flag b \<Rightarrow> key = ascii ''crossOrigin''
   | Other \<Rightarrow> key \<notin> {ascii ''type'', ascii ''challenge'', ascii ''origin'', ascii ''crossOrigin''})"

lemma client_members_ok: "client_members t es \<Longrightarrow> \<forall>x \<in> set es. entry_ok x"
proof (induction rule: client_members.induct)
  have e: "client_entry key v e \<Longrightarrow> entry_ok (key, e)" for key v e by (auto simp: entry_ok_def elim!: client_entry.cases)
  {
    case (last k key w w' v x w'')
    then show ?case using e by simp
  next
    case (more k key w w' v x w'' w3 t es)
    then show ?case using e by simp
  }
qed

definition member_entries :: "Members \<Rightarrow> (bytes \<times> entry) list \<Rightarrow> Members \<Rightarrow> bool" where
  "member_entries ms es ms' \<longleftrightarrow>
     texts (ms_type ms') = texts (ms_type ms) @ entries_of ''type'' es \<and>
     texts (ms_challenge ms') = texts (ms_challenge ms) @ entries_of ''challenge'' es \<and>
     texts (ms_origin ms') = texts (ms_origin ms) @ entries_of ''origin'' es \<and>
     flags (ms_cross_origin ms') = flags (ms_cross_origin ms) @ entries_of ''crossOrigin'' es"

lemma texts_two [simp]: "texts x \<noteq> e # e' # es" "flags y \<noteq> e # e' # es" "texts x = Text s # es \<longleftrightarrow> x = Some s \<and> es = []" "flags y = Flag b # es \<longleftrightarrow> y = Some b \<and> es = []"
  by (cases x; cases y; auto)+

lemma put_entries:
  assumes "entry_ok (key, e)"
  shows "member_entries ms ((key, e) # es) ms' \<longleftrightarrow> (\<exists>ms1. put key e ms = Some ms1 \<and> member_entries ms1 es ms')"
proof (cases e)
  case (Text s)
  with assms consider "key = ascii ''type''" | "key = ascii ''challenge''" | "key = ascii ''origin''" by (auto simp: entry_ok_def)
  then show ?thesis
  proof cases
    case 1
    with Text show ?thesis by (cases "ms_type ms") (auto simp: put_def member_entries_def names)
  next
    case 2
    with Text show ?thesis by (cases "ms_challenge ms") (auto simp: put_def member_entries_def names)
  next
    case 3
    with Text show ?thesis by (cases "ms_origin ms") (auto simp: put_def member_entries_def names)
  qed
next
  case (Flag b)
  with assms show ?thesis by (cases "ms_cross_origin ms") (auto simp: put_def member_entries_def names entry_ok_def)
next
  case Other
  with assms show ?thesis by (auto simp: put_def member_entries_def entry_ok_def)
qed

lemma put_all_entries:
  "\<forall>x \<in> set es. entry_ok x \<Longrightarrow> put_all es ms = Some ms' \<longleftrightarrow> member_entries ms es ms'"
proof (induction es arbitrary: ms)
  case Nil
  then show ?case by (cases ms; cases ms') (auto simp: member_entries_def)
next
  case (Cons x es)
  obtain key e where x: "x = (key, e)" by fastforce
  with Cons put_entries [of key e ms es ms'] show ?case by (auto split: option.splits)
qed

definition single_fields :: "(bytes \<times> entry) list \<Rightarrow> ClientDataFields \<Rightarrow> bool" where
  "single_fields es cd \<longleftrightarrow> entries_of ''type'' es = [Text (cd_type cd)] \<and> entries_of ''challenge'' es = [Text (cd_challenge cd)] \<and>
     entries_of ''origin'' es = [Text (cd_origin cd)] \<and>
     (entries_of ''crossOrigin'' es = [Flag (cd_cross_origin cd)] \<or> entries_of ''crossOrigin'' es = [] \<and> \<not> cd_cross_origin cd)"

lemma fields_single: "(\<exists>ms. member_entries no_members es ms \<and> client_fields ms = Ok cd) \<longleftrightarrow> single_fields es cd"
proof
  assume "\<exists>ms. member_entries no_members es ms \<and> client_fields ms = Ok cd"
  then obtain ms where ms: "member_entries no_members es ms" "client_fields ms = Ok cd" by blast
  then obtain ty ch orig where f: "ms_type ms = Some ty" "ms_challenge ms = Some ch" "ms_origin ms = Some orig"
    "cd = \<lparr> cd_type = ty, cd_challenge = ch, cd_origin = orig, cd_cross_origin = (case ms_cross_origin ms of Some b \<Rightarrow> b | None \<Rightarrow> False) \<rparr>"
    by (auto simp: client_fields_def opt)
  with ms(1) show "single_fields es cd"
    by (cases "ms_cross_origin ms") (auto simp: member_entries_def no_members_def single_fields_def)
next
  assume s: "single_fields es cd"
  let ?ms = "\<lparr> ms_type = Some (cd_type cd), ms_challenge = Some (cd_challenge cd), ms_origin = Some (cd_origin cd),
    ms_cross_origin = (if entries_of ''crossOrigin'' es = [] then None else Some (cd_cross_origin cd)) \<rparr>"
  have "member_entries no_members es ?ms \<and> client_fields ?ms = Ok cd"
    using s by (auto simp: member_entries_def no_members_def single_fields_def client_fields_def)
  then show "\<exists>ms. member_entries no_members es ms \<and> client_fields ms = Ok cd" by blast
qed

lemma extract_exact:
  "extract_client_data_fields bs = Some (Ok cd) \<longleftrightarrow> (\<exists>es. client_data bs es \<and> single_fields es cd)"
proof
  let ?p = "\<lparr> jp_bytes = bs, jp_offset = 0 \<rparr>"
  have p0: "rest ?p = bs" by (simp add: rest_def)
  {
    assume "extract_client_data_fields bs = Some (Ok cd)"
    then obtain q where q1: "expect 0x7b (skip_ws ?p) = Ok q" by (auto simp: extract_client_data_fields_def opt)
    obtain c r where c: "take_byte 0x7d (skip_ws q) = (c, r)" by fastforce
    with \<open>extract_client_data_fields bs = Some (Ok cd)\<close> q1 obtain ms s where q: "expect 0x7b (skip_ws ?p) = Ok q" "take_byte 0x7d (skip_ws q) = (c, r)" "\<not> c"
      "client_loop no_members r = Some (Ok (ms, s))" "jp_offset (skip_ws s) = length bs" "client_fields ms = Ok cd"
      by (auto simp: extract_client_data_fields_def opt split: if_splits)
    have r: "r = skip_ws q" using q(2,3) take_byte_reads(2) [of "0x7d" "skip_ws q" r] by simp
    from client_loop_sound [OF q(4)] obtain t es where t: "reads r (t @ [0x7d]) s" "client_members t es" "put_all es no_members = Some ms" by blast
    obtain w0 w1 w2 where w: "reads ?p w0 (skip_ws ?p)" "blank w0" "reads q w1 r" "blank w1" "reads s w2 (skip_ws s)" "blank w2"
      using blank_reads r by metis
    have "reads r ((t @ [0x7d]) @ w2) (skip_ws s)" using t(1) w(5) reads_append by blast
    then have "reads q (w1 @ (t @ [0x7d]) @ w2) (skip_ws s)" using w(3) reads_append by blast
    then have "reads (skip_ws ?p) ([0x7b] @ w1 @ (t @ [0x7d]) @ w2) (skip_ws s)" using q(1) expect_reads reads_append by blast
    then have "reads ?p (w0 @ [0x7b] @ w1 @ (t @ [0x7d]) @ w2) (skip_ws s)" using w(1) reads_append by blast
    from reads_rest [OF this] have "bs = w0 @ [0x7b] @ w1 @ (t @ [0x7d]) @ w2 @ rest (skip_ws s)" using p0 by simp
    moreover have "jp_bytes (skip_ws s) = bs"
      using \<open>reads ?p (w0 @ [0x7b] @ w1 @ (t @ [0x7d]) @ w2) (skip_ws s)\<close> by (simp add: reads_def)
    then have "rest (skip_ws s) = []" using q(5) by (simp add: rest_def)
    ultimately have "client_data bs es" using w t(2) by (auto simp: client_data_def)
    moreover have "single_fields es cd"
      using fields_single t(3) put_all_entries [OF client_members_ok [OF t(2)]] q(6) by blast
    ultimately show "\<exists>es. client_data bs es \<and> single_fields es cd" by blast
  next
    assume "\<exists>es. client_data bs es \<and> single_fields es cd"
    then obtain es w0 w1 t w2 where e: "bs = w0 @ [0x7b] @ w1 @ (t @ [0x7d]) @ w2" "blank w0" "blank w1" "blank w2" "client_members t es" "single_fields es cd"
      by (auto simp: client_data_def)
    from e(6) fields_single put_all_entries [OF client_members_ok [OF e(5)]] obtain ms where ms: "put_all es no_members = Some ms" "client_fields ms = Ok cd" by blast
    let ?z = "\<lparr> jp_bytes = bs, jp_offset = length bs \<rparr>"
    have "reads ?p (w0 @ [0x7b] @ w1 @ (t @ [0x7d]) @ w2) ?z" using p0 e(1) by (auto simp: reads_def)
    then obtain p1 p2 p3 p4 where r: "reads ?p w0 p1" "reads p1 [0x7b] p2" "reads p2 w1 p3" "reads p3 (t @ [0x7d]) p4" "reads p4 w2 ?z"
      unfolding reads_append [of ?p] reads_append [of _ "[0x7b]"] reads_append [of _ w1] reads_append [of _ "t @ [0x7d]"] by blast
    have "\<not> peeks is_ws p1" using not_ws_peek [OF peek_first [OF r(2)]] by (simp add: is_ws_def)
    then have "skip_ws ?p = p1" by (rule blank_then [OF e(2) r(1)])
    moreover have "expect 0x7b p1 = Ok p2" using r(2) by (simp add: expect_reads)
    moreover have f: "peek p3 = Some 0x22" using client_members_first [OF e(5)] r(4) peek_first by fastforce
    then have "\<not> peeks is_ws p3" by (simp add: peeks_def is_ws_def)
    then have "skip_ws p2 = p3" by (rule blank_then [OF e(3) r(3)])
    moreover have "take_byte 0x7d p3 = (False, p3)" using f by (simp add: take_byte_def)
    moreover have "client_loop no_members p3 = Some (Ok (ms, p4))" by (rule client_loop_complete [OF e(5) r(4) ms(1)])
    moreover have "\<not> peeks is_ws ?z" by (simp add: peeks_def peek_def)
    then have "skip_ws p4 = ?z" by (rule blank_then [OF e(4) r(5)])
    ultimately show "extract_client_data_fields bs = Some (Ok cd)" using ms(2) by (simp add: extract_client_data_fields_def)
  }
qed

section \<open>The challenge encoding is injective\<close>

lemma b64_table_distinct: "distinct b64_table" "length b64_table = 64"
  by (simp_all add: b64_table_def ascii_def)

lemma b64_char_bits:
  assumes "b64_char n x = b64_char n y" "i < 6"
  shows "bit x (n + i) = bit y (n + i)"
proof -
  have m: "(0x3f :: u32) = mask 6" by (simp add: mask_eq_exp_minus_1)
  have lt: "unat (drop_bit n z AND 0x3f :: u32) < 64" for z :: u32
    using unat_mono [of "drop_bit n z AND 0x3f" "0x40"] word_and_le1 [of "drop_bit n z" "0x3f"] by (simp add: word_less_nat_alt word_le_nat_alt)
  have "unat (drop_bit n x AND 0x3f) = unat (drop_bit n y AND 0x3f)"
    using assms(1) lt by (simp add: b64_char_def nth_eq_iff_index_eq b64_table_distinct)
  then have "drop_bit n x AND 0x3f = drop_bit n y AND 0x3f" by (simp only: word_unat_eq_iff)
  then have "bit (drop_bit n x AND mask 6) i = bit (drop_bit n y AND mask 6) i" by (simp add: m)
  then show ?thesis using assms(2) by (simp add: bit_and_iff bit_mask_iff bit_drop_bit_eq)
qed

lemma chunk_bits:
  fixes a b c :: u8
  defines "x \<equiv> push_bit 16 (ucast a) OR push_bit 8 (ucast b) OR (ucast c :: u32)"
  assumes "i < 8"
  shows "bit x i = bit c i" "bit x (8 + i) = bit b i" "bit x (16 + i) = bit a i"
  using assms(2) by (auto simp: x_def bit_simps dest: bit_imp_le_length)

lemma u8_eqI: "(\<And>i. i < 8 \<Longrightarrow> bit (a :: u8) i = bit b i) \<Longrightarrow> a = b"
  by (rule bit_word_eqI) simp

lemma all_bits:
  assumes "b64_char 18 x = b64_char 18 y" "b64_char 12 x = b64_char 12 y" "b64_char 6 x = b64_char 6 y"
    and "6 \<le> i" "i < 24"
  shows "bit x i = bit y i"
proof -
  consider "i < 12" | "12 \<le> i" "i < 18" | "18 \<le> i" by linarith
  then show ?thesis
  proof cases
    case 1
    then show ?thesis using b64_char_bits [OF assms(3), of "i - 6"] assms(4) by simp
  next
    case 2
    then show ?thesis using b64_char_bits [OF assms(2), of "i - 12"] by simp
  next
    case 3
    then show ?thesis using b64_char_bits [OF assms(1), of "i - 18"] assms(5) by simp
  qed
qed

lemma base64url_inj:
  "length xs = length ys \<Longrightarrow> length xs mod 3 \<noteq> 1 \<Longrightarrow> base64url_sha256 xs = base64url_sha256 ys \<Longrightarrow> xs = ys"
proof (induction xs arbitrary: ys rule: base64url_sha256.induct)
  case (1 a b c rest)
  then obtain a' b' c' rest' where ys: "ys = a' # b' # c' # rest'" "length rest = length rest'"
    by (auto simp: Suc_length_conv length_Suc_conv)
  let ?x = "push_bit 16 (ucast a) OR push_bit 8 (ucast b) OR (ucast c :: u32)"
  let ?y = "push_bit 16 (ucast a') OR push_bit 8 (ucast b') OR (ucast c' :: u32)"
  from "1.prems"(3) have e: "b64_char 18 ?x = b64_char 18 ?y" "b64_char 12 ?x = b64_char 12 ?y" "b64_char 6 ?x = b64_char 6 ?y" "b64_char 0 ?x = b64_char 0 ?y"
    "base64url_sha256 rest = base64url_sha256 rest'" by (auto simp: ys Let_def)
  have bits: "bit ?x i = bit ?y i" if "i < 24" for i
    using all_bits [OF e(1-3), of i] b64_char_bits [OF e(4), of i] that by (cases "i < 6") simp_all
  have "c = c'"
  proof (rule u8_eqI)
    fix i :: nat
    assume "i < 8"
    then show "bit c i = bit c' i" using bits [of i] chunk_bits(1) [of i a b c] chunk_bits(1) [of i a' b' c'] by simp
  qed
  moreover have "b = b'"
  proof (rule u8_eqI)
    fix i :: nat
    assume "i < 8"
    then show "bit b i = bit b' i" using bits [of "8 + i"] chunk_bits(2) [of i a b c] chunk_bits(2) [of i a' b' c'] by simp
  qed
  moreover have "a = a'"
  proof (rule u8_eqI)
    fix i :: nat
    assume "i < 8"
    then show "bit a i = bit a' i" using bits [of "16 + i"] chunk_bits(3) [of i a b c] chunk_bits(3) [of i a' b' c'] by simp
  qed
  moreover have "Suc (Suc (Suc n)) mod 3 = n mod 3" for n :: nat by presburger
  then have "length rest mod 3 \<noteq> 1" using "1.prems"(2) by simp
  then have "rest = rest'" by (rule "1.IH" [OF ys(2) _ e(5)])
  ultimately show ?case using ys(1) by simp
next
  case (2 a b)
  obtain a' b' where ys: "ys = [a', b']" using "2.prems"(1) by (cases ys; cases "tl ys") auto
  let ?x = "push_bit 16 (ucast a) OR push_bit 8 (ucast b) OR (ucast (0 :: u8) :: u32)"
  let ?y = "push_bit 16 (ucast a') OR push_bit 8 (ucast b') OR (ucast (0 :: u8) :: u32)"
  from "2.prems"(3) have e: "b64_char 18 ?x = b64_char 18 ?y" "b64_char 12 ?x = b64_char 12 ?y" "b64_char 6 ?x = b64_char 6 ?y"
    by (simp_all add: ys Let_def)
  have "bit b i = bit b' i \<and> bit a i = bit a' i" if "i < 8" for i
    using all_bits [OF e, of "8 + i"] all_bits [OF e, of "16 + i"] that chunk_bits(2,3) [OF that, of a b 0] chunk_bits(2,3) [OF that, of a' b' 0] by simp
  then have "a = a'" "b = b'" using u8_eqI by blast+
  then show ?case by (simp add: ys)
qed simp_all

end
