(* ===== verification/Key_Auth_Sound.thy ===== *)
theory Key_Auth_Sound
  imports Client_Data Sample_Block
begin

text \<open>
  The properties of the authorization envelope: the reader of the client data terminates and accepts exactly the
  objects of the grammar, and an accepted authorization is by an active key for one message.
\<close>

unbundle bit_operations_syntax

section \<open>More fuel changes nothing\<close>

lemma and_then_fuel_mono:
  assumes "and_then_fuel r f = Some v" "\<And>x. r = Some x \<Longrightarrow> r' = Some x" "\<And>u. f u = Some v \<Longrightarrow> g u = Some v"
  shows "and_then_fuel r' g = Some v"
  using assms by (cases r) (auto simp: and_then_fuel_def split: option.splits result.splits)

lemma enter_mono: "enter close loop p = Some r \<Longrightarrow> (\<And>q. loop q = Some r \<Longrightarrow> loop' q = Some r) \<Longrightarrow> enter close loop' p = Some r"
  by (auto simp: enter_def Let_def split: prod.splits if_splits)

lemma continue_mono:
  assumes "continue close loop p = Some r" "\<And>q. loop q = Some r \<Longrightarrow> loop' q = Some r"
  shows "continue close loop' p = Some r"
proof (cases "take_byte close (skip_ws p)")
  case (Pair c q)
  show ?thesis
  proof (cases c)
    case False
    with assms(1) Pair have "and_then_fuel (Some (expect 0x2c q)) (\<lambda>p. loop (skip_ws p)) = Some r" by (simp add: continue_def)
    then have "and_then_fuel (Some (expect 0x2c q)) (\<lambda>p. loop' (skip_ws p)) = Some r" by (rule and_then_fuel_mono) (simp_all add: assms(2))
    with False Pair show ?thesis by (simp add: continue_def)
  qed (use assms(1) Pair in \<open>simp add: continue_def\<close>)
qed

lemma fuel_mono:
  "skip_value f depth p = Some r \<Longrightarrow> f \<le> g \<Longrightarrow> skip_value g depth p = Some r"
  "object_loop f depth p = Some r \<Longrightarrow> f \<le> g \<Longrightarrow> object_loop g depth p = Some r"
  "array_loop f depth p = Some r \<Longrightarrow> f \<le> g \<Longrightarrow> array_loop g depth p = Some r"
proof (induction f arbitrary: depth p r g)
  case (Suc f)
  {
    case 1
    then obtain h where g: "g = Suc h" "f \<le> h" by (cases g) auto
    note ih = Suc.IH(2,3) [OF _ g(2)]
    have e1: "and_then_fuel (Some x) (enter c (object_loop f d)) = Some r \<Longrightarrow> and_then_fuel (Some x) (enter c (object_loop h d)) = Some r" for x c d
      by (erule and_then_fuel_mono) (auto elim: enter_mono simp: ih(1))
    have e2: "and_then_fuel (Some x) (enter c (array_loop f d)) = Some r \<Longrightarrow> and_then_fuel (Some x) (enter c (array_loop h d)) = Some r" for x c d
      by (erule and_then_fuel_mono) (auto elim: enter_mono simp: ih(2))
    show ?case using 1(1) e1 e2 unfolding g(1) skip_value.simps Let_def
      by (cases "peek (skip_ws p)") (auto split: if_splits)
  next
    case 2
    then obtain h where g: "g = Suc h" "f \<le> h" by (cases g) auto
    note ih = Suc.IH(1,2) [OF _ g(2)]
    have c: "continue x (object_loop f depth) q = Some r \<Longrightarrow> continue x (object_loop h depth) q = Some r" for x q
      by (erule continue_mono) (rule ih(2))
    show ?case using 2(1) unfolding g(1) object_loop.simps
      by (elim and_then_fuel_mono) (auto elim!: and_then_fuel_mono simp: ih(1) c)
  next
    case 3
    then obtain h where g: "g = Suc h" "f \<le> h" by (cases g) auto
    note ih = Suc.IH(1,3) [OF _ g(2)]
    have c: "continue x (array_loop f depth) q = Some r \<Longrightarrow> continue x (array_loop h depth) q = Some r" for x q
      by (erule continue_mono) (rule ih(2))
    show ?case using 3(1) unfolding g(1) array_loop.simps by (elim and_then_fuel_mono) (simp_all add: ih(1) c)
  }
qed simp_all

section \<open>Properties\<close>

text \<open>C16: reading the client data terminates on every input.  The recursive skipping of values, whose recursion the
  code does not bound, ends within the number of steps that \<open>json_fuel\<close> gives it, and a larger bound never changes
  its result; so reading always returns a verdict.\<close>

theorem client_data_reader_terminates:
  "(\<exists>r. skip_value (json_fuel p) depth p = Some r) \<and> skip_value (json_fuel p + k) depth p = skip_value (json_fuel p) depth p \<and>
   (\<exists>r. extract_client_data_fields bs = Some r)"
proof -
  have "skip_value (json_fuel p) depth p \<noteq> None" by (rule skip_fuel(1)) (simp add: json_fuel_def)
  then obtain r where r: "skip_value (json_fuel p) depth p = Some r" by blast
  with fuel_mono(1) [OF r] extract_total [of bs] show ?thesis by auto
qed

text \<open>C15: the reader accepts exactly the JSON objects of the grammar (RFC 8259, skipped values nested at most 32 deep)
  that have one \<open>type\<close>, one \<open>challenge\<close>, one \<open>origin\<close> and at most one \<open>crossOrigin\<close> member of the right kind, and
  returns their decoded values.\<close>

theorem client_data_reader_exact:
  "extract_client_data_fields bs = Some (Ok cd) \<longleftrightarrow> (\<exists>es. client_data bs es \<and> single_fields es cd)"
  by (rule extract_exact)

lemma envelope_accepts:
  "verify_webauthn_envelope sha canonical ad cd = Some (Ok ()) \<longleftrightarrow>
     37 \<le> length ad \<and> length ad \<le> 512 \<and> length cd \<le> 2048 \<and> take 32 ad = EXPECTED_RP_ID_HASH \<and>
     ad ! 32 AND FLAG_UP \<noteq> 0 \<and> ad ! 32 AND FLAG_UV \<noteq> 0 \<and>
     extract_client_data_fields cd = Some (Ok \<lparr> cd_type = ascii ''webauthn.get'', cd_challenge = base64url_sha256 (sha canonical),
       cd_origin = EXPECTED_WEBAUTHN_ORIGIN, cd_cross_origin = False \<rparr>)"
  by (auto simp: verify_webauthn_envelope_def MAX_WEBAUTHN_AUTHENTICATOR_DATA_BYTES_def MAX_WEBAUTHN_CLIENT_DATA_JSON_BYTES_def
      split: if_splits option.splits result.splits)

lemma p256_accepts: "verify_p256_prehash p256 pk sig hash = Ok () \<longleftrightarrow> from_sec1_bytes p256 pk \<and> from_slice p256 sig \<and> verify_prehash p256 pk hash sig"
  by (simp add: verify_p256_prehash_def)

text \<open>What an envelope signs: the hash of the message, or the assertion that carries it.\<close>

fun signed_hash :: "hash \<Rightarrow> KeyOpAuth \<Rightarrow> bytes \<Rightarrow> bytes" where
  "signed_hash sha (RawP256 pk sig) canonical = sha canonical"
| "signed_hash sha (WebAuthn pk ad cd sig) canonical = sha (ad @ sha cd)"

fun auth_signature :: "KeyOpAuth \<Rightarrow> bytes" where
  "auth_signature (RawP256 pk sig) = sig"
| "auth_signature (WebAuthn pk ad cd sig) = sig"

fun asserts :: "hash \<Rightarrow> KeyOpAuth \<Rightarrow> bytes \<Rightarrow> bool" where
  "asserts sha (RawP256 pk sig) canonical = True"
| "asserts sha (WebAuthn pk ad cd sig) canonical =
     (37 \<le> length ad \<and> length ad \<le> 512 \<and> length cd \<le> 2048 \<and> take 32 ad = EXPECTED_RP_ID_HASH \<and>
      ad ! 32 AND FLAG_UP \<noteq> 0 \<and> ad ! 32 AND FLAG_UV \<noteq> 0 \<and>
      (\<exists>es. client_data cd es \<and> single_fields es \<lparr> cd_type = ascii ''webauthn.get'', cd_challenge = base64url_sha256 (sha canonical),
         cd_origin = EXPECTED_WEBAUTHN_ORIGIN, cd_cross_origin = False \<rparr>))"

lemma keyop_auth_accepts:
  "verify_keyop_auth sha p256 auth keys canonical = Some (Ok ()) \<longleftrightarrow>
     (\<exists>key \<in> set keys. kr_pubkey_sec1 key = signer_pubkey auth \<and> kr_auth_scheme key = signer_auth_scheme auth) \<and> asserts sha auth canonical \<and>
     from_sec1_bytes p256 (signer_pubkey auth) \<and> from_slice p256 (auth_signature auth) \<and>
     verify_prehash p256 (signer_pubkey auth) (signed_hash sha auth canonical) (auth_signature auth)"
proof (cases auth)
  case (RawP256 pk sig)
  then show ?thesis by (auto simp: verify_keyop_auth_def p256_accepts list_ex_iff)
next
  case (WebAuthn pk ad cd sig)
  have "and_then_fuel r (\<lambda>_. Some x) = Some (Ok ()) \<longleftrightarrow> r = Some (Ok ()) \<and> x = Ok ()" for r :: "(AuthError, unit) result option" and x :: "(AuthError, unit) result"
    by (auto simp: and_then_fuel_def split: option.splits result.splits)
  with WebAuthn show ?thesis
    by (simp add: verify_keyop_auth_def p256_accepts list_ex_iff envelope_accepts extract_exact)
qed

text \<open>C14: an authorization is accepted exactly when an active key of the account with the declared scheme signed it, a
  WebAuthn assertion being one of the pinned relying party and origin with user presence and verification whose
  challenge encodes the hash of the message; and one WebAuthn envelope never authorizes messages of different hashes.\<close>

theorem authorization_binds_message:
  assumes "\<And>x. length (sha x) = 32"
  shows "(verify_keyop_auth sha p256 auth keys canonical = Some (Ok ()) \<longleftrightarrow>
     (\<exists>key \<in> set keys. kr_pubkey_sec1 key = signer_pubkey auth \<and> kr_auth_scheme key = signer_auth_scheme auth) \<and> asserts sha auth canonical \<and>
     from_sec1_bytes p256 (signer_pubkey auth) \<and> from_slice p256 (auth_signature auth) \<and>
     verify_prehash p256 (signer_pubkey auth) (signed_hash sha auth canonical) (auth_signature auth)) \<and>
   (verify_keyop_auth sha p256 (WebAuthn pk ad cd sig) keys canonical = Some (Ok ()) \<and>
    verify_keyop_auth sha p256 (WebAuthn pk ad cd sig) keys' canonical' = Some (Ok ()) \<longrightarrow> sha canonical = sha canonical')"
proof (intro conjI impI keyop_auth_accepts)
  assume "verify_keyop_auth sha p256 (WebAuthn pk ad cd sig) keys canonical = Some (Ok ()) \<and>
    verify_keyop_auth sha p256 (WebAuthn pk ad cd sig) keys' canonical' = Some (Ok ())"
  then have "base64url_sha256 (sha canonical) = base64url_sha256 (sha canonical')"
    by (auto simp: keyop_auth_accepts extract_exact [symmetric])
  then show "sha canonical = sha canonical'" by (rule base64url_inj [rotated 2]) (simp_all add: assms)
qed

section \<open>An assertion\<close>

definition sample_client_data :: bytes where
  "sample_client_data = ascii ''{'' @ [0x22] @ ascii ''type'' @ [0x22] @ ascii '':'' @ [0x22] @ ascii ''webauthn.get'' @ [0x22] @ ascii '','' @
     [0x22] @ ascii ''challenge'' @ [0x22] @ ascii '':'' @ [0x22] @ replicate 43 0x41 @ [0x22] @ ascii '','' @
     [0x22] @ ascii ''origin'' @ [0x22] @ ascii '':'' @ [0x22] @ ascii ''https://app.sybil.exchange'' @ [0x22] @ ascii '','' @
     [0x22] @ ascii ''extra'' @ [0x22] @ ascii '': [1, {}]}''"

lemma sample_client_data_fields:
  "extract_client_data_fields sample_client_data =
     Some (Ok \<lparr> cd_type = ascii ''webauthn.get'', cd_challenge = base64url_sha256 zero_digest, cd_origin = EXPECTED_WEBAUTHN_ORIGIN, cd_cross_origin = False \<rparr>)"
  by code_simp

definition sample_p256 :: P256 where
  "sample_p256 = \<lparr> from_sec1_bytes = (\<lambda>pk. hd pk = 2), from_slice = (\<lambda>sig. length sig = 64), verify_prehash = (\<lambda>pk hash sig. sig = hash @ hash) \<rparr>"

definition sample_key :: KeyRecord where
  "sample_key = \<lparr> kr_auth_scheme = 1, kr_pubkey_sec1 = replicate 33 2, kr_capability_mask = u32_max \<rparr>"

definition sample_assertion :: KeyOpAuth where
  "sample_assertion = WebAuthn (replicate 33 2) (EXPECTED_RP_ID_HASH @ [5, 0, 0, 0, 0]) sample_client_data (zero_digest @ zero_digest)"

lemma sample_hash_length: "length (sample_hash x) = 32"
  by (simp add: sample_hash_def zero_digest_def)

lemma sample_asserts: "asserts sample_hash sample_assertion canonical"
proof -
  have "\<exists>es. client_data sample_client_data es \<and> single_fields es \<lparr> cd_type = ascii ''webauthn.get'', cd_challenge = base64url_sha256 zero_digest,
      cd_origin = EXPECTED_WEBAUTHN_ORIGIN, cd_cross_origin = False \<rparr>"
    using sample_client_data_fields extract_exact by blast
  then show ?thesis by (simp add: sample_assertion_def EXPECTED_RP_ID_HASH_def FLAG_UP_def FLAG_UV_def sample_client_data_def ascii_def sample_hash_def)
qed

theorem authorization_binds_message_witness:
  "verify_keyop_auth sample_hash sample_p256 sample_assertion [sample_key] [1, 2, 3] = Some (Ok ())"
proof -
  have "from_slice sample_p256 (auth_signature sample_assertion)" "from_sec1_bytes sample_p256 (signer_pubkey sample_assertion)"
    "verify_prehash sample_p256 (signer_pubkey sample_assertion) (signed_hash sample_hash sample_assertion [1, 2, 3]) (auth_signature sample_assertion)"
    by (simp_all add: sample_p256_def sample_assertion_def zero_digest_def sample_hash_def)
  moreover have "kr_pubkey_sec1 sample_key = signer_pubkey sample_assertion" "kr_auth_scheme sample_key = signer_auth_scheme sample_assertion"
    by (simp_all add: sample_key_def sample_assertion_def)
  ultimately show ?thesis
    using authorization_binds_message [of sample_hash sample_p256 sample_assertion "[sample_key]" "[1, 2, 3]", OF sample_hash_length] sample_asserts
    by simp
qed

end
