(* ===== verification/Key_Transition_Sound.thy ===== *)
theory Key_Transition_Sound
  imports Key_Transition Key_Auth_Sound
begin

text \<open>
  What the key-transition layer guarantees.  The specification is a step relation on the key sets of the accounts, as
  plain sets, and their event digests: an account is created with fresh valid keys, a key is registered or revoked on the
  signature of an active key over the current state of the account, a client action is signed by an active key.  A
  verified block is a run of that relation from key sets the pre-state commits_keys to, to those of the post-state.
\<close>

section \<open>Ordered sets\<close>

definition members :: "'k::linorder oset \<Rightarrow> 'k set" where "members s = set (om_keys s)"

lemma in_members: "k \<in> members s \<longleftrightarrow> lookup s k \<noteq> None"
  by (simp add: members_def in_om_keys)

lemma members_simps [simp]:
  "members om_empty = {}" "members (om_ins k () s) = insert k (members s)" "members (om_del k s) = members s - {k}"
  "members (oset_of ks) = set ks" "oset_mem k s \<longleftrightarrow> k \<in> members s"
  by (auto simp: in_members oset_mem_def oset_of_def lookup_om_of_list_None image_image simp del: not_None_eq split: if_splits)

lemma length_members: "length (om_keys s) = card (members s)"
  by (simp add: members_def distinct_card distinct_keys)

lemma om_keys_members: "om_keys s = sorted_list_of_set (members s)"
  by (simp add: members_def sorted_list_of_set.idem_if_sorted_distinct sorted_om_keys distinct_keys)

lemma members_inj: "members s = members t \<longleftrightarrow> s = t"
proof
  assume "members s = members t"
  then have "lookup s k = None \<longleftrightarrow> lookup t k = None" for k using in_members [of k s] in_members [of k t] by blast
  then show "s = t" by (intro omap_eqI) (metis (full_types) not_None_eq unit.exhaust)
qed simp

section \<open>The specification\<close>

type_synonym KeyState = "(u64 \<rightharpoonup> KeyRecord set) \<times> (u64 \<rightharpoonup> bytes)"

definition valid_key :: "KeyRecord \<Rightarrow> bool" where
  "valid_key key \<longleftrightarrow> kr_auth_scheme key \<le> 1 \<and> take 1 (kr_pubkey_sec1 key) \<in> {[0x02], [0x03]} \<and> kr_capability_mask key = u32_max"

definition pubkeys_of :: "(u64 \<rightharpoonup> KeyRecord set) \<Rightarrow> bytes set" where
  "pubkeys_of U = {kr_pubkey_sec1 k | k a K. U a = Some K \<and> k \<in> K}"

definition unique_keys :: "(u64 \<rightharpoonup> KeyRecord set) \<Rightarrow> bool" where
  "unique_keys U \<longleftrightarrow> (\<forall>a b K L k l. U a = Some K \<and> U b = Some L \<and> k \<in> K \<and> l \<in> L \<and> kr_pubkey_sec1 k = kr_pubkey_sec1 l \<longrightarrow> a = b \<and> k = l)"

definition key_set_digest :: "hash \<Rightarrow> u64 \<Rightarrow> KeyRecord set \<Rightarrow> bytes" where
  "key_set_digest sha a K = account_keys_digest sha a (sorted_list_of_set K)"

definition signed_by :: "Crypto \<Rightarrow> KeyRecord set \<Rightarrow> KeyOpAuth \<Rightarrow> bytes \<Rightarrow> bool" where
  "signed_by cr K auth msg \<longleftrightarrow>
     (\<exists>key \<in> K. kr_pubkey_sec1 key = signer_pubkey auth \<and> kr_auth_scheme key = signer_auth_scheme auth) \<and>
     asserts (cr_sha cr) auth msg \<and> from_sec1_bytes (cr_p256 cr) (signer_pubkey auth) \<and> from_slice (cr_p256 cr) (auth_signature auth) \<and>
     verify_prehash (cr_p256 cr) (signer_pubkey auth) (signed_hash (cr_sha cr) auth msg) (auth_signature auth)"

inductive key_step :: "Crypto \<Rightarrow> bytes \<Rightarrow> u64 \<Rightarrow> KeyState \<Rightarrow> SystemEventWitness \<Rightarrow> KeyState \<Rightarrow> bool"
  for cr g h
where
  created: "U a = None \<Longrightarrow> length ks \<le> 16 \<Longrightarrow> \<forall>k \<in> set ks. valid_key k \<and> kr_pubkey_sec1 k \<notin> pubkeys_of U \<Longrightarrow>
     distinct (map kr_pubkey_sec1 ks) \<Longrightarrow>
     key_step cr g h (U, D) (CreateAccount a b ks)
       (U(a \<mapsto> set ks), D(a \<mapsto> update_digest (cr_blake3 cr) zero_digest (encode_create_account_event b h)))"
| registered: "U a = Some K \<Longrightarrow> D a = Some d \<Longrightarrow> valid_key k \<Longrightarrow> kr_pubkey_sec1 k \<notin> pubkeys_of U \<Longrightarrow> card K < 16 \<Longrightarrow>
     signed_by cr K auth (canonical_key_registration_bytes g a k (key_set_digest (cr_sha cr) a K) d) \<Longrightarrow>
     key_step cr g h (U, D) (KeyRegistered a k auth)
       (U(a \<mapsto> insert k K), D(a \<mapsto> update_digest (cr_blake3 cr) d (encode_key_event 0x0a k h)))"
| revoked: "U a = Some K \<Longrightarrow> D a = Some d \<Longrightarrow> valid_key k \<Longrightarrow> k \<in> K \<Longrightarrow> 1 < card K \<Longrightarrow>
     signed_by cr K auth (canonical_key_revocation_bytes g a k (key_set_digest (cr_sha cr) a K) d) \<Longrightarrow>
     key_step cr g h (U, D) (KeyRevoked a k auth)
       (U(a \<mapsto> K - {k}), D(a \<mapsto> update_digest (cr_blake3 cr) d (encode_key_event 0x0b k h)))"
| acted: "U (action_account act) = Some K \<Longrightarrow> action_bytes cr g act = Ok msg \<Longrightarrow> signed_by cr K (action_auth act) msg \<Longrightarrow>
     key_step cr g h (U, D) (ClientActionAuthorized act) (U, D)"
| other: "\<not> is_key_phase e \<Longrightarrow> \<not> is_client_action e \<Longrightarrow> key_step cr g h s e s"

inductive key_run :: "Crypto \<Rightarrow> bytes \<Rightarrow> u64 \<Rightarrow> KeyState \<Rightarrow> SystemEventWitness list \<Rightarrow> KeyState \<Rightarrow> bool"
  for cr g h
where
  run_nil: "key_run cr g h s [] s"
| run_cons: "key_step cr g h s e s' \<Longrightarrow> key_run cr g h s' es s'' \<Longrightarrow> key_run cr g h s (e # es) s''"

section \<open>Records, lists and owners\<close>

lemma validate_key_record_Ok: "validate_key_record key = Ok u \<longleftrightarrow> valid_key key"
  by (auto simp: validate_key_record_def valid_key_def FULL_CAPABILITY_MASK_def not_le)

lemma validate_keys_Ok:
  "validate_keys a ks seen = Ok u \<longleftrightarrow> (\<forall>k \<in> set ks. valid_key k \<and> kr_pubkey_sec1 k \<notin> set seen) \<and> distinct (map kr_pubkey_sec1 ks)"
  by (induction ks arbitrary: seen) (auto 4 4 simp: opt validate_key_record_Ok image_iff split: if_splits)

lemma validate_key_list_Ok:
  "validate_key_list a ks = Ok u \<longleftrightarrow> length ks \<le> 16 \<and> (\<forall>k \<in> set ks. valid_key k) \<and> distinct (map kr_pubkey_sec1 ks)"
  by (auto simp: validate_key_list_def MAX_KEYS_PER_ACCOUNT_def validate_keys_Ok)

definition universe :: "KeyUniverse \<Rightarrow> u64 \<rightharpoonup> KeyRecord set" where
  "universe keys a = map_option members (lookup keys a)"

lemma universe_simps [simp]:
  "universe (om_ins a s keys) = (universe keys)(a \<mapsto> members s)" "universe (om_del a keys) = (universe keys)(a := None)"
  by (auto simp: universe_def fun_eq_iff)

lemma universe_Some: "universe keys a = Some K \<longleftrightarrow> (\<exists>s. lookup keys a = Some s \<and> K = members s)"
  by (auto simp: universe_def)

definition owns :: "(bytes, u64) omap \<Rightarrow> (u64 \<rightharpoonup> KeyRecord set) \<Rightarrow> bool" where
  "owns pubkeys U \<longleftrightarrow> (\<forall>pk a. lookup pubkeys pk = Some a \<longleftrightarrow> (\<exists>K k. U a = Some K \<and> k \<in> K \<and> kr_pubkey_sec1 k = pk))"

lemma owns_None: "owns pubkeys U \<Longrightarrow> lookup pubkeys pk = None \<longleftrightarrow> pk \<notin> pubkeys_of U"
proof -
  assume "owns pubkeys U"
  then have "(\<exists>a. lookup pubkeys pk = Some a) \<longleftrightarrow> pk \<in> pubkeys_of U" unfolding owns_def pubkeys_of_def mem_Collect_eq by metis
  then show ?thesis by (cases "lookup pubkeys pk") simp_all
qed

lemma owner_loop_Ok:
  "owner_loop xs out = Ok out' \<Longrightarrow> distinct (map (kr_pubkey_sec1 \<circ> snd) xs) \<and> (\<forall>(a, k) \<in> set xs. lookup out (kr_pubkey_sec1 k) = None) \<and>
     (\<forall>pk a. lookup out' pk = Some a \<longleftrightarrow> lookup out pk = Some a \<or> (\<exists>k. (a, k) \<in> set xs \<and> kr_pubkey_sec1 k = pk))"
proof (induction xs out rule: owner_loop.induct)
  case (2 a k rest out)
  then have n: "lookup out (kr_pubkey_sec1 k) = None" and r: "owner_loop rest (om_ins (kr_pubkey_sec1 k) a out) = Ok out'"
    by (auto split: option.splits)
  from 2(1) [OF n r] n show ?case by (fastforce split: if_splits)
qed simp

lemma set_owned_keys: "(a, k) \<in> set (owned_keys keys) \<longleftrightarrow> (\<exists>K. universe keys a = Some K \<and> k \<in> K)"
  by (force simp: owned_keys_def universe_Some members_def)

lemma pubkey_owner_map_Ok:
  assumes "pubkey_owner_map keys = Ok pubkeys"
  shows "unique_keys (universe keys)" "owns pubkeys (universe keys)"
proof -
  note o = owner_loop_Ok [OF assms [unfolded pubkey_owner_map_def]]
  from o have "inj_on (kr_pubkey_sec1 \<circ> snd) (set (owned_keys keys))" by (simp add: distinct_map)
  then have "a = b \<and> k = l" if "(a, k) \<in> set (owned_keys keys)" "(b, l) \<in> set (owned_keys keys)" "kr_pubkey_sec1 k = kr_pubkey_sec1 l" for a b k l
    using inj_onD [of _ _ "(a, k)" "(b, l)"] that by fastforce
  then show "unique_keys (universe keys)" unfolding unique_keys_def set_owned_keys by blast
  from o show "owns pubkeys (universe keys)" by (simp add: owns_def set_owned_keys) blast
qed

lemma insert_key_Ok:
  "insert_globally_unique_key a k (s, pubkeys) = Ok (s', pubkeys') \<longleftrightarrow>
     lookup pubkeys (kr_pubkey_sec1 k) = None \<and> k \<notin> members s \<and> s' = om_ins k () s \<and> pubkeys' = om_ins (kr_pubkey_sec1 k) a pubkeys"
  by (auto simp: insert_globally_unique_key_def split: option.splits)

lemma insert_keys_Ok:
  "insert_keys a ks (s, pubkeys) = Ok (s', pubkeys') \<Longrightarrow> members s' = members s \<union> set ks \<and>
     (\<forall>k \<in> set ks. lookup pubkeys (kr_pubkey_sec1 k) = None) \<and>
     (\<forall>pk. lookup pubkeys' pk = (if pk \<in> kr_pubkey_sec1 ` set ks then Some a else lookup pubkeys pk))"
proof (induction ks arbitrary: s pubkeys)
  case (Cons k ks)
  then obtain t q where t: "insert_globally_unique_key a k (s, pubkeys) = Ok (t, q)" "insert_keys a ks (t, q) = Ok (s', pubkeys')"
    by (auto simp: opt)
  from Cons.IH [OF t(2)] t(1) show ?case by (auto simp: insert_key_Ok split: if_splits)
qed simp

section \<open>Keeping the owners\<close>

definition holds_key :: "(u64 \<rightharpoonup> KeyRecord set) \<Rightarrow> u64 \<Rightarrow> KeyRecord \<Rightarrow> bool" where
  "holds_key U a k \<longleftrightarrow> (\<exists>K. U a = Some K \<and> k \<in> K)"

lemma holds_key_iff:
  "unique_keys U \<longleftrightarrow> (\<forall>a b k l. holds_key U a k \<and> holds_key U b l \<and> kr_pubkey_sec1 k = kr_pubkey_sec1 l \<longrightarrow> a = b \<and> k = l)"
  "owns p U \<longleftrightarrow> (\<forall>pk a. lookup p pk = Some a \<longleftrightarrow> (\<exists>k. holds_key U a k \<and> kr_pubkey_sec1 k = pk))"
  "pubkeys_of U = {kr_pubkey_sec1 k | k a. holds_key U a k}"
  unfolding unique_keys_def owns_def pubkeys_of_def holds_key_def by blast+

lemma holds_key_upd:
  "holds_key (U(a \<mapsto> (case U a of Some L \<Rightarrow> L | None \<Rightarrow> {}) \<union> N)) b k \<longleftrightarrow> holds_key U b k \<or> b = a \<and> k \<in> N"
  by (auto simp: holds_key_def split: option.splits)

lemma unique_add:
  assumes "unique_keys U" "\<forall>k \<in> N. kr_pubkey_sec1 k \<notin> pubkeys_of U" "inj_on kr_pubkey_sec1 N"
    and "K = (case U a of Some L \<Rightarrow> L | None \<Rightarrow> {})"
  shows "unique_keys (U(a \<mapsto> K \<union> N))"
proof -
  have new: "\<not> holds_key U b l" if "k \<in> N" "kr_pubkey_sec1 k = kr_pubkey_sec1 l" for k b l
    using assms(2) that unfolding holds_key_iff(3) by fastforce
  then show ?thesis using assms(1,3) unfolding holds_key_iff(1) assms(4) holds_key_upd by (metis inj_onD)
qed

lemma owns_add:
  assumes "owns pubkeys U" "\<forall>k \<in> N. kr_pubkey_sec1 k \<notin> pubkeys_of U"
    and "\<And>pk. lookup pubkeys' pk = (if pk \<in> kr_pubkey_sec1 ` N then Some a else lookup pubkeys pk)"
    and "K = (case U a of Some L \<Rightarrow> L | None \<Rightarrow> {})"
  shows "owns pubkeys' (U(a \<mapsto> K \<union> N))"
proof -
  have new: "\<not> holds_key U b l" if "k \<in> N" "kr_pubkey_sec1 k = kr_pubkey_sec1 l" for k b l
    using assms(2) that unfolding holds_key_iff(3) by fastforce
  then show ?thesis using assms(1) unfolding holds_key_iff(2) assms(3,4) holds_key_upd by (auto 0 4)
qed

lemma owns_remove:
  assumes "owns pubkeys U" "unique_keys U" "U a = Some K" "k \<in> K"
  shows "unique_keys (U(a \<mapsto> K - {k})) \<and> owns (om_del (kr_pubkey_sec1 k) pubkeys) (U(a \<mapsto> K - {k}))"
proof
  show "unique_keys (U(a \<mapsto> K - {k}))"
    using assms(2,3) unfolding unique_keys_def by (metis DiffD1 fun_upd_apply option.inject)
  have only: "b = a \<and> l = k" if "U b = Some L" "l \<in> L" "kr_pubkey_sec1 l = kr_pubkey_sec1 k" for b L l
    using assms(2-4) that unfolding unique_keys_def by blast
  show "owns (om_del (kr_pubkey_sec1 k) pubkeys) (U(a \<mapsto> K - {k}))"
    using assms(1,3) only unfolding owns_def by (auto split: if_splits)
qed

section \<open>Steps\<close>

definition key_state :: "Replay \<Rightarrow> KeyState" where
  "key_state st = (universe (rp_running st), lookup (rp_events st))"

lemma check_auth_Ok: "check_auth cr a auth s msg = Some (Ok u) \<longleftrightarrow> signed_by cr (members s) auth msg"
  using keyop_auth_accepts [of "cr_sha cr" "cr_p256 cr" auth "om_keys s" msg]
  by (auto simp: check_auth_def signed_by_def members_def split: option.splits result.splits)

lemma digest_members: "account_keys_digest sha a (om_keys s) = key_set_digest sha a (members s)"
  by (simp add: key_set_digest_def om_keys_members)

lemma step_unique:
  assumes "key_step cr g h (U, D) e (U', D')" "unique_keys U"
  shows "unique_keys U'"
  using assms(1)
proof cases
  case (created a ks b)
  with unique_add [OF assms(2), of "set ks" "{}" a] show ?thesis by (simp add: distinct_map)
next
  case (registered a K d k auth)
  with unique_add [OF assms(2), of "{k}" K a] show ?thesis by simp
next
  case (revoked a K d k auth)
  then have "holds_key U' b l \<Longrightarrow> holds_key U b l" for b l by (auto simp: holds_key_def split: if_splits)
  with assms(2) show ?thesis unfolding holds_key_iff(1) by blast
qed (use assms(2) in simp_all)

lemma replay_event_refines:
  assumes "replay_event cr g h e st = Some (Ok st')" "owns (rp_pubkeys st) (universe (rp_running st))" "unique_keys (universe (rp_running st))"
  shows "key_step cr g h (key_state st) e (key_state st') \<and> owns (rp_pubkeys st') (universe (rp_running st'))"
proof (cases e)
  case (CreateAccount a b ks)
  with assms(1) obtain s p where n: "lookup (rp_running st) a = None" and v: "validate_key_list a ks = Ok ()"
    and i: "insert_keys a ks (om_empty, rp_pubkeys st) = Ok (s, p)"
    and st: "st' = \<lparr> rp_running = om_ins a s (rp_running st), rp_pubkeys = p,
      rp_events = om_ins a (update_digest (cr_blake3 cr) zero_digest (encode_create_account_event b h)) (rp_events st) \<rparr>"
    by (auto simp: opt split: if_splits)
  from n have U: "universe (rp_running st) a = None" by (simp add: universe_def)
  from insert_keys_Ok [OF i] have m: "members s = set ks" and f: "\<forall>k \<in> set ks. kr_pubkey_sec1 k \<notin> pubkeys_of (universe (rp_running st))"
    and p: "\<And>pk. lookup p pk = (if pk \<in> kr_pubkey_sec1 ` set ks then Some a else lookup (rp_pubkeys st) pk)"
    by (simp_all add: owns_None [OF assms(2)])
  have "lookup (om_ins a d (rp_events st)) = (lookup (rp_events st))(a \<mapsto> d)" for d by (auto simp: fun_eq_iff)
  with U v f owns_add [OF assms(2) f p, of "{}"] show ?thesis
    by (simp add: CreateAccount st key_state_def m validate_key_list_Ok key_step.created)
next
  case (KeyRegistered a k auth)
  with assms(1) obtain s d p t where l: "lookup (rp_running st) a = Some s" and d: "lookup (rp_events st) a = Some d" and v: "valid_key k"
    and g: "signed_by cr (members s) auth (canonical_key_registration_bytes g a k (key_set_digest (cr_sha cr) a (members s)) d)"
    and c: "card (members s) < 16" and i: "insert_globally_unique_key a k (s, rp_pubkeys st) = Ok (t, p)"
    and st: "st' = \<lparr> rp_running = om_ins a t (rp_running st), rp_pubkeys = p,
      rp_events = om_ins a (update_digest (cr_blake3 cr) d (encode_key_event 0x0a k h)) (rp_events st) \<rparr>"
    by (auto simp: opt validate_key_record_Ok check_auth_Ok digest_members length_members MAX_KEYS_PER_ACCOUNT_def split: if_splits)
  from l have U: "universe (rp_running st) a = Some (members s)" by (simp add: universe_def)
  from i have f: "kr_pubkey_sec1 k \<notin> pubkeys_of (universe (rp_running st))" and t: "members t = insert k (members s)"
    and p: "p = om_ins (kr_pubkey_sec1 k) a (rp_pubkeys st)" by (auto simp: insert_key_Ok owns_None [OF assms(2)])
  have D: "lookup (om_ins a x (rp_events st)) = (lookup (rp_events st))(a \<mapsto> x)" for x by (auto simp: fun_eq_iff)
  from owns_add [OF assms(2), of "{k}" p a "members s"] U f p have "owns p ((universe (rp_running st))(a \<mapsto> insert k (members s)))" by simp
  with key_step.registered [where U = "universe (rp_running st)" and D = "lookup (rp_events st)", OF U d v f c g] show ?thesis
    by (simp add: KeyRegistered st key_state_def t D)
next
  case (KeyRevoked a k auth)
  with assms(1) obtain s d where l: "lookup (rp_running st) a = Some s" and d: "lookup (rp_events st) a = Some d" and v: "valid_key k"
    and g: "signed_by cr (members s) auth (canonical_key_revocation_bytes g a k (key_set_digest (cr_sha cr) a (members s)) d)"
    and c: "1 < card (members s)" and k: "k \<in> members s"
    and st: "st' = \<lparr> rp_running = om_ins a (om_del k s) (rp_running st), rp_pubkeys = om_del (kr_pubkey_sec1 k) (rp_pubkeys st),
      rp_events = om_ins a (update_digest (cr_blake3 cr) d (encode_key_event 0x0b k h)) (rp_events st) \<rparr>"
    by (auto simp: opt validate_key_record_Ok check_auth_Ok digest_members length_members split: if_splits)
  from l have U: "universe (rp_running st) a = Some (members s)" by (simp add: universe_def)
  have D: "lookup (om_ins a x (rp_events st)) = (lookup (rp_events st))(a \<mapsto> x)" for x by (auto simp: fun_eq_iff)
  from key_step.revoked [where U = "universe (rp_running st)" and D = "lookup (rp_events st)", OF U d v k c g] owns_remove [OF assms(2,3) U k] show ?thesis
    by (simp add: KeyRevoked st key_state_def D)
next
  case (ClientActionAuthorized act)
  with assms show ?thesis
    by (auto simp: opt check_auth_Ok key_state_def universe_def split: result.splits intro!: key_step.acted)
qed (use assms in \<open>auto intro: key_step.other\<close>)

lemma replay_events_refine:
  "replay_events cr g h es st = Some (Ok st') \<Longrightarrow> owns (rp_pubkeys st) (universe (rp_running st)) \<Longrightarrow> unique_keys (universe (rp_running st)) \<Longrightarrow>
     key_run cr g h (key_state st) es (key_state st')"
proof (induction es arbitrary: st)
  case (Cons e es)
  then obtain st1 where r: "replay_event cr g h e st = Some (Ok st1)" "replay_events cr g h es st1 = Some (Ok st')" by (auto simp: opt)
  note s = replay_event_refines [OF r(1) Cons.prems(2,3)]
  with step_unique [of cr g h "universe (rp_running st)" _ e "universe (rp_running st1)"] Cons.prems(3)
  have "unique_keys (universe (rp_running st1))" by (auto simp: key_state_def)
  with Cons.IH [OF r(2)] s show ?case by (blast intro: run_cons)
qed (simp add: run_nil)

section \<open>Opening the states\<close>

lemma account_map_Ok:
  "account_map as out = Ok m \<Longrightarrow> distinct (map as_id as) \<and> (\<forall>x \<in> set as. lookup out (as_id x) = None) \<and>
     (\<forall>a x. lookup m a = Some x \<longleftrightarrow> lookup out a = Some x \<or> x \<in> set as \<and> as_id x = a)"
proof (induction as arbitrary: out)
  case (Cons y as)
  then have n: "lookup out (as_id y) = None" and r: "account_map as (om_ins (as_id y) y out) = Ok m" by (auto split: if_splits)
  from Cons.IH [OF r] n show ?case by (fastforce split: if_splits)
qed simp

definition event_digests :: "AccountSnapshot list \<Rightarrow> u64 \<rightharpoonup> bytes" where
  "event_digests as a = map_option as_events_digest (List.find (\<lambda>x. as_id x = a) as)"

lemma event_digests_map:
  assumes "account_map as om_empty = Ok m"
  shows "lookup (om_of_list (map (\<lambda>(a, x). (a, as_events_digest x)) (entries m))) = event_digests as"
proof
  fix a
  note m = account_map_Ok [OF assms]
  let ?es = "map (\<lambda>(a, x). (a, as_events_digest x)) (entries m)"
  have "lookup (om_of_list ?es) a = map_of ?es a"
    by (rule lookup_om_of_list_distinct) (use distinct_keys(1) [of m] in \<open>simp add: comp_def case_prod_beta\<close>)
  also have "\<dots> = map_option as_events_digest (lookup m a)" by (simp add: lookup_entries map_of_map)
  also have "lookup m a = List.find (\<lambda>x. as_id x = a) as"
  proof (cases "List.find (\<lambda>x. as_id x = a) as")
    case None
    then have "\<nexists>x. x \<in> set as \<and> as_id x = a" by (simp add: find_None_iff)
    with m have "lookup m a = None" by (cases "lookup m a") auto
    with None show ?thesis by simp
  next
    case (Some x)
    then have "x \<in> set as" "as_id x = a" by (auto simp: find_Some_iff)
    with m Some show ?thesis by auto
  qed
  finally show "lookup (om_of_list (map (\<lambda>(a, x). (a, as_events_digest x)) (entries m))) a = event_digests as a"
    by (simp add: event_digests_def)
qed

lemma open_keys_Ok:
  "open_keys posts ks seen out = Ok keys \<Longrightarrow> distinct (map fst ks) \<and> fst ` set ks \<inter> set seen = {} \<and>
     (\<forall>(a, l) \<in> set ks. lookup posts a \<noteq> None \<and> validate_key_list a l = Ok ()) \<and>
     lookup keys = (\<lambda>a. case map_of ks a of Some l \<Rightarrow> Some (oset_of l) | None \<Rightarrow> lookup out a)"
proof (induction posts ks seen out rule: open_keys.induct)
  case (2 posts a l rest seen out)
  then have c: "a \<notin> set seen" "lookup posts a \<noteq> None" and v: "validate_key_list a l = Ok ()"
    and r: "open_keys posts rest (a # seen) (om_ins a (oset_of l) out) = Ok keys"
    by (auto simp: opt split: if_splits)
  note ih = 2(1) [OF c r]
  have "map_of rest a = None" using ih by (auto simp: map_of_eq_None_iff)
  with ih c v show ?case by (auto simp: fun_eq_iff split: option.splits)
qed auto

definition opened :: "BlockWitness \<Rightarrow> u64 \<rightharpoonup> KeyRecord set" where
  "opened w a = (if a \<in> as_id ` set (bw_post_state w)
     then Some (case map_of (bw_account_keys w) a of Some ks \<Rightarrow> set ks | None \<Rightarrow> {}) else None)"

lemma post_keys_opened:
  assumes "account_map (bw_post_state w) om_empty = Ok posts" "normalized_post_key_map w posts = Ok keys"
  shows "universe keys = opened w"
    and "\<And>a K. opened w a = Some K \<Longrightarrow> card K \<le> 16 \<and> (\<forall>k \<in> K. valid_key k)"
proof -
  note p = account_map_Ok [OF assms(1)] and o = open_keys_Ok [OF assms(2) [unfolded normalized_post_key_map_def]]
  have posts: "lookup posts a \<noteq> None \<longleftrightarrow> a \<in> as_id ` set (bw_post_state w)" for a
  proof -
    from p have "(\<exists>x. lookup posts a = Some x) \<longleftrightarrow> (\<exists>x. x \<in> set (bw_post_state w) \<and> as_id x = a)" by simp
    then show ?thesis by (auto simp: image_iff)
  qed
  have base: "lookup (om_of_list (map (\<lambda>a. (a, om_empty :: KeySet)) (om_keys posts))) a = (if lookup posts a \<noteq> None then Some om_empty else None)" for a
    by (subst lookup_om_of_list_distinct)
      (simp_all add: comp_def distinct_keys map_of_map_restrict restrict_map_def in_om_keys del: not_None_eq)
  show "universe keys = opened w"
  proof
    fix a
    show "universe keys a = opened w a"
    proof (cases "map_of (bw_account_keys w) a")
      case None
      with o base [of a] posts [of a] show ?thesis by (simp add: universe_def opened_def)
    next
      case (Some l)
      with o have "lookup posts a \<noteq> None" by (blast dest: map_of_SomeD)
      with Some o posts [of a] show ?thesis by (simp add: universe_def opened_def)
    qed
  qed
  show "card K \<le> 16 \<and> (\<forall>k \<in> K. valid_key k)" if "opened w a = Some K" for a K
  proof (cases "map_of (bw_account_keys w) a")
    case (Some l)
    with o have "validate_key_list a l = Ok ()" by (blast dest: map_of_SomeD)
    with Some that show ?thesis using card_length [of l] by (auto simp: opened_def validate_key_list_Ok split: if_splits)
  qed (use that in \<open>auto simp: opened_def split: if_splits\<close>)
qed

lemma weld_entries_Ok:
  "weld_entries sha keys xs = Ok u \<Longrightarrow> (a, x) \<in> set xs \<Longrightarrow> \<exists>K. universe keys a = Some K \<and> as_keys_digest x = key_set_digest sha a K"
  by (induction sha keys xs rule: weld_entries.induct) (auto simp: opt digest_members universe_def split: if_splits)

lemma check_touched_Ok:
  "check_touched sha es pres keys as = Ok u \<Longrightarrow> a \<in> set as \<Longrightarrow> \<not> list_ex (creates a) es \<Longrightarrow>
     \<exists>x K. lookup pres a = Some x \<and> universe keys a = Some K \<and> as_keys_digest x = key_set_digest sha a K"
  by (induction sha es pres keys as rule: check_touched.induct) (auto simp: opt digest_members universe_def split: if_splits)

lemma check_untouched_Ok:
  "check_untouched t pres xs = Ok u \<Longrightarrow> (a, y) \<in> set xs \<Longrightarrow> a \<notin> members t \<Longrightarrow>
     \<exists>x. lookup pres a = Some x \<and> as_keys_digest x = as_keys_digest y"
  by (induction t pres xs rule: check_untouched.induct) (auto simp: opt split: if_splits)

section \<open>Running backwards\<close>

lemma touched_iff: "a \<in> members (key_touched_accounts es) \<longleftrightarrow> (\<exists>e \<in> set es. is_key_phase e \<and> a \<in> set (event_account_ids e))"
  by (auto simp: key_touched_accounts_def split: if_splits)

lemma reverse_event_facts:
  assumes "reverse_key_event e keys = Ok keys'"
  shows "\<not> (is_key_phase e \<and> a \<in> set (event_account_ids e)) \<Longrightarrow> lookup keys' a = lookup keys a"
    and "creates a e \<Longrightarrow> lookup keys' a = None" and "lookup keys a = None \<Longrightarrow> lookup keys' a = None"
  using assms by (cases e; auto simp: opt split: if_splits)+

lemma reverse_keys_facts:
  assumes "reverse_keys es keys = Ok keys'"
  shows "(\<forall>e \<in> set es. \<not> (is_key_phase e \<and> a \<in> set (event_account_ids e))) \<Longrightarrow> lookup keys' a = lookup keys a"
    and "lookup keys a = None \<Longrightarrow> lookup keys' a = None" and "list_ex (creates a) es \<Longrightarrow> lookup keys' a = None"
  using assms
proof (induction es arbitrary: keys)
  case (Cons e es)
  {
    case 1
    then obtain k1 where "reverse_key_event e keys = Ok k1" "reverse_keys es k1 = Ok keys'" by (auto simp: opt)
    with Cons.IH(1) [of k1] reverse_event_facts(1) [of e keys k1 a] 1 show ?case by simp
  next
    case 2
    then obtain k1 where "reverse_key_event e keys = Ok k1" "reverse_keys es k1 = Ok keys'" by (auto simp: opt)
    with Cons.IH(2) [of k1] reverse_event_facts(3) [of e keys k1 a] 2 show ?case by simp
  next
    case 3
    then obtain k1 where k: "reverse_key_event e keys = Ok k1" "reverse_keys es k1 = Ok keys'" by (auto simp: opt)
    show ?case
    proof (cases "creates a e")
      case True
      with k Cons.IH(2) [of k1] reverse_event_facts(2) [of e keys k1 a] show ?thesis by simp
    next
      case False
      with k Cons.IH(3) [of k1] 3 show ?thesis by simp
    qed
  }
qed simp_all

section \<open>The layer always answers\<close>

lemma check_auth_total: "check_auth cr a auth s msg \<noteq> None"
proof -
  have "verify_webauthn_envelope sha msg ad cd \<noteq> None" for sha ad cd
    using extract_total [of cd] by (auto simp: verify_webauthn_envelope_def split: result.splits)
  then have "verify_keyop_auth sha p auth ks msg \<noteq> None" for sha p ks
    by (auto simp: verify_keyop_auth_def and_then_fuel_None simp del: not_None_eq split: KeyOpAuth.splits)
  then show ?thesis by (auto simp: check_auth_def split: option.splits result.splits)
qed

lemma replay_event_total: "replay_event cr g h e st \<noteq> None"
  by (cases e) (auto simp: and_then_fuel_None check_auth_total simp del: not_None_eq)

lemma replay_events_total: "replay_events cr g h es st \<noteq> None"
  by (induction es arbitrary: st) (auto simp: and_then_fuel_None replay_event_total simp del: not_None_eq)

lemma verify_keys_total: "verify_keys cr w \<noteq> None"
  by (auto simp: verify_keys_def and_then_fuel_None Let_def replay_events_total simp del: not_None_eq)

section \<open>Verified blocks\<close>

definition commits_keys :: "hash \<Rightarrow> AccountSnapshot list \<Rightarrow> (u64 \<rightharpoonup> KeyRecord set) \<Rightarrow> bool" where
  "commits_keys sha as U \<longleftrightarrow> (\<forall>a K. U a = Some K \<longrightarrow> (\<exists>x \<in> set as. as_id x = a \<and> as_keys_digest x = key_set_digest sha a K))"

lemma recovered_commits:
  assumes pres: "account_map (bw_pre_state w) om_empty = Ok pres" and posts: "account_map (bw_post_state w) om_empty = Ok posts"
    and post: "normalized_post_key_map w posts = Ok post" and weld: "weld_post_keys sha post posts = Ok u"
    and rev: "reverse_keys (rev (bw_system_events w)) post = Ok pre"
    and touched: "check_touched sha (bw_system_events w) pres pre (om_keys (key_touched_accounts (bw_system_events w))) = Ok u"
    and untouched: "check_untouched (key_touched_accounts (bw_system_events w)) pres (entries posts) = Ok u"
  shows "commits_keys sha (bw_pre_state w) (universe pre)"
  unfolding commits_keys_def
proof (intro allI impI)
  fix a K assume K: "universe pre a = Some K"
  note facts = reverse_keys_facts [OF rev, of a]
  have "\<exists>x. lookup pres a = Some x \<and> as_keys_digest x = key_set_digest sha a K"
  proof (cases "a \<in> members (key_touched_accounts (bw_system_events w))")
    case True
    moreover have "\<not> list_ex (creates a) (bw_system_events w)" using facts(3) K by (auto simp: universe_def)
    ultimately show ?thesis using check_touched_Ok [OF touched, of a] K by (auto simp: members_def)
  next
    case False
    then have same: "universe post a = Some K" using facts(1) K by (auto simp: touched_iff universe_def)
    then obtain y where y: "lookup posts a = Some y"
      using post_keys_opened(1) [OF posts post] account_map_Ok [OF posts] by (fastforce simp: opened_def split: if_splits)
    then have "as_keys_digest y = key_set_digest sha a K"
      using weld_entries_Ok [OF weld [unfolded weld_post_keys_def], of a y] same by auto
    with check_untouched_Ok [OF untouched, of a y] False y show ?thesis by auto
  qed
  with account_map_Ok [OF pres] show "\<exists>x \<in> set (bw_pre_state w). as_id x = a \<and> as_keys_digest x = key_set_digest sha a K" by auto
qed

lemma verify_keys_run:
  assumes "verify_keys cr w = Some (Ok ())"
  obtains U D where "commits_keys (cr_sha cr) (bw_pre_state w) U" "unique_keys U"
    "key_run cr (bw_genesis_hash w) (h_height (bw_header w)) (U, event_digests (bw_pre_state w)) (bw_system_events w) (opened w, D)"
    "commits_keys (cr_sha cr) (bw_post_state w) (opened w)" "\<And>a K. opened w a = Some K \<Longrightarrow> card K \<le> 16 \<and> (\<forall>k \<in> K. valid_key k)"
proof -
  from assms obtain pres posts post pre pubkeys st where pres: "account_map (bw_pre_state w) om_empty = Ok pres"
    and posts: "account_map (bw_post_state w) om_empty = Ok posts" and post: "normalized_post_key_map w posts = Ok post"
    and weld: "weld_post_keys (cr_sha cr) post posts = Ok ()" and rev: "reverse_keys (rev (bw_system_events w)) post = Ok pre"
    and touched: "check_touched (cr_sha cr) (bw_system_events w) pres pre (om_keys (key_touched_accounts (bw_system_events w))) = Ok ()"
    and untouched: "check_untouched (key_touched_accounts (bw_system_events w)) pres (entries posts) = Ok ()"
    and owners: "pubkey_owner_map pre = Ok pubkeys"
    and replay: "replay_events cr (bw_genesis_hash w) (h_height (bw_header w)) (bw_system_events w) \<lparr> rp_running = pre, rp_pubkeys = pubkeys,
       rp_events = om_of_list (map (\<lambda>(account_id, account). (account_id, as_events_digest account)) (entries pres)) \<rparr> = Some (Ok st)"
    and final: "rp_running st = post"
    by (simp add: verify_keys_def opt Let_def split: if_splits) blast
  note o = pubkey_owner_map_Ok [OF owners] and p = post_keys_opened [OF posts post]
  from replay_events_refine [OF replay] o
  have "key_run cr (bw_genesis_hash w) (h_height (bw_header w)) (universe pre, event_digests (bw_pre_state w)) (bw_system_events w) (opened w, lookup (rp_events st))"
    by (simp add: key_state_def event_digests_map [OF pres] final p(1))
  moreover have "commits_keys (cr_sha cr) (bw_post_state w) (opened w)"
    unfolding commits_keys_def
  proof (intro allI impI)
    fix a K assume K: "opened w a = Some K"
    then obtain x where x: "x \<in> set (bw_post_state w)" "as_id x = a" by (auto simp: opened_def split: if_splits)
    then have "(a, x) \<in> set (entries posts)" using account_map_Ok [OF posts] by simp
    with weld_entries_Ok [OF weld [unfolded weld_post_keys_def]] K x p(1)
    show "\<exists>x \<in> set (bw_post_state w). as_id x = a \<and> as_keys_digest x = key_set_digest (cr_sha cr) a K" by fastforce
  qed
  ultimately show thesis
    using that recovered_commits [OF pres posts post weld rev touched untouched] o(1) p(2) by blast
qed

section \<open>Runs\<close>

lemma run_append: "key_run cr g h s (es @ fs) t \<Longrightarrow> \<exists>m. key_run cr g h s es m \<and> key_run cr g h m fs t"
proof (induction es arbitrary: s)
  case (Cons e es)
  from Cons.prems obtain s1 where "key_step cr g h s e s1" "key_run cr g h s1 (es @ fs) t" by (auto elim: key_run.cases)
  with Cons.IH show ?case by (blast intro: run_cons)
qed (auto intro: run_nil)

lemma run_unique: "key_run cr g h s es t \<Longrightarrow> unique_keys (fst s) \<Longrightarrow> unique_keys (fst t)"
  by (induction rule: key_run.induct) (auto dest: step_unique simp: prod_eq_iff split_paired_all)

lemma step_valid_before: "key_step cr g h s e t \<Longrightarrow> holds_key (fst s) a k \<Longrightarrow> holds_key (fst t) a k \<or> valid_key k"
  by (erule key_step.cases) (auto simp: holds_key_def)

lemma run_valid_before: "key_run cr g h s es t \<Longrightarrow> \<forall>a k. holds_key (fst t) a k \<longrightarrow> valid_key k \<Longrightarrow> \<forall>a k. holds_key (fst s) a k \<longrightarrow> valid_key k"
  by (induction rule: key_run.induct) (blast dest: step_valid_before)+

lemma step_keeps_keys: "key_step cr g h s e t \<Longrightarrow> \<exists>k. holds_key (fst s) a k \<Longrightarrow> \<exists>k. holds_key (fst t) a k"
proof (induction rule: key_step.induct)
  case (revoked U b K D d k auth)
  have "\<exists>l \<in> K. l \<noteq> k"
  proof (rule ccontr)
    assume "\<not> (\<exists>l \<in> K. l \<noteq> k)"
    then have "card K \<le> card {k}" by (intro card_mono) auto
    with revoked(5) show False by simp
  qed
  with revoked show ?case by (auto simp: holds_key_def [abs_def])
qed (auto simp: holds_key_def [abs_def])

lemma run_keeps_keys: "key_run cr g h s es t \<Longrightarrow> \<exists>k. holds_key (fst s) a k \<Longrightarrow> \<exists>k. holds_key (fst t) a k"
  by (induction rule: key_run.induct) (auto dest: step_keeps_keys)

section \<open>Properties\<close>

lemma verified_keys: "verify_key_transitions cr w = Some r \<Longrightarrow> vr_valid r \<longleftrightarrow> verify_keys cr w = Some (Ok ())"
proof -
  assume r: "verify_key_transitions cr w = Some r"
  then obtain z where z: "verify_keys cr w = Some z" by (auto simp: verify_key_transitions_def)
  with r show ?thesis by (cases z) (auto simp: verify_key_transitions_def from_violations_def)
qed

text \<open>C5: the key-transition layer always answers, and when it accepts a block its key events and client actions are a
  run of the specification: from key sets that the pre-state digests commit to, every account creation, registration,
  revocation and client action in turn, each operation signed by a key active at that point over bytes bound to the
  account's key set and event digest at that point, to the key sets that the witness opens and the post-state commits_keys to.\<close>

theorem key_sets_follow_signatures:
  "\<exists>r. verify_key_transitions cr w = Some r \<and> (vr_valid r \<longrightarrow>
     (\<exists>U D. commits_keys (cr_sha cr) (bw_pre_state w) U \<and>
        key_run cr (bw_genesis_hash w) (h_height (bw_header w)) (U, event_digests (bw_pre_state w)) (bw_system_events w) (opened w, D) \<and>
        commits_keys (cr_sha cr) (bw_post_state w) (opened w)))"
proof -
  obtain r where r: "verify_key_transitions cr w = Some r" using verify_keys_total [of cr w] by (auto simp: verify_key_transitions_def)
  with verified_keys [OF r] show ?thesis by (metis verify_keys_run)
qed

text \<open>C6: the key sets of a verified block are well formed at every point of it: every key is a compressed full-authority
  key of a known scheme, no public key is active twice, an account that has a key at the start never loses its last
  one, and at the end no account has more than sixteen.\<close>

theorem key_sets_well_formed:
  assumes "verify_key_transitions cr w = Some r" "vr_valid r" "bw_system_events w = es @ fs"
  shows "\<exists>U\<^sub>0 U D D'. commits_keys (cr_sha cr) (bw_pre_state w) U\<^sub>0 \<and>
     key_run cr (bw_genesis_hash w) (h_height (bw_header w)) (U\<^sub>0, event_digests (bw_pre_state w)) es (U, D) \<and>
     key_run cr (bw_genesis_hash w) (h_height (bw_header w)) (U, D) fs (opened w, D') \<and>
     unique_keys U \<and> (\<forall>a k. holds_key U a k \<longrightarrow> valid_key k) \<and> (\<forall>a. (\<exists>k. holds_key U\<^sub>0 a k) \<longrightarrow> (\<exists>k. holds_key U a k)) \<and>
     (\<forall>a K. opened w a = Some K \<longrightarrow> card K \<le> 16)"
proof -
  from assms have "verify_keys cr w = Some (Ok ())" by (simp add: verified_keys)
  then obtain U\<^sub>0 D' where c: "commits_keys (cr_sha cr) (bw_pre_state w) U\<^sub>0" and u: "unique_keys U\<^sub>0"
    and run: "key_run cr (bw_genesis_hash w) (h_height (bw_header w)) (U\<^sub>0, event_digests (bw_pre_state w)) (es @ fs) (opened w, D')"
    and o: "\<And>a K. opened w a = Some K \<Longrightarrow> card K \<le> 16 \<and> (\<forall>k \<in> K. valid_key k)"
    using assms(3) by (metis verify_keys_run)
  from run_append [OF run] obtain U D where m: "key_run cr (bw_genesis_hash w) (h_height (bw_header w)) (U\<^sub>0, event_digests (bw_pre_state w)) es (U, D)"
    "key_run cr (bw_genesis_hash w) (h_height (bw_header w)) (U, D) fs (opened w, D')" by auto
  have "valid_key k" if "holds_key U a k" for a k
    using run_valid_before [OF m(2)] o that by (auto simp: holds_key_def)
  moreover have "unique_keys U" using run_unique [OF m(1)] u by simp
  moreover have "(\<exists>k. holds_key U\<^sub>0 a k) \<longrightarrow> (\<exists>k. holds_key U a k)" for a using run_keeps_keys [OF m(1), of a] by simp
  ultimately show ?thesis using c m o by blast
qed

section \<open>A block with key events\<close>

text \<open>An account with one raw key registers a second key, revokes the first, and cancels an order under the second.\<close>

definition raw_key :: "u8 \<Rightarrow> KeyRecord" where
  "raw_key b = \<lparr> kr_auth_scheme = 0, kr_pubkey_sec1 = 2 # replicate 32 b, kr_capability_mask = u32_max \<rparr>"

definition raw_auth :: "u8 \<Rightarrow> KeyOpAuth" where
  "raw_auth b = RawP256 (2 # replicate 32 b) (zero_digest @ zero_digest)"

definition sample_crypto :: Crypto where
  "sample_crypto = \<lparr> cr_sha = sample_hash, cr_blake3 = sample_hash, cr_p256 = sample_p256, cr_to_vec = borsh_to_vec \<rparr>"

definition key_block :: BlockWitness where
  "key_block = sample_block\<lparr> bw_system_events := [KeyRegistered 1 (raw_key 7) (raw_auth 5), KeyRevoked 1 (raw_key 5) (raw_auth 7),
       ClientActionAuthorized (CaCancel 1 3 9 (raw_auth 7))],
     bw_post_state := sample_post_system, bw_account_keys := [(1, [raw_key 7])] \<rparr>"

lemma key_block_verifies: "map_option vr_valid (verify_key_transitions sample_crypto key_block) = Some True"
  by code_simp

lemma key_block_result: "\<exists>r. verify_key_transitions sample_crypto key_block = Some r \<and> vr_valid r"
  using key_block_verifies by (cases "verify_key_transitions sample_crypto key_block") simp_all

theorem key_sets_follow_signatures_witness:
  "\<exists>U D. commits_keys sample_hash (bw_pre_state key_block) U \<and>
     key_run sample_crypto zero_digest 5 (U, event_digests (bw_pre_state key_block)) (bw_system_events key_block) (opened key_block, D)"
  using key_sets_follow_signatures [of sample_crypto key_block] key_block_result
  by (auto simp: sample_crypto_def key_block_def sample_block_def sample_header_def)

theorem key_sets_well_formed_witness:
  "\<exists>U\<^sub>0 U D. commits_keys sample_hash (bw_pre_state key_block) U\<^sub>0 \<and>
     key_run sample_crypto zero_digest 5 (U\<^sub>0, event_digests (bw_pre_state key_block)) [KeyRegistered 1 (raw_key 7) (raw_auth 5)] (U, D) \<and> unique_keys U"
proof -
  obtain r where r: "verify_key_transitions sample_crypto key_block = Some r" "vr_valid r" using key_block_result by blast
  have ev: "bw_system_events key_block = [KeyRegistered 1 (raw_key 7) (raw_auth 5)] @
      [KeyRevoked 1 (raw_key 5) (raw_auth 7), ClientActionAuthorized (CaCancel 1 3 9 (raw_auth 7))]" by (simp add: key_block_def)
  have "cr_sha sample_crypto = sample_hash" "bw_genesis_hash key_block = zero_digest" "h_height (bw_header key_block) = 5"
    by (simp_all add: sample_crypto_def key_block_def sample_block_def sample_header_def)
  with key_sets_well_formed [OF r ev] show ?thesis by metis
qed

end
