(* ===== verification/State_Schema.thy ===== *)
theory State_Schema
  imports Verifier_Quarantine L1_Protocol
begin

text \<open>
  \<open>crates/sybil-verifier/src/canonical.rs\<close>, \<open>snapshot_schema.rs\<close> and \<open>state_schema.rs\<close>: the typed key/value leaves that
  the state root of a block commits.  A Rust string is the list of its UTF-8 bytes, one character each.  The byte
  visitor that appends to a buffer is a function to the bytes it appends; its witness variants, which only the
  data-availability encoding uses, are not modelled.
\<close>

section \<open>Orders\<close>

fun direction_byte :: "ConditionDir \<Rightarrow> u8" where
  "direction_byte Above = 0"
| "direction_byte Below = 1"

definition append_condition :: "PriceCondition option \<Rightarrow> bytes" where
  "append_condition condition = (case condition of None \<Rightarrow> [0]
     | Some c \<Rightarrow> [1] @ le32 (pc_market c) @ le64 (pc_threshold c) @ [direction_byte (pc_direction c)])"

definition append_expiry :: "u64 option \<Rightarrow> bytes" where
  "append_expiry expires_at_block = (case expires_at_block of None \<Rightarrow> [0] | Some e \<Rightarrow> [1] @ le64 e)"

definition append_order :: "Order \<Rightarrow> bytes" where
  "append_order ord =
     le64 (o_id ord) @ [o_num_markets ord] @ concat (map le32 (take (unat (o_num_markets ord)) (o_markets ord))) @
     [o_num_states ord] @ map ucast (take (unat (o_num_states ord)) (o_payoffs ord)) @
     le64 (o_limit_price ord) @ le64 (o_max_fill ord) @ append_condition (o_condition ord) @ append_expiry (o_expires_at_block ord)"

section \<open>Snapshot fields\<close>

definition append_string :: "string \<Rightarrow> bytes" where
  "append_string value = le64 (of_nat (length value)) @ ascii value"

definition append_optional_string :: "string option \<Rightarrow> bytes" where
  "append_optional_string value = (case value of Some s \<Rightarrow> [1] @ append_string s | None \<Rightarrow> [0])"

text \<open>Positions as the state root encodes them: sorted by market and outcome, zero quantities left out.\<close>

definition append_positions :: "PositionDelta list \<Rightarrow> bytes" where
  "append_positions positions =
     (let positions = filter (\<lambda>(market, outcome, qty). qty \<noteq> 0) (sort_key (\<lambda>(market, outcome, qty). (market, outcome)) positions)
      in le64 (of_nat (length positions)) @
         concat (map (\<lambda>(market, outcome, qty). le32 market @ [outcome] @ le_i64 qty) positions))"

definition append_account_fields :: "AccountSnapshot \<Rightarrow> bytes" where
  "append_account_fields account =
     le64 (as_id account) @ le_i64 (as_balance account) @ le_i64 (as_total_deposited account) @ append_positions (as_positions account) @
     as_events_digest account @ as_keys_digest account @ le64 (as_last_trading_nonce account)"

fun append_oracle_source :: "OracleSourceSnapshot \<Rightarrow> bytes" where
  "append_oracle_source OsAdmin = [0]"
| "append_oracle_source (OsDataFeed feed_id) = [1] @ le64 feed_id"

definition append_resolution_record :: "ResolutionRecordSnapshot \<Rightarrow> bytes" where
  "append_resolution_record record =
     le64 (rr_payout_nanos record) @ append_oracle_source (rr_resolved_by record) @ le64 (rr_resolved_at_ms record)"

fun append_market_status :: "MarketStatusSnapshot \<Rightarrow> bytes" where
  "append_market_status MsActive = [0]"
| "append_market_status (MsResolved record) = [1] @ append_resolution_record record"

definition append_market_snapshot_fields :: "MarketSnapshot \<Rightarrow> bytes" where
  "append_market_snapshot_fields market =
     le32 (mks_market_id market) @ append_string (mks_name market) @ [mks_num_outcomes market] @ append_market_status (mks_status market) @
     mks_metadata_digest market @ append_string (mks_resolution_template market) @
     le64 (of_nat (length (mks_last_clearing_prices market))) @ concat (map le64 (mks_last_clearing_prices market))"

definition append_market_group_fields :: "MarketGroupSnapshot \<Rightarrow> bytes" where
  "append_market_group_fields grp =
     le64 (mgs_group_id grp) @ append_string (mgs_name grp) @ append_optional_string (mgs_creation_key grp) @
     (let markets = sort (mgs_markets grp) in le64 (of_nat (length markets)) @ concat (map le32 markets))"

definition append_withdrawal_fields :: "WithdrawalSnapshot \<Rightarrow> bytes" where
  "append_withdrawal_fields withdrawal =
     le64 (ws_withdrawal_id withdrawal) @ le64 (ws_account_id withdrawal) @ ws_recipient withdrawal @ ws_token withdrawal @
     le64 (ws_amount_token_units withdrawal) @ le64 (ws_amount_nanos withdrawal) @ le64 (ws_expiry_height withdrawal) @ ws_nullifier withdrawal"

section \<open>Leaves\<close>

definition be32 :: "u32 \<Rightarrow> bytes" where "be32 w = rev (le32 w)"

definition account_leaf_key :: "u64 \<Rightarrow> bytes" where "account_leaf_key account_id = ascii ''acct/'' @ be64 account_id"
definition market_leaf_key :: "MarketId \<Rightarrow> bytes" where "market_leaf_key market_id = ascii ''market/'' @ be32 market_id"
definition market_group_leaf_key :: "u64 \<Rightarrow> bytes" where "market_group_leaf_key group_id = ascii ''market_group/'' @ be64 group_id"
definition withdrawal_leaf_key :: "u64 \<Rightarrow> bytes" where "withdrawal_leaf_key withdrawal_id = ascii ''withdrawal/'' @ be64 withdrawal_id"
definition resting_order_leaf_key :: "u64 \<Rightarrow> bytes" where "resting_order_leaf_key order_id = ascii ''order/'' @ be64 order_id"
definition account_reservation_leaf_key :: "u64 \<Rightarrow> bytes" where "account_reservation_leaf_key account_id = ascii ''acct_resv/'' @ be64 account_id"

definition account_leaf_value :: "AccountSnapshot \<Rightarrow> bytes" where
  "account_leaf_value account = ascii ''sybil/state/acct'' @ append_account_fields account"

definition market_leaf_value :: "MarketSnapshot \<Rightarrow> bytes" where
  "market_leaf_value market = ascii ''sybil/state/market'' @ append_market_snapshot_fields market"

definition market_group_leaf_value :: "MarketGroupSnapshot \<Rightarrow> bytes" where
  "market_group_leaf_value grp = ascii ''sybil/state/market-group'' @ append_market_group_fields grp"

definition withdrawal_leaf_value :: "WithdrawalSnapshot \<Rightarrow> bytes" where
  "withdrawal_leaf_value withdrawal = ascii ''sybil/state/withdrawal'' @ append_withdrawal_fields withdrawal"

definition resting_order_leaf_value :: "RestingOrderSnapshot \<Rightarrow> bytes" where
  "resting_order_leaf_value resting =
     ascii ''sybil/state/order'' @ le64 (ro_account_id resting) @ le64 (ro_created_at resting) @ le64 (ro_expires_at_block resting) @
     le_i64 (ro_reserved_balance resting) @ append_positions (ro_reserved_positions resting) @ append_order (ro_order resting)"

definition account_reservation_leaf_value :: "AccountReservationSnapshot \<Rightarrow> bytes" where
  "account_reservation_leaf_value reservation =
     ascii ''sybil/state/acct-resv'' @ le64 (ar_account_id reservation) @ le_i64 (ar_reserved_balance reservation) @
     append_positions (ar_reserved_positions reservation)"

definition sys_leaf_value :: "string \<Rightarrow> bytes \<Rightarrow> bytes" where
  "sys_leaf_value name raw = ascii ''sybil/state/sys'' @ [of_nat (length name)] @ ascii name @ raw"

definition sys_u64_leaf_value :: "string \<Rightarrow> u64 \<Rightarrow> bytes" where
  "sys_u64_leaf_value name raw = sys_leaf_value name (le64 raw)"

definition sys_bytes32_leaf_value :: "string \<Rightarrow> bytes \<Rightarrow> bytes" where
  "sys_bytes32_leaf_value name raw = sys_leaf_value name raw"

definition market_metadata_digest :: "hash \<Rightarrow> bytes \<Rightarrow> bytes" where
  "market_metadata_digest sha payload = sha (ascii ''sybil/state/market-meta'' @ le64 (of_nat (length payload)) @ payload)"

type_synonym Leaf = "bytes \<times> bytes"

definition system_leaves :: "hash \<Rightarrow> BridgeStateSnapshot \<Rightarrow> Leaf list" where
  "system_leaves sha bridge =
     [(ascii ''sys/deposit_cursor'', sys_u64_leaf_value ''deposit_cursor'' (br_deposit_cursor bridge)),
      (ascii ''sys/deposit_root'', sys_bytes32_leaf_value ''deposit_root'' (br_deposit_root bridge)),
      (ascii ''sys/quarantine_digest'', sys_bytes32_leaf_value ''quarantine_digest'' (quarantine_ledger_digest sha (br_quarantine bridge))),
      (ascii ''sys/observed_l1_height'', sys_u64_leaf_value ''observed_l1_height'' (br_observed_l1_height bridge)),
      (ascii ''sys/next_withdrawal_id'', sys_u64_leaf_value ''next_withdrawal_id'' (br_next_withdrawal_id bridge))]"

definition state_root_leaves :: "hash \<Rightarrow> AccountSnapshot list \<Rightarrow> StateSidecarSnapshot \<Rightarrow> Leaf list" where
  "state_root_leaves sha accounts sidecar = sort_key fst (
     map (\<lambda>account. (account_leaf_key (as_id account), account_leaf_value account)) (sort_key as_id accounts) @
     system_leaves sha (sc_bridge sidecar) @
     map (\<lambda>market. (market_leaf_key (mks_market_id market), market_leaf_value market)) (sort_key mks_market_id (sc_markets sidecar)) @
     map (\<lambda>grp. (market_group_leaf_key (mgs_group_id grp), market_group_leaf_value grp)) (sort_key mgs_group_id (sc_market_groups sidecar)) @
     map (\<lambda>withdrawal. (withdrawal_leaf_key (ws_withdrawal_id withdrawal), withdrawal_leaf_value withdrawal))
       (sort_key ws_withdrawal_id (br_withdrawals (sc_bridge sidecar))) @
     map (\<lambda>resting. (resting_order_leaf_key (o_id (ro_order resting)), resting_order_leaf_value resting))
       (sort_key (\<lambda>resting. o_id (ro_order resting)) (sc_resting_orders sidecar)) @
     map (\<lambda>reservation. (account_reservation_leaf_key (ar_account_id reservation), account_reservation_leaf_value reservation))
       (sort_key ar_account_id (sc_account_reservations sidecar)))"

section \<open>The leaf of a withdrawal\<close>

lemma length_ascii [simp]: "length (ascii s) = length s"
  by (simp add: ascii_def)

text \<open>Appending a withdrawal adds exactly its leaf.\<close>

lemma state_root_leaves_withdrawal:
  "set (state_root_leaves sha accounts (sidecar\<lparr> sc_bridge := (sc_bridge sidecar)\<lparr> br_withdrawals := br_withdrawals (sc_bridge sidecar) @ [l] \<rparr>\<rparr>)) =
     insert (withdrawal_leaf_key (ws_withdrawal_id l), withdrawal_leaf_value l) (set (state_root_leaves sha accounts sidecar))"
  by (auto simp: state_root_leaves_def system_leaves_def)

text \<open>A withdrawal with byte arrays of the declared widths has a leaf of fixed size.\<close>

lemma withdrawal_leaf_size:
  assumes "length (ws_recipient l) = 20" "length (ws_token l) = 20" "length (ws_nullifier l) = 32"
  shows "length (withdrawal_leaf_key i) = 19" "length (withdrawal_leaf_value l) = 134"
  using assms by (simp_all add: withdrawal_leaf_key_def withdrawal_leaf_value_def append_withdrawal_fields_def)

end
