(* ===== verification/Event_Schema.thy ===== *)
theory Event_Schema
  imports State_Schema Encoding Account_Keys
begin

text \<open>
  \<open>crates/sybil-verifier/src/event_schema.rs\<close>: the leaf bytes that the events root of a block commits, in the order
  system events, accepted orders, rejected orders, fills.
\<close>

definition push_str :: "string \<Rightarrow> bytes" where
  "push_str txt = le32 (of_nat (length txt)) @ ascii txt"

definition append_key_record :: "KeyRecord \<Rightarrow> bytes" where
  "append_key_record key = [kr_auth_scheme key] @ kr_pubkey_sec1 key @ le32 (kr_capability_mask key)"

definition append_key_records :: "KeyRecord list \<Rightarrow> bytes" where
  "append_key_records keys = le64 (of_nat (length keys)) @ concat (map append_key_record (sort_key canonical_sort_key keys))"

fun append_key_op_auth :: "KeyOpAuth \<Rightarrow> bytes" where
  "append_key_op_auth (RawP256 pubkey signature) = [0] @ pubkey @ signature"
| "append_key_op_auth (WebAuthn pubkey authenticator_data client_data_json signature) =
     [1] @ pubkey @ le64 (of_nat (length authenticator_data)) @ authenticator_data @
     le64 (of_nat (length client_data_json)) @ client_data_json @ signature"

fun mm_side_byte :: "MmSide \<Rightarrow> u8" where
  "mm_side_byte MmSellYes = 0"
| "mm_side_byte MmBuyYes = 1"
| "mm_side_byte MmSellNo = 2"
| "mm_side_byte MmBuyNo = 3"

definition append_bundle :: "Order list \<Rightarrow> MmSide list \<Rightarrow> Nanos \<Rightarrow> bytes" where
  "append_bundle orders order_sides max_capital =
     le64 (of_nat (length orders)) @ concat (map append_order orders) @
     le64 (of_nat (length order_sides)) @ map mm_side_byte order_sides @ le64 max_capital"

fun client_action_bytes :: "ClientActionWitness \<Rightarrow> bytes" where
  "client_action_bytes (CaOrder account_id ord nonce authorization) =
     [0] @ le64 account_id @ append_order ord @ le64 nonce @ append_key_op_auth authorization"
| "client_action_bytes (CaCancel account_id order_id nonce authorization) =
     [1] @ le64 account_id @ le64 order_id @ le64 nonce @ append_key_op_auth authorization"
| "client_action_bytes (CaMmBundle account_id bundle_id revision orders order_sides max_capital nonce authorization) =
     [2] @ le64 account_id @ bundle_id @ le64 revision @ append_bundle orders order_sides max_capital @ le64 nonce @
     append_key_op_auth authorization"
| "client_action_bytes (CaMmBundleReplace account_id bundle_id expected_revision new_revision orders order_sides max_capital nonce authorization) =
     [3] @ le64 account_id @ bundle_id @ le64 expected_revision @ le64 new_revision @ append_bundle orders order_sides max_capital @
     le64 nonce @ append_key_op_auth authorization"
| "client_action_bytes (CaMmBundleCancel account_id bundle_id expected_revision nonce authorization) =
     [4] @ le64 account_id @ bundle_id @ le64 expected_revision @ le64 nonce @ append_key_op_auth authorization"

fun refund_reason_bytes :: "WithdrawalRefundReasonWitness \<Rightarrow> bytes" where
  "refund_reason_bytes L1Cancelled = [0]"
| "refund_reason_bytes (L1Expired observed_l1_height) = [1] @ le64 observed_l1_height"

fun system_event_bytes :: "SystemEventWitness \<Rightarrow> bytes" where
  "system_event_bytes (CreateAccount account_id initial_balance initial_keys) =
     [0] @ le64 account_id @ le_i64 initial_balance @ append_key_records initial_keys"
| "system_event_bytes (Deposit account_id amount) = [1] @ le64 account_id @ le_i64 amount"
| "system_event_bytes (L1Deposit account_id amount deposit_id deposit_root sybil_account_key) =
     [2] @ le64 account_id @ le_i64 amount @ le64 deposit_id @ deposit_root @ sybil_account_key"
| "system_event_bytes (WithdrawalCreated account_id amount withdrawal_id recipient token amount_token_units expiry_height nullifier) =
     [3] @ le64 account_id @ le_i64 amount @ le64 withdrawal_id @ recipient @ token @ le64 amount_token_units @
     le64 expiry_height @ nullifier"
| "system_event_bytes (MarketResolved market_id payout_nanos affected_accounts) =
     [4] @ le32 market_id @ le64 payout_nanos @ le64 (of_nat (length affected_accounts)) @ concat (map le64 (sort affected_accounts))"
| "system_event_bytes (OrderCancelled account_id order_id market_ids side remaining_quantity) =
     [5] @ le64 account_id @ le64 order_id @ le64 (of_nat (length market_ids)) @ concat (map le32 (sort market_ids)) @
     [direction_to_byte side] @ le64 remaining_quantity"
| "system_event_bytes (MarketGroupExtended group_id market_id) = [6] @ le64 group_id @ le32 market_id"
| "system_event_bytes (WithdrawalRefunded account_id withdrawal_id amount reason) =
     [7] @ le64 account_id @ le64 withdrawal_id @ le_i64 amount @ refund_reason_bytes reason"
| "system_event_bytes (WithdrawalFinalized account_id withdrawal_id amount) =
     [8] @ le64 account_id @ le64 withdrawal_id @ le_i64 amount"
| "system_event_bytes (L1BlockObserved height) = [9] @ le64 height"
| "system_event_bytes (KeyRegistered account_id key authorization) =
     [10] @ le64 account_id @ append_key_record key @ append_key_op_auth authorization"
| "system_event_bytes (KeyRevoked account_id key authorization) =
     [11] @ le64 account_id @ append_key_record key @ append_key_op_auth authorization"
| "system_event_bytes (DepositQuarantined amount deposit_id deposit_root sybil_account_key) =
     [12] @ le_i64 amount @ le64 deposit_id @ deposit_root @ sybil_account_key"
| "system_event_bytes (QuarantineClaimed account_id amount sybil_account_key) =
     [13] @ le64 account_id @ le_i64 amount @ sybil_account_key"
| "system_event_bytes (ClientActionAuthorized action) = [14] @ client_action_bytes action"

definition system_event_leaf_value :: "SystemEventWitness \<Rightarrow> bytes" where
  "system_event_leaf_value event = ascii ''sybil/event/system'' @ system_event_bytes event"

fun append_rejection_reason :: "RejectionReason \<Rightarrow> bytes" where
  "append_rejection_reason (RInsufficientBalance required available) = [0] @ le_i64 required @ le_i64 available"
| "append_rejection_reason (RInsufficientPosition market outcome required available) =
     [1] @ le32 market @ [outcome] @ le_i64 required @ le_i64 available"
| "append_rejection_reason RAccountNotFound = [2]"
| "append_rejection_reason RCompleteSetFormation = [3]"
| "append_rejection_reason RAtomicBundle = [6]"
| "append_rejection_reason (RInvalidOrder reason) = [5] @ push_str reason"
| "append_rejection_reason (RExpired current_block expires_at_block) = [4] @ le64 current_block @ le64 expires_at_block"

definition order_accepted_leaf_value :: "WitnessOrder \<Rightarrow> bytes" where
  "order_accepted_leaf_value event =
     ascii ''sybil/event/order-accepted'' @ le64 (wo_account_id event) @ [if wo_is_mm event then 1 else 0] @ append_order (wo_order event)"

definition order_rejected_leaf_value :: "WitnessRejection \<Rightarrow> bytes" where
  "order_rejected_leaf_value event =
     ascii ''sybil/event/order-rejected'' @ le64 (wr_account_id event) @ append_order (wr_order event) @
     append_rejection_reason (wr_reason event)"

definition fill_leaf_value :: "Fill \<Rightarrow> bytes" where
  "fill_leaf_value fill =
     ascii ''sybil/event/fill'' @ le64 (f_order_id fill) @ le64 (f_fill_qty fill) @ le64 (f_fill_price fill) @ le64 (f_account_id fill)"

definition event_leaf_values :: "SystemEventWitness list \<Rightarrow> WitnessOrder list \<Rightarrow> WitnessRejection list \<Rightarrow> Fill list \<Rightarrow> bytes list" where
  "event_leaf_values system_events orders rejections fills =
     map system_event_leaf_value system_events @ map order_accepted_leaf_value orders @
     map order_rejected_leaf_value rejections @ map fill_leaf_value fills"

end
