(* ===== verification/Block_Verifier.thy ===== *)
theory Block_Verifier
  imports Event_Schema Key_Transition Verifier_Sidecar Verifier_Orders
begin

text \<open>
  \<open>crates/sybil-verifier/src/block.rs\<close>, \<open>event_commitment.rs\<close>, \<open>crates/sybil-zk/src/header_hash_impl.rs\<close> and the entry points
  of \<open>crates/sybil-verifier/src/lib.rs\<close>: header integrity and the verifier of all layers.  The authenticated databases that
  turn leaves into a root are third-party code: \<open>bk_state_db\<close> is the root of the ordered database after the
  leaves are written, \<open>bk_event_db\<close> that of the append-only database.  The worker thread that computes the
  roots one after another is the call itself; its assertions abort the caller (\<open>None\<close>).
\<close>

record Backend =
  bk_crypto :: Crypto
  bk_keccak :: hash
  bk_state_db :: "Leaf list \<Rightarrow> bytes"
  bk_event_db :: "bytes list \<Rightarrow> bytes"

definition MAX_KEY_BYTES :: nat where "MAX_KEY_BYTES = 64"
definition MAX_VALUE_BYTES :: nat where "MAX_VALUE_BYTES = 2 ^ 20"

definition leaf_fits :: "Leaf \<Rightarrow> bool" where
  "leaf_fits = (\<lambda>(key, value). length key \<le> MAX_KEY_BYTES \<and> length value \<le> MAX_VALUE_BYTES)"

section \<open>Roots\<close>

definition state_root_from_sorted_leaves :: "Backend \<Rightarrow> Leaf list \<Rightarrow> bytes option" where
  "state_root_from_sorted_leaves bk leaves = (if list_all leaf_fits leaves then Some (bk_state_db bk leaves) else None)"

definition state_root_from_leaves :: "Backend \<Rightarrow> Leaf list \<Rightarrow> bytes option" where
  "state_root_from_leaves bk leaves = state_root_from_sorted_leaves bk (sort_key fst leaves)"

definition compute_state_root_with_sidecar :: "Backend \<Rightarrow> AccountSnapshot list \<Rightarrow> StateSidecarSnapshot \<Rightarrow> bytes option" where
  "compute_state_root_with_sidecar bk accounts sidecar =
     state_root_from_leaves bk (state_root_leaves (cr_sha (bk_crypto bk)) accounts sidecar)"

definition events_root_from_event_bytes :: "Backend \<Rightarrow> bytes list \<Rightarrow> bytes option" where
  "events_root_from_event_bytes bk events =
     (if list_all (\<lambda>event. length event \<le> MAX_VALUE_BYTES) events then Some (bk_event_db bk events) else None)"

definition compute_events_root :: "Backend \<Rightarrow> BlockWitness \<Rightarrow> bytes option" where
  "compute_events_root bk w =
     events_root_from_event_bytes bk (event_leaf_values (bw_system_events w) (bw_orders w) (bw_rejections w) (bw_fills w))"

definition hash_header :: "hash \<Rightarrow> WitnessBlockHeader \<Rightarrow> bytes" where
  "hash_header blake3 header = blake3 (
     le64 (h_height header) @ h_parent_hash header @ h_state_root header @ h_events_root header @
     le32 (h_order_count header) @ le32 (h_fill_count header) @ le64 (h_timestamp_ms header))"

section \<open>The block layer\<close>

definition verify_parent :: "Backend \<Rightarrow> BlockWitness \<Rightarrow> ViolationKind list option" where
  "verify_parent bk w = (case bw_previous_header w of
     Some prev \<Rightarrow> do {
       computed_pre_root \<leftarrow> compute_state_root_with_sidecar bk (bw_pre_state w) (bw_pre_state_sidecar w);
       next_height \<leftarrow> add_u64 (h_height prev) 1;
       Some (flag (computed_pre_root \<noteq> h_state_root prev) PreStateRootMismatch @
         flag (hash_header (cr_blake3 (bk_crypto bk)) prev \<noteq> h_parent_hash (bw_header w)) ParentHashMismatch @
         flag (h_height (bw_header w) \<noteq> next_height) HeightNotConsecutive) }
   | None \<Rightarrow> Some (flag (h_parent_hash (bw_header w) \<noteq> zero_digest) GenesisParentHashNonZero @
       flag (h_height (bw_header w) \<noteq> 1) HeightNotConsecutive))"

definition verify_block :: "Backend \<Rightarrow> BlockWitness \<Rightarrow> VerificationResult option" where
  "verify_block bk w = do {
     computed_root \<leftarrow> compute_state_root_with_sidecar bk (bw_post_state w) (bw_state_sidecar w);
     computed_events_root \<leftarrow> compute_events_root bk w;
     parent \<leftarrow> verify_parent bk w;
     Some (from_violations (
       flag (computed_root \<noteq> h_state_root (bw_header w)) StateRootMismatch @
       flag (computed_events_root \<noteq> h_events_root (bw_header w)) EventRootMismatch @ parent @
       flag (h_order_count (bw_header w) \<noteq> of_nat (length (bw_orders w) + length (bw_rejections w))) OrderCountMismatch @
       flag (h_fill_count (bw_header w) \<noteq> of_nat (length (bw_fills w))) FillCountMismatch)) }"

section \<open>All layers\<close>

definition verify_system :: "Crypto \<Rightarrow> BlockWitness \<Rightarrow> VerificationResult option" where
  "verify_system cr w = do {
     system \<leftarrow> verify_system_transition (cr_blake3 cr) (cr_sha cr) w;
     keys \<leftarrow> verify_key_transitions cr w;
     Some (result_merge (result_merge system keys) (verify_client_action_bindings w)) }"

definition verify_full :: "Backend \<Rightarrow> BlockWitness \<Rightarrow> bool \<Rightarrow> VerificationResult option" where
  "verify_full bk w diagnostics = do {
     matched \<leftarrow> verify_match w diagnostics;
     system \<leftarrow> verify_system (bk_crypto bk) w;
     settlement \<leftarrow> verify_settlement (cr_blake3 (bk_crypto bk)) w;
     block \<leftarrow> verify_block bk w;
     orders \<leftarrow> verify_orders w;
     sidecar \<leftarrow> verify_sidecar (cr_blake3 (bk_crypto bk)) (bk_keccak bk) w;
     Some (fold (\<lambda>layer result. result_merge result layer) [system, settlement, block, orders, sidecar] matched) }"

end
