(* ===== verification/Block_Sound.thy ===== *)
theory Block_Sound
  imports Block_Verifier Sidecar_Sound
begin

text \<open>
  What the merged verdict of all layers says, and what it leaves open: the provenance of withdrawal leaves.
\<close>

section \<open>Verdicts of the layers\<close>

definition accepts :: "VerificationResult option \<Rightarrow> bool" where
  "accepts result = (case result of Some r \<Rightarrow> vr_valid r | None \<Rightarrow> False)"

lemma accepts_iff: "accepts result \<longleftrightarrow> (\<exists>r. result = Some r \<and> vr_valid r)"
  by (simp add: accepts_def split: option.split)

lemma verify_full_accepts:
  "accepts (verify_full bk w d) \<longleftrightarrow>
     accepts (verify_match w d) \<and> accepts (verify_system (bk_crypto bk) w) \<and> accepts (verify_settlement (cr_blake3 (bk_crypto bk)) w) \<and>
     accepts (verify_block bk w) \<and> accepts (verify_orders w) \<and> accepts (verify_sidecar (cr_blake3 (bk_crypto bk)) (bk_keccak bk) w)"
  by (auto simp: verify_full_def accepts_def opt split: option.splits)

lemma verify_system_accepts:
  "accepts (verify_system cr w) \<longleftrightarrow>
     accepts (verify_system_transition (cr_blake3 cr) (cr_sha cr) w) \<and> accepts (verify_key_transitions cr w) \<and>
     vr_valid (verify_client_action_bindings w)"
  by (auto simp: verify_system_def accepts_def opt split: option.splits)

lemma verify_block_accepts:
  "accepts (verify_block bk w) \<longleftrightarrow>
     compute_state_root_with_sidecar bk (bw_post_state w) (bw_state_sidecar w) = Some (h_state_root (bw_header w)) \<and>
     compute_events_root bk w = Some (h_events_root (bw_header w)) \<and> verify_parent bk w = Some [] \<and>
     h_order_count (bw_header w) = of_nat (length (bw_orders w) + length (bw_rejections w)) \<and>
     h_fill_count (bw_header w) = of_nat (length (bw_fills w))"
  unfolding verify_block_def accepts_iff by (auto simp: opt)

section \<open>A block with another state root\<close>

definition recommit :: "bytes \<Rightarrow> BlockWitness \<Rightarrow> BlockWitness" where
  "recommit root w = w\<lparr> bw_header := (bw_header w)\<lparr> h_state_root := root \<rparr>\<rparr>"

lemma recommit_simps [simp]:
  "bw_system_events (recommit root w) = bw_system_events w" "bw_previous_header (recommit root w) = bw_previous_header w"
  "bw_pre_state_sidecar (recommit root w) = bw_pre_state_sidecar w" "bw_state_sidecar (recommit root w) = bw_state_sidecar w"
  "bw_orders (recommit root w) = bw_orders w" "bw_fills (recommit root w) = bw_fills w"
  "bw_clearing_prices (recommit root w) = bw_clearing_prices w" "bw_deposit_accumulator (recommit root w) = bw_deposit_accumulator w"
  "bw_resolved_markets (recommit root w) = bw_resolved_markets w" "bw_genesis_hash (recommit root w) = bw_genesis_hash w"
  "bw_rejections (recommit root w) = bw_rejections w" "bw_total_welfare (recommit root w) = bw_total_welfare w"
  "bw_minting_cost (recommit root w) = bw_minting_cost w" "bw_mm_constraints (recommit root w) = bw_mm_constraints w"
  "bw_market_groups (recommit root w) = bw_market_groups w" "bw_pre_state (recommit root w) = bw_pre_state w"
  "bw_post_system_state (recommit root w) = bw_post_system_state w" "bw_post_state (recommit root w) = bw_post_state w"
  "bw_account_keys (recommit root w) = bw_account_keys w"
  "h_height (bw_header (recommit root w)) = h_height (bw_header w)"
  "h_parent_hash (bw_header (recommit root w)) = h_parent_hash (bw_header w)"
  "h_state_root (bw_header (recommit root w)) = root"
  "h_events_root (bw_header (recommit root w)) = h_events_root (bw_header w)"
  "h_order_count (bw_header (recommit root w)) = h_order_count (bw_header w)"
  "h_fill_count (bw_header (recommit root w)) = h_fill_count (bw_header w)"
  by (simp_all add: recommit_def)

lemmas layer_defs = verify_match_def verify_order_id_uniqueness_def verify_uniform_clearing_prices_def verify_price_complementarity_def
  verify_resolved_markets_def verify_conditional_activation_def market_group_avg_delta_def verify_settlement_def verify_orders_def
  check_rejection_def check_atomic_bundle_def verify_system_transition_def

lemma recommit_keeps_layers:
  "verify_match (recommit root w) d = verify_match w d" "verify_settlement h (recommit root w) = verify_settlement h w"
  "verify_orders (recommit root w) = verify_orders w" "verify_system_transition h sha (recommit root w) = verify_system_transition h sha w"
  unfolding layer_defs recommit_simps by (rule refl)+

lemma recommit_keeps_sidecar: "verify_sidecar h k (recommit root w) = verify_sidecar h k w"
  unfolding verify_sidecar_def verify_resting_order_transition_def verify_withdrawal_transition_def verify_deposit_accumulator_def
    verify_l1_deposit_events_match_delta_def verify_quarantine_transition_def verify_market_transition_def
    verify_market_group_transition_def resolved_market_events_def market_resolution_events_def Let_def recommit_simps by (rule refl)

text \<open>The key and client-action layers read neither the state root nor the bridge.\<close>

lemma verify_keys_cong:
  assumes "bw_pre_state v = bw_pre_state w" "bw_post_system_state v = bw_post_system_state w" "bw_post_state v = bw_post_state w"
    "bw_account_keys v = bw_account_keys w" "bw_system_events v = bw_system_events w" "bw_genesis_hash v = bw_genesis_hash w"
    "h_height (bw_header v) = h_height (bw_header w)"
  shows "verify_key_transitions cr v = verify_key_transitions cr w"
  unfolding verify_key_transitions_def verify_keys_def normalized_post_key_map_def assms by (rule refl)

lemma bindings_cong:
  assumes "bw_orders v = bw_orders w" "bw_rejections v = bw_rejections w" "bw_mm_constraints v = bw_mm_constraints w"
    "bw_system_events v = bw_system_events w" "bw_pre_state_sidecar v = bw_pre_state_sidecar w"
    "sc_resting_orders (bw_state_sidecar v) = sc_resting_orders (bw_state_sidecar w)"
  shows "verify_client_action_bindings v = verify_client_action_bindings w"
proof -
  have b: "bind_action v = bind_action w"
    unfolding bind_action_def verify_mm_bundle_binding_def accepted_mm_def rejected_ids_def pre_resting_def assms by (rule refl)
  have "bind_events v results index events = bind_events w results index events" for results index events
  proof (induction events arbitrary: index)
    case (Cons event later)
    show ?case by (rule ext, cases event) (simp_all add: b Cons.IH)
  qed (simp add: fun_eq_iff)
  then show ?thesis unfolding verify_client_action_bindings_def verify_bindings_def order_results_def assms by simp
qed

section \<open>A withdrawal with no event\<close>

lemma forge_state_sidecar:
  "bw_state_sidecar (forge l w) = (bw_state_sidecar w)\<lparr> sc_bridge := (sc_bridge (bw_state_sidecar w))\<lparr>
     br_withdrawals := br_withdrawals (sc_bridge (bw_state_sidecar w)) @ [l] \<rparr>\<rparr>"
  by (simp add: forge_def map_post_bridge_def)

lemma state_root_answers:
  "(\<exists>root. compute_state_root_with_sidecar bk accounts sidecar = Some root) \<longleftrightarrow>
     (\<forall>leaf \<in> set (state_root_leaves (cr_sha (bk_crypto bk)) accounts sidecar). leaf_fits leaf)"
  by (simp add: compute_state_root_with_sidecar_def state_root_from_leaves_def state_root_from_sorted_leaves_def list_all_iff)

lemma forged_state_root:
  assumes "compute_state_root_with_sidecar bk accounts (bw_state_sidecar w) = Some old"
    and "length (ws_recipient l) = 20" "length (ws_token l) = 20" "length (ws_nullifier l) = 32"
  shows "\<exists>root. compute_state_root_with_sidecar bk accounts (bw_state_sidecar (forge l w)) = Some root"
proof -
  from assms(1) have "\<exists>root. compute_state_root_with_sidecar bk accounts (bw_state_sidecar w) = Some root" by blast
  with withdrawal_leaf_size [OF assms(2-4)] show ?thesis
    unfolding state_root_answers forge_state_sidecar state_root_leaves_withdrawal
    by (simp add: leaf_fits_def MAX_KEY_BYTES_def MAX_VALUE_BYTES_def)
qed

lemma forged_block:
  assumes "accepts (verify_block bk w)" "compute_state_root_with_sidecar bk (bw_post_state w) (bw_state_sidecar (forge l w)) = Some root"
  shows "accepts (verify_block bk (recommit root (forge l w)))"
proof -
  have "verify_parent bk (recommit root (forge l w)) = verify_parent bk w"
    unfolding verify_parent_def recommit_simps forge_simps by (rule refl)
  with assms show ?thesis unfolding verify_block_accepts by (simp add: compute_events_root_def)
qed

lemma forged_layers:
  "verify_match (recommit root (forge l w)) d = verify_match w d"
  "verify_settlement h (recommit root (forge l w)) = verify_settlement h w"
  "verify_orders (recommit root (forge l w)) = verify_orders w"
  "verify_system cr (recommit root (forge l w)) = verify_system cr w"
proof -
  have k: "verify_key_transitions cr (recommit root (forge l w)) = verify_key_transitions cr w" by (rule verify_keys_cong) simp_all
  have c: "verify_client_action_bindings (recommit root (forge l w)) = verify_client_action_bindings w" by (rule bindings_cong) simp_all
  show "verify_match (recommit root (forge l w)) d = verify_match w d"
    "verify_settlement h (recommit root (forge l w)) = verify_settlement h w"
    "verify_orders (recommit root (forge l w)) = verify_orders w"
    by (simp_all add: recommit_keeps_layers forge_keeps_layers)
  show "verify_system cr (recommit root (forge l w)) = verify_system cr w"
    unfolding verify_system_def recommit_keeps_layers forge_keeps_layers k c by (rule refl)
qed

text \<open>C22: no layer asks where a new withdrawal leaf comes from.  A block that the full verifier accepts is still accepted after a
  leaf of any content is appended to its committed withdrawals and the header commits the new state root,
  provided the leaf's identifier is below the counter and appears in no leaf and no event of the block.  No
  event is added and no account changes, so the withdrawal is committed without any debit.\<close>

theorem unexplained_withdrawal_accepted:
  assumes accepted: "verify_full bk w d = Some r" "vr_valid r"
    and fresh: "leaf_at (br_withdrawals (sc_bridge (bw_pre_state_sidecar w))) (ws_withdrawal_id l) = None"
      "leaf_at (br_withdrawals (sc_bridge (bw_state_sidecar w))) (ws_withdrawal_id l) = None"
      "leaf_at (collect created_leaf (bw_system_events w)) (ws_withdrawal_id l) = None"
      "map_of (collect closed (bw_system_events w)) (ws_withdrawal_id l) = None"
    and old: "ws_withdrawal_id l < br_next_withdrawal_id (sc_bridge (bw_state_sidecar w))"
    and arrays: "length (ws_recipient l) = 20" "length (ws_token l) = 20" "length (ws_nullifier l) = 32"
  shows "\<exists>root r'. verify_full bk (recommit root (forge l w)) d = Some r' \<and> vr_valid r' \<and>
    l \<in> set (br_withdrawals (sc_bridge (bw_state_sidecar (recommit root (forge l w))))) \<and>
    bw_system_events (recommit root (forge l w)) = bw_system_events w \<and>
    bw_pre_state (recommit root (forge l w)) = bw_pre_state w \<and> bw_post_state (recommit root (forge l w)) = bw_post_state w"
proof -
  from accepted have a: "accepts (verify_full bk w d)" by (simp add: accepts_def)
  note layers = a [unfolded verify_full_accepts]
  from layers obtain s where s: "verify_sidecar (cr_blake3 (bk_crypto bk)) (bk_keccak bk) w = Some s" "vr_valid s" by (auto simp: accepts_iff)
  from layers obtain root where root: "compute_state_root_with_sidecar bk (bw_post_state w) (bw_state_sidecar (forge l w)) = Some root"
    using forged_state_root [OF _ arrays] unfolding verify_block_accepts by blast
  have "accepts (verify_full bk (recommit root (forge l w)) d)"
    unfolding verify_full_accepts forged_layers recommit_keeps_sidecar
    using layers forged_block [OF _ root] forged_withdrawal_sidecar [OF s fresh old] by (simp add: accepts_iff)
  then show ?thesis unfolding accepts_iff by auto
qed

section \<open>Witness\<close>

definition plain_backend :: Backend where
  "plain_backend = \<lparr> bk_crypto = \<lparr> cr_sha = sample_hash, cr_blake3 = sample_hash,
       cr_p256 = \<lparr> from_sec1_bytes = \<lambda>_. False, from_slice = \<lambda>_. False, verify_prehash = \<lambda>_ _ _. False \<rparr>, cr_to_vec = \<lambda>_. [] \<rparr>,
     bk_keccak = sample_hash, bk_state_db = \<lambda>leaves. concat (map snd leaves), bk_event_db = \<lambda>events. concat events \<rparr>"

definition forged_leaf :: WithdrawalSnapshot where
  "forged_leaf = \<lparr> ws_withdrawal_id = 0, ws_account_id = 9, ws_recipient = replicate 20 6, ws_token = replicate 20 2,
     ws_amount_token_units = 1000000, ws_amount_nanos = 1000000000, ws_expiry_height = 90, ws_nullifier = zero_digest \<rparr>"

definition quiet_block :: BlockWitness where
  "quiet_block = sample_block\<lparr> bw_header := sample_header\<lparr> h_height := 1, h_order_count := 0, h_fill_count := 0, h_events_root := [],
       h_state_root := bk_state_db plain_backend (sort_key fst (state_root_leaves sample_hash [] sample_sidecar)) \<rparr>,
     bw_orders := [], bw_fills := [], bw_clearing_prices := om_empty, bw_total_welfare := 0, bw_minting_cost := 0, bw_mm_constraints := [],
     bw_pre_state := [], bw_post_system_state := [], bw_post_state := [] \<rparr>"

lemma quiet_block_layers:
  "accepts (verify_match quiet_block False)" "accepts (verify_settlement sample_hash quiet_block)" "accepts (verify_orders quiet_block)"
  "accepts (verify_system_transition sample_hash sample_hash quiet_block)" "vr_valid (verify_client_action_bindings quiet_block)"
proof -
  show "accepts (verify_match quiet_block False)"
    by (simp add: quiet_block_def layer_defs accepts_def verify_fills_def verify_mm_constraints_def verify_welfare_total_def sub_i64_def
        i64_of_def fits_i64_def om_values_def less_i64_def unsigned_abs_def)
  show "accepts (verify_settlement sample_hash quiet_block)"
    by (simp add: quiet_block_def layer_defs accepts_def derive_post_state_def initial_accounts_def derive_adjustments_def
        all_markets_def om_values_def derived_minting_cost_def zero_i64_def [symmetric] derive_mint_def neg_i64_def i64_of_def fits_i64_def
        minting_cost_from_fill_balance_delta_checked_def negative_balances_def negative_positions_def compare_accounts_def snapshot_map_def om_keys_def)
  show "accepts (verify_orders quiet_block)" "accepts (verify_system_transition sample_hash sample_hash quiet_block)"
    by (simp_all add: quiet_block_def layer_defs accepts_def snapshot_map_def om_keys_def)
  show "vr_valid (verify_client_action_bindings quiet_block)"
    by (simp add: quiet_block_def verify_client_action_bindings_def verify_bindings_def order_results_def)
qed

lemma quiet_block_keys: "accepts (verify_key_transitions (bk_crypto plain_backend) quiet_block)"
  by (simp add: accepts_def verify_key_transitions_def verify_keys_def quiet_block_def sample_block_def normalized_post_key_map_def
      ensure_global_pubkey_uniqueness_def key_touched_accounts_def pubkey_owner_map_def om_keys_def weld_post_keys_def owned_keys_def
      oset_of_def verify_key_event_order_def)

lemma quiet_block_simps [simp]:
  "bw_state_sidecar quiet_block = sample_sidecar" "bw_pre_state_sidecar quiet_block = sample_sidecar"
  "bw_system_events quiet_block = []" "bw_orders quiet_block = []" "bw_rejections quiet_block = []" "bw_fills quiet_block = []"
  "bw_resolved_markets quiet_block = []" "bw_previous_header quiet_block = None" "bw_post_state quiet_block = []"
  "bw_deposit_accumulator quiet_block = \<lparr> da_pre_frontier = replicate 32 zero_digest, da_pre_count = 0, da_new_deposits = [] \<rparr>"
  by (simp_all add: quiet_block_def sample_block_def)

lemma quiet_block_sidecar: "accepts (verify_sidecar sample_hash sample_hash quiet_block)"
proof -
  have "verify_resting_order_transition quiet_block = []" "verify_market_transition quiet_block = []"
    "verify_market_group_transition quiet_block = []" "verify_resting_order_reservations [] [] = []"
    by (simp_all add: verify_resting_order_transition_def verify_market_transition_def verify_market_group_transition_def
        sample_sidecar_def keyed_markets_def keyed_market_groups_def market_resolution_events_def resolution_step_def
        resolved_market_events_def verify_resting_order_reservations_def reservations_from_resting_orders_def
        reservations_from_account_snapshots_def om_retain_def)
  moreover have "verify_withdrawal_transition quiet_block = Some []"
    by (simp add: verify_withdrawal_transition_def sample_sidecar_def sample_bridge_def keyed_withdrawals_def keyed_def om_keys_def
        saturating_add_u64_def add_u64_def u64_of_def fits_u64_def)
  moreover have "verify_deposit_accumulator sample_hash sample_hash quiet_block = []"
    by (simp add: verify_deposit_accumulator_def sample_sidecar_def sample_bridge_def sample_hash_roots add_u64_def u64_of_def
        fits_u64_def verify_l1_deposit_events_match_delta_def deposit_frontier_prefix_roots_def deposit_tree_capacity_def)
  moreover have "\<exists>q. verify_quarantine_transition sample_hash quiet_block = Some q \<and> vr_violations q = []"
    by (simp add: verify_quarantine_transition_def sample_sidecar_def sample_bridge_def ledger_map_def from_violations_def)
  ultimately show ?thesis unfolding accepts_iff sidecar_clean by (simp add: sample_sidecar_def)
qed

lemma quiet_block_header: "accepts (verify_block plain_backend quiet_block)"
proof -
  have "set (state_root_leaves sample_hash [] sample_sidecar) = set (system_leaves sample_hash sample_bridge)"
    by (simp add: state_root_leaves_def sample_sidecar_def sample_bridge_def)
  moreover have "list_all leaf_fits (system_leaves sample_hash sample_bridge)"
    by (simp add: system_leaves_def sample_bridge_def leaf_fits_def MAX_KEY_BYTES_def MAX_VALUE_BYTES_def sys_u64_leaf_value_def
        sys_bytes32_leaf_value_def sys_leaf_value_def quarantine_ledger_digest_def sample_hash_def zero_digest_def)
  ultimately have "\<forall>leaf \<in> set (state_root_leaves sample_hash [] sample_sidecar). leaf_fits leaf" by (simp only: list_all_iff)
  then show ?thesis
    by (simp add: verify_block_accepts compute_state_root_with_sidecar_def state_root_from_leaves_def state_root_from_sorted_leaves_def
        list_all_iff compute_events_root_def events_root_from_event_bytes_def event_leaf_values_def verify_parent_def plain_backend_def
        quiet_block_def sample_block_def sample_header_def)
qed

theorem unexplained_withdrawal_accepted_witness:
  "\<exists>root r'. verify_full plain_backend (recommit root (forge forged_leaf quiet_block)) False = Some r' \<and> vr_valid r' \<and>
     forged_leaf \<in> set (br_withdrawals (sc_bridge (bw_state_sidecar (recommit root (forge forged_leaf quiet_block)))))"
proof -
  have "accepts (verify_full plain_backend quiet_block False)"
    using quiet_block_layers quiet_block_keys quiet_block_sidecar quiet_block_header
    by (simp add: verify_full_accepts verify_system_accepts plain_backend_def)
  then obtain r where "verify_full plain_backend quiet_block False = Some r" "vr_valid r" by (auto simp: accepts_iff)
  from unexplained_withdrawal_accepted [OF this, of forged_leaf] show ?thesis
    by (auto simp: sample_sidecar_def sample_bridge_def forged_leaf_def leaf_at_def zero_digest_def)
qed

end
