(* ===== verification/Spec2Isabelle.thy ===== *)
theory Spec2Isabelle
  imports Settlement_Refinement Resolution_Refinement Book_Refinement Key_Transition_Sound Block_Sound
begin

text \<open>
  Sybil is a prediction-market exchange that clears in frequent batch auctions.  Orders are payoff vectors over the
  states of one or more markets; all amounts are integers, cash in nanodollars and shares in thousandths.  In every
  block the sequencer applies system events (account creation, deposits, withdrawals, resolutions, key operations,
  signed client actions), validates and rests orders, lets a solver propose fills and clearing prices, settles the
  fills, lets the MINT account take the other side of every imbalance, and commits the new state.  The block witness it
  publishes is replayed by the verifier, layer by layer, without trusting the sequencer or the solver.  Deposits
  and withdrawals cross to an L1 contract through hashes that both sides compute.

  The Rust sources are under \<open>src/crates\<close>.  A theory is named after the module it models, and definitions keep the
  names of the functions; record fields carry a prefix for their struct (\<open>bw_\<close> block witness, \<open>as_\<close> account snapshot,
  \<open>o_\<close> order, \<open>rs_\<close> resting order, \<open>ob_\<close> order book, \<open>ac_\<close> account, and so on).

  \<^bold>\<open>Conventions.\<close>  \<open>u8\<close>, \<open>u32\<close>, \<open>u64\<close> are words; \<open>i64\<close> is a type of its own with the value \<open>val\<close>; \<open>u128\<close> and \<open>i128\<close>
  intermediates are integers with the range checks of the code written out; \<open>usize\<close> lengths are \<open>nat\<close>.  The workspace
  compiles with overflow checks, so an overflowing plain operator, an index out of range, a failed assertion and
  an \<open>expect\<close> abort: a function that may abort returns an \<open>option\<close> and \<open>None\<close> is the abort.  \<open>Result\<close> is \<open>result\<close>.
  Errors that carry only a text are constructors; a violation of the verifier is its kind.  Both \<open>HashMap\<close> and
  \<open>BTreeMap\<close> are the ordered map \<open>omap\<close>; where the code iterates over a hash map the order of the keys
  is one possible order, and the results that are stated do not depend on it.  Byte arrays are byte lists, and a
  property that needs their width says so.

  \<^bold>\<open>Parameters.\<close>  Code of other packages is an argument of the definitions that call it: BLAKE3, SHA-256 and
  Keccak-256 (\<open>hash\<close>), P-256 (record \<open>P256\<close>), the Borsh serializer (\<open>borsh_encoder\<close>, with its documented injective layout as the
  locale \<open>borsh\<close>, interpreted on that layout), and the two authenticated databases (record \<open>Backend\<close>).  No property assumes
  that a hash is injective; where a commitment is at stake the property is about the preimages.

  \<^bold>\<open>Foundations.\<close>
  \<^item> \<open>Prelude\<close>: machine integers, the panic monad, results, slices; the collections \<open>num\<close> and \<open>opt\<close>.
  \<^item> \<open>Ordered_Map\<close>: finite maps with one iteration order, and totals over their entries.
  \<^item> \<open>Passes\<close>: a verifier pass is a loop that threads a state and pushes violations.  The locales \<open>clean_pass\<close>,
    \<open>measured_pass\<close> and \<open>refined_pass\<close> are the contracts of a step (it keeps an invariant, changes a total by a given
    amount, implements a specification) and carry them to whole runs; the layers interpret them on their steps.

  \<^bold>\<open>Matching engine\<close> (\<open>matching-engine/src\<close>).
  \<^item> \<open>Engine_Types\<close> (\<open>types.rs\<close>): fixed-point units, notional arithmetic and its exactness in the protocol range.
  \<^item> \<open>Engine_Order\<close> (\<open>order.rs\<close>): payoff-vector orders, their shape validation and direction.
  \<^item> \<open>Engine_Settlement\<close> (\<open>settlement.rs\<close>): the cash and position deltas of a fill, minting, welfare.
  \<^item> \<open>Engine_Builder\<close> (\<open>state.rs\<close>, \<open>market.rs\<close>, \<open>order_builder.rs\<close>, parts of \<open>problem.rs\<close>): state numbering and order construction.
  \<^item> \<open>Engine_Mm\<close> (\<open>mm_constraint.rs\<close>): the capital a market maker has at risk.

  \<^bold>\<open>Verifier\<close> (\<open>sybil-verifier/src\<close>).
  \<^item> \<open>Verifier_Types\<close> (\<open>types.rs\<close>, \<open>violations.rs\<close>): the block witness and the verdict.  \<open>Encoding\<close>: account-event bytes and
    digests; the encoding is injective.  \<open>Sample_Block\<close>: the concrete block of the examples.
  \<^item> \<open>Verifier_Match\<close> (\<open>match_verifier.rs\<close>, \<open>arithmetic.rs\<close>): fills respect quantities, limits and conditions, prices are uniform and
    complementary, market-maker budgets hold.
  \<^item> \<open>Verifier_Settlement\<close> (\<open>settlement.rs\<close>): a clean layer means that every account ends as its own fills say, markets are
    balanced, and the minting cost is what traders pay.
  \<^item> \<open>Verifier_System\<close> (\<open>system.rs\<close>): a clean layer means that the post-system state is the meaning of the events; nonces increase;
    a resolution pays one dollar per pair.  A snapshot that repeats an outcome is read differently by this layer and
    by settlement, so that a position can vanish between them.
  \<^item> \<open>Verifier_Orders\<close> (\<open>orders.rs\<close>): accepted orders are covered by the post-system state.
  \<^item> \<open>Verifier_Quarantine\<close> (\<open>quarantine.rs\<close>): quarantined deposits are conserved per key, and a claim takes all of them.
  \<^item> \<open>Account_Keys\<close>, \<open>Json_Parser\<close>, \<open>Key_Op_Auth\<close> (\<open>account_keys.rs\<close>, \<open>key_op_auth.rs\<close>): key digests, the reader of the WebAuthn
    client data, the authorization envelope.  \<open>Json_Grammar\<close>, \<open>Json_Complete\<close>, \<open>Client_Data\<close> and \<open>Key_Auth_Sound\<close> show that the
    reader terminates and accepts exactly the objects of the JSON grammar with the required members, and that an
    accepted authorization binds one message to one active key.
  \<^item> \<open>Client_Action\<close> (\<open>client_action.rs\<close>), \<open>Key_Transition\<close> (\<open>key_transition.rs\<close>): signed client actions have their effect in the block;
    \<open>Key_Transition_Sound\<close>: an accepted block is a run of a step relation in which every change of a key set is signed by
    an active key, and key sets stay well-formed.
  \<^item> \<open>Verifier_Sidecar\<close> (\<open>sidecar.rs\<close>): resting orders, reservations, withdrawals, deposits, markets, groups.  \<open>Sidecar_Sound\<close>: what
    a clean layer guarantees of deposits, withdrawals and reservations.
  \<^item> \<open>State_Schema\<close> (\<open>canonical.rs\<close>, \<open>snapshot_schema.rs\<close>, \<open>state_schema.rs\<close>), \<open>Event_Schema\<close> (\<open>event_schema.rs\<close>): the leaves under the state
    and events roots.  \<open>Block_Verifier\<close> (\<open>block.rs\<close>, \<open>event_commitment.rs\<close>, \<open>lib.rs\<close>, \<open>sybil-zk/src/header_hash_impl.rs\<close>): header
    integrity and \<open>verify_full\<close>.  \<open>Block_Sound\<close>: the verdict of all layers, and that none of them explains
    withdrawal leaves.

  \<^bold>\<open>Sequencer\<close> (\<open>matching-sequencer/src\<close>).
  \<^item> \<open>Sequencer_Account\<close> (\<open>account.rs\<close>, \<open>canonical_state.rs\<close>), \<open>Sequencer_Settlement\<close> (\<open>settlement.rs\<close>, \<open>sequencer/production/finalize.rs\<close>),
    \<open>Sequencer_Validation\<close> (\<open>validation.rs\<close>), \<open>Order_Book\<close> (\<open>order_book.rs\<close>).
  \<^item> \<open>Order_Book_Invariant\<close>, \<open>Order_Book_Reach\<close>: totals are the sums of the reservations in every book reachable by any sequence
    of operations (the locale \<open>book_operation\<close> is the contract of an operation and is interpreted on each of them), so
    no account is overcommitted, no release trips and nothing outlives its expiry.  \<open>Order_Book_Restore\<close>: a restart
    from the snapshot gives the same book.
  \<^item> \<open>Settlement_Refinement\<close>, \<open>Resolution_Refinement\<close>, \<open>Book_Refinement\<close>: the sequencer against the verifier.  What it finalizes,
    resolves and settles passes the corresponding layer, up to the stated exceptions; a silent eviction does not.

  \<^bold>\<open>Signed payloads and L1.\<close>
  \<^item> \<open>Signing\<close> (\<open>sybil-signing/src/lib.rs\<close>): signed bytes determine the request.
  \<^item> \<open>L1_Protocol\<close>, \<open>Deposit_Tree\<close> (\<open>sybil-l1-protocol/src/lib.rs\<close>): deposit logs, statement and withdrawal preimages, and the
    incremental deposit tree, which is the Merkle tree of its leaves until it is full.

  \<^bold>\<open>Fuel and bounds.\<close>  Only the mutually recursive skipping functions of the JSON reader carry fuel.  They start with
  twice the remaining input plus one; \<open>Key_Auth_Sound\<close> proves that this is always enough, so the reader is total.  Every
  other function is total by construction.  The range hypotheses of the refinement properties (payouts of at most a
  dollar, positions up to \<open>MAX_REDEEMABLE\<close>, open interest in 64 bits) are what the checked arithmetic of the code
  needs; each property has a concrete instance.

  \<^bold>\<open>Not modelled.\<close>  The solvers (floating-point programs of other packages: the fills and prices are arbitrary here); the
  driver of block production, the actor, stores and recovery logs (asynchronous I/O); the data-availability encoding
  of the witness (\<open>witness_schema.rs\<close>); the proof-system guests and the prover; the API, the history service, the
  indexer, feeds, bots, simulations and user interfaces; the Solidity contracts.  Detail texts of violations and
  errors, logging and metrics are left out everywhere.
\<close>

end
